(* ===== verification/Prelude.thy ===== *)
theory Prelude
  imports Complex_Main "HOL-Library.AList" "HOL-Library.Multiset"
begin

text \<open>
  Shared vocabulary. A JavaScript \<open>Map\<close> iterates in insertion order, overwriting a key keeps its
  place, and deleting then setting moves it to the end; the model is an association list with
  distinct keys, \<open>AList.update\<close> for \<open>set\<close> and \<open>AList.delete\<close> for \<open>delete\<close>. An operation that
  returns effects is a function from the state to the new state and the list of effects, in order.
  The locales are the interfaces the components share: the laws of a JavaScript \<open>Map\<close>, and a
  system of steps with an invariant, with obligations that no step may lose, or with an abstraction
  that every step follows.
\<close>

named_theorems jmap_simps "laws of the insertion-ordered map"
named_theorems fx_simps "unfolding of effectful steps"

type_synonym ('k, 'v) jmap = "('k \<times> 'v) list"

abbreviation jget :: "('k, 'v) jmap \<Rightarrow> 'k \<Rightarrow> 'v option" where
  "jget \<equiv> map_of"

abbreviation jset :: "'k \<Rightarrow> 'v \<Rightarrow> ('k, 'v) jmap \<Rightarrow> ('k, 'v) jmap" where
  "jset \<equiv> AList.update"

abbreviation jdel :: "'k \<Rightarrow> ('k, 'v) jmap \<Rightarrow> ('k, 'v) jmap" where
  "jdel \<equiv> AList.delete"

abbreviation jkeys :: "('k, 'v) jmap \<Rightarrow> 'k list" where
  "jkeys m \<equiv> map fst m"

abbreviation jwf :: "('k, 'v) jmap \<Rightarrow> bool" where
  "jwf m \<equiv> distinct (jkeys m)"

subsection \<open>The interface of a JavaScript \<open>Map\<close>\<close>

locale js_map =
  fixes get :: "'m \<Rightarrow> 'k \<Rightarrow> 'v option"
    and put :: "'k \<Rightarrow> 'v \<Rightarrow> 'm \<Rightarrow> 'm"
    and del :: "'k \<Rightarrow> 'm \<Rightarrow> 'm"
    and keys :: "'m \<Rightarrow> 'k list"
    and wf :: "'m \<Rightarrow> bool"
  assumes get_put: "get (put k v m) = (get m)(k \<mapsto> v)"
    and get_del: "wf m \<Longrightarrow> get (del k m) = (get m)(k := None)"
    and wf_put: "wf m \<Longrightarrow> wf (put k v m)"
    and wf_del: "wf m \<Longrightarrow> wf (del k m)"
    and keys_get: "wf m \<Longrightarrow> k \<in> set (keys m) \<longleftrightarrow> get m k \<noteq> None"
    and keys_put: "wf m \<Longrightarrow> keys (put k v m) = (if get m k = None then keys m @ [k] else keys m)"
    and keys_del: "wf m \<Longrightarrow> keys (del k m) = filter (\<lambda>j. j \<noteq> k) (keys m)"
begin

lemma get_put_same: "get (put k v m) k = Some v"
  by (simp add: get_put)

lemma get_put_other: "j \<noteq> k \<Longrightarrow> get (put k v m) j = get m j"
  by (simp add: get_put)

text \<open>Deleting and setting again, as the rate limiter does, moves the key to the end.\<close>

lemma keys_put_del: "wf m \<Longrightarrow> keys (put k v (del k m)) = filter (\<lambda>j. j \<noteq> k) (keys m) @ [k]"
  by (simp add: keys_put keys_del wf_del get_del)

lemma size_put:
  assumes "wf m"
  shows "length (keys (put k v m)) = (if get m k = None then Suc (length (keys m)) else length (keys m))"
  using assms by (simp add: keys_put)

end

lemma jkeys_set: "jkeys (jset k v m) = (if map_of m k = None then jkeys m @ [k] else jkeys m)"
  by (simp add: AList.update_keys map_of_eq_None_iff)

lemma jkeys_del: "jkeys (jdel k m) = filter (\<lambda>j. j \<noteq> k) (jkeys m)"
  by (simp add: delete_keys removeAll_filter_not_eq eq_commute)

interpretation jm: js_map "map_of" "AList.update" "AList.delete" "map fst" "\<lambda>m. distinct (map fst m)"
  by unfold_locales
    (simp_all add: update_conv' delete_conv' distinct_update distinct_delete jkeys_set jkeys_del
      map_of_eq_None_iff)

lemmas [jmap_simps] = jm.get_put jm.get_del jm.wf_put jm.wf_del jm.get_put_same jm.get_put_other

subsection \<open>Steps that return effects\<close>

text \<open>Two steps in sequence: the second sees the state the first left, and its effects come after.\<close>

definition fx_then :: "('s \<Rightarrow> 's \<times> 'e list) \<Rightarrow> ('s \<Rightarrow> 's \<times> 'e list) \<Rightarrow> 's \<Rightarrow> 's \<times> 'e list" where
  "fx_then f g s = (fst (g (fst (f s))), snd (f s) @ snd (g (fst (f s))))"

text \<open>A loop over the entries of a map that may change each value and adds its effects.\<close>

definition fx_entries :: "('k \<Rightarrow> 'v \<Rightarrow> 'v \<times> 'e list) \<Rightarrow> ('k, 'v) jmap \<Rightarrow> ('k, 'v) jmap \<times> 'e list" where
  "fx_entries f m = (map (\<lambda>(k, v). (k, fst (f k v))) m, concat (map (\<lambda>(k, v). snd (f k v)) m))"

lemma fx_then_code [code]:
  "fx_then f g s = (case f s of (s1, out1) \<Rightarrow> case g s1 of (s2, out2) \<Rightarrow> (s2, out1 @ out2))"
  by (simp add: fx_then_def split_beta)

lemma fst_fx_then [fx_simps]: "fst (fx_then f g s) = fst (g (fst (f s)))"
  by (simp add: fx_then_def)

lemma snd_fx_then [fx_simps]: "snd (fx_then f g s) = snd (f s) @ snd (g (fst (f s)))"
  by (simp add: fx_then_def)

lemma jkeys_fx_entries [simp]: "jkeys (fst (fx_entries f m)) = jkeys m"
  by (induction m) (auto simp: fx_entries_def)

lemma jget_fx_entries: "jget (fst (fx_entries f m)) k = map_option (\<lambda>v. fst (f k v)) (jget m k)"
  by (induction m) (auto simp: fx_entries_def)

lemma fx_entries_Nil [simp]: "fx_entries f [] = ([], [])"
  by (simp add: fx_entries_def)

lemma fx_entries_Cons [simp]:
  "fx_entries f ((k, v) # m) =
     ((k, fst (f k v)) # fst (fx_entries f m), snd (f k v) @ snd (fx_entries f m))"
  by (simp add: fx_entries_def)

lemma fx_entries_id:
  assumes "\<And>k v. (k, v) \<in> set m \<Longrightarrow> f k v = (v, [])"
  shows "fx_entries f m = (m, [])"
  using assms by (induction m) auto

lemma fx_then_id: "f s = (s, []) \<Longrightarrow> g s = (s, []) \<Longrightarrow> fx_then f g s = (s, [])"
  by (simp add: fx_then_def)

text \<open>A loop over a list whose body changes the state.\<close>

fun fx_each :: "('a \<Rightarrow> 's \<Rightarrow> 's \<times> 'e list) \<Rightarrow> 'a list \<Rightarrow> 's \<Rightarrow> 's \<times> 'e list" where
  "fx_each f [] s = (s, [])"
| "fx_each f (x # xs) s = fx_then (f x) (fx_each f xs) s"

lemma fx_each_inv:
  assumes "P s" and "\<And>x s. P s \<Longrightarrow> x \<in> set xs \<Longrightarrow> P (fst (f x s))"
  shows "P (fst (fx_each f xs s))"
  using assms by (induction xs arbitrary: s) (auto simp: fx_then_def)

text \<open>An effect of a loop comes from the body at one of its elements, in a state the invariant holds of.\<close>

lemma fx_each_effect:
  assumes "e \<in> set (snd (fx_each f xs s))" and "P s" and "\<And>x s. P s \<Longrightarrow> x \<in> set xs \<Longrightarrow> P (fst (f x s))"
  shows "\<exists>x s'. x \<in> set xs \<and> P s' \<and> e \<in> set (snd (f x s'))"
  using assms by (induction xs arbitrary: s) (auto simp: fx_then_def, blast+)

text \<open>A run of a system over a list of events.\<close>

fun run :: "('e \<Rightarrow> 's \<Rightarrow> 's \<times> 'o list) \<Rightarrow> 'e list \<Rightarrow> 's \<Rightarrow> 's \<times> 'o list" where
  "run step [] s = (s, [])"
| "run step (e # es) s =
     (fst (run step es (fst (step e s))), snd (step e s) @ snd (run step es (fst (step e s))))"

lemma run_code [code]:
  "run step [] s = (s, [])"
  "run step (e # es) s = (case step e s of (s1, out1) \<Rightarrow> case run step es s1 of (s2, out2) \<Rightarrow> (s2, out1 @ out2))"
  by (simp_all add: split_beta)

lemma run_append: "run f (xs @ ys) s = (fst (run f ys (fst (run f xs s))), snd (run f xs s) @ snd (run f ys (fst (run f xs s))))"
  by (induction xs arbitrary: s) simp_all

locale step_system =
  fixes step :: "'e \<Rightarrow> 's \<Rightarrow> 's \<times> 'o list"
    and ok :: "'e \<Rightarrow> bool"
    and inv :: "'s \<Rightarrow> bool"
  assumes step_inv: "inv s \<Longrightarrow> ok e \<Longrightarrow> inv (fst (step e s))"
begin

lemma run_inv: "inv s \<Longrightarrow> list_all ok es \<Longrightarrow> inv (fst (run step es s))"
  by (induction es arbitrary: s) (auto simp: step_inv)

end

text \<open>
  A system in which each obligation an event brings (\<open>taken\<close>) is kept in the state (\<open>kept\<close>) until
  an effect discharges it (\<open>settled\<close>): none is dropped and none is answered twice.
\<close>

locale conserving_system = step_system +
  fixes kept :: "'s \<Rightarrow> 'q multiset"
    and taken :: "'e \<Rightarrow> 'q multiset"
    and settled :: "'o list \<Rightarrow> 'q multiset"
  assumes step_conserves:
      "inv s \<Longrightarrow> ok e \<Longrightarrow> kept s + taken e = kept (fst (step e s)) + settled (snd (step e s))"
    and settled_Nil: "settled [] = {#}"
    and settled_append: "settled (xs @ ys) = settled xs + settled ys"
begin

lemma run_conserves:
  "inv s \<Longrightarrow> list_all ok es \<Longrightarrow>
     kept s + sum_list (map taken es) = kept (fst (run step es s)) + settled (snd (run step es s))"
proof (induction es arbitrary: s)
  case Nil
  then show ?case by (simp add: settled_Nil)
next
  case (Cons e es)
  let ?s' = "fst (step e s)"
  from Cons.prems have "inv ?s'" "kept s + taken e = kept ?s' + settled (snd (step e s))"
    by (auto intro: step_inv step_conserves)
  with Cons.IH [of ?s'] Cons.prems show ?case
    by (simp add: settled_append) (metis add.assoc add.commute)
qed

end

text \<open>A system whose state has an abstraction that every step follows: functional refinement.\<close>

locale refining_system = step_system +
  fixes abs :: "'s \<Rightarrow> 'a"
    and astep :: "'e \<Rightarrow> 'a \<Rightarrow> 'a"
  assumes step_refines: "inv s \<Longrightarrow> ok e \<Longrightarrow> abs (fst (step e s)) = astep e (abs s)"
begin

lemma run_refines: "inv s \<Longrightarrow> list_all ok es \<Longrightarrow> abs (fst (run step es s)) = fold astep es (abs s)"
  by (induction es arbitrary: s) (auto simp: step_refines step_inv)

end

text \<open>A system given by a step relation, with an invariant and a safe set it implies.\<close>

locale relation_system =
  fixes step :: "'s \<Rightarrow> 's \<Rightarrow> bool"
    and inv :: "'s \<Rightarrow> bool"
  assumes step_inv: "step s t \<Longrightarrow> inv s \<Longrightarrow> inv t"
begin

lemma reach_inv: "step\<^sup>*\<^sup>* s t \<Longrightarrow> inv s \<Longrightarrow> inv t"
  by (induction rule: rtranclp_induct) (auto intro: step_inv)

lemma reach_safe: "step\<^sup>*\<^sup>* s t \<Longrightarrow> inv s \<Longrightarrow> (\<And>u. inv u \<Longrightarrow> P u) \<Longrightarrow> P t"
  using reach_inv by blast

end

subsection \<open>Small facts\<close>

lemma find_Some_first:
  "find P xs = Some x \<Longrightarrow> P x \<and> x \<in> set xs \<and> (\<forall>y \<in> set (takeWhile (\<lambda>y. y \<noteq> x) xs). \<not> P y)"
proof (induction xs)
  case (Cons a xs)
  show ?case
  proof (cases "P a")
    case True
    with Cons.prems have "x = a" by simp
    with True show ?thesis by simp
  next
    case False
    with Cons have "P x" "x \<in> set xs" "\<forall>y \<in> set (takeWhile (\<lambda>y. y \<noteq> x) xs). \<not> P y" by simp_all
    moreover have "a \<noteq> x" using False \<open>P x\<close> by blast
    ultimately show ?thesis using False by (simp only: takeWhile.simps list.set if_True simp_thms) blast
  qed
qed simp

lemma find_Some_mem: "find P xs = Some x \<Longrightarrow> x \<in> set xs \<and> P x"
  by (auto simp: find_Some_iff)

text \<open>The entry of a key, set apart from the others.\<close>

lemma mset_jdel: "jwf m \<Longrightarrow> map_of m k = Some v \<Longrightarrow> mset m = add_mset (k, v) (mset (jdel k m))"
proof (induction m)
  case (Cons p m)
  then have "jwf m" and "fst p = k \<Longrightarrow> k \<notin> fst ` set m" by auto
  with Cons show ?case by (cases p) auto
qed simp

lemma mset_jset: "jwf m \<Longrightarrow> mset (jset k v m) = add_mset (k, v) (mset (jdel k m))"
proof (induction m)
  case (Cons p m)
  then have "jwf m" and "fst p = k \<Longrightarrow> k \<notin> fst ` set m" by auto
  with Cons show ?case by (cases p) auto
qed simp

lemma jdel_notin: "map_of m k = None \<Longrightarrow> jdel k m = m"
  by (simp add: map_of_eq_None_iff)

subsection \<open>\<open>Array.prototype.sort\<close> with a comparison function\<close>

text \<open>
  The language's sort is stable and, for a comparison that is a total preorder, determined by that.
  A stable insertion sort stands for it; the comparison is an integer, negative, zero or positive.
\<close>

fun jinsert :: "('a \<Rightarrow> 'a \<Rightarrow> int) \<Rightarrow> 'a \<Rightarrow> 'a list \<Rightarrow> 'a list" where
  "jinsert cmp x [] = [x]"
| "jinsert cmp x (y # ys) = (if cmp x y \<le> 0 then x # y # ys else y # jinsert cmp x ys)"

definition jsort :: "('a \<Rightarrow> 'a \<Rightarrow> int) \<Rightarrow> 'a list \<Rightarrow> 'a list" where
  "jsort cmp xs = foldr (jinsert cmp) xs []"

definition preorder_cmp :: "('a \<Rightarrow> 'a \<Rightarrow> int) \<Rightarrow> bool" where
  "preorder_cmp cmp \<longleftrightarrow> (\<forall>x y. cmp x y \<le> 0 \<or> cmp y x \<le> 0)
     \<and> (\<forall>x y z. cmp x y \<le> 0 \<longrightarrow> cmp y z \<le> 0 \<longrightarrow> cmp x z \<le> 0)"

lemma mset_jinsert [simp]: "mset (jinsert cmp x ys) = add_mset x (mset ys)"
  by (induction ys) auto

lemma mset_jsort [simp]: "mset (jsort cmp xs) = mset xs"
  by (induction xs) (auto simp: jsort_def)

lemma set_jsort [simp]: "set (jsort cmp xs) = set xs"
  by (rule mset_eq_setD) simp

lemma jsort_Nil_iff [simp]: "jsort cmp xs = [] \<longleftrightarrow> xs = []"
  by (metis mset_jsort mset_zero_iff)

lemma set_jinsert [simp]: "set (jinsert cmp x ys) = insert x (set ys)"
  by (induction ys) auto

lemma sorted_jinsert:
  assumes "preorder_cmp cmp" and "sorted_wrt (\<lambda>a b. cmp a b \<le> 0) ys"
  shows "sorted_wrt (\<lambda>a b. cmp a b \<le> 0) (jinsert cmp x ys)"
  using assms(2)
proof (induction ys)
  case (Cons y ys)
  have tot: "cmp y x \<le> 0" if "\<not> cmp x y \<le> 0"
    using assms(1) that unfolding preorder_cmp_def by blast
  have tr: "cmp a c \<le> 0" if "cmp a b \<le> 0" "cmp b c \<le> 0" for a b c
    using assms(1) that unfolding preorder_cmp_def by blast
  from Cons show ?case by (auto intro: tr tot)
qed simp

lemma sorted_jsort: "preorder_cmp cmp \<Longrightarrow> sorted_wrt (\<lambda>a b. cmp a b \<le> 0) (jsort cmp xs)"
  by (induction xs) (auto simp: jsort_def sorted_jinsert)

lemma jsort_hd_least:
  assumes "preorder_cmp cmp" and "x \<in> set xs"
  shows "hd (jsort cmp xs) \<in> set xs" and "cmp (hd (jsort cmp xs)) x \<le> 0"
proof -
  obtain y ys where y: "jsort cmp xs = y # ys"
    using assms(2) by (metis jsort_Nil_iff length_greater_0_conv length_pos_if_in_set neq_Nil_conv)
  then have "set xs = insert y (set ys)" by (metis list.set(2) set_jsort)
  then show "hd (jsort cmp xs) \<in> set xs" using y by simp
  have "cmp y y \<le> 0" using assms(1) unfolding preorder_cmp_def by blast
  with sorted_jsort [OF assms(1), of xs] assms(2) \<open>set xs = _\<close> y
  show "cmp (hd (jsort cmp xs)) x \<le> 0" by auto
qed

lemma preorder_cmp_lex:
  assumes "preorder_cmp f" and "preorder_cmp g" and "\<And>x y. f y x = - f x y"
  shows "preorder_cmp (\<lambda>x y. if f x y \<noteq> 0 then f x y else g x y)"
proof -
  have tot: "f x y \<le> 0 \<or> f y x \<le> 0" "g x y \<le> 0 \<or> g y x \<le> 0" for x y
    using assms(1,2) by (auto simp: preorder_cmp_def)
  have tr: "f x y \<le> 0 \<Longrightarrow> f y z \<le> 0 \<Longrightarrow> f x z \<le> 0" "g x y \<le> 0 \<Longrightarrow> g y z \<le> 0 \<Longrightarrow> g x z \<le> 0" for x y z
    using assms(1,2) unfolding preorder_cmp_def by blast+
  have z: "f x y = 0 \<longleftrightarrow> f x y \<le> 0 \<and> f y x \<le> 0" for x y
    using assms(3) [of x y] by linarith
  show ?thesis
    unfolding preorder_cmp_def
  proof (intro conjI allI impI)
    fix x y
    show "(if f x y \<noteq> 0 then f x y else g x y) \<le> 0 \<or> (if f y x \<noteq> 0 then f y x else g y x) \<le> 0"
      using tot [of x y] z [of x y] z [of y x] by auto
  next
    fix x y w
    assume "(if f x y \<noteq> 0 then f x y else g x y) \<le> 0" "(if f y w \<noteq> 0 then f y w else g y w) \<le> 0"
    then show "(if f x w \<noteq> 0 then f x w else g x w) \<le> 0"
      using tr(1) [of x y w] tr(1) [of w x y] tr(1) [of y w x] tr(2) [of x y w]
        z [of x y] z [of y w] z [of x w]
      by (auto split: if_splits)
  qed
qed

lemma preorder_cmp_diff: "preorder_cmp (\<lambda>x y. f x - (f y :: int))"
  by (auto simp: preorder_cmp_def)

end
