(* ===== verification/Device_Reads.thy ===== *)
theory Device_Reads
  imports Prelude
begin

text \<open>
  What an iOS agent knows of a simulator it can only ask: which panel it shows
  (\<open>packages/ios-agent/src/PanelState.ts\<close>) and how it is held (\<open>PhysicalOrientation.ts\<close>). Both ask a slow
  command and share one discipline: a read during a call never joins it but gets the next one, and what a call
  started before a \<open>forget\<close> says is dropped. The two classes write the discipline out; here it is one set of
  operations over what an answer does to the memory (\<open>absorb\<close>). Their maps are keyed by device and no operation
  looks at another's entry, so the state is that of one device. A document is what the code reads of it; one
  whose list holds \<open>null\<close>, at which the code throws, is left out. The log is left out.
\<close>

subsection \<open>Reads\<close>

record flight =
  fl_generation :: nat
  fl_current :: "nat list" \<comment> \<open>who waits for the call\<close>
  fl_next :: "nat list option" \<comment> \<open>who waits for the one after it\<close>

record 'm reads =
  rd_memory :: 'm
  rd_generation :: nat
  rd_flight :: "flight option"

datatype 'r read_fx = Call_started | Answered nat "'r option"

definition startFlight :: "nat list \<Rightarrow> 'm reads \<Rightarrow> 'm reads \<times> 'r read_fx list" where
  "startFlight readers st =
     (st\<lparr>rd_flight := Some \<lparr>fl_generation = rd_generation st, fl_current = readers, fl_next = None\<rparr>\<rparr>, [Call_started])"

definition read :: "nat \<Rightarrow> 'm reads \<Rightarrow> 'm reads \<times> 'r read_fx list" where
  "read who st =
     (case rd_flight st of
        None \<Rightarrow> startFlight [who] st
      | Some f \<Rightarrow>
          (st\<lparr>rd_flight := Some (f\<lparr>fl_next := Some ((case fl_next f of None \<Rightarrow> [] | Some rs \<Rightarrow> rs) @ [who])\<rparr>)\<rparr>, []))"

text \<open>
  The call ends: with a document, or not at all. Those who wait for it hear what it said, and the next call
  starts for those who came during it.
\<close>

definition call_ends :: "('d \<Rightarrow> 'm \<Rightarrow> 'm \<times> 'r option) \<Rightarrow> 'd option \<Rightarrow> 'm reads \<Rightarrow> 'm reads \<times> 'r read_fx list" where
  "call_ends absorb doc st =
     (case rd_flight st of
        None \<Rightarrow> (st, [])
      | Some f \<Rightarrow>
          (let (memory, reading) =
                 (case doc of
                    None \<Rightarrow> (rd_memory st, None)
                  | Some d \<Rightarrow> if rd_generation st \<noteq> fl_generation f then (rd_memory st, None) else absorb d (rd_memory st));
               told = map (\<lambda>who. Answered who reading) (fl_current f);
               st1 = st\<lparr>rd_memory := memory\<rparr>
           in case fl_next f of
                None \<Rightarrow> (st1\<lparr>rd_flight := None\<rparr>, told)
              | Some rs \<Rightarrow> (case startFlight rs st1 of (st2, started) \<Rightarrow> (st2, told @ started))))"

definition forget :: "'m \<Rightarrow> 'm reads \<Rightarrow> 'm reads" where
  "forget blank st = st\<lparr>rd_memory := blank, rd_generation := Suc (rd_generation st)\<rparr>"

text \<open>The events of a device's memory; the time matters to what \<open>absorb\<close> makes of a document.\<close>

datatype 'd read_event = Asks nat | Ends int "'d option" | Forgets

fun reads_step :: "(int \<Rightarrow> 'd \<Rightarrow> 'm \<Rightarrow> 'm \<times> 'r option) \<Rightarrow> 'm \<Rightarrow> 'd read_event \<Rightarrow> 'm reads \<Rightarrow> 'm reads \<times> 'r read_fx list" where
  "reads_step absorb blank (Asks who) st = read who st"
| "reads_step absorb blank (Ends now doc) st = call_ends (absorb now) doc st"
| "reads_step absorb blank Forgets st = (forget blank st, [])"

definition new_reads :: "'m \<Rightarrow> 'm reads" where
  "new_reads blank = \<lparr>rd_memory = blank, rd_generation = 0, rd_flight = None\<rparr>"

subsection \<open>No reader is lost\<close>

definition waiting_readers :: "'m reads \<Rightarrow> nat multiset" where
  "waiting_readers st = (case rd_flight st of
     None \<Rightarrow> {#}
   | Some f \<Rightarrow> mset (fl_current f) + (case fl_next f of None \<Rightarrow> {#} | Some rs \<Rightarrow> mset rs))"

fun asking :: "'d read_event \<Rightarrow> nat multiset" where
  "asking (Asks who) = {#who#}"
| "asking _ = {#}"

fun answered1 :: "'r read_fx \<Rightarrow> nat multiset" where
  "answered1 (Answered who r) = {#who#}"
| "answered1 Call_started = {#}"

definition answered :: "'r read_fx list \<Rightarrow> nat multiset" where
  "answered out = sum_list (map answered1 out)"

lemma answered_simps [simp]:
  "answered [] = {#}" "answered (x # xs) = answered1 x + answered xs" "answered (xs @ ys) = answered xs + answered ys"
  by (simp_all add: answered_def)

lemma answered_told [simp]: "answered (map (\<lambda>who. Answered who r) ws) = mset ws"
  by (induction ws) simp_all

lemma reads_conserve:
  "waiting_readers st + asking e
     = waiting_readers (fst (reads_step absorb blank e st)) + answered (snd (reads_step absorb blank e st))"
  by (cases e)
    (auto simp: waiting_readers_def read_def call_ends_def forget_def startFlight_def split_beta Let_def split: option.split)

interpretation device_reads: conserving_system "reads_step absorb blank" "\<lambda>_. True" "\<lambda>_. True" waiting_readers asking answered
  for absorb blank
  by unfold_locales (simp_all add: reads_conserve)

subsection \<open>A read is never older than its asking\<close>

text \<open>
  Where a reader that asked once may be: answered, waiting for the next call, or waiting for a call that an
  event at or after its asking started, with no end of a call since.
\<close>

definition awaits_fresh :: "(int \<Rightarrow> 'd \<Rightarrow> 'm \<Rightarrow> 'm \<times> 'r option) \<Rightarrow> 'm \<Rightarrow> nat \<Rightarrow> 'm reads \<Rightarrow> 'd read_event list \<Rightarrow> bool" where
  "awaits_fresh absorb blank who st evs \<longleftrightarrow>
     (let s = fst (run (reads_step absorb blank) evs st) in
        who \<notin># waiting_readers s
      \<or> (\<exists>f rs. rd_flight s = Some f \<and> fl_next f = Some rs \<and> who \<in> set rs \<and> who \<notin> set (fl_current f))
      \<or> (\<exists>f bs b during. rd_flight s = Some f \<and> who \<in> set (fl_current f) \<and> (\<forall>rs. fl_next f = Some rs \<longrightarrow> who \<notin> set rs)
          \<and> evs = bs @ b # during \<and> Call_started \<in> set (snd (reads_step absorb blank b (fst (run (reads_step absorb blank) bs st))))
          \<and> (\<forall>now d. Ends now d \<notin> set during) \<and> rd_generation s = fl_generation f + count_list during Forgets))"

lemma awaits_goneI:
  "s = fst (run (reads_step absorb blank) evs st) \<Longrightarrow> who \<notin># waiting_readers s \<Longrightarrow> awaits_fresh absorb blank who st evs"
  by (simp add: awaits_fresh_def)

lemma awaits_laterI:
  "s = fst (run (reads_step absorb blank) evs st) \<Longrightarrow> rd_flight s = Some f \<Longrightarrow> fl_next f = Some rs
     \<Longrightarrow> who \<in> set rs \<Longrightarrow> who \<notin> set (fl_current f) \<Longrightarrow> awaits_fresh absorb blank who st evs"
  by (simp add: awaits_fresh_def)

lemma awaits_nowI:
  "s = fst (run (reads_step absorb blank) evs st) \<Longrightarrow> rd_flight s = Some f \<Longrightarrow> who \<in> set (fl_current f)
     \<Longrightarrow> (\<And>rs. fl_next f = Some rs \<Longrightarrow> who \<notin> set rs) \<Longrightarrow> evs = bs @ b # during
     \<Longrightarrow> Call_started \<in> set (snd (reads_step absorb blank b (fst (run (reads_step absorb blank) bs st))))
     \<Longrightarrow> (\<And>now d. Ends now d \<notin> set during) \<Longrightarrow> rd_generation s = fl_generation f + count_list during Forgets
     \<Longrightarrow> awaits_fresh absorb blank who st evs"
  unfolding awaits_fresh_def Let_def by blast

lemma awaits_step:
  assumes "awaits_fresh absorb blank who st evs" and "e \<noteq> Asks who"
  shows "awaits_fresh absorb blank who st (evs @ [e])"
proof -
  let ?step = "reads_step absorb blank"
  define s where "s = fst (run ?step evs st)"
  define t where "t = fst (?step e s)"
  have after: "t = fst (run ?step (evs @ [e]) st)" by (simp add: run_append s_def t_def)
  from assms(1) consider
      (gone) "who \<notin># waiting_readers s"
    | (later) f rs where "rd_flight s = Some f" "fl_next f = Some rs" "who \<in> set rs" "who \<notin> set (fl_current f)"
    | (now) f bs b during where "rd_flight s = Some f" "who \<in> set (fl_current f)" "\<And>rs. fl_next f = Some rs \<Longrightarrow> who \<notin> set rs"
        "evs = bs @ b # during" "Call_started \<in> set (snd (?step b (fst (run ?step bs st))))"
        "\<And>now d. Ends now d \<notin> set during" "rd_generation s = fl_generation f + count_list during Forgets"
    unfolding awaits_fresh_def Let_def s_def by blast
  then show ?thesis
  proof cases
    case gone
    with assms(2) have "who \<notin># waiting_readers s + asking e" by (cases e) auto
    then have "who \<notin># waiting_readers t"
      unfolding reads_conserve [of s e absorb blank] t_def by simp
    with after show ?thesis by (rule awaits_goneI)
  next
    case later
    show ?thesis
    proof (cases e)
      case (Asks who')
      with later show ?thesis
        by (intro awaits_laterI [OF after, of "f\<lparr>fl_next := Some (rs @ [who'])\<rparr>" "rs @ [who']"]) (simp_all add: t_def read_def)
    next
      case (Ends now doc)
      have t: "rd_flight t = Some \<lparr>fl_generation = rd_generation s, fl_current = rs, fl_next = None\<rparr>"
        "rd_generation t = rd_generation s" "Call_started \<in> set (snd (?step e s))"
        using later(1,2) Ends by (auto simp: t_def call_ends_def startFlight_def split_beta Let_def)
      then show ?thesis
        using later(3) s_def by (intro awaits_nowI [OF after t(1), of who evs e "[]"]) simp_all
    next
      case Forgets
      with later show ?thesis by (intro awaits_laterI [OF after, of f rs]) (simp_all add: t_def forget_def)
    qed
  next
    case now
    show ?thesis
    proof (cases e)
      case (Asks who')
      let ?f = "f\<lparr>fl_next := Some ((case fl_next f of None \<Rightarrow> [] | Some rs \<Rightarrow> rs) @ [who'])\<rparr>"
      have "rd_flight t = Some ?f" using now(1) Asks by (simp add: t_def read_def)
      moreover have "who \<notin> set ((case fl_next f of None \<Rightarrow> [] | Some rs \<Rightarrow> rs) @ [who'])"
        using now(3) assms(2) Asks by (auto split: option.split)
      ultimately show ?thesis
        using now Asks by (intro awaits_nowI [OF after, of ?f who bs b "during @ [e]"]) (auto simp: t_def read_def)
    next
      case (Ends now' doc)
      have "who \<notin># waiting_readers t"
        using now(1,3) Ends by (auto simp: t_def waiting_readers_def call_ends_def startFlight_def split_beta Let_def split: option.splits)
      with after show ?thesis by (rule awaits_goneI)
    next
      case Forgets
      with now show ?thesis
        by (intro awaits_nowI [OF after, of f who bs b "during @ [e]"]) (auto simp: t_def forget_def)
    qed
  qed
qed

lemma awaits_run:
  assumes "who \<notin># waiting_readers st"
  shows "Asks who \<notin> set evs \<Longrightarrow> awaits_fresh absorb blank who st (Asks who # evs)"
proof (induction evs rule: rev_induct)
  case Nil
  show ?case
  proof (cases "rd_flight st")
    case None
    then show ?thesis
      by (intro awaits_nowI [where f = "\<lparr>fl_generation = rd_generation st, fl_current = [who], fl_next = None\<rparr>" and bs = "[]" and b = "Asks who"
            and during = "[]", OF refl])
        (simp_all add: read_def startFlight_def)
  next
    case (Some f)
    with assms have "who \<notin> set (fl_current f)" by (auto simp: waiting_readers_def)
    with Some show ?thesis
      by (intro awaits_laterI [where f = "f\<lparr>fl_next := Some ((case fl_next f of None \<Rightarrow> [] | Some rs \<Rightarrow> rs) @ [who])\<rparr>"
            and rs = "(case fl_next f of None \<Rightarrow> [] | Some rs \<Rightarrow> rs) @ [who]", OF refl]) (simp_all add: read_def)
  qed
next
  case (snoc e evs)
  from awaits_step [OF snoc.IH, of e] snoc.prems show ?case by auto
qed

lemma answered_in_call:
  assumes "Answered who r \<in> set (snd (reads_step absorb blank e s))"
  obtains f now doc where "rd_flight s = Some f" "who \<in> set (fl_current f)" "e = Ends now doc"
    "r = (case doc of None \<Rightarrow> None
          | Some d \<Rightarrow> if rd_generation s \<noteq> fl_generation f then None else snd (absorb now d (rd_memory s)))"
  using assms
  by (cases e) (auto simp: read_def call_ends_def startFlight_def split_beta Let_def split: option.splits if_splits)

text \<open>
  C33. A read is never older than its asking. Whatever the agent and the device do, a reader is answered at most
  once for each time it asks, by the end of a call that started when it asked or later; and what that call
  says counts only if the device was not forgotten since it started.
\<close>
theorem reads_are_fresh:
  assumes "who \<notin># waiting_readers st" and "Asks who \<notin> set evs"
    and "s = fst (run (reads_step absorb blank) (Asks who # evs) st)"
    and "Answered who r \<in> set (snd (reads_step absorb blank e s))"
  shows "\<exists>before b during now doc. Asks who # evs = before @ b # during
      \<and> Call_started \<in> set (snd (reads_step absorb blank b (fst (run (reads_step absorb blank) before st))))
      \<and> (\<forall>t d. Ends t d \<notin> set during) \<and> e = Ends now doc
      \<and> (r \<noteq> None \<longrightarrow> Forgets \<notin> set during \<and> (\<exists>d. doc = Some d \<and> r = snd (absorb now d (rd_memory s))))
    \<and> who \<notin># waiting_readers (fst (reads_step absorb blank e s))"
proof -
  from answered_in_call [OF assms(4)] obtain f now doc where a: "rd_flight s = Some f" "who \<in> set (fl_current f)" "e = Ends now doc"
    "r = (case doc of None \<Rightarrow> None
          | Some d \<Rightarrow> if rd_generation s \<noteq> fl_generation f then None else snd (absorb now d (rd_memory s)))" by blast
  have "who \<in># waiting_readers s" using a(1,2) by (simp add: waiting_readers_def)
  with awaits_run [OF assms(1,2), of absorb blank] a(1,2) obtain bs b during where
    c: "\<And>rs. fl_next f = Some rs \<Longrightarrow> who \<notin> set rs" "Asks who # evs = bs @ b # during"
      "Call_started \<in> set (snd (reads_step absorb blank b (fst (run (reads_step absorb blank) bs st))))"
      "\<And>now d. Ends now d \<notin> set during" "rd_generation s = fl_generation f + count_list during Forgets"
    unfolding awaits_fresh_def Let_def assms(3) [symmetric] by auto
  have "r \<noteq> None \<longrightarrow> Forgets \<notin> set during \<and> (\<exists>d. doc = Some d \<and> r = snd (absorb now d (rd_memory s)))"
    using a(4) c(5) by (auto simp: count_list_0_iff split: option.splits if_splits)
  moreover have "who \<notin># waiting_readers (fst (reads_step absorb blank e s))"
    using a(1,3) c(1) by (auto simp: waiting_readers_def call_ends_def startFlight_def split_beta Let_def split: option.splits)
  ultimately show ?thesis using c(2,3,4) a(3) by blast
qed

end
