(* ===== verification/Js_String.thy ===== *)
theory Js_String
  imports Prelude "HOL-Library.Char_ord"
begin

text \<open>
  The string methods the code uses. A string is a list of characters, each a code unit up to 255:
  Node hands header values over as Latin-1, and the app-side strings modelled here are ASCII.
\<close>

text \<open>What \<open>trim\<close> strips among the code units up to 255: tab to carriage return, space, no-break space.\<close>

definition js_space :: "char \<Rightarrow> bool" where
  "js_space c \<longleftrightarrow> (let n = of_char c :: nat in 9 \<le> n \<and> n \<le> 13 \<or> n = 32 \<or> n = 160)"

definition trim :: "string \<Rightarrow> string" where
  "trim s = rev (dropWhile js_space (rev (dropWhile js_space s)))"

fun split_on :: "char \<Rightarrow> string \<Rightarrow> string list" where
  "split_on c [] = [[]]"
| "split_on c (x # xs) =
     (if x = c then [] # split_on c xs
      else (case split_on c xs of [] \<Rightarrow> [[x]] | y # ys \<Rightarrow> (x # y) # ys))"

definition starts_with :: "string \<Rightarrow> string \<Rightarrow> bool" where
  "starts_with p s \<longleftrightarrow> take (length p) s = p"

definition lower :: "string \<Rightarrow> string" where
  "lower = map (\<lambda>c. let n = of_char c :: nat in if 65 \<le> n \<and> n \<le> 90 then char_of (n + 32) else c)"

lemma split_on_ne [simp]: "split_on c s \<noteq> []"
  by (induction s) (auto split: list.split)

lemma split_on_append: "split_on c (a @ c # b) = split_on c a @ split_on c b"
proof (induction a)
  case (Cons x a)
  then show ?case by (cases "split_on c a") (auto simp: neq_Nil_conv)
qed simp

lemma split_on_snoc: "x \<noteq> c \<Longrightarrow> split_on c (s @ [x]) = butlast (split_on c s) @ [last (split_on c s) @ [x]]"
proof (induction s)
  case (Cons y s)
  then show ?case by (cases "split_on c s") (auto split: list.split)
qed simp

lemma dropWhile_snoc: "dropWhile P (xs @ [x]) = (if \<forall>y\<in>set xs. P y then if P x then [] else [x] else dropWhile P xs @ [x])"
  by (induction xs) auto

lemma trim_cons: "js_space x \<Longrightarrow> trim (x # s) = trim s"
  by (simp add: trim_def)

lemma trim_snoc:
  assumes "js_space x"
  shows "trim (s @ [x]) = trim s"
proof (cases "\<forall>y \<in> set s. js_space y")
  case True
  then have "dropWhile js_space s = []" by (simp add: dropWhile_eq_Nil_conv)
  moreover have "dropWhile js_space (s @ [x]) = []" using True assms by (simp add: dropWhile_snoc)
  ultimately show ?thesis unfolding trim_def by (simp only: rev.simps dropWhile.simps)
next
  case False
  then have "dropWhile js_space (s @ [x]) = dropWhile js_space s @ [x]" by (simp only: dropWhile_snoc if_False)
  with assms show ?thesis by (simp add: trim_def)
qed

lemma trim_invariant:
  assumes "\<And>x s. js_space x \<Longrightarrow> f (x # s) = f s" and "\<And>x s. js_space x \<Longrightarrow> f (s @ [x]) = f s"
  shows "f (trim s) = f s"
proof -
  have front: "f (dropWhile js_space s) = f s" for s
    by (induction s) (auto simp: assms(1))
  have "f (rev (dropWhile js_space (rev s))) = f s" for s
    by (induction s rule: rev_induct) (auto simp: assms(2))
  then show ?thesis using front by (simp add: trim_def)
qed

lemma trim_idem [simp]: "trim (trim s) = trim s"
  by (rule trim_invariant) (simp_all add: trim_cons trim_snoc)

text \<open>\<open>String(n)\<close> for a whole number below \<open>2 ^ 53\<close>.\<close>

definition digit_char :: "nat \<Rightarrow> char" where
  "digit_char d = char_of (48 + d)"

fun nat_text :: "nat \<Rightarrow> string" where
  "nat_text n = (if n < 10 then [digit_char n] else nat_text (n div 10) @ [digit_char (n mod 10)])"

declare nat_text.simps [simp del]

definition int_text :: "int \<Rightarrow> string" where
  "int_text i = (if i < 0 then ''-'' @ nat_text (nat (- i)) else nat_text (nat i))"

end
