(* ===== verification/Wire.thy ===== *)
theory Wire
  imports Prelude
begin

text \<open>
  The parts of the wire contract (\<open>packages/protocol/src/index.ts\<close>) that the relay's decisions are
  made of: why a boot or a join is refused, what kind of client holds a session, why a watch ends,
  the service tier a device boots with, and what an agent reports of its Mac.
\<close>

type_synonym ms = int \<comment> \<open>milliseconds, as \<open>Date.now()\<close> counts them\<close>

datatype boot_refusal = Host_booting | Host_memory_critical | Host_at_capacity

datatype admission_refusal = Boot_refusal boot_refusal | Agent_resources_exhausted

datatype client_kind = Dashboard | Mcp | Flow_runner

datatype watch_end = Session_ended | Holder_changed

datatype booter_class = Interactive | Automated

datatype memory_pressure = Normal_pressure | Warn_pressure | Critical_pressure

record agent_resources =
  cpuPercent :: rat
  memUsedMB :: int
  memTotalMB :: int
  reportedAt :: ms
  memoryPressure :: "memory_pressure option"

datatype tier_name = Stock | Lean | Slim

record service_tier =
  tier_name :: tier_name
  tier_keep :: "string list" \<comment> \<open>the features kept on, by their names on the wire\<close>

datatype device_tier = Unsupported | Tier service_tier

datatype device_status = Booted | Shutdown | Unknown

text \<open>A point of the screen, from 0 to 1 across and down, and what watchers are told the holder did.\<close>

type_synonym touch_point = "rat \<times> rat"

datatype watch_action =
    Act_tap touch_point
  | Act_swipe touch_point touch_point
  | Act_key string
  | Act_button string
  | Act_type nat
  | Act_pinch
  | Act_launch
  | Act_install
  | Act_clear_state
  | Act_open_url
  | Act_label string

text \<open>\<open>isAiClientKind\<close>: a client that drives the device by itself.\<close>

definition isAiClientKind :: "client_kind option \<Rightarrow> bool" where
  "isAiClientKind kind \<longleftrightarrow> kind = Some Mcp \<or> kind = Some Flow_runner"

lemma isAiClientKind_simps [simp]:
  "\<not> isAiClientKind None" "\<not> isAiClientKind (Some Dashboard)"
  "isAiClientKind (Some Mcp)" "isAiClientKind (Some Flow_runner)"
  by (auto simp: isAiClientKind_def)

text \<open>
  \<open>sameServiceTier\<close> compares two tiers by name and, except for \<open>stock\<close>, by their kept features as
  sets: the sizes agree and every feature of the one is in the other.
\<close>

definition sameServiceTier :: "service_tier \<Rightarrow> service_tier \<Rightarrow> bool" where
  "sameServiceTier a b =
     (if tier_name a \<noteq> tier_name b then False
      else if tier_name a = Stock then True
      else (let left = remdups (tier_keep a); right = remdups (tier_keep b)
            in length left = length right \<and> list_all (\<lambda>f. f \<in> set right) left))"

lemma sameServiceTier_iff:
  "sameServiceTier a b \<longleftrightarrow>
     tier_name a = tier_name b \<and> (tier_name a = Stock \<or> set (tier_keep a) = set (tier_keep b))"
proof -
  have "length (remdups xs) = length (remdups ys) \<and> set xs \<subseteq> set ys \<longleftrightarrow> set xs = set ys"
    for xs ys :: "string list"
  proof -
    have "card (set xs) = card (set ys) \<and> set xs \<subseteq> set ys \<longleftrightarrow> set xs = set ys"
      by (metis List.finite_set card_subset_eq subset_refl)
    then show ?thesis by (simp add: length_remdups_card_conv)
  qed
  then show ?thesis
    by (auto simp: sameServiceTier_def Let_def list_all_iff subset_iff)
qed

end
