(* ===== verification/Flow_Types.thy ===== *)
theory Flow_Types
  imports Js_String Wire
begin

text \<open>
  What a flow is and what it is matched against (\<open>packages/flow-runner/src/schema.ts\<close>,
  \<open>selector.ts\<close>, \<open>platformCheck.ts\<close>, and \<open>packages/protocol/src/buttons/index.ts\<close>): the elements of a
  screen, the selectors that name one, the steps of a flow, and which hardware buttons a platform has.
  A coordinate is a rational number; the rounding of binary floating point is not modelled.
\<close>

subsection \<open>Numbers and substrings\<close>

text \<open>A number that may be \<open>NaN\<close> or infinite.\<close>

datatype jnum = Num rat | Not_finite

text \<open>\<open>Math.round\<close>: half rounds up.\<close>

definition js_round :: "rat \<Rightarrow> int" where
  "js_round x = \<lfloor>x + 1 / 2\<rfloor>"

definition js_includes :: "string \<Rightarrow> string \<Rightarrow> bool" where
  "js_includes needle hay \<longleftrightarrow> list_ex (\<lambda>i. starts_with needle (drop i hay)) [0..<Suc (length hay)]"

lemma js_includes_refl [simp]: "js_includes s s"
proof -
  have "starts_with s (drop 0 s)" by (simp add: starts_with_def)
  moreover have "0 \<in> set [0..<Suc (length s)]" by simp
  ultimately show ?thesis unfolding js_includes_def list_ex_iff by blast
qed

subsection \<open>The screen\<close>

record ui_frame =
  fr_x :: rat
  fr_y :: rat
  fr_width :: rat
  fr_height :: rat

record ui_element =
  el_role :: string
  el_label :: string
  el_identifier :: "string option"
  el_placeholder :: "string option"
  el_frame :: ui_frame
  el_enabled :: bool
  el_rawRole :: "string option"
  el_secure :: "bool option"
  el_focused :: "bool option"

subsection \<open>Flows\<close>

record selector =
  sel_text :: "string option"
  sel_id :: "string option"
  sel_label :: "string option"
  sel_role :: "string option"
  sel_index :: "nat option"
  sel_timeoutMs :: "jnum option"

datatype direction = Up | Down | Left | Right

datatype key_modifier = Shift | Ctrl | Alt | Meta

fun modifier_bit :: "key_modifier \<Rightarrow> nat" where
  "modifier_bit Ctrl = 1"
| "modifier_bit Shift = 2"
| "modifier_bit Alt = 4"
| "modifier_bit Meta = 8"

unbundle bit_operations_syntax

definition keyModifierBits :: "key_modifier list \<Rightarrow> nat" where
  "keyModifierBits ms = foldl (\<lambda>bits m. bits OR modifier_bit m) 0 ms"

datatype launch_arg = Arg_string string | Arg_number int | Arg_bool bool | Arg_list "string list"

text \<open>The entries of a record, in the order \<open>Object.entries\<close> gives them.\<close>

record launch_options =
  lo_arguments :: "(string \<times> launch_arg) list option"
  lo_env :: "(string \<times> string) list option"

record launch_applied =
  la_arguments :: "string list"
  la_env :: "string list"

type_synonym point = "rat \<times> rat"

datatype orientation = Portrait | Landscape
datatype posture = Folded | Unfolded
datatype pinch_on = On_selector selector | On_point point

datatype step =
    Clear_state "string option"
  | Launch_app "launch_options option"
  | Tap_on selector
  | Input_text string
  | Press_key string "key_modifier list option"
  | Swipe point point rat
  | Scroll direction "selector option"
  | Open_url string
  | Assert_visible selector
  | Assert_not_visible selector
  | Press_button string
  | Long_press_on selector rat
  | Pinch pinch_on rat rat
  | Set_orientation orientation
  | Set_posture posture

record flow =
  fl_name :: string
  fl_appId :: "string option"
  fl_tags :: "string list option"
  fl_steps :: "step list"
  fl_file :: "string option"

subsection \<open>Matching a selector\<close>

definition match_text :: "ui_element list \<Rightarrow> string \<Rightarrow> ui_element list" where
  "match_text tree text =
     (let byId = filter (\<lambda>e. el_identifier e = Some text) tree;
          exact = filter (\<lambda>e. el_label e = text) tree;
          partial = (if 0 < length text then filter (\<lambda>e. js_includes text (el_label e)) tree else [])
      in if 0 < length byId then byId
         else if 0 < length exact then exact
         else if 0 < length partial then partial
         else filter (\<lambda>e. el_placeholder e = Some text) tree)"

definition match_id :: "string option \<Rightarrow> ui_element list \<Rightarrow> ui_element list" where
  "match_id i pool = (case i of None \<Rightarrow> pool | Some i \<Rightarrow> filter (\<lambda>e. el_identifier e = Some i) pool)"

definition match_label :: "string option \<Rightarrow> ui_element list \<Rightarrow> ui_element list" where
  "match_label l pool =
     (case l of None \<Rightarrow> pool
      | Some label \<Rightarrow>
          (let exact = filter (\<lambda>e. el_label e = label) pool
           in if 0 < length exact then exact else filter (\<lambda>e. js_includes label (el_label e)) pool))"

definition match_pool :: "ui_element list \<Rightarrow> selector \<Rightarrow> ui_element list" where
  "match_pool tree sel =
     (case sel_text sel of
        Some text \<Rightarrow> match_text tree text
      | None \<Rightarrow> match_label (sel_label sel) (match_id (sel_id sel) tree))"

definition matchSelector :: "ui_element list \<Rightarrow> selector \<Rightarrow> ui_element list" where
  "matchSelector tree sel =
     (let pool = match_pool tree sel;
          pool' = (case sel_role sel of None \<Rightarrow> pool | Some r \<Rightarrow> filter (\<lambda>e. el_role e = r) pool)
      in case sel_index sel of
           None \<Rightarrow> pool'
         | Some i \<Rightarrow> if i < length pool' then [pool' ! i] else [])"

subsection \<open>Buttons\<close>

definition ANDROID_BUTTONS :: "string list" where
  "ANDROID_BUTTONS = [''home'', ''back'', ''recent_apps'', ''power'', ''lock'', ''volume_up'', ''volume_down'']"

definition IOS_BUTTON_ALIASES :: "string \<Rightarrow> string option" where
  "IOS_BUTTON_ALIASES = [''lock'' \<mapsto> ''power'', ''volume_up'' \<mapsto> ''volume-up'', ''volume_down'' \<mapsto> ''volume-down'']"

definition IOS_NEVER :: "string list" where
  "IOS_NEVER = [''back'', ''recent_apps'']"

datatype button_availability = Available | Unavailable | Unknown_button

record chrome_button =
  cb_name :: string
  cb_usagePage :: rat
  cb_usage :: rat

text \<open>The chrome as far as it is read here: iOS chrome (it has a \<open>framePng\<close>) with its buttons, or another's.\<close>

datatype chrome = Ios_chrome "chrome_button list" | Other_chrome

definition chrome_has :: "chrome_button list \<Rightarrow> string \<Rightarrow> bool" where
  "chrome_has bs n \<longleftrightarrow> list_ex (\<lambda>b. cb_name b = n \<and> 0 < cb_usagePage b \<and> 0 < cb_usage b) bs"

definition buttonAvailability :: "string \<Rightarrow> string \<Rightarrow> chrome option \<Rightarrow> button_availability" where
  "buttonAvailability platform name chrome =
     (if platform = ''android'' then (if name \<in> set ANDROID_BUTTONS then Available else Unavailable)
      else if platform \<noteq> ''ios'' then Unknown_button
      else if name = ''home'' then Available
      else if name \<in> set IOS_NEVER then Unavailable
      else (case chrome of
              None \<Rightarrow> Unknown_button
            | Some Other_chrome \<Rightarrow> Unknown_button
            | Some (Ios_chrome bs) \<Rightarrow>
                (let chromeName = (case IOS_BUTTON_ALIASES name of Some a \<Rightarrow> a | None \<Rightarrow> name)
                 in if chrome_has bs chromeName then Available else Unavailable)))"

record unavailable_button =
  ub_index :: nat
  ub_name :: string
  ub_byDevice :: bool

datatype button_verdict = No_problem | Needs_chrome | Refused unavailable_button

fun unavailable_from :: "nat \<Rightarrow> bool \<Rightarrow> string \<Rightarrow> chrome option \<Rightarrow> step list \<Rightarrow> button_verdict" where
  "unavailable_from i needsChrome platform chrome [] = (if needsChrome then Needs_chrome else No_problem)"
| "unavailable_from i needsChrome platform chrome (s # steps) =
     (case s of
        Press_button name \<Rightarrow>
          (case buttonAvailability platform name chrome of
             Unavailable \<Rightarrow> Refused \<lparr>ub_index = i, ub_name = name,
               ub_byDevice = (chrome \<noteq> None \<and> buttonAvailability platform name None = Unknown_button)\<rparr>
           | v \<Rightarrow> unavailable_from (Suc i)
                   (needsChrome \<or> v = Unknown_button \<and> chrome = None \<and> platform = ''ios'')
                   platform chrome steps)
      | _ \<Rightarrow> unavailable_from (Suc i) needsChrome platform chrome steps)"

definition unavailableButton :: "step list \<Rightarrow> string \<Rightarrow> chrome option \<Rightarrow> button_verdict" where
  "unavailableButton steps platform chrome = unavailable_from 0 False platform chrome steps"

subsection \<open>What a selector's answer rests on\<close>

text \<open>Whether an element carries anything the selector names.\<close>

definition carries :: "selector \<Rightarrow> ui_element \<Rightarrow> bool" where
  "carries sel e \<longleftrightarrow>
     (case sel_text sel of
        Some t \<Rightarrow> el_identifier e = Some t \<or> el_label e = t \<or> (0 < length t \<and> js_includes t (el_label e))
                  \<or> el_placeholder e = Some t
      | None \<Rightarrow> (case sel_id sel of None \<Rightarrow> True | Some i \<Rightarrow> el_identifier e = Some i)
                  \<and> (case sel_label sel of None \<Rightarrow> True | Some l \<Rightarrow> el_label e = l \<or> js_includes l (el_label e)))"

lemma match_pool_carries: "e \<in> set (match_pool tree sel) \<Longrightarrow> e \<in> set tree \<and> carries sel e"
  by (auto simp: match_pool_def match_text_def match_id_def match_label_def carries_def Let_def
      split: option.splits if_splits)

lemma match_pool_filter: "match_pool (filter (carries sel) tree) sel = match_pool tree sel"
proof (cases "sel_text sel")
  case (Some t)
  have sub: "filter P (filter (carries sel) tree) = filter P tree" if "\<And>e. P e \<Longrightarrow> carries sel e" for P
    using that by (simp add: filter_filter) (metis (no_types, lifting))
  have "filter (\<lambda>e. el_identifier e = Some t) (filter (carries sel) tree) = filter (\<lambda>e. el_identifier e = Some t) tree"
    and "filter (\<lambda>e. el_label e = t) (filter (carries sel) tree) = filter (\<lambda>e. el_label e = t) tree"
    and "filter (\<lambda>e. el_placeholder e = Some t) (filter (carries sel) tree) = filter (\<lambda>e. el_placeholder e = Some t) tree"
    and "0 < length t \<Longrightarrow> filter (\<lambda>e. js_includes t (el_label e)) (filter (carries sel) tree)
           = filter (\<lambda>e. js_includes t (el_label e)) tree"
    by (rule sub, simp add: carries_def Some)+
  then show ?thesis
    by (simp only: match_pool_def Some option.case match_text_def Let_def cong: if_cong)
next
  case None
  let ?I = "match_id (sel_id sel)"
  have sub: "?I (filter (carries sel) tree) = filter (carries sel) (?I tree)"
    by (auto simp: match_id_def filter_filter conj_commute split: option.split)
  show ?thesis
  proof (cases "sel_label sel")
    case l: None
    have "filter (carries sel) (?I tree) = ?I tree"
      by (auto simp: match_id_def carries_def None l filter_filter split: option.split)
    then show ?thesis by (simp add: match_pool_def None l match_label_def sub)
  next
    case l: (Some label)
    have "filter P (filter (carries sel) (?I tree)) = filter P (?I tree)"
      if "\<And>e. P e \<Longrightarrow> el_label e = label \<or> js_includes label (el_label e)" for P
      using that
      by (auto simp: match_id_def carries_def None l filter_filter intro!: filter_cong split: option.split)
    then show ?thesis by (simp add: match_pool_def None l match_label_def sub Let_def)
  qed
qed

lemma matchSelector_filter: "matchSelector (filter (carries sel) tree) sel = matchSelector tree sel"
  by (simp add: matchSelector_def match_pool_filter)

lemma matchSelector_sub: "e \<in> set (matchSelector tree sel) \<Longrightarrow> e \<in> set tree \<and> carries sel e
    \<and> (\<forall>r. sel_role sel = Some r \<longrightarrow> el_role e = r)"
  using match_pool_carries [of e tree sel]
  by (auto simp: matchSelector_def Let_def in_set_conv_nth split: option.splits if_splits
      dest: match_pool_carries nth_mem)

lemma matchSelector_index: "sel_index sel = Some i \<Longrightarrow> length (matchSelector tree sel) \<le> 1"
  by (simp add: matchSelector_def Let_def)

end
