(* ===== verification/Screen_Geometry.thy ===== *)
theory Screen_Geometry
  imports Flow_Types
begin

text \<open>
  Where a pointer on the page lands on the device: \<open>packages/dashboard/lib/coordinate-transform.ts\<close> and
  \<open>packages/protocol/src/screen/index.ts\<close>. A coordinate is a rational. A size is taken to be positive where
  the code divides by it (an element of size zero gives the code \<open>NaN\<close> or \<open>Infinity\<close>, which it does not
  look for); the properties say so.
\<close>

subsection \<open>Turns\<close>

datatype turn = T0 | T90 | T180 | T270

fun degrees :: "turn \<Rightarrow> int" where
  "degrees T0 = 0" | "degrees T90 = 90" | "degrees T180 = 180" | "degrees T270 = 270"

text \<open>\<open>as Turn\<close>, of a number that is one.\<close>

definition as_turn :: "int \<Rightarrow> turn" where
  "as_turn n = (if n = 0 then T0 else if n = 90 then T90 else if n = 180 then T180 else T270)"

definition iosTurn :: "turn option \<Rightarrow> bool \<Rightarrow> turn" where
  "iosTurn streamRotation isLandscape =
     (case streamRotation of Some t \<Rightarrow> t | None \<Rightarrow> if isLandscape then T270 else T0)"

definition turnPoint :: "touch_point \<Rightarrow> turn \<Rightarrow> touch_point" where
  "turnPoint p t =
     (case t of
        T0 \<Rightarrow> p
      | T90 \<Rightarrow> (1 - snd p, fst p)
      | T180 \<Rightarrow> (1 - fst p, 1 - snd p)
      | T270 \<Rightarrow> (snd p, 1 - fst p))"

definition toFramePoint :: "turn option \<Rightarrow> touch_point \<Rightarrow> touch_point" where
  "toFramePoint t p =
     (case t of
        Some T90 \<Rightarrow> (snd p, 1 - fst p)
      | Some T180 \<Rightarrow> (1 - fst p, 1 - snd p)
      | Some T270 \<Rightarrow> (1 - snd p, fst p)
      | _ \<Rightarrow> p)"

text \<open>The value of a body a client parsed itself: a number, or something that is none.\<close>

definition interfaceTurnOf :: "int option \<Rightarrow> turn option" where
  "interfaceTurnOf v = (if v = Some 0 \<or> v = Some 90 \<or> v = Some 180 \<or> v = Some 270 then Some (as_turn (the v)) else None)"

definition composeTurn :: "turn \<Rightarrow> bool \<Rightarrow> turn" where
  "composeTurn streamRotation needsCSSRotation =
     as_turn ((degrees streamRotation + (if needsCSSRotation then 90 else 0)) mod 360)"

definition is_quarter :: "turn \<Rightarrow> bool" where
  "is_quarter t \<longleftrightarrow> t = T90 \<or> t = T270"

definition turnedSize :: "rat \<Rightarrow> rat \<Rightarrow> turn \<Rightarrow> rat \<times> rat" where
  "turnedSize frameW frameH t = (if is_quarter t then frameH else frameW, if is_quarter t then frameW else frameH)"

definition overlaySpace :: "rat \<Rightarrow> rat \<Rightarrow> turn \<Rightarrow> turn \<Rightarrow> (rat \<times> rat) \<times> turn" where
  "overlaySpace frameW frameH totalTurn streamRotation =
     (turnedSize frameW frameH streamRotation, as_turn ((degrees totalTurn - degrees streamRotation + 360) mod 360))"

text \<open>What a session's chrome says of how the device is held.\<close>

datatype chrome_payload =
  Ios_payload "rat option" "turn option" \<comment> \<open>scale basis, stream rotation\<close>
| Android_payload "turn option" \<comment> \<open>body rotation\<close>

datatype held_orientation = Held_portrait | Held_landscape | Held_upside_down

definition chromeOrientation :: "chrome_payload \<Rightarrow> held_orientation option" where
  "chromeOrientation chrome =
     (case (case chrome of
              Ios_payload basis t \<Rightarrow> if basis \<noteq> None then None else t
            | Android_payload t \<Rightarrow> t) of
        Some T0 \<Rightarrow> Some Held_portrait
      | Some T90 \<Rightarrow> Some Held_landscape
      | Some T270 \<Rightarrow> Some Held_landscape
      | Some T180 \<Rightarrow> Some Held_upside_down
      | None \<Rightarrow> None)"

subsection \<open>Pointers\<close>

record box =
  b_left :: rat
  b_top :: rat
  b_width :: rat
  b_height :: rat

definition iosToNormScreen :: "touch_point \<Rightarrow> box \<Rightarrow> rat \<Rightarrow> rat \<Rightarrow> box \<Rightarrow> turn \<Rightarrow> touch_point option" where
  "iosToNormScreen point rect compositeW compositeH screen t =
     (let u = (fst point - b_left rect) / b_width rect;
          v = (snd point - b_top rect) / b_height rect;
          (fx, fy) = (case t of T90 \<Rightarrow> (v, 1 - u) | T180 \<Rightarrow> (1 - u, 1 - v) | T270 \<Rightarrow> (1 - v, u) | T0 \<Rightarrow> (u, v));
          cx = fx * compositeW;
          cy = fy * compositeH
      in if cx < b_left screen \<or> b_left screen + b_width screen < cx \<or> cy < b_top screen \<or> b_top screen + b_height screen < cy
         then None
         else Some ((cx - b_left screen) / b_width screen, (cy - b_top screen) / b_height screen))"

definition androidToNorm :: "touch_point \<Rightarrow> box \<Rightarrow> bool \<Rightarrow> touch_point option" where
  "androidToNorm point rect needsCSSRotation =
     (let xv = (fst point - b_left rect) / b_width rect;
          yv = (snd point - b_top rect) / b_height rect
      in if xv < 0 \<or> 1 < xv \<or> yv < 0 \<or> 1 < yv then None
         else if needsCSSRotation then Some (yv, 1 - xv)
         else Some (xv, yv))"

definition toPinchFingers :: "touch_point \<Rightarrow> touch_point \<times> touch_point" where
  "toPinchFingers f1 = ((1 - fst f1, 1 - snd f1), f1)"

subsection \<open>Sizes\<close>

definition iosDisplayScale :: "rat \<Rightarrow> rat \<Rightarrow> rat" where
  "iosDisplayScale compositeLogicalH maxDisplayH =
     (if 0 < compositeLogicalH then min 1 (maxDisplayH / compositeLogicalH) else 1)"

definition RECORDING_MAX_SIDE :: rat where "RECORDING_MAX_SIDE = 1920"

definition even_side :: "rat \<Rightarrow> rat \<Rightarrow> int" where
  "even_side k n = max 2 (2 * js_round (n * k / 2))"

definition recordingSize :: "rat \<Rightarrow> rat \<Rightarrow> int \<times> int" where
  "recordingSize width height =
     (let k = min 1 (RECORDING_MAX_SIDE / max width height) in (even_side k width, even_side k height))"

record placed =
  p_picW :: rat
  p_picH :: rat
  p_scale :: rat
  p_left :: rat
  p_top :: rat

definition placeTurnedFrame :: "rat \<Rightarrow> rat \<Rightarrow> rat \<Rightarrow> rat \<Rightarrow> turn \<Rightarrow> placed" where
  "placeTurnedFrame canvasW canvasH frameW frameH t =
     (let (picW, picH) = turnedSize frameW frameH t;
          scale = min (canvasW / picW) (canvasH / picH)
      in \<lparr>p_picW = picW, p_picH = picH, p_scale = scale, p_left = (canvasW - picW * scale) / 2,
          p_top = (canvasH - picH * scale) / 2\<rparr>)"

definition surfaceBox :: "turn \<Rightarrow> rat \<Rightarrow> rat \<Rightarrow> box" where
  "surfaceBox t containerW containerH =
     (let width = (if is_quarter t then containerH else containerW);
          height = (if is_quarter t then containerW else containerH)
      in \<lparr>b_left = (containerW - width) / 2, b_top = (containerH - height) / 2, b_width = width, b_height = height\<rparr>)"

definition showsPicture :: "bool \<Rightarrow> bool \<Rightarrow> bool \<Rightarrow> bool \<Rightarrow> bool" where
  "showsPicture ready aspectAgrees frameIsAhead rotating =
     (if \<not> ready \<or> rotating then False else aspectAgrees \<or> \<not> frameIsAhead)"

definition framesAgree :: "(rat \<times> rat) option \<Rightarrow> (rat \<times> rat) option \<Rightarrow> turn \<Rightarrow> bool" where
  "framesAgree video shown streamRotation =
     (case (video, shown) of
        (Some (vw, vh), Some (sw, sh)) \<Rightarrow>
          (let (width, height) = turnedSize vw vh streamRotation in \<bar>width / height - sw / sh\<bar> < 5 / 100)
      | _ \<Rightarrow> True)"

definition remaining :: "rat \<Rightarrow> rat \<Rightarrow> rat" where
  "remaining deadline now = max 0 (deadline - now)"

subsection \<open>A touch lands where it is drawn\<close>

definition unit_square :: "touch_point \<Rightarrow> bool" where
  "unit_square q \<longleftrightarrow> 0 \<le> fst q \<and> fst q \<le> 1 \<and> 0 \<le> snd q \<and> snd q \<le> 1"

text \<open>Where a page shows the point \<open>q\<close> of a picture turned \<open>t\<close> and drawn in \<open>rect\<close>.\<close>

definition shown_at :: "box \<Rightarrow> turn \<Rightarrow> touch_point \<Rightarrow> touch_point" where
  "shown_at rect t q = (b_left rect + fst (turnPoint q t) * b_width rect, b_top rect + snd (turnPoint q t) * b_height rect)"

text \<open>The point \<open>q\<close> of a screen, as a fraction of the bezel it sits in.\<close>

definition in_bezel :: "rat \<Rightarrow> rat \<Rightarrow> box \<Rightarrow> touch_point \<Rightarrow> touch_point" where
  "in_bezel compositeW compositeH screen q =
     ((b_left screen + fst q * b_width screen) / compositeW, (b_top screen + snd q * b_height screen) / compositeH)"

lemma fraction_iff: "0 < w \<Longrightarrow> (x - l) / w = a \<longleftrightarrow> x = l + a * w" for x :: rat
  by (auto simp: field_simps)

lemma scaled_iff: "0 < c \<Longrightarrow> 0 < w \<Longrightarrow> (f * c - l) / w = a \<longleftrightarrow> f = (l + a * w) / c" for f :: rat
  by (auto simp: field_simps)

lemma inside_iff: "0 < w \<Longrightarrow> \<not> (x < l \<or> l + w < x) \<longleftrightarrow> 0 \<le> (x - l) / w \<and> (x - l) / w \<le> 1" for x :: rat
  by (auto simp: field_simps)

lemma turnPoint_toFramePoint: "toFramePoint (Some t) (turnPoint p t) = p" "turnPoint (toFramePoint (Some t) p) t = p"
  by (cases t; simp add: turnPoint_def toFramePoint_def)+

text \<open>\<open>iosToNormScreen\<close>, through the inverse of the turn.\<close>

lemma ios_frame_point:
  "iosToNormScreen point rect cw ch screen t =
     (let f = toFramePoint (Some t) ((fst point - b_left rect) / b_width rect, (snd point - b_top rect) / b_height rect);
          q = ((fst f * cw - b_left screen) / b_width screen, (snd f * ch - b_top screen) / b_height screen)
      in if fst f * cw < b_left screen \<or> b_left screen + b_width screen < fst f * cw
            \<or> snd f * ch < b_top screen \<or> b_top screen + b_height screen < snd f * ch then None else Some q)"
  by (cases t) (simp_all add: iosToNormScreen_def toFramePoint_def Let_def)


definition demo_rect :: box where "demo_rect = \<lparr>b_left = 10, b_top = 30, b_width = 200, b_height = 100\<rparr>"
definition demo_screen :: box where "demo_screen = \<lparr>b_left = 10, b_top = 20, b_width = 80, b_height = 160\<rparr>"


subsection \<open>Turns add up\<close>

lemma degrees_as_turn: "as_turn (degrees t) = t"
  by (cases t) (simp_all add: as_turn_def)

lemma turnPoint_compose: "turnPoint (turnPoint p s) t = turnPoint p (as_turn ((degrees s + degrees t) mod 360))"
  by (cases s; cases t) (simp_all add: turnPoint_def as_turn_def)

text \<open>
 The turns the viewer applies add up. Turning a point by the stream's correction and then by the page's
  quarter is turning it by \<open>composeTurn\<close>; the overlay of a recording, drawn in the frame turned by the stream's
  correction alone, reaches the picture by the turn \<open>overlaySpace\<close> gives, whatever the two are, and the size of
  the picture follows the same rule.
\<close>
theorem turns_add_up:
  "turnPoint (turnPoint p s) (if quarter then T90 else T0) = turnPoint p (composeTurn s quarter)
   \<and> turnPoint (turnPoint p s) (snd (overlaySpace w h whole s)) = turnPoint p whole
   \<and> turnedSize (fst (fst (overlaySpace w h whole s))) (snd (fst (overlaySpace w h whole s))) (snd (overlaySpace w h whole s))
       = turnedSize w h whole"
proof (intro conjI)
  show "turnPoint (turnPoint p s) (if quarter then T90 else T0) = turnPoint p (composeTurn s quarter)"
    unfolding turnPoint_compose by (cases quarter) (simp_all add: composeTurn_def)
  show "turnPoint (turnPoint p s) (snd (overlaySpace w h whole s)) = turnPoint p whole"
    unfolding turnPoint_compose by (cases s; cases whole) (simp_all add: overlaySpace_def as_turn_def)
  show "turnedSize (fst (fst (overlaySpace w h whole s))) (snd (fst (overlaySpace w h whole s))) (snd (overlaySpace w h whole s))
       = turnedSize w h whole"
    by (cases s; cases whole) (simp_all add: overlaySpace_def turnedSize_def is_quarter_def as_turn_def)
qed

subsection \<open>Sizes fit\<close>

lemma even_side_bounds:
  assumes "0 \<le> n * k" and "n * k \<le> 1920"
  shows "even (even_side k n)" "2 \<le> even_side k n" "even_side k n \<le> 1920"
proof -
  have "js_round (n * k / 2) \<le> 960" using assms(2) by (simp add: js_round_def floor_le_iff)
  then show "even (even_side k n)" "2 \<le> even_side k n" "even_side k n \<le> 1920" by (simp_all add: even_side_def max_def)
qed

lemma fits:
  fixes pw ph cw ch :: rat
  assumes "0 < pw" "0 < ph" "0 < cw" "0 < ch"
  defines "s \<equiv> min (cw / pw) (ch / ph)"
  shows "0 < s" "pw * s \<le> cw" "ph * s \<le> ch" "pw * s = cw \<or> ph * s = ch"
proof -
  show "0 < s" using assms by simp
  have "s \<le> cw / pw" "s \<le> ch / ph" by (simp_all add: s_def)
  with assms(1,2) show "pw * s \<le> cw" "ph * s \<le> ch" by (simp_all add: field_simps)
  have "s = cw / pw \<or> s = ch / ph" by (simp add: s_def min_def)
  with assms(1,2) show "pw * s = cw \<or> ph * s = ch" by auto
qed

lemma recording_scale:
  assumes "0 < w" "0 < h"
  defines "k \<equiv> min 1 (RECORDING_MAX_SIDE / max w h)"
  shows "0 < k" "w * k \<le> 1920" "h * k \<le> 1920"
proof -
  have m: "0 < max w h" "w \<le> max w h" "h \<le> max w h" using assms(1) by auto
  then show pos: "0 < k" by (simp add: k_def RECORDING_MAX_SIDE_def)
  have "k \<le> RECORDING_MAX_SIDE / max w h" by (simp add: k_def)
  with m(1) have "max w h * k \<le> 1920" by (simp add: RECORDING_MAX_SIDE_def field_simps)
  moreover have "w * k \<le> max w h * k" "h * k \<le> max w h * k" using m pos by (simp_all add: mult_right_mono)
  ultimately show "w * k \<le> 1920" "h * k \<le> 1920" by linarith+
qed

text \<open>
  What is drawn and what is recorded fit. A recording's sides are even, at least 2 and at most 1920; a turned
  frame is placed at its turned size, not stretched, centred inside its canvas and filling it in one direction; and
  the box of a turned video surface, turned about its middle, is the shell itself.
\<close>
theorem pictures_fit:
  assumes "0 < w" "0 < h" and "0 < canvasW" "0 < canvasH" and "P = placeTurnedFrame canvasW canvasH w h t"
    and "B = surfaceBox t canvasW canvasH" and "recordingSize w h = (rw, rh)"
  shows "even rw \<and> even rh \<and> 2 \<le> rw \<and> rw \<le> 1920 \<and> 2 \<le> rh \<and> rh \<le> 1920
    \<and> (p_picW P, p_picH P) = turnedSize w h t \<and> 0 < p_scale P \<and> 0 \<le> p_left P \<and> 0 \<le> p_top P
    \<and> p_left P + p_picW P * p_scale P + p_left P = canvasW \<and> p_top P + p_picH P * p_scale P + p_top P = canvasH
    \<and> p_left P * p_top P = 0
    \<and> turnedSize (b_width B) (b_height B) t = (canvasW, canvasH)
    \<and> b_left B + b_width B / 2 = canvasW / 2 \<and> b_top B + b_height B / 2 = canvasH / 2"
proof -
  note k = recording_scale [OF assms(1,2)]
  have sides: "even rw \<and> even rh \<and> 2 \<le> rw \<and> rw \<le> 1920 \<and> 2 \<le> rh \<and> rh \<le> 1920"
    using assms(7) even_side_bounds [OF _ k(2)] even_side_bounds [OF _ k(3)] k(1) assms(1,2)
    by (auto simp: recordingSize_def Let_def)
  obtain pw ph where pic: "turnedSize w h t = (pw, ph)" by force
  with assms(1,2) have pos: "0 < pw" "0 < ph" by (auto simp: turnedSize_def split: if_splits)
  have P: "p_picW P = pw" "p_picH P = ph" "p_scale P = min (canvasW / pw) (canvasH / ph)"
    "p_left P = (canvasW - pw * p_scale P) / 2" "p_top P = (canvasH - ph * p_scale P) / 2"
    by (simp_all add: assms(5) placeTurnedFrame_def pic Let_def)
  note fit = fits [OF pos assms(3,4), folded P(3)]
  have "p_left P * p_top P = 0" using fit(4) P(4,5) by auto
  moreover have "0 \<le> p_left P" "0 \<le> p_top P" using fit(2,3) P(4,5) by simp_all
  moreover have "p_left P + pw * p_scale P + p_left P = canvasW" "p_top P + ph * p_scale P + p_top P = canvasH"
    unfolding P(4,5) by (simp_all add: field_simps)
  moreover have "turnedSize (b_width B) (b_height B) t = (canvasW, canvasH)"
    "b_left B + b_width B / 2 = canvasW / 2" "b_top B + b_height B / 2 = canvasH / 2"
    by (auto simp: assms(6) surfaceBox_def turnedSize_def Let_def field_simps)
  ultimately show ?thesis using sides fit(1) P(1,2) pic by simp
qed

theorem pictures_fit_witness:
  "recordingSize 2064 2752 = (1440, 1920) \<and> p_left (placeTurnedFrame 100 100 50 25 T90) = 25 \<and> even (1440 :: int)"
proof -
  have size: "recordingSize 2064 2752 = (1440, 1920)"
    by code_simp
  moreover have "p_left (placeTurnedFrame 100 100 50 25 T90) = 25"
    by (simp add: placeTurnedFrame_def turnedSize_def is_quarter_def min_def)
  ultimately show ?thesis
    using pictures_fit [OF _ _ _ _ refl refl size, of 100 100 T90] by simp
qed

end
