(* ===== verification/Panel_State.thy ===== *)
theory Panel_State
  imports Device_Reads Screen_Geometry
begin

text \<open>
  What the two commands say and what is made of it: the panel a multi-panel simulator shows
  (\<open>packages/ios-agent/src/PanelState.ts\<close>), followed only once it has stayed lit, and how the device is held
  (\<open>PhysicalOrientation.ts\<close>). A document of \<open>devicectl\<close> is the fields the code reads, \<open>None\<close> where one is
  missing or of another type.
\<close>

subsection \<open>Panels\<close>

definition PANEL_HOLD_MS :: ms where "PANEL_HOLD_MS = 4000"
definition FOLD_SETTLE_MS :: ms where "FOLD_SETTLE_MS = 10000"
definition AWAIT_INTERVAL_MS :: ms where "AWAIT_INTERVAL_MS = 300"

record panel_info =
  pn_displayId :: int
  pn_active :: bool
  pn_rotation :: "turn option"

record lit_panel =
  lit_displayId :: int
  lit_rotation :: "turn option"

record panel_reading =
  pr_lit :: "lit_panel option"
  pr_panels :: "panel_info list"

record display_entry =
  de_integrated :: bool
  de_displayId :: "int option"
  de_active :: "bool option"
  de_orientation :: string

definition ROTATIONS :: "string \<Rightarrow> turn option" where
  "ROTATIONS = map_of [(''rot0'', T0), (''rot90'', T90), (''rot180'', T180), (''rot270'', T270)]"

fun parse_panels :: "display_entry list \<Rightarrow> panel_info list option" where
  "parse_panels [] = Some []"
| "parse_panels (d # ds) =
     (if \<not> de_integrated d then parse_panels ds
      else case (de_displayId d, de_active d) of
             (Some i, Some active) \<Rightarrow>
               map_option ((#) \<lparr>pn_displayId = i, pn_active = active, pn_rotation = ROTATIONS (de_orientation d)\<rparr>) (parse_panels ds)
           | _ \<Rightarrow> None)"

definition parseDisplays :: "display_entry list option \<Rightarrow> panel_reading option" where
  "parseDisplays doc =
     (case doc of
        None \<Rightarrow> None
      | Some displays \<Rightarrow>
          (case parse_panels displays of
             None \<Rightarrow> None
           | Some [] \<Rightarrow> None
           | Some panels \<Rightarrow>
               Some \<lparr>pr_lit = map_option (\<lambda>p. \<lparr>lit_displayId = pn_displayId p, lit_rotation = pn_rotation p\<rparr>) (find pn_active panels),
                     pr_panels = panels\<rparr>))"

record panel_memory =
  pm_known :: "panel_reading option"
  pm_candidate :: "(panel_reading \<times> ms) option" \<comment> \<open>a panel not yet held, and since when\<close>

definition no_panels :: panel_memory where
  "no_panels = \<lparr>pm_known = None, pm_candidate = None\<rparr>"

definition lit_of :: "panel_reading \<Rightarrow> int option" where
  "lit_of r = map_option lit_displayId (pr_lit r)"

definition settle :: "panel_reading \<Rightarrow> panel_memory \<Rightarrow> panel_memory" where
  "settle r m = m\<lparr>pm_known := Some r, pm_candidate := None\<rparr>"

definition observe :: "ms \<Rightarrow> ms \<Rightarrow> panel_reading \<Rightarrow> panel_memory \<Rightarrow> panel_memory" where
  "observe holdMs now r m =
     (let followed = Option.bind (pm_known m) lit_of in
      if followed = None \<or> followed = lit_of r then settle r m
      else case pm_candidate m of
             None \<Rightarrow> m\<lparr>pm_candidate := Some (r, now)\<rparr>
           | Some (candidate, since) \<Rightarrow>
               if lit_of candidate \<noteq> lit_of r then m\<lparr>pm_candidate := Some (r, now)\<rparr>
               else if holdMs \<le> now - since then settle r m
               else m\<lparr>pm_candidate := Some (r, since)\<rparr>)"

text \<open>What an answer does to the memory, and what its readers hear.\<close>

definition panel_answer :: "ms \<Rightarrow> ms \<Rightarrow> display_entry list option \<Rightarrow> panel_memory \<Rightarrow> panel_memory \<times> panel_reading option" where
  "panel_answer holdMs now doc m =
     (case parseDisplays doc of
        None \<Rightarrow> (m, None)
      | Some r \<Rightarrow> (if pr_lit r \<noteq> None then observe holdMs now r m else m, Some r))"

definition changing :: "panel_memory \<Rightarrow> bool" where
  "changing m \<longleftrightarrow> pm_candidate m \<noteq> None"

text \<open>One turn of \<open>awaitLit\<close>'s loop, from the answer to its read on.\<close>

datatype 'r awaited = Await_got 'r | Await_gave_up | Await_sleeps

definition awaitLit_turn :: "(panel_reading \<Rightarrow> bool) \<Rightarrow> ms \<Rightarrow> ms \<Rightarrow> panel_reading option \<Rightarrow> panel_memory
    \<Rightarrow> panel_memory \<times> panel_reading awaited" where
  "awaitLit_turn finished deadline now reading m =
     (case reading of
        Some r \<Rightarrow>
          if finished r then (if pr_lit r \<noteq> None then settle r m else m, Await_got r)
          else (m, if deadline < now + AWAIT_INTERVAL_MS then Await_gave_up else Await_sleeps)
      | None \<Rightarrow> (m, if deadline < now + AWAIT_INTERVAL_MS then Await_gave_up else Await_sleeps))"

subsection \<open>How the device is held\<close>

datatype device_orientation = Portrait | LandscapeRight | PortraitUpsideDown | LandscapeLeft

fun ORIENTATION_DEGREES :: "device_orientation \<Rightarrow> turn" where
  "ORIENTATION_DEGREES Portrait = T0"
| "ORIENTATION_DEGREES LandscapeRight = T90"
| "ORIENTATION_DEGREES PortraitUpsideDown = T180"
| "ORIENTATION_DEGREES LandscapeLeft = T270"

definition ORDER :: "device_orientation list" where
  "ORDER = [Portrait, LandscapeRight, PortraitUpsideDown, LandscapeLeft]"

fun index_of :: "'a \<Rightarrow> 'a list \<Rightarrow> int" where
  "index_of x [] = -1"
| "index_of x (y # ys) = (if x = y then 0 else let i = index_of x ys in if i < 0 then i else i + 1)"

definition turned :: "device_orientation \<Rightarrow> bool \<Rightarrow> device_orientation" where
  "turned d clockwise = ORDER ! nat ((index_of d ORDER + (if clockwise then 1 else 3)) mod 4)"

definition known_orientation :: "string \<Rightarrow> device_orientation option" where
  "known_orientation = map_of [(''portrait'', Portrait), (''landscapeRight'', LandscapeRight),
     (''portraitUpsideDown'', PortraitUpsideDown), (''landscapeLeft'', LandscapeLeft)]"

text \<open>\<open>result\<close> with \<open>deviceOrientation\<close> and \<open>deviceOrientationNonFlat\<close>.\<close>

type_synonym orientation_doc = "(string option \<times> string option) option"

definition parseOrientation :: "orientation_doc \<Rightarrow> device_orientation option" where
  "parseOrientation doc =
     (case doc of
        None \<Rightarrow> None
      | Some (held, nonFlat) \<Rightarrow>
          (case Option.bind held known_orientation of
             Some d \<Rightarrow> Some d
           | None \<Rightarrow>
               (case Option.bind nonFlat known_orientation of
                  Some d \<Rightarrow> Some d
                | None \<Rightarrow> if nonFlat = Some ''unknown'' \<or> held = Some ''unknown'' then Some Portrait else None)))"

definition orientation_answer :: "ms \<Rightarrow> orientation_doc \<Rightarrow> device_orientation option \<Rightarrow> device_orientation option \<times> device_orientation option" where
  "orientation_answer now doc m = (case parseOrientation doc of Some d \<Rightarrow> (Some d, Some d) | None \<Rightarrow> (m, None))"

definition note_orientation :: "device_orientation \<Rightarrow> device_orientation option \<Rightarrow> device_orientation option" where
  "note_orientation d m = Some d"

definition awaitOrientation_turn :: "(device_orientation \<Rightarrow> bool) \<Rightarrow> ms \<Rightarrow> ms \<Rightarrow> device_orientation option \<Rightarrow> device_orientation awaited" where
  "awaitOrientation_turn finished deadline now reading =
     (case reading of
        Some r \<Rightarrow>
          if finished r then Await_got r
          else if deadline < now + AWAIT_INTERVAL_MS then Await_gave_up else Await_sleeps
      | None \<Rightarrow> if deadline < now + AWAIT_INTERVAL_MS then Await_gave_up else Await_sleeps)"

subsection \<open>A panel is followed once it has been held\<close>

definition followed :: "panel_memory \<Rightarrow> int option" where
  "followed m = Option.bind (pm_known m) lit_of"

text \<open>
  What can happen to a device's memory: a call of \<open>devicectl\<close> answers, a turn of \<open>awaitLit\<close> has its reading, the device
  is forgotten. (An answer to a call begun before the device was forgotten is dropped by \<open>Device_Reads\<close>.)
\<close>

datatype panel_event =
    Answer_of ms "display_entry list option"
  | Await_turn "panel_reading \<Rightarrow> bool" ms ms "panel_reading option"
  | Forget_device

primrec panel_step :: "ms \<Rightarrow> panel_event \<Rightarrow> panel_memory \<Rightarrow> panel_memory" where
  "panel_step hold (Answer_of now doc) m = fst (panel_answer hold now doc m)"
| "panel_step hold (Await_turn finished deadline now reading) m = fst (awaitLit_turn finished deadline now reading m)"
| "panel_step hold Forget_device m = no_panels"

definition panel_run :: "ms \<Rightarrow> panel_event list \<Rightarrow> panel_memory" where
  "panel_run hold evs = fold (panel_step hold) evs no_panels"

text \<open>
  The specification. The lit panel an answer names, the one an awaited fold arrived at, and, of a history with the newest
  event first, since when a panel has been the only one named: not before a fold that arrived, and not before the device
  was forgotten.
\<close>

definition named_by :: "display_entry list option \<Rightarrow> int option" where
  "named_by doc = Option.bind (parseDisplays doc) lit_of"

definition arrived_at :: "(panel_reading \<Rightarrow> bool) \<Rightarrow> panel_reading option \<Rightarrow> int option" where
  "arrived_at finished reading = (case reading of Some r \<Rightarrow> if finished r then lit_of r else None | None \<Rightarrow> None)"

fun shown_since :: "panel_event list \<Rightarrow> int \<Rightarrow> ms option" where
  "shown_since [] i = None"
| "shown_since (Answer_of now doc # evs) i =
     (if named_by doc = None then shown_since evs i
      else if named_by doc = Some i then (case shown_since evs i of Some t \<Rightarrow> Some t | None \<Rightarrow> Some now)
      else None)"
| "shown_since (Await_turn finished deadline now reading # evs) i =
     (if arrived_at finished reading = None then shown_since evs i else None)"
| "shown_since (Forget_device # evs) i = None"

lemma lit_of_None [simp]: "lit_of r = None \<longleftrightarrow> pr_lit r = None"
  by (simp add: lit_of_def)

lemma panel_step_cases:
  "panel_step hold (Answer_of now doc) m =
     (case parseDisplays doc of None \<Rightarrow> m | Some r \<Rightarrow> if pr_lit r \<noteq> None then observe hold now r m else m)"
  "panel_step hold (Await_turn finished deadline now reading) m =
     (case reading of Some r \<Rightarrow> if finished r \<and> pr_lit r \<noteq> None then settle r m else m | None \<Rightarrow> m)"
  by (auto simp: panel_answer_def awaitLit_turn_def split: option.split)

declare panel_step.simps(1,2) [simp del]

text \<open>The candidate is the one panel that has been named without a break but is not followed.\<close>

definition remembers :: "panel_event list \<Rightarrow> panel_memory \<Rightarrow> bool" where
  "remembers past m \<longleftrightarrow>
     (case pm_candidate m of
        None \<Rightarrow> \<forall>i. Some i \<noteq> followed m \<longrightarrow> shown_since past i = None
      | Some (c, t) \<Rightarrow> followed m \<noteq> None \<and> lit_of c \<noteq> None \<and> lit_of c \<noteq> followed m
          \<and> (\<forall>i. Some i \<noteq> followed m \<longrightarrow> shown_since past i = (if Some i = lit_of c then Some t else None)))"

lemma remembers_settle:
  assumes "\<And>i. Some i \<noteq> lit_of r \<Longrightarrow> shown_since past i = None"
  shows "remembers past (settle r m)"
  using assms by (simp add: remembers_def settle_def followed_def)

lemma remembers_shown:
  assumes "remembers past m" "followed m \<noteq> Some i"
  shows "shown_since past i = (case pm_candidate m of None \<Rightarrow> None | Some (c, t) \<Rightarrow> if lit_of c = Some i then Some t else None)"
proof -
  have "Some i \<noteq> followed m" using assms(2) by metis
  with assms(1) show ?thesis by (auto simp: remembers_def eq_commute [of "Some i"] split: option.splits prod.splits)
qed

lemma remembers_cong: "remembers past m \<Longrightarrow> (\<And>i. shown_since past' i = shown_since past i) \<Longrightarrow> remembers past' m"
proof -
  assume "remembers past m" and same: "\<And>i. shown_since past' i = shown_since past i"
  from same have "shown_since past' = shown_since past" by (rule ext)
  with \<open>remembers past m\<close> show ?thesis unfolding remembers_def by (simp only:)
qed

lemma observe_remembers:
  assumes "remembers past m" and "parseDisplays doc = Some r" and "pr_lit r \<noteq> None"
  shows "remembers (Answer_of now doc # past) (observe hold now r m)"
proof -
  have d: "named_by doc = lit_of r" "lit_of r \<noteq> None" using assms(2,3) by (simp_all add: named_by_def)
  have other: "shown_since (Answer_of now doc # past) i = None" if "Some i \<noteq> lit_of r" for i
    using d that by auto
  note settled = remembers_settle [of r "Answer_of now doc # past" m, OF other]
  show ?thesis
  proof (cases "followed m = None \<or> followed m = lit_of r")
    case True
    then show ?thesis using settled by (simp add: observe_def followed_def Let_def)
  next
    case False
    obtain j where j: "lit_of r = Some j" using d(2) by blast
    show ?thesis
    proof (cases "pm_candidate m")
      case None
      with remembers_shown [OF assms(1), of j] False j have "shown_since past j = None" by simp
      with None False j d other assms(3) show ?thesis
        by (auto simp: observe_def followed_def remembers_def Let_def)
    next
      case (Some p)
      obtain c t where p: "p = (c, t)" by (cases p)
      with remembers_shown [OF assms(1), of j] Some False j have since: "shown_since past j = (if lit_of c = Some j then Some t else None)"
        by simp
      show ?thesis
      proof (cases "lit_of c = lit_of r \<and> hold \<le> now - t")
        case True
        then show ?thesis using settled False Some p by (simp add: observe_def followed_def Let_def)
      next
        case no: False
        then show ?thesis using False Some p j d other since assms(3)
          by (auto simp: observe_def followed_def remembers_def Let_def)
      qed
    qed
  qed
qed

lemma panel_run_snoc: "panel_run hold (evs @ [e]) = panel_step hold e (panel_run hold evs)"
  by (simp add: panel_run_def)

lemma panel_run_remembers: "remembers (rev evs) (panel_run hold evs)"
proof (induction evs rule: rev_induct)
  case Nil
  then show ?case by (simp add: panel_run_def no_panels_def remembers_def)
next
  case (snoc e evs)
  let ?m = "panel_run hold evs"
  show ?case
  proof (cases e)
    case (Answer_of now doc)
    show ?thesis
    proof (cases "named_by doc")
      case None
      then have "panel_step hold e ?m = ?m" by (auto simp: Answer_of panel_step_cases named_by_def split: option.splits)
      with remembers_cong [OF snoc, of "rev (evs @ [e])"] None show ?thesis by (simp add: panel_run_snoc Answer_of)
    next
      case (Some i)
      then obtain r where "parseDisplays doc = Some r" "pr_lit r \<noteq> None"
        by (auto simp: named_by_def lit_of_def bind_eq_Some_conv)
      with observe_remembers [OF snoc this] show ?thesis by (simp add: panel_run_snoc Answer_of panel_step_cases)
    qed
  next
    case (Await_turn finished deadline now reading)
    show ?thesis
    proof (cases "arrived_at finished reading")
      case None
      then have "panel_step hold e ?m = ?m"
        by (auto simp: Await_turn panel_step_cases arrived_at_def split: option.splits if_splits)
      with remembers_cong [OF snoc, of "rev (evs @ [e])"] None show ?thesis by (simp add: panel_run_snoc Await_turn)
    next
      case (Some i)
      then obtain r where "reading = Some r" "finished r" "pr_lit r \<noteq> None"
        by (auto simp: arrived_at_def lit_of_def split: option.splits if_splits)
      moreover have "remembers (rev (evs @ [e])) (settle r ?m)" by (rule remembers_settle) (simp add: Await_turn Some)
      ultimately show ?thesis by (simp add: panel_run_snoc Await_turn panel_step_cases)
    qed
  next
    case Forget_device
    then show ?thesis by (simp add: panel_run_snoc no_panels_def remembers_def)
  qed
qed

lemma observe_followed:
  "followed (observe hold now r m) =
     (if followed m = None \<or> followed m = lit_of r then lit_of r
      else case pm_candidate m of
             None \<Rightarrow> followed m
           | Some (c, since) \<Rightarrow> if lit_of c = lit_of r \<and> hold \<le> now - since then lit_of r else followed m)"
  by (auto simp: observe_def followed_def settle_def split: option.split)

text \<open>
  C34. A panel is followed once it has been held. After any answers, folds waited for and forgettings, the next event
  changes the panel followed in exactly these cases: an answer names a lit panel and none was followed, or that panel has
  been the only one named for the hold time; a fold the agent waited for arrives at a panel, which is followed at once;
  the device is forgotten, and then none is. A shorter stay changes nothing.
\<close>

theorem panel_is_followed_once_held:
  assumes "0 < hold"
  shows "followed (panel_run hold (evs @ [e])) =
     (case e of
        Answer_of now doc \<Rightarrow>
          (case named_by doc of
             None \<Rightarrow> followed (panel_run hold evs)
           | Some i \<Rightarrow>
               if followed (panel_run hold evs) = None
                 \<or> (case shown_since (rev evs) i of Some t \<Rightarrow> hold \<le> now - t | None \<Rightarrow> False)
               then Some i else followed (panel_run hold evs))
      | Await_turn finished deadline now reading \<Rightarrow>
          (case arrived_at finished reading of Some i \<Rightarrow> Some i | None \<Rightarrow> followed (panel_run hold evs))
      | Forget_device \<Rightarrow> None)"
proof (cases e)
  case (Answer_of now doc)
  let ?m = "panel_run hold evs"
  show ?thesis
  proof (cases "named_by doc")
    case None
    then have "panel_step hold e ?m = ?m" by (auto simp: Answer_of panel_step_cases named_by_def split: option.splits)
    with None show ?thesis by (simp add: panel_run_snoc Answer_of)
  next
    case (Some i)
    then obtain r where r: "parseDisplays doc = Some r" "lit_of r = Some i" by (auto simp: named_by_def bind_eq_Some_conv)
    then have "panel_step hold e ?m = observe hold now r ?m" by (auto simp: Answer_of panel_step_cases lit_of_def)
    moreover have "followed (observe hold now r ?m) = (if followed ?m = None
        \<or> (case shown_since (rev evs) i of Some t \<Rightarrow> hold \<le> now - t | None \<Rightarrow> False) then Some i else followed ?m)"
    proof (cases "followed ?m = Some i")
      case False
      with remembers_shown [OF panel_run_remembers [of evs hold] False] r(2) show ?thesis
        by (auto simp: observe_followed split: option.split)
    qed (simp add: observe_followed r(2))
    ultimately show ?thesis by (simp add: panel_run_snoc Answer_of Some)
  qed
next
  case (Await_turn finished deadline now reading)
  then show ?thesis
    by (auto simp: panel_run_snoc panel_step_cases arrived_at_def followed_def settle_def lit_of_def split: option.splits if_splits)
next
  case Forget_device
  then show ?thesis by (simp add: panel_run_snoc no_panels_def followed_def)
qed

definition panel_doc :: "int \<Rightarrow> display_entry list option" where
  "panel_doc i = Some [\<lparr>de_integrated = True, de_displayId = Some 1, de_active = Some (i = 1), de_orientation = ''rot0''\<rparr>,
     \<lparr>de_integrated = True, de_displayId = Some 2, de_active = Some (i = 2), de_orientation = ''rot90''\<rparr>]"

text \<open>The second panel flickers, then stays for four seconds, and then a fold to the first one is waited for.\<close>

definition duo_history :: "panel_event list" where
  "duo_history = [Answer_of 0 (panel_doc 1), Answer_of 900 (panel_doc 2), Answer_of 2000 (panel_doc 1), Answer_of 3000 (panel_doc 2)]"

theorem panel_is_followed_once_held_witness:
  "followed (panel_run PANEL_HOLD_MS (duo_history @ [Answer_of 7000 (panel_doc 2)])) = Some 2
   \<and> followed (panel_run PANEL_HOLD_MS (duo_history @ [Answer_of 6999 (panel_doc 2)])) = Some 1
   \<and> followed (panel_run PANEL_HOLD_MS (duo_history @ [Await_turn (\<lambda>r. True) 9000 3500 (parseDisplays (panel_doc 2))])) = Some 2"
proof -
  have hold: "0 < PANEL_HOLD_MS" by (simp add: PANEL_HOLD_MS_def)
  have seen: "followed (panel_run PANEL_HOLD_MS duo_history) = Some 1" "named_by (panel_doc 2) = Some 2"
    "shown_since (rev duo_history) 2 = Some 3000" "arrived_at (\<lambda>r. True) (parseDisplays (panel_doc 2)) = Some 2"
    by code_simp+
  have hold': "PANEL_HOLD_MS \<le> 4000" "\<not> PANEL_HOLD_MS \<le> 3999" by (simp_all add: PANEL_HOLD_MS_def)
  show ?thesis
    unfolding panel_is_followed_once_held [OF hold] by (simp add: seen hold')
qed

text \<open>A reader that asks while a call runs, which is then of a forgotten device, gets the next call's reading.\<close>

theorem reads_are_fresh_witness:
  "snd (reads_step (panel_answer PANEL_HOLD_MS) no_panels (Ends 9 (Some (panel_doc 2)))
     (fst (run (reads_step (panel_answer PANEL_HOLD_MS) no_panels)
        (Asks 7 # [Forgets, Ends 5 (Some (panel_doc 1))])
        (fst (read 3 (new_reads no_panels) :: panel_memory reads \<times> panel_reading read_fx list)))))
     = [Answered 7 (parseDisplays (panel_doc 2))]
   \<and> (\<exists>b. Call_started \<in> set (snd (reads_step (panel_answer PANEL_HOLD_MS) no_panels b
        (fst (run (reads_step (panel_answer PANEL_HOLD_MS) no_panels) [Asks 7, Forgets]
          (fst (read 3 (new_reads no_panels) :: panel_memory reads \<times> panel_reading read_fx list)))))))"
proof -
  let ?step = "reads_step (panel_answer PANEL_HOLD_MS) no_panels"
  let ?st = "fst (read 3 (new_reads no_panels) :: panel_memory reads \<times> panel_reading read_fx list)"
  let ?s = "fst (run ?step (Asks 7 # [Forgets, Ends 5 (Some (panel_doc 1))]) ?st)"
  have told: "snd (?step (Ends 9 (Some (panel_doc 2))) ?s) = [Answered 7 (parseDisplays (panel_doc 2))]" by code_simp
  moreover have "7 \<notin># waiting_readers ?st" by (simp add: waiting_readers_def read_def new_reads_def startFlight_def)
  moreover have "Asks 7 \<notin> set [Forgets, Ends 5 (Some (panel_doc 1))]" by simp
  ultimately have "\<exists>before b during now doc. Asks 7 # [Forgets, Ends 5 (Some (panel_doc 1))] = before @ b # during
      \<and> Call_started \<in> set (snd (?step b (fst (run ?step before ?st))))
      \<and> (\<forall>t d. Ends t d \<notin> set during) \<and> Ends 9 (Some (panel_doc 2)) = Ends now doc"
    using reads_are_fresh [where who = 7 and st = ?st and s = ?s and r = "parseDisplays (panel_doc 2)" and e = "Ends 9 (Some (panel_doc 2))",
      OF _ _ refl] by (metis list.set_intros(1))
  then obtain before b during where
    "[Asks 7, Forgets, Ends 5 (Some (panel_doc 1))] = before @ b # during"
    "Call_started \<in> set (snd (?step b (fst (run ?step before ?st))))" "Ends 5 (Some (panel_doc 1)) \<notin> set during" by auto
  moreover from this have "before = [Asks 7, Forgets]"
    by (auto simp: Cons_eq_append_conv append_eq_Cons_conv)
  ultimately show ?thesis using told by blast
qed

end
