(* ===== verification/Flow_Describe.thy ===== *)
theory Flow_Describe
  imports Flow_Types
begin

text \<open>
  How a step is named (\<open>packages/flow-runner/src/engine.ts\<close>): \<open>describeStep\<close> for the run's own record and
  \<open>activityLabel\<close> for the watchers of the session. How the language writes a number and a JSON value is
  an argument (\<open>texts\<close>); the arrow and the multiplication sign of a swipe's and a pinch's name are
  written in ASCII.
\<close>

record texts =
  num_text :: "rat \<Rightarrow> string" \<comment> \<open>a number in a template string\<close>
  json_text :: "launch_arg \<Rightarrow> string" \<comment> \<open>\<open>JSON.stringify\<close>\<close>

definition join :: "string \<Rightarrow> string list \<Rightarrow> string" where
  "join sep xs = (case xs of [] \<Rightarrow> [] | y # ys \<Rightarrow> y @ concat (map (\<lambda>s. sep @ s) ys))"

definition quoted :: "string \<Rightarrow> string" where
  "quoted s = [CHR 0x22] @ s @ [CHR 0x22]"

definition opt_part :: "('a \<Rightarrow> string) \<Rightarrow> 'a option \<Rightarrow> string list" where
  "opt_part f x = (case x of None \<Rightarrow> [] | Some v \<Rightarrow> [f v])"

definition describeSelector :: "texts \<Rightarrow> selector \<Rightarrow> string" where
  "describeSelector T sel =
     (case sel_text sel of
        Some t \<Rightarrow> quoted t
      | None \<Rightarrow> join '', ''
          (opt_part (\<lambda>i. ''id='' @ quoted i) (sel_id sel)
           @ opt_part (\<lambda>l. ''label='' @ quoted l) (sel_label sel)
           @ opt_part (\<lambda>r. ''role='' @ r) (sel_role sel)
           @ opt_part (\<lambda>n. ''index='' @ num_text T (of_nat n)) (sel_index sel)))"

definition entries :: "'a list option \<Rightarrow> 'a list" where
  "entries m = (case m of None \<Rightarrow> [] | Some xs \<Rightarrow> xs)"

definition env_part :: "string list \<Rightarrow> string list" where
  "env_part env = (if 0 < length env then [''env '' @ join '', '' env] else [])"

definition describeLaunchOptions :: "texts \<Rightarrow> launch_options \<Rightarrow> string" where
  "describeLaunchOptions T opts =
     (let args = map (\<lambda>(k, v). k @ ''='' @ json_text T v) (entries (lo_arguments opts));
          env = map (\<lambda>(k, v). k @ ''=***'') (entries (lo_env opts))
      in join '', '' (args @ env_part env))"

definition has_own :: "string \<Rightarrow> (string \<times> 'a) list option \<Rightarrow> bool" where
  "has_own k m \<longleftrightarrow> k \<in> set (map fst (entries m))"

definition describeLaunch :: "texts \<Rightarrow> launch_options option \<Rightarrow> launch_applied option \<Rightarrow> string" where
  "describeLaunch T options applied =
     (let own = (case options of Some opts \<Rightarrow> describeLaunchOptions T opts | None \<Rightarrow> []);
          args = (case applied of Some a \<Rightarrow>
                    filter (\<lambda>k. \<not> has_own k (Option.bind options lo_arguments)) (la_arguments a) | None \<Rightarrow> []);
          env = (case applied of Some a \<Rightarrow>
                    filter (\<lambda>k. \<not> has_own k (Option.bind options lo_env)) (la_env a) | None \<Rightarrow> []);
          config = join '', '' (args @ env_part env);
          parts = join ''; '' (filter (\<lambda>p. p \<noteq> [])
                    [own, if config \<noteq> [] then ''config: '' @ config else []])
      in if parts \<noteq> [] then ''launchApp('' @ parts @ '')'' else ''launchApp'')"

fun modifier_name :: "key_modifier \<Rightarrow> string" where
  "modifier_name Shift = ''shift''"
| "modifier_name Ctrl = ''ctrl''"
| "modifier_name Alt = ''alt''"
| "modifier_name Meta = ''meta''"

definition withModifiers :: "key_modifier list option \<Rightarrow> string \<Rightarrow> string" where
  "withModifiers modifiers key =
     (case modifiers of
        Some (m # ms) \<Rightarrow> join ''+'' (map modifier_name (m # ms)) @ ''+'' @ key
      | _ \<Rightarrow> key)"

fun direction_name :: "direction \<Rightarrow> string" where
  "direction_name Up = ''up''"
| "direction_name Down = ''down''"
| "direction_name Left = ''left''"
| "direction_name Right = ''right''"

definition point_text :: "texts \<Rightarrow> point \<Rightarrow> string" where
  "point_text T p = num_text T (fst p) @ '','' @ num_text T (snd p)"

fun orientation_name :: "orientation \<Rightarrow> string" where
  "orientation_name Portrait = ''portrait''"
| "orientation_name Landscape = ''landscape''"

fun posture_name :: "posture \<Rightarrow> string" where
  "posture_name Folded = ''folded''"
| "posture_name Unfolded = ''unfolded''"

definition call_text :: "string \<Rightarrow> string \<Rightarrow> string" where
  "call_text f arg = f @ ''('' @ arg @ '')''"

fun describeStep :: "texts \<Rightarrow> step \<Rightarrow> string" where
  "describeStep T (Clear_state appId) =
     (case appId of Some (c # cs) \<Rightarrow> call_text ''clearState'' (c # cs) | _ \<Rightarrow> ''clearState'')"
| "describeStep T (Launch_app options) = describeLaunch T options None"
| "describeStep T (Tap_on sel) = call_text ''tapOn'' (describeSelector T sel)"
| "describeStep T (Input_text text) = call_text ''inputText'' (quoted text)"
| "describeStep T (Press_key code modifiers) = call_text ''pressKey'' (withModifiers modifiers code)"
| "describeStep T (Swipe p q ms) = call_text ''swipe'' (point_text T p @ '' -> '' @ point_text T q)"
| "describeStep T (Scroll d until) =
     call_text ''scroll'' (case until of
        Some sel \<Rightarrow> direction_name d @ '' until '' @ describeSelector T sel | None \<Rightarrow> direction_name d)"
| "describeStep T (Open_url url) = call_text ''openUrl'' url"
| "describeStep T (Assert_visible sel) = call_text ''assertVisible'' (describeSelector T sel)"
| "describeStep T (Assert_not_visible sel) = call_text ''assertNotVisible'' (describeSelector T sel)"
| "describeStep T (Press_button name) = call_text ''pressButton'' name"
| "describeStep T (Long_press_on sel ms) =
     call_text ''longPressOn'' (describeSelector T sel @ '', '' @ num_text T ms @ ''ms'')"
| "describeStep T (Pinch on scale ms) =
     call_text ''pinch'' ((case on of On_point p \<Rightarrow> ''['' @ point_text T p @ '']''
                                   | On_selector sel \<Rightarrow> describeSelector T sel) @ '', x'' @ num_text T scale)"
| "describeStep T (Set_orientation ori) = call_text ''setOrientation'' (orientation_name ori)"
| "describeStep T (Set_posture p) = call_text ''setPosture'' (posture_name p)"

subsection \<open>What the watchers see\<close>

definition is_upper :: "char \<Rightarrow> bool" where
  "is_upper c \<longleftrightarrow> (let n = of_char c :: nat in 65 \<le> n \<and> n \<le> 90)"

definition is_digit :: "char \<Rightarrow> bool" where
  "is_digit c \<longleftrightarrow> (let n = of_char c :: nat in 48 \<le> n \<and> n \<le> 57)"

definition one_after :: "string \<Rightarrow> (char \<Rightarrow> bool) \<Rightarrow> string \<Rightarrow> bool" where
  "one_after p f s \<longleftrightarrow> length s = Suc (length p) \<and> starts_with p s \<and> f (last s)"

definition NUMPAD_KEYS :: "string list" where
  "NUMPAD_KEYS = [''Add'', ''Subtract'', ''Multiply'', ''Divide'', ''Decimal'', ''Comma'', ''Equal'',
     ''ParenLeft'', ''ParenRight'', ''Hash'', ''Star'']"

definition CHARACTER_KEYS :: "string list" where
  "CHARACTER_KEYS = [''Space'', ''Minus'', ''Equal'', ''BracketLeft'', ''BracketRight'', ''Backslash'',
     ''Semicolon'', ''Quote'', ''Backquote'', ''Comma'', ''Period'', ''Slash'', ''IntlBackslash'', ''IntlRo'', ''IntlYen'']"

definition typesCharacter :: "string \<Rightarrow> bool" where
  "typesCharacter code \<longleftrightarrow>
     one_after ''Key'' is_upper code \<or> one_after ''Digit'' is_digit code \<or> one_after ''Numpad'' is_digit code
     \<or> code \<in> set (map (\<lambda>k. ''Numpad'' @ k) NUMPAD_KEYS) \<or> code \<in> set CHARACTER_KEYS
     \<or> length code = 1"

definition activityLabel :: "texts \<Rightarrow> step \<Rightarrow> string" where
  "activityLabel T s =
     (case s of
        Input_text text \<Rightarrow> ''inputText ('' @ num_text T (of_nat (length text)) @ '' chars)''
      | Open_url url \<Rightarrow> ''openUrl''
      | Press_key code modifiers \<Rightarrow>
          call_text ''pressKey'' (withModifiers modifiers (if typesCharacter code then ''character'' else code))
      | _ \<Rightarrow> describeStep T s)"

text \<open>
  Two steps that differ only in what a flow means to keep to itself: the text it types, the URL it
  opens, which character a key types, and the values of the environment it launches with.
\<close>

definition same_but_env :: "launch_options \<Rightarrow> launch_options \<Rightarrow> bool" where
  "same_but_env a b \<longleftrightarrow> lo_arguments a = lo_arguments b \<and> map fst (entries (lo_env a)) = map fst (entries (lo_env b))"

inductive same_to_watchers :: "step \<Rightarrow> step \<Rightarrow> bool" where
  same_text: "length a = length b \<Longrightarrow> same_to_watchers (Input_text a) (Input_text b)"
| same_url: "same_to_watchers (Open_url a) (Open_url b)"
| same_key: "typesCharacter a \<Longrightarrow> typesCharacter b \<Longrightarrow> same_to_watchers (Press_key a ms) (Press_key b ms)"
| same_launch: "same_but_env a b \<Longrightarrow> same_to_watchers (Launch_app (Some a)) (Launch_app (Some b))"
| same_step: "same_to_watchers s s"

code_pred (modes: i \<Rightarrow> i \<Rightarrow> bool) same_to_watchers .

lemma describeLaunchOptions_cong:
  assumes "same_but_env a b"
  shows "describeLaunchOptions T a = describeLaunchOptions T b"
proof -
  have names: "map (\<lambda>(k, v). k @ ''=***'') xs = map (\<lambda>k. k @ ''=***'') (map fst xs)" for xs :: "(string \<times> string) list"
    by (induction xs) auto
  show ?thesis
    using assms unfolding describeLaunchOptions_def same_but_env_def names by (simp only:)
qed

lemma activityLabel_same: "same_to_watchers s t \<Longrightarrow> activityLabel T s = activityLabel T t"
  by (induction rule: same_to_watchers.induct)
    (auto simp: activityLabel_def describeLaunch_def describeLaunchOptions_cong)

end
