(* ===== verification/Flow_Poll.thy ===== *)
theory Flow_Poll
  imports Flow_Describe
begin

text \<open>
  Waiting for the screen (\<open>packages/flow-runner/src/engine.ts\<close> and \<open>errors.ts\<close>). The driver is an
  argument, as \<open>FlowDriver\<close> is in the code: a record of functions on a state \<open>'w\<close> the model knows nothing
  about, with the clock and the timers. An operation returns the new state, what it did in order
  (\<open>driver_fx\<close>), and its value or the error it throws. A polling loop takes fuel, one unit for a read
  of the screen; \<open>poll_loop_returns\<close> says how much is enough. The suggestions a failed step carries
  and the \<open>cause\<close> of an error are left out.
\<close>

subsection \<open>Errors\<close>

datatype err_class = Step_failure | Environment | Device_lacks | Transient | Other_error

record flow_error =
  err_class :: err_class
  err_marked :: bool \<comment> \<open>in \<open>markedEnvironmentFailures\<close>\<close>
  err_message :: string

definition new_error :: "err_class \<Rightarrow> string \<Rightarrow> flow_error" where
  "new_error c msg = \<lparr>err_class = c, err_marked = False, err_message = msg\<rparr>"

definition markEnvironmentFailure :: "flow_error \<Rightarrow> flow_error" where
  "markEnvironmentFailure e = e\<lparr>err_marked := True\<rparr>"

definition isEnvironmentStepFailure :: "flow_error \<Rightarrow> bool" where
  "isEnvironmentStepFailure e \<longleftrightarrow> err_class e = Environment \<or> err_class e = Device_lacks \<or> err_marked e"

subsection \<open>The driver\<close>

type_synonym fingers = "point \<times> point"

datatype action =
    Do_clear_state string
  | Do_launch "launch_options option"
  | Do_tap rat rat
  | Do_swipe point point rat
  | Do_input_text string
  | Do_press_key string "key_modifier list option"
  | Do_open_url string
  | Do_press_button string
  | Do_long_press rat rat rat
  | Do_pinch fingers fingers rat
  | Do_set_orientation orientation ms
  | Do_set_posture posture ms

text \<open>The bool with an error says whether the query was cut off by its own abort signal.\<close>

datatype query_reply = Answered "ui_element list" | Query_failed flow_error bool
datatype shot_reply = Shot "nat list" | Shot_failed | Shot_late

record 'w flow_host =
  clk :: "'w \<Rightarrow> ms"
  sleep :: "ms \<Rightarrow> 'w \<Rightarrow> 'w"
  query :: "ms \<Rightarrow> 'w \<Rightarrow> 'w \<times> query_reply"
  act :: "action \<Rightarrow> 'w \<Rightarrow> 'w \<times> (flow_error + launch_applied option)"
  shoot :: "ms \<Rightarrow> 'w \<Rightarrow> 'w \<times> shot_reply"
  chrome_of :: "(ms \<Rightarrow> 'w \<Rightarrow> 'w \<times> (flow_error + chrome option)) option"
  host_texts :: texts

datatype query_outcome = Got "ui_element list" | Blip flow_error bool | Thrown flow_error

datatype driver_fx =
    Read query_outcome
  | Did action "flow_error option"
  | Mark_start nat string string
  | Mark_end nat string bool
  | Took_shot
  | Asked_chrome

subsection \<open>Timeouts\<close>

definition MAX_TIMER_MS :: ms where "MAX_TIMER_MS = 2147483647"
definition DEFAULT_TIMEOUT_MS :: ms where "DEFAULT_TIMEOUT_MS = 10000"
definition DEFAULT_POLL_INTERVAL_MS :: ms where "DEFAULT_POLL_INTERVAL_MS = 500"

text \<open>The label and the number in the messages are kept; the number is dropped where it is not finite.\<close>

definition normalizeTimeoutMs :: "texts \<Rightarrow> jnum \<Rightarrow> string \<Rightarrow> flow_error + ms" where
  "normalizeTimeoutMs T val label =
     (let range = Inl (new_error Environment
            (label @ '' must be a positive finite duration no greater than '' @ num_text T (of_int MAX_TIMER_MS) @ ''ms''))
      in case val of
        Not_finite \<Rightarrow> range
      | Num v \<Rightarrow>
          if v \<le> 0 \<or> of_int MAX_TIMER_MS < v then range
          else (let rounded = js_round v in
            if rounded \<le> 0
            then Inl (new_error Environment
                   (label @ '' must be at least 1ms (got '' @ num_text T v @ ''ms, which rounds to 0ms)''))
            else Inr rounded))"

definition selector_wait :: "texts \<Rightarrow> selector \<Rightarrow> ms \<Rightarrow> flow_error + ms" where
  "selector_wait T sel timeoutMs =
     normalizeTimeoutMs T (case sel_timeoutMs sel of Some t \<Rightarrow> t | None \<Rightarrow> Num (of_int timeoutMs)) ''selector timeout''"

lemma normalizeTimeoutMs_bounds:
  assumes "normalizeTimeoutMs T v label = Inr t"
  shows "1 \<le> t \<and> t \<le> MAX_TIMER_MS"
proof (cases v)
  case (Num x)
  with assms have "t = js_round x" "x \<le> of_int MAX_TIMER_MS" "1 \<le> t"
    by (auto simp: normalizeTimeoutMs_def Let_def split: if_splits)
  moreover have "js_round x \<le> MAX_TIMER_MS"
  proof -
    have "x + 1 / 2 < of_int (MAX_TIMER_MS + 1)" using calculation(2) by simp
    then have "\<lfloor>x + 1 / 2\<rfloor> < MAX_TIMER_MS + 1" by (simp only: floor_less_iff)
    then show ?thesis by (simp add: js_round_def)
  qed
  ultimately show ?thesis by simp
qed (use assms in \<open>simp add: normalizeTimeoutMs_def Let_def\<close>)

subsection \<open>One read\<close>

definition queryOrRetry :: "'w flow_host \<Rightarrow> ms \<Rightarrow> 'w \<Rightarrow> 'w \<times> query_outcome" where
  "queryOrRetry H deadline w =
     (case query H (max 1 (deadline - clk H w)) w of
        (w', Answered tree) \<Rightarrow> (w', Got tree)
      | (w', Query_failed e aborted) \<Rightarrow>
          (w', if err_class e = Transient then Blip e aborted else Thrown e))"

text \<open>The last transient error, with whether it was cut off at the deadline.\<close>

type_synonym last_error = "(flow_error \<times> bool) option"

definition latestError :: "last_error \<Rightarrow> flow_error \<times> bool \<Rightarrow> last_error" where
  "latestError prev next = (if prev \<noteq> None \<and> snd next then prev else Some next)"

definition withLastError :: "string \<Rightarrow> last_error \<Rightarrow> string" where
  "withLastError base lastError =
     (case lastError of Some (e, _) \<Rightarrow> base @ '' (last query error: '' @ err_message e @ '')'' | None \<Rightarrow> base)"

definition queryDeadlineFailure :: "string \<Rightarrow> last_error \<Rightarrow> flow_error" where
  "queryDeadlineFailure base lastError =
     new_error (if lastError \<noteq> None then Environment else Step_failure) (withLastError base lastError)"

definition deadlineError :: "string \<Rightarrow> last_error \<Rightarrow> bool \<Rightarrow> flow_error" where
  "deadlineError base lastError sawTree =
     (if \<not> sawTree then queryDeadlineFailure base lastError
      else new_error Step_failure
             (withLastError base (case lastError of Some (e, True) \<Rightarrow> None | l \<Rightarrow> l)))"

definition waitForNextPoll ::
  "'w flow_host \<Rightarrow> ms \<Rightarrow> ms \<Rightarrow> string \<Rightarrow> last_error \<Rightarrow> bool \<Rightarrow> 'w \<Rightarrow> 'w \<times> flow_error option" where
  "waitForNextPoll H deadline pollMs base lastError sawTree w =
     (let remaining = deadline - clk H w in
      if remaining \<le> 0 then (w, Some (deadlineError base lastError sawTree))
      else (let w' = sleep H (min pollMs remaining) w in
        (w', if deadline \<le> clk H w' then Some (deadlineError base lastError sawTree) else None)))"

subsection \<open>The polling loop\<close>

text \<open>
  \<open>resolveOne\<close>, \<open>waitVisible\<close>, \<open>waitNotVisible\<close> and \<open>scrollUntil\<close> are one loop with different ways to
  judge a screen: a screen is either decided, with a value or an error, or changes what the loop
  remembers. \<open>scrollUntil\<close> also swipes after a screen it did not decide.
\<close>

type_synonym ('s, 'a) judge = "'s \<Rightarrow> ui_element list \<Rightarrow> 's \<times> (flow_error + 'a) option"

definition perform :: "'w flow_host \<Rightarrow> action \<Rightarrow> 'w \<Rightarrow> 'w \<times> driver_fx \<times> (flow_error + launch_applied option)" where
  "perform H a w =
     (case act H a w of
        (w', Inl e) \<Rightarrow> (w', Did a (Some e), Inl e)
      | (w', Inr v) \<Rightarrow> (w', Did a None, Inr v))"

definition nudged :: "'w flow_host \<Rightarrow> action option \<Rightarrow> 'w \<Rightarrow> 'w \<times> driver_fx list \<times> flow_error option" where
  "nudged H nudge w =
     (case nudge of
        None \<Rightarrow> (w, [], None)
      | Some a \<Rightarrow> (case perform H a w of
            (w', fx, Inl e) \<Rightarrow> (w', [fx], Some e)
          | (w', fx, Inr _) \<Rightarrow> (w', [fx], None)))"

definition poll_pause ::
  "'w flow_host \<Rightarrow> ms \<Rightarrow> ms \<Rightarrow> string \<Rightarrow> action option \<Rightarrow> last_error \<Rightarrow> bool \<Rightarrow> 'w
     \<Rightarrow> 'w \<times> driver_fx list \<times> flow_error option" where
  "poll_pause H pollMs deadline base nudge lastError sawTree w =
     (if deadline \<le> clk H w then (w, [], Some (deadlineError base lastError sawTree))
      else (case nudged H nudge w of
          (w', fx, Some e) \<Rightarrow> (w', fx, Some e)
        | (w', fx, None) \<Rightarrow>
            (case waitForNextPoll H deadline pollMs base lastError sawTree w' of
               (w'', e) \<Rightarrow> (w'', fx, e))))"

fun poll_loop ::
  "nat \<Rightarrow> 'w flow_host \<Rightarrow> ms \<Rightarrow> ms \<Rightarrow> string \<Rightarrow> action option \<Rightarrow> ('s, 'a) judge \<Rightarrow> 's \<Rightarrow> last_error \<Rightarrow> bool \<Rightarrow> 'w
     \<Rightarrow> ('w \<times> driver_fx list \<times> (flow_error + 'a)) option" where
  "poll_loop 0 H pollMs deadline base nudge judge s lastError sawTree w = None"
| "poll_loop (Suc n) H pollMs deadline base nudge judge s lastError sawTree w =
     (case queryOrRetry H deadline w of
        (w1, Thrown e) \<Rightarrow> Some (w1, [Read (Thrown e)], Inl e)
      | (w1, Got tree) \<Rightarrow>
          (case judge s tree of
             (s', Some v) \<Rightarrow> Some (w1, [Read (Got tree)], v)
           | (s', None) \<Rightarrow>
               (case poll_pause H pollMs deadline base nudge None True w1 of
                  (w2, fx, Some e) \<Rightarrow> Some (w2, Read (Got tree) # fx, Inl e)
                | (w2, fx, None) \<Rightarrow>
                    map_option (\<lambda>(w', tr, r). (w', Read (Got tree) # fx @ tr, r))
                      (poll_loop n H pollMs deadline base nudge judge s' None True w2)))
      | (w1, Blip e aborted) \<Rightarrow>
          (let last = latestError lastError (e, aborted) in
           case poll_pause H pollMs deadline base None last sawTree w1 of
             (w2, fx, Some e') \<Rightarrow> Some (w2, Read (Blip e aborted) # fx, Inl e')
           | (w2, fx, None) \<Rightarrow>
               map_option (\<lambda>(w', tr, r). (w', Read (Blip e aborted) # fx @ tr, r))
                 (poll_loop n H pollMs deadline base nudge judge s last sawTree w2)))"

subsection \<open>What the loop does\<close>

text \<open>
  The clock the loop relies on: it never runs backwards, and a timer that is asked to wait takes at
  least a millisecond.
\<close>

definition clock_ok :: "'w flow_host \<Rightarrow> bool" where
  "clock_ok H \<longleftrightarrow>
     (\<forall>b w. clk H w \<le> clk H (fst (query H b w)))
     \<and> (\<forall>a w. clk H w \<le> clk H (fst (act H a w)))
     \<and> (\<forall>m w. clk H w \<le> clk H (sleep H m w) \<and> (1 \<le> m \<longrightarrow> clk H w + 1 \<le> clk H (sleep H m w)))"

lemma clock_okD:
  assumes "clock_ok H"
  shows "query H b w = (w', q) \<Longrightarrow> clk H w \<le> clk H w'"
    and "act H a w = (w'', r) \<Longrightarrow> clk H w \<le> clk H w''"
    and "clk H w \<le> clk H (sleep H m w)"
    and "1 \<le> m \<Longrightarrow> clk H w + 1 \<le> clk H (sleep H m w)"
  using assms unfolding clock_ok_def by (metis fst_conv)+

lemma queryOrRetry_clk: "clock_ok H \<Longrightarrow> queryOrRetry H d w = (w', q) \<Longrightarrow> clk H w \<le> clk H w'"
  by (auto simp: queryOrRetry_def split: prod.splits query_reply.splits if_splits dest: clock_okD(1))

lemma nudged_clk: "clock_ok H \<Longrightarrow> nudged H a w = (w', fx, e) \<Longrightarrow> clk H w \<le> clk H w'"
  by (auto simp: nudged_def perform_def split: prod.splits sum.splits option.splits dest: clock_okD(2))

lemma waitForNextPoll_clk:
  assumes "clock_ok H" and "1 \<le> pollMs" and "waitForNextPoll H d pollMs base l saw w = (w', None)"
  shows "clk H w + 1 \<le> clk H w' \<and> clk H w' < d"
  using assms(2,3) clock_okD(4) [OF assms(1), of "min pollMs (d - clk H w)" w]
  by (auto simp: waitForNextPoll_def Let_def split: if_splits)

lemma poll_pause_clk:
  assumes "clock_ok H" and "1 \<le> pollMs" and "poll_pause H pollMs d base nudge l saw w = (w', fx, None)"
  shows "clk H w + 1 \<le> clk H w' \<and> clk H w' < d"
proof -
  obtain w1 fx1 where "nudged H nudge w = (w1, fx1, None)" "waitForNextPoll H d pollMs base l saw w1 = (w', None)"
    using assms(3) by (auto simp: poll_pause_def split: if_splits prod.splits option.splits)
  then show ?thesis
    using nudged_clk [OF assms(1)] waitForNextPoll_clk [OF assms(1,2)] by fastforce
qed

lemma poll_loop_returns:
  assumes "clock_ok H" and "1 \<le> pollMs" and "nat (d - clk H w) < n"
  shows "poll_loop n H pollMs d base nudge judge s l saw w \<noteq> None"
  using assms(3)
proof (induction n arbitrary: s l saw w)
  case (Suc n)
  obtain w1 q where q: "queryOrRetry H d w = (w1, q)" by fastforce
  have again: "poll_loop n H pollMs d base nudge judge s' l' saw' w2 \<noteq> None"
    if "poll_pause H pollMs d base a l' saw' w1 = (w2, fx, None)" for a l' saw' w2 fx s'
  proof (rule Suc.IH)
    from poll_pause_clk [OF assms(1,2) that] queryOrRetry_clk [OF assms(1) q]
    have "clk H w + 1 \<le> clk H w2" "clk H w2 < d" by simp_all
    with Suc.prems show "nat (d - clk H w2) < n" by linarith
  qed
  show ?case
    using again
    by (simp add: q Let_def split: query_outcome.splits prod.splits option.splits) blast
qed simp

text \<open>The screens a run of the loop read, in order.\<close>

fun screens :: "driver_fx list \<Rightarrow> ui_element list list" where
  "screens [] = []"
| "screens (Read (Got t) # tr) = t # screens tr"
| "screens (_ # tr) = screens tr"

lemma screens_append [simp]: "screens (a @ b) = screens a @ screens b"
  by (induction a rule: screens.induct) auto

definition acted :: "driver_fx list \<Rightarrow> action list" where
  "acted tr = concat (map (\<lambda>f. case f of Did a _ \<Rightarrow> [a] | _ \<Rightarrow> []) tr)"

lemma acted_simps [simp]:
  "acted [] = []" "acted (Did a e # tr) = a # acted tr" "acted (Read q # tr) = acted tr"
  "acted (Mark_start i nm lb # tr) = acted tr" "acted (Mark_end i nm ok # tr) = acted tr"
  "acted (Took_shot # tr) = acted tr" "acted (Asked_chrome # tr) = acted tr"
  "acted (tr @ tr') = acted tr @ acted tr'"
  by (simp_all add: acted_def)

text \<open>An error the driver itself threw, at a read or at an action.\<close>

definition driver_threw :: "flow_error \<Rightarrow> driver_fx list \<Rightarrow> bool" where
  "driver_threw e tr \<longleftrightarrow> Read (Thrown e) \<in> set tr \<or> (\<exists>a. Did a (Some e) \<in> set tr)"

lemma nudged_fx: "nudged H nudge w = (w', fx, r) \<Longrightarrow>
    screens fx = [] \<and> (\<forall>e. r = Some e \<longrightarrow> driver_threw e fx)"
  by (auto simp: nudged_def perform_def driver_threw_def split: option.splits prod.splits sum.splits)

lemma deadlineError_class: "err_class (deadlineError base l saw) = (if saw \<or> l = None then Step_failure else Environment)
    \<and> \<not> err_marked (deadlineError base l saw)"
  by (auto simp: deadlineError_def queryDeadlineFailure_def new_error_def)

lemma poll_pause_fx:
  assumes "poll_pause H pollMs d base nudge l saw w = (w', fx, r)"
  shows "screens fx = [] \<and> (\<forall>e. r = Some e \<longrightarrow> driver_threw e fx \<or> e = deadlineError base l saw)"
proof -
  obtain w1 fx1 r1 where n: "nudged H nudge w = (w1, fx1, r1)" by (metis prod_cases3)
  have "snd (waitForNextPoll H d pollMs base l saw w1) \<in> {None, Some (deadlineError base l saw)}"
    by (simp add: waitForNextPoll_def Let_def)
  then show ?thesis
    using assms nudged_fx [OF n] n
    by (auto simp: poll_pause_def split: if_splits prod.splits option.splits)
qed

text \<open>An error is thrown by the driver, decided by a screen, or the deadline's.\<close>

lemma poll_loop_error:
  assumes "poll_loop n H pollMs d base nudge judge s l saw w = Some (w', tr, Inl e)"
  shows "driver_threw e tr \<or> (\<exists>s t s'. t \<in> set (screens tr) \<and> judge s t = (s', Some (Inl e)))
     \<or> (\<exists>l'. e = deadlineError base l' (saw \<or> screens tr \<noteq> []))"
  using assms
proof (induction n arbitrary: s l saw w tr)
  case (Suc n)
  obtain w1 q where q: "queryOrRetry H d w = (w1, q)" by fastforce
  have mono: "driver_threw e tr \<Longrightarrow> driver_threw e (x # fx @ tr)" "driver_threw e fx \<Longrightarrow> driver_threw e (x # fx @ tr)"
    "driver_threw e fx \<Longrightarrow> driver_threw e (x # fx)"
    for x fx tr by (auto simp: driver_threw_def)
  show ?case
  proof (cases q)
    case (Got t)
    obtain s' v where j: "judge s t = (s', v)" by fastforce
    show ?thesis
    proof (cases v)
      case (Some v')
      with Suc.prems q Got j show ?thesis by auto
    next
      case None
      obtain w2 fx r where p: "poll_pause H pollMs d base nudge None True w1 = (w2, fx, r)" by (metis prod_cases3)
      note pf = poll_pause_fx [OF p]
      show ?thesis
      proof (cases r)
        case (Some e')
        with Suc.prems q Got j None p have "tr = Read (Got t) # fx" "e' = e" by auto
        with pf Some show ?thesis by (auto dest: mono(3))
      next
        case r: None
        with Suc.prems q Got j None p obtain tr' where
          IH: "poll_loop n H pollMs d base nudge judge s' None True w2 = Some (w', tr', Inl e)"
          and tr: "tr = Read (Got t) # fx @ tr'" by auto
        show ?thesis using Suc.IH [OF IH] pf unfolding tr by (auto intro: mono)
      qed
    qed
  next
    case (Blip e1 c)
    let ?l = "latestError l (e1, c)"
    obtain w2 fx r where p: "poll_pause H pollMs d base None ?l saw w1 = (w2, fx, r)" by (metis prod_cases3)
    note pf = poll_pause_fx [OF p]
    show ?thesis
    proof (cases r)
      case (Some e')
      with Suc.prems q Blip p have "tr = Read (Blip e1 c) # fx" "e' = e" by (auto simp: Let_def)
      with pf Some show ?thesis by (auto dest: mono(3))
    next
      case r: None
      with Suc.prems q Blip p obtain tr' where
        IH: "poll_loop n H pollMs d base nudge judge s ?l saw w2 = Some (w', tr', Inl e)"
        and tr: "tr = Read (Blip e1 c) # fx @ tr'" by (auto simp: Let_def)
      show ?thesis using Suc.IH [OF IH] pf unfolding tr by (auto intro: mono)
    qed
  next
    case (Thrown e1)
    with Suc.prems q show ?thesis by (auto simp: driver_threw_def)
  qed
qed simp

text \<open>A loop that remembers nothing between screens: the last screen read decided, no earlier one did.\<close>

lemma poll_loop_value:
  assumes "poll_loop n H pollMs d base nudge (\<lambda>s t. (s, f t)) s l saw w = Some (w', tr, Inr v)"
  shows "\<exists>ts t. screens tr = ts @ [t] \<and> f t = Some (Inr v) \<and> (\<forall>u \<in> set ts. f u = None)"
  using assms
proof (induction n arbitrary: l saw w tr)
  case (Suc n)
  obtain w1 q where q: "queryOrRetry H d w = (w1, q)" by fastforce
  show ?case
  proof (cases q)
    case (Got t)
    show ?thesis
    proof (cases "f t")
      case (Some v')
      with Suc.prems q Got have "tr = [Read (Got t)]" "v' = Inr v" by auto
      with Some show ?thesis
        by (intro exI [of _ "[] :: ui_element list list"] exI [of _ t]) simp
    next
      case None
      with Suc.prems q Got obtain w2 fx tr' where p: "poll_pause H pollMs d base nudge None True w1 = (w2, fx, None)"
        and IH: "poll_loop n H pollMs d base nudge (\<lambda>s t. (s, f t)) s None True w2 = Some (w', tr', Inr v)"
        and tr: "tr = Read (Got t) # fx @ tr'"
        by (auto split: prod.splits option.splits)
      from Suc.IH [OF IH] obtain ts u where "screens tr' = ts @ [u]" "f u = Some (Inr v)" "\<forall>x \<in> set ts. f x = None" by blast
      with None poll_pause_fx [OF p] show ?thesis
        unfolding tr by (intro exI [of _ "t # ts"] exI [of _ u]) simp
    qed
  next
    case (Blip e c)
    with Suc.prems q obtain w2 fx tr' l' where p: "poll_pause H pollMs d base None l' saw w1 = (w2, fx, None)"
      and IH: "poll_loop n H pollMs d base nudge (\<lambda>s t. (s, f t)) s l' saw w2 = Some (w', tr', Inr v)"
      and tr: "tr = Read (Blip e c) # fx @ tr'"
      by (auto simp: Let_def split: prod.splits option.splits)
    from Suc.IH [OF IH] poll_pause_fx [OF p] show ?thesis unfolding tr by simp
  next
    case (Thrown e)
    with Suc.prems q show ?thesis by simp
  qed
qed simp

lemma poll_pause_quiet: "poll_pause H pollMs d base None l saw w = (w', fx, r) \<Longrightarrow> acted fx = []"
  by (auto simp: poll_pause_def nudged_def split: if_splits prod.splits)

lemma poll_loop_quiet:
  "poll_loop n H pollMs d base None judge s l saw w = Some (w', tr, r) \<Longrightarrow> acted tr = []"
proof (induction n arbitrary: s l saw w tr)
  case (Suc n)
  obtain w1 q where q: "queryOrRetry H d w = (w1, q)" by fastforce
  show ?case
    using Suc.prems
    by (cases q) (auto simp: q Let_def split: prod.splits option.splits dest: poll_pause_quiet Suc.IH)
qed simp

subsection \<open>Waiting for an element\<close>

definition miss_text :: "texts \<Rightarrow> selector \<Rightarrow> ms \<Rightarrow> string" where
  "miss_text T sel waitMs =
     ''no element matched '' @ describeSelector T sel @ '' within '' @ num_text T (of_int waitMs / 1000) @ ''s''"

definition candidate_text :: "ui_element \<Rightarrow> string" where
  "candidate_text m = el_role m @ '' '' @ quoted (el_label m)
     @ (case el_identifier m of Some (c # cs) \<Rightarrow> '' id='' @ c # cs | _ \<Rightarrow> [])
     @ (case el_placeholder m of Some (c # cs) \<Rightarrow> '' placeholder='' @ quoted (c # cs) | _ \<Rightarrow> [])"

definition ambiguous :: "texts \<Rightarrow> selector \<Rightarrow> ui_element list \<Rightarrow> flow_error" where
  "ambiguous T sel matches = new_error Step_failure
     (num_text T (of_nat (length matches)) @ '' elements match '' @ describeSelector T sel
      @ '' -- add an index or a more specific role/label (candidates: ''
      @ join '' | '' (map candidate_text (take 5 matches)) @ '')'')"

definition judge_one :: "texts \<Rightarrow> selector \<Rightarrow> ui_element list \<Rightarrow> (flow_error + ui_element) option" where
  "judge_one T sel tree =
     (let matches = matchSelector tree sel in
      if length matches = 1 then Some (Inr (hd matches))
      else if 1 < length matches then Some (Inl (ambiguous T sel matches))
      else None)"

type_synonym ('w, 'a) outcome = "('w \<times> driver_fx list \<times> (flow_error + 'a)) option"

definition resolveOne :: "nat \<Rightarrow> 'w flow_host \<Rightarrow> selector \<Rightarrow> ms \<Rightarrow> ms \<Rightarrow> 'w \<Rightarrow> ('w, ui_element) outcome" where
  "resolveOne n H sel timeoutMs pollMs w =
     (case selector_wait (host_texts H) sel timeoutMs of
        Inl e \<Rightarrow> Some (w, [], Inl e)
      | Inr waitMs \<Rightarrow> poll_loop n H pollMs (clk H w + waitMs) (miss_text (host_texts H) sel waitMs) None
          (\<lambda>s tree. (s, judge_one (host_texts H) sel tree)) () None False w)"

definition judge_visible :: "selector \<Rightarrow> ui_element list \<Rightarrow> (flow_error + unit) option" where
  "judge_visible sel tree = (if 0 < length (matchSelector tree sel) then Some (Inr ()) else None)"

definition waitVisible :: "nat \<Rightarrow> 'w flow_host \<Rightarrow> selector \<Rightarrow> ms \<Rightarrow> ms \<Rightarrow> 'w \<Rightarrow> ('w, unit) outcome" where
  "waitVisible n H sel timeoutMs pollMs w =
     (case selector_wait (host_texts H) sel timeoutMs of
        Inl e \<Rightarrow> Some (w, [], Inl e)
      | Inr waitMs \<Rightarrow> poll_loop n H pollMs (clk H w + waitMs) (miss_text (host_texts H) sel waitMs) None
          (\<lambda>s tree. (s, judge_visible sel tree)) () None False w)"

definition judge_gone :: "selector \<Rightarrow> ui_element list \<Rightarrow> (flow_error + unit) option" where
  "judge_gone sel tree = (if length (matchSelector tree sel) = 0 then Some (Inr ()) else None)"

definition still_text :: "texts \<Rightarrow> selector \<Rightarrow> ms \<Rightarrow> string" where
  "still_text T sel waitMs =
     ''element '' @ describeSelector T sel @ '' is still visible after '' @ num_text T (of_int waitMs / 1000) @ ''s''"

definition waitNotVisible :: "nat \<Rightarrow> 'w flow_host \<Rightarrow> selector \<Rightarrow> ms \<Rightarrow> ms \<Rightarrow> 'w \<Rightarrow> ('w, unit) outcome" where
  "waitNotVisible n H sel timeoutMs pollMs w =
     (case selector_wait (host_texts H) sel timeoutMs of
        Inl e \<Rightarrow> Some (w, [], Inl e)
      | Inr waitMs \<Rightarrow> poll_loop n H pollMs (clk H w + waitMs) (still_text (host_texts H) sel waitMs) None
          (\<lambda>s tree. (s, judge_gone sel tree)) () None False w)"

subsection \<open>Scrolling until an element is in view\<close>

definition SCROLL_UNTIL_MS :: ms where "SCROLL_UNTIL_MS = 30000"
definition SCROLL_END_READS :: nat where "SCROLL_END_READS = 2"

fun SCROLL_GESTURES :: "direction \<Rightarrow> point \<times> point" where
  "SCROLL_GESTURES Down = ((1 / 2, 7 / 10), (1 / 2, 3 / 10))"
| "SCROLL_GESTURES Up = ((1 / 2, 3 / 10), (1 / 2, 7 / 10))"
| "SCROLL_GESTURES Right = ((8 / 10, 1 / 2), (2 / 10, 1 / 2))"
| "SCROLL_GESTURES Left = ((2 / 10, 1 / 2), (8 / 10, 1 / 2))"

fun CLEAR_OF_ENTERING_EDGE :: "direction \<Rightarrow> ui_frame \<Rightarrow> bool" where
  "CLEAR_OF_ENTERING_EDGE Down f \<longleftrightarrow> fr_y f + fr_height f < 1"
| "CLEAR_OF_ENTERING_EDGE Up f \<longleftrightarrow> 0 < fr_y f"
| "CLEAR_OF_ENTERING_EDGE Right f \<longleftrightarrow> fr_x f + fr_width f < 1"
| "CLEAR_OF_ENTERING_EDGE Left f \<longleftrightarrow> 0 < fr_x f"

fun SPANS_SCROLL_AXIS :: "direction \<Rightarrow> ui_frame \<Rightarrow> bool" where
  "SPANS_SCROLL_AXIS Down f \<longleftrightarrow> fr_y f \<le> 0 \<and> 1 \<le> fr_y f + fr_height f"
| "SPANS_SCROLL_AXIS Up f \<longleftrightarrow> fr_y f \<le> 0 \<and> 1 \<le> fr_y f + fr_height f"
| "SPANS_SCROLL_AXIS Right f \<longleftrightarrow> fr_x f \<le> 0 \<and> 1 \<le> fr_x f + fr_width f"
| "SPANS_SCROLL_AXIS Left f \<longleftrightarrow> fr_x f \<le> 0 \<and> 1 \<le> fr_x f + fr_width f"

text \<open>The JSON text the code compares stands for the list it is the text of.\<close>

type_synonym scrolled_shape = "(string \<times> string \<times> string \<times> int \<times> int) list"

definition scrolledShape :: "ui_element list \<Rightarrow> scrolled_shape" where
  "scrolledShape tree = map (\<lambda>e. (el_role e, el_label e,
     (case el_identifier e of Some i \<Rightarrow> i | None \<Rightarrow> []),
     js_round (fr_x (el_frame e) * 100), js_round (fr_y (el_frame e) * 100))) tree"

record scroll_state =
  sc_shape :: "scrolled_shape option"
  sc_unchanged :: nat
  sc_matchShape :: "scrolled_shape option"
  sc_matchStill :: nat

definition scroll_start :: scroll_state where
  "scroll_start = \<lparr>sc_shape = None, sc_unchanged = 0, sc_matchShape = None, sc_matchStill = 0\<rparr>"

definition scroll_end :: "texts \<Rightarrow> direction \<Rightarrow> selector \<Rightarrow> flow_error" where
  "scroll_end T d sel = new_error Step_failure
     (''scrolled '' @ direction_name d @ '' to the end without '' @ describeSelector T sel @ '' coming on screen'')"

definition judge_scroll :: "texts \<Rightarrow> direction \<Rightarrow> selector \<Rightarrow> (scroll_state, unit) judge" where
  "judge_scroll T d sel st tree =
     (let matches = matchSelector tree sel in
      if list_ex (\<lambda>m. CLEAR_OF_ENTERING_EDGE d (el_frame m)) matches then (st, Some (Inr ()))
      else
        (let pinned = filter (\<lambda>m. \<not> SPANS_SCROLL_AXIS d (el_frame m)) matches;
             place = (if 0 < length pinned then Some (scrolledShape pinned) else None);
             still = (if place \<noteq> None \<and> place = sc_matchShape st then sc_matchStill st + 1 else 0);
             st1 = st\<lparr>sc_matchStill := still, sc_matchShape := place\<rparr>
         in if SCROLL_END_READS \<le> still then (st1, Some (Inr ()))
            else
              (let next = scrolledShape tree;
                   unchanged = (if Some next = sc_shape st1 then sc_unchanged st1 + 1 else 0);
                   st2 = st1\<lparr>sc_unchanged := unchanged, sc_shape := Some next\<rparr>
               in if SCROLL_END_READS \<le> unchanged
                  then (st2, Some (if 0 < length matches then Inr () else Inl (scroll_end T d sel)))
                  else (st2, None))))"

definition scroll_text :: "texts \<Rightarrow> direction \<Rightarrow> selector \<Rightarrow> ms \<Rightarrow> string" where
  "scroll_text T d sel waitMs = ''no element matched '' @ describeSelector T sel @ '' on screen after scrolling ''
     @ direction_name d @ '' for '' @ num_text T (of_int waitMs / 1000) @ ''s''"

definition scrollUntil :: "nat \<Rightarrow> 'w flow_host \<Rightarrow> direction \<Rightarrow> selector \<Rightarrow> ms \<Rightarrow> ms \<Rightarrow> 'w \<Rightarrow> ('w, unit) outcome" where
  "scrollUntil n H d sel timeoutMs pollMs w =
     (case selector_wait (host_texts H) sel (max timeoutMs SCROLL_UNTIL_MS) of
        Inl e \<Rightarrow> Some (w, [], Inl e)
      | Inr waitMs \<Rightarrow>
          (case SCROLL_GESTURES d of (from, to) \<Rightarrow>
             poll_loop n H pollMs (clk H w + waitMs) (scroll_text (host_texts H) d sel waitMs)
               (Some (Do_swipe from to 300)) (judge_scroll (host_texts H) d sel) scroll_start None False w))"

end
