(* ===== verification/Settle.thy ===== *)
theory Settle
  imports Wire
begin

text \<open>
  \<open>packages/relay/src/admission/settle.ts\<close>: when the CPU samples taken after a boot say that the
  device has stopped costing its Mac. A CPU reading is a rational number of percentage points; the
  code's are doubles rounded to a tenth.
\<close>

record settle_config =
  samples_needed :: nat
  spread :: rat
  ceiling :: rat
  freshMs :: ms

definition SETTLE :: settle_config where
  "SETTLE = \<lparr>samples_needed = 3, spread = 10, ceiling = 90, freshMs = 15000\<rparr>"

lemma SETTLE_simps [simp]:
  "samples_needed SETTLE = 3" "spread SETTLE = 10" "ceiling SETTLE = 90" "freshMs SETTLE = 15000"
  by (simp_all add: SETTLE_def)

text \<open>\<open>Math.max\<close> and \<open>Math.min\<close> over the arguments of a spread, which are never empty here.\<close>

definition maximum :: "rat list \<Rightarrow> rat" where
  "maximum xs = fold max (tl xs) (hd xs)"

definition minimum :: "rat list \<Rightarrow> rat" where
  "minimum xs = fold min (tl xs) (hd xs)"

definition isSettled :: "rat list \<Rightarrow> bool" where
  "isSettled cpuSinceReady =
     (if length cpuSinceReady < samples_needed SETTLE then False
      else (let recent = drop (length cpuSinceReady - samples_needed SETTLE) cpuSinceReady;
                high = maximum recent
            in high < ceiling SETTLE \<and> high - minimum recent \<le> spread SETTLE))"

lemma maximum_Max: "xs \<noteq> [] \<Longrightarrow> maximum xs = Max (set xs)"
  by (cases xs) (simp_all add: maximum_def flip: Max.set_eq_fold)

lemma minimum_Min: "xs \<noteq> [] \<Longrightarrow> minimum xs = Min (set xs)"
  by (cases xs) (simp_all add: minimum_def flip: Min.set_eq_fold)

text \<open>
  What the code promises: the last three samples are all below the ceiling and agree pairwise to
  within the spread. Earlier samples do not count.
\<close>

lemma isSettled_iff:
  assumes "length recent = 3"
  shows "isSettled (pre @ recent) \<longleftrightarrow>
    (\<forall>x\<in>set recent. x < 90) \<and> (\<forall>x\<in>set recent. \<forall>y\<in>set recent. x - y \<le> 10)"
proof -
  have ne: "recent \<noteq> []" using assms by auto
  then have "set recent \<noteq> {}" by simp
  then have high: "maximum recent < 90 \<longleftrightarrow> (\<forall>x\<in>set recent. x < 90)"
    by (simp add: maximum_Max ne)
  have "maximum recent - minimum recent \<le> 10 \<longleftrightarrow> (\<forall>x\<in>set recent. \<forall>y\<in>set recent. x - y \<le> 10)"
  proof
    assume l: "maximum recent - minimum recent \<le> 10"
    show "\<forall>x\<in>set recent. \<forall>y\<in>set recent. x - y \<le> 10"
    proof (intro ballI)
      fix x y assume "x \<in> set recent" "y \<in> set recent"
      then have "x \<le> maximum recent" "minimum recent \<le> y"
        by (auto simp: maximum_Max minimum_Min ne)
      with l show "x - y \<le> 10" by linarith
    qed
  next
    assume r: "\<forall>x\<in>set recent. \<forall>y\<in>set recent. x - y \<le> 10"
    have "maximum recent \<in> set recent" "minimum recent \<in> set recent"
      using Max_in [of "set recent"] Min_in [of "set recent"] ne
      by (simp_all add: maximum_Max minimum_Min)
    with r show "maximum recent - minimum recent \<le> 10" by blast
  qed
  with high assms show ?thesis by (simp add: isSettled_def)
qed

lemma isSettled_short: "length xs < 3 \<Longrightarrow> \<not> isSettled xs"
  by (simp add: isSettled_def)

end
