(* ===== verification/Boot_Gate.thy ===== *)
theory Boot_Gate
  imports Settle
begin

text \<open>
  \<open>packages/relay/src/admission/HostBootGate.ts\<close>: one cold boot at a time per Mac, and a person
  never refused for it. The gate is pure state; each call returns the effects the relay carries out,
  in order. The clock \<open>now\<close> and the timing are arguments. A call is synchronous, so it reads one
  time; a message a boot carries is an arbitrary value.
\<close>

subsection \<open>Data\<close>

record gate_timing =
  bootMs :: ms
  settleCapMs :: ms
  noSampleMs :: ms
  humanWaitMs :: ms
  reboundMs :: ms
  agingCount :: int
  agingWindowMs :: ms
  recentRefusalMs :: ms

definition GATE_DEFAULTS :: gate_timing where
  "GATE_DEFAULTS = \<lparr>bootMs = 180000, settleCapMs = 120000, noSampleMs = 90000, humanWaitMs = 60000,
     reboundMs = 30000, agingCount = 3, agingWindowMs = 45000, recentRefusalMs = 60000\<rparr>"

datatype cost = Cold | Warm

record 'm boot_request =
  r_host :: string
  r_session :: string
  r_request :: string
  r_cost :: cost
  r_class :: booter_class
  r_message :: 'm

datatype gate_log =
  Overlap | Boot_timeout | Settle_timeout | No_samples | Human_wait_expired | Rebound_abandoned
  | Aging_window | Memory_critical | Memory_critical_stale

datatype withdrawn = Cancelled | Replaced

datatype 'm effect =
  Deliver string string 'm \<comment> \<open>session, request, message\<close>
  | Refuse string string boot_refusal 'm
  | Waiting string string ms boot_refusal 'm \<comment> \<open>held until this time, for this reason\<close>
  | Withdraw string string withdrawn 'm
  | Log gate_log string "string option"

datatype gate_event =
  Ready string string "bool option" \<comment> \<open>host, session, the agent's own account of a cold boot\<close>
  | Sample string rat
  | Pressure string bool
  | Boot_error string "string option"
  | Shutdown_done string
  | Session_removed string
  | Browser_closed string
  | Rebound string

datatype phase = Booting | Settling

record slot =
  s_session :: string
  s_request :: string
  s_phase :: phase
  s_since :: ms
  s_readyAt :: "ms option"
  s_samples :: "rat list"
  s_droppedFirst :: bool
  s_lastSampleAt :: "ms option"
  s_reboundAt :: "ms option"

record 'm held =
  h_session :: string
  h_request :: string
  h_message :: 'm
  h_since :: ms
  h_reason :: boot_refusal

record 'm host =
  slot :: "slot option"
  reservation :: "'m held option"
  humanStreak :: int
  lastAutomatedRefusalAt :: "ms option"
  agingWindowUntil :: "ms option"
  criticalUntil :: "ms option"
  windowLeftMs :: "ms option"

definition MIN_SAMPLE_GAP_MS :: ms where
  "MIN_SAMPLE_GAP_MS = 4000"

type_synonym 'm gate = "(string, 'm host) jmap"

definition new_host :: "'m host" where
  "new_host = \<lparr>slot = None, reservation = None, humanStreak = 0, lastAutomatedRefusalAt = None,
     agingWindowUntil = None, criticalUntil = None, windowLeftMs = None\<rparr>"

text \<open>\<open>host(key)\<close>: the entry of a Mac, made when first asked for.\<close>

definition hostOf :: "'m gate \<Rightarrow> string \<Rightarrow> 'm host" where
  "hostOf g key = (case jget g key of Some h \<Rightarrow> h | None \<Rightarrow> new_host)"

definition slotOf :: "'m gate \<Rightarrow> string \<Rightarrow> (string \<times> 'm host) option" where
  "slotOf g sessionId =
     find (\<lambda>(key, h). case slot h of None \<Rightarrow> False | Some s \<Rightarrow> s_session s = sessionId) g"

subsection \<open>Private steps on one Mac\<close>

definition isCritical :: "ms \<Rightarrow> 'm host \<Rightarrow> bool" where
  "isCritical now h = (case criticalUntil h of None \<Rightarrow> False | Some until \<Rightarrow> now < until)"

definition waitReason :: "ms \<Rightarrow> 'm host \<Rightarrow> boot_refusal" where
  "waitReason now h = (if isCritical now h then Host_memory_critical else Host_booting)"

definition waitingOf :: "gate_timing \<Rightarrow> 'm held \<Rightarrow> 'm effect" where
  "waitingOf t held = Waiting (h_session held) (h_request held) (h_since held + humanWaitMs t)
     (h_reason held) (h_message held)"

definition deliverOf :: "'m boot_request \<Rightarrow> 'm effect" where
  "deliverOf req = Deliver (r_session req) (r_request req) (r_message req)"

definition takeSlot :: "ms \<Rightarrow> string \<Rightarrow> string \<Rightarrow> 'm host \<Rightarrow> 'm host" where
  "takeSlot now sessionId requestId h = h\<lparr>slot := Some \<lparr>s_session = sessionId, s_request = requestId,
     s_phase = Booting, s_since = now, s_readyAt = None, s_samples = [], s_droppedFirst = False,
     s_lastSampleAt = None, s_reboundAt = None\<rparr>\<rparr>"

text \<open>Automation was refused within the last \<open>recentRefusalMs\<close>, so it counts as still waiting.\<close>

definition automationWaiting :: "gate_timing \<Rightarrow> ms \<Rightarrow> 'm host \<Rightarrow> bool" where
  "automationWaiting t now h =
     (case lastAutomatedRefusalAt h of None \<Rightarrow> False | Some since \<Rightarrow> now - since \<le> recentRefusalMs t)"

definition noteHumanGrant :: "gate_timing \<Rightarrow> ms \<Rightarrow> 'm host \<Rightarrow> 'm host" where
  "noteHumanGrant t now h =
     h\<lparr>humanStreak := (if automationWaiting t now h then humanStreak h + 1 else 0)\<rparr>"

definition dispatchReservation :: "gate_timing \<Rightarrow> ms \<Rightarrow> 'm host \<Rightarrow> 'm host \<times> 'm effect list" where
  "dispatchReservation t now h =
     (case reservation h of
        None \<Rightarrow> (h, [])
      | Some held \<Rightarrow>
          if slot h \<noteq> None \<or> agingWindowUntil h \<noteq> None \<or> isCritical now h then (h, [])
          else (noteHumanGrant t now
                  (takeSlot now (h_session held) (h_request held) (h\<lparr>reservation := None\<rparr>)),
                [Deliver (h_session held) (h_request held) (h_message held)]))"

definition release :: "gate_timing \<Rightarrow> ms \<Rightarrow> string \<Rightarrow> 'm host \<Rightarrow> 'm host \<times> 'm effect list" where
  "release t now key host =
     (let h = host\<lparr>slot := None\<rparr>
      in if automationWaiting t now h \<and> humanStreak h \<ge> agingCount t
         then (h\<lparr>agingWindowUntil := Some (now + agingWindowMs t)\<rparr>, [Log Aging_window key None])
         else dispatchReservation t now h)"

definition refreshWaiting :: "gate_timing \<Rightarrow> ms \<Rightarrow> 'm host \<Rightarrow> 'm host \<times> 'm effect list" where
  "refreshWaiting t now h =
     (case reservation h of
        None \<Rightarrow> (h, [])
      | Some held \<Rightarrow>
          if waitReason now h = h_reason held then (h, [])
          else (let held' = held\<lparr>h_reason := waitReason now h\<rparr>
                in (h\<lparr>reservation := Some held'\<rparr>, [waitingOf t held'])))"

definition criticalEnded :: "gate_timing \<Rightarrow> ms \<Rightarrow> 'm host \<Rightarrow> 'm host \<times> 'm effect list" where
  "criticalEnded t now host =
     (let h = (case agingWindowUntil host of
                 None \<Rightarrow> host
               | Some _ \<Rightarrow> host\<lparr>agingWindowUntil :=
                   Some (now + (case windowLeftMs host of Some left \<Rightarrow> left | None \<Rightarrow> agingWindowMs t))\<rparr>)
      in fx_then (dispatchReservation t now) (refreshWaiting t now) (h\<lparr>windowLeftMs := None\<rparr>))"

definition deliverAnyway ::
    "gate_timing \<Rightarrow> ms \<Rightarrow> string \<Rightarrow> string \<Rightarrow> 'm \<Rightarrow> 'm host \<Rightarrow> 'm host \<times> 'm effect list" where
  "deliverAnyway t now sessionId requestId message h =
     ((if slot h = None \<and> (agingWindowUntil h = None \<or> isCritical now h)
       then noteHumanGrant t now (takeSlot now sessionId requestId h) else h),
      [Deliver sessionId requestId message])"

definition withdrawHeld :: "string \<Rightarrow> 'm host \<Rightarrow> 'm host \<times> 'm effect list" where
  "withdrawHeld sessionId h =
     (case reservation h of
        None \<Rightarrow> (h, [])
      | Some held \<Rightarrow>
          if h_session held \<noteq> sessionId then (h, [])
          else (h\<lparr>reservation := None\<rparr>, [Withdraw sessionId (h_request held) Cancelled (h_message held)]))"

subsection \<open>A boot asks to go ahead\<close>

definition reserved_by :: "string \<Rightarrow> 'm host \<Rightarrow> bool" where
  "reserved_by sessionId h =
     (case reservation h of None \<Rightarrow> False | Some held \<Rightarrow> h_session held = sessionId)"

definition slot_of :: "string \<Rightarrow> 'm host \<Rightarrow> bool" where
  "slot_of sessionId h = (case slot h of None \<Rightarrow> False | Some s \<Rightarrow> s_session s = sessionId)"

text \<open>The person whose boot is already held asks again: they keep their place and their clock.\<close>

definition admit_again ::
    "gate_timing \<Rightarrow> ms \<Rightarrow> 'm boot_request \<Rightarrow> 'm held \<Rightarrow> 'm host \<Rightarrow> 'm host \<times> 'm effect list" where
  "admit_again t now req held h =
     (let gone = Withdraw (r_session req) (h_request held) Replaced (h_message held)
      in if r_cost req = Warm then (h\<lparr>reservation := None\<rparr>, [gone, deliverOf req])
         else (let held' = held\<lparr>h_request := r_request req, h_message := r_message req,
                              h_reason := waitReason now h\<rparr>
               in (h\<lparr>reservation := Some held'\<rparr>, [gone, waitingOf t held'])))"

text \<open>A re-boot of the device that already holds the slot; the last sample time is not reset.\<close>

definition admit_reboot :: "ms \<Rightarrow> 'm boot_request \<Rightarrow> slot \<Rightarrow> 'm host \<Rightarrow> 'm host \<times> 'm effect list" where
  "admit_reboot now req s h =
     (h\<lparr>slot := Some (s\<lparr>s_request := r_request req, s_phase := Booting, s_since := now,
         s_readyAt := None, s_samples := [], s_droppedFirst := False, s_reboundAt := None\<rparr>)\<rparr>,
      [deliverOf req])"

definition admit_automated :: "ms \<Rightarrow> 'm boot_request \<Rightarrow> 'm host \<Rightarrow> 'm host \<times> 'm effect list" where
  "admit_automated now req h =
     (if isCritical now h then
        (h\<lparr>lastAutomatedRefusalAt := Some now\<rparr>,
         [Refuse (r_session req) (r_request req) Host_memory_critical (r_message req)])
      else if slot h = None \<and> (agingWindowUntil h \<noteq> None \<or> reservation h = None) then
        ((takeSlot now (r_session req) (r_request req) h)\<lparr>humanStreak := 0, agingWindowUntil := None\<rparr>,
         [deliverOf req])
      else
        (h\<lparr>lastAutomatedRefusalAt := Some now\<rparr>,
         [Refuse (r_session req) (r_request req) Host_booting (r_message req)]))"

definition newly_held :: "ms \<Rightarrow> 'm boot_request \<Rightarrow> 'm host \<Rightarrow> 'm held" where
  "newly_held now req h = \<lparr>h_session = r_session req, h_request = r_request req,
     h_message = r_message req, h_since = now, h_reason = waitReason now h\<rparr>"

definition admit_interactive ::
    "gate_timing \<Rightarrow> ms \<Rightarrow> 'm boot_request \<Rightarrow> 'm host \<Rightarrow> 'm host \<times> 'm effect list" where
  "admit_interactive t now req h =
     (if slot h = None \<and> agingWindowUntil h = None \<and> \<not> isCritical now h then
        (noteHumanGrant t now (takeSlot now (r_session req) (r_request req) h), [deliverOf req])
      else (case reservation h of
        None \<Rightarrow> (h\<lparr>reservation := Some (newly_held now req h)\<rparr>, [waitingOf t (newly_held now req h)])
      | Some held \<Rightarrow>
          (let over = Log Overlap (r_host req) (Some (r_session req))
           in if slot h = None \<and> isCritical now h then
                (let next = newly_held now req h;
                     (h', fx) = deliverAnyway t now (h_session held) (h_request held) (h_message held)
                                  (h\<lparr>reservation := Some next\<rparr>)
                 in (h', over # fx @ [waitingOf t next]))
              else
                (let (h', fx) = deliverAnyway t now (r_session req) (r_request req) (r_message req) h
                 in (h', over # fx)))))"

definition admit_host ::
    "gate_timing \<Rightarrow> ms \<Rightarrow> 'm boot_request \<Rightarrow> 'm host \<Rightarrow> 'm host \<times> 'm effect list" where
  "admit_host t now req h =
     (if reserved_by (r_session req) h then admit_again t now req (the (reservation h)) h
      else if slot_of (r_session req) h then admit_reboot now req (the (slot h)) h
      else if r_cost req = Warm then (h, [deliverOf req])
      else if r_class req = Automated then admit_automated now req h
      else admit_interactive t now req h)"

text \<open>\<open>this.host(key)\<close>, a change to that entry, and its effects.\<close>

definition on_host :: "string \<Rightarrow> ('m host \<Rightarrow> 'm host \<times> 'm effect list) \<Rightarrow> 'm gate \<Rightarrow> 'm gate \<times> 'm effect list" where
  "on_host key f g = (jset key (fst (f (hostOf g key))) g, snd (f (hostOf g key)))"

lemma on_host_code [code]: "on_host key f g = (case f (hostOf g key) of (h, out) \<Rightarrow> (jset key h g, out))"
  by (simp add: on_host_def split_beta)

definition admit :: "gate_timing \<Rightarrow> ms \<Rightarrow> 'm boot_request \<Rightarrow> 'm gate \<Rightarrow> 'm gate \<times> 'm effect list" where
  "admit t now req g = on_host (r_host req) (admit_host t now req) g"

subsection \<open>What the relay hears from agents and browsers\<close>

definition ready_slot :: "ms \<Rightarrow> 'm host \<Rightarrow> 'm host" where
  "ready_slot now h = h\<lparr>slot := map_option (\<lambda>s. s\<lparr>s_phase := Settling, s_readyAt := Some now,
     s_samples := [], s_droppedFirst := False, s_lastSampleAt := None\<rparr>) (slot h)\<rparr>"

text \<open>A boot let through as warm that the agent had to bring up after all.\<close>

definition ready_unslotted :: "ms \<Rightarrow> string \<Rightarrow> string \<Rightarrow> 'm host \<Rightarrow> 'm host \<times> 'm effect list" where
  "ready_unslotted now key sessionId h =
     (if slot h = None
      then (h\<lparr>slot := Some \<lparr>s_session = sessionId, s_request = [], s_phase = Settling, s_since = now,
              s_readyAt = Some now, s_samples = [], s_droppedFirst = False, s_lastSampleAt = None,
              s_reboundAt = None\<rparr>\<rparr>, [])
      else (h, [Log Overlap key (Some sessionId)]))"

definition onReady ::
    "gate_timing \<Rightarrow> ms \<Rightarrow> string \<Rightarrow> string \<Rightarrow> bool option \<Rightarrow> 'm gate \<Rightarrow> 'm gate \<times> 'm effect list" where
  "onReady t now key sessionId cold g =
     (case slotOf g sessionId of
        Some (k, h) \<Rightarrow>
          if cold = Some False then on_host k (release t now k) g
          else on_host k (\<lambda>h. (ready_slot now h, [])) g
      | None \<Rightarrow>
          if cold = Some True then on_host key (ready_unslotted now key sessionId) g else (g, []))"

text \<open>
  One CPU report: the slot with the sample in it, and whether the device has now settled. A report
  too soon after the last is skipped, a gap empties the samples, and the first is dropped.
\<close>

definition take_sample :: "ms \<Rightarrow> rat \<Rightarrow> slot \<Rightarrow> slot \<times> bool" where
  "take_sample now cpu s =
     (if s_phase s \<noteq> Settling then (s, False)
      else if (case s_lastSampleAt s of Some l \<Rightarrow> now - l < MIN_SAMPLE_GAP_MS | None \<Rightarrow> False) then (s, False)
      else
        (let s1 = (case s_lastSampleAt s of
                     Some l \<Rightarrow> if now - l > freshMs SETTLE then s\<lparr>s_samples := []\<rparr> else s
                   | None \<Rightarrow> s);
             s2 = s1\<lparr>s_lastSampleAt := Some now\<rparr>
         in if \<not> s_droppedFirst s2 then (s2\<lparr>s_droppedFirst := True\<rparr>, False)
            else (let s3 = s2\<lparr>s_samples := s_samples s2 @ [cpu]\<rparr> in (s3, isSettled (s_samples s3)))))"

definition sample_host :: "gate_timing \<Rightarrow> ms \<Rightarrow> string \<Rightarrow> rat \<Rightarrow> 'm host \<Rightarrow> 'm host \<times> 'm effect list" where
  "sample_host t now key cpu h =
     (case slot h of
        None \<Rightarrow> (h, [])
      | Some s \<Rightarrow>
          (let (s', settled) = take_sample now cpu s; h' = h\<lparr>slot := Some s'\<rparr>
           in if settled then release t now key h' else (h', [])))"

definition onSample :: "gate_timing \<Rightarrow> ms \<Rightarrow> string \<Rightarrow> rat \<Rightarrow> 'm gate \<Rightarrow> 'm gate \<times> 'm effect list" where
  "onSample t now key cpu g =
     (case jget g key of None \<Rightarrow> (g, []) | Some h \<Rightarrow> on_host key (sample_host t now key cpu) g)"

definition pressure_host :: "gate_timing \<Rightarrow> ms \<Rightarrow> string \<Rightarrow> bool \<Rightarrow> 'm host \<Rightarrow> 'm host \<times> 'm effect list" where
  "pressure_host t now key critical h =
     (if critical then
        (let h1 = h\<lparr>criticalUntil := Some (now + freshMs SETTLE)\<rparr>
         in if isCritical now h then (h1, [])
            else (let h2 = (case agingWindowUntil h1 of
                              None \<Rightarrow> h1
                            | Some w \<Rightarrow> h1\<lparr>windowLeftMs := Some (max 0 (w - now))\<rparr>);
                      (h3, fx) = refreshWaiting t now h2
                  in (h3, Log Memory_critical key None # fx)))
      else if criticalUntil h \<noteq> None then criticalEnded t now (h\<lparr>criticalUntil := None\<rparr>)
      else (h, []))"

definition onBootError ::
    "gate_timing \<Rightarrow> ms \<Rightarrow> string \<Rightarrow> string option \<Rightarrow> 'm gate \<Rightarrow> 'm gate \<times> 'm effect list" where
  "onBootError t now sessionId requestId g =
     (case slotOf g sessionId of
        None \<Rightarrow> (g, [])
      | Some (k, h) \<Rightarrow>
          if requestId = None \<or> requestId = map_option s_request (slot h)
          then on_host k (release t now k) g else (g, []))"

definition releaseSession :: "gate_timing \<Rightarrow> ms \<Rightarrow> string \<Rightarrow> 'm gate \<Rightarrow> 'm gate \<times> 'm effect list" where
  "releaseSession t now sessionId g =
     (case slotOf g sessionId of None \<Rightarrow> (g, []) | Some (k, h) \<Rightarrow> on_host k (release t now k) g)"

definition onRebound :: "ms \<Rightarrow> string \<Rightarrow> 'm gate \<Rightarrow> 'm gate \<times> 'm effect list" where
  "onRebound now sessionId g =
     (case slotOf g sessionId of
        None \<Rightarrow> (g, [])
      | Some (k, h) \<Rightarrow> on_host k (\<lambda>h.
          (h\<lparr>slot := map_option (\<lambda>s. s\<lparr>s_reboundAt := Some now\<rparr>) (slot h)\<rparr>, [])) g)"

definition withdrawAll :: "string \<Rightarrow> 'm gate \<Rightarrow> 'm gate \<times> 'm effect list" where
  "withdrawAll sessionId = fx_entries (\<lambda>_. withdrawHeld sessionId)"

fun onEvent :: "gate_timing \<Rightarrow> ms \<Rightarrow> gate_event \<Rightarrow> 'm gate \<Rightarrow> 'm gate \<times> 'm effect list" where
  "onEvent t now (Ready key sessionId cold) g = onReady t now key sessionId cold g"
| "onEvent t now (Sample key cpu) g = onSample t now key cpu g"
| "onEvent t now (Pressure key critical) g = on_host key (pressure_host t now key critical) g"
| "onEvent t now (Boot_error sessionId requestId) g = onBootError t now sessionId requestId g"
| "onEvent t now (Shutdown_done sessionId) g =
     fx_then (withdrawAll sessionId) (releaseSession t now sessionId) g"
| "onEvent t now (Session_removed sessionId) g =
     fx_then (withdrawAll sessionId) (releaseSession t now sessionId) g"
| "onEvent t now (Browser_closed sessionId) g = withdrawAll sessionId g"
| "onEvent t now (Rebound sessionId) g = onRebound now sessionId g"

subsection \<open>Deadlines\<close>

definition tick_critical :: "gate_timing \<Rightarrow> ms \<Rightarrow> string \<Rightarrow> 'm host \<Rightarrow> 'm host \<times> 'm effect list" where
  "tick_critical t now key h =
     (case criticalUntil h of
        None \<Rightarrow> (h, [])
      | Some until \<Rightarrow>
          if now < until then (h, [])
          else (let (h', fx) = criticalEnded t now (h\<lparr>criticalUntil := None\<rparr>)
                in (h', Log Memory_critical_stale key None # fx)))"

definition slot_expired :: "gate_timing \<Rightarrow> ms \<Rightarrow> slot \<Rightarrow> gate_log option" where
  "slot_expired t now s =
     (if s_phase s = Booting \<and> (case s_reboundAt s of Some r \<Rightarrow> now \<ge> r + reboundMs t | None \<Rightarrow> False)
      then Some Rebound_abandoned
      else if s_phase s = Booting \<and> now \<ge> s_since s + bootMs t then Some Boot_timeout
      else if s_phase s = Settling then
        (case s_readyAt s of
           None \<Rightarrow> None
         | Some r \<Rightarrow> if now \<ge> r + settleCapMs t then Some Settle_timeout
                     else if s_lastSampleAt s = None \<and> now \<ge> r + noSampleMs t then Some No_samples
                     else None)
      else None)"

definition tick_slot :: "gate_timing \<Rightarrow> ms \<Rightarrow> string \<Rightarrow> 'm host \<Rightarrow> 'm host \<times> 'm effect list" where
  "tick_slot t now key h =
     (case slot h of
        None \<Rightarrow> (h, [])
      | Some s \<Rightarrow>
          (case slot_expired t now s of
             None \<Rightarrow> (h, [])
           | Some ev \<Rightarrow> (let (h', fx) = release t now key h
                         in (h', Log ev key (Some (s_session s)) # fx))))"

definition tick_window :: "gate_timing \<Rightarrow> ms \<Rightarrow> 'm host \<Rightarrow> 'm host \<times> 'm effect list" where
  "tick_window t now h =
     (case agingWindowUntil h of
        None \<Rightarrow> (h, [])
      | Some w \<Rightarrow>
          if now \<ge> w \<and> \<not> isCritical now h
          then dispatchReservation t now (h\<lparr>agingWindowUntil := None, humanStreak := 0\<rparr>)
          else (h, []))"

definition tick_held :: "gate_timing \<Rightarrow> ms \<Rightarrow> string \<Rightarrow> 'm host \<Rightarrow> 'm host \<times> 'm effect list" where
  "tick_held t now key h =
     (case reservation h of
        None \<Rightarrow> (h, [])
      | Some held \<Rightarrow>
          if now \<ge> h_since held + humanWaitMs t
          then (let (h', fx) = deliverAnyway t now (h_session held) (h_request held) (h_message held)
                                 (h\<lparr>reservation := None\<rparr>)
                in (h', Log Human_wait_expired key (Some (h_session held)) # fx))
          else (h, []))"

definition tick_host :: "gate_timing \<Rightarrow> ms \<Rightarrow> string \<Rightarrow> 'm host \<Rightarrow> 'm host \<times> 'm effect list" where
  "tick_host t now key =
     fx_then (tick_critical t now key)
       (fx_then (tick_slot t now key) (fx_then (tick_window t now) (tick_held t now key)))"

definition tick :: "gate_timing \<Rightarrow> ms \<Rightarrow> 'm gate \<Rightarrow> 'm gate \<times> 'm effect list" where
  "tick t now = fx_entries (tick_host t now)"

definition slot_deadlines :: "gate_timing \<Rightarrow> slot \<Rightarrow> ms list" where
  "slot_deadlines t s =
     (case s_reboundAt s of Some r \<Rightarrow> if s_phase s = Booting then [r + reboundMs t] else [] | None \<Rightarrow> []) @
     (if s_phase s = Booting then [s_since s + bootMs t]
      else (case s_readyAt s of
              None \<Rightarrow> []
            | Some r \<Rightarrow> (r + settleCapMs t) # (if s_lastSampleAt s = None then [r + noSampleMs t] else [])))"

definition host_deadlines :: "gate_timing \<Rightarrow> ms \<Rightarrow> 'm host \<Rightarrow> ms list" where
  "host_deadlines t now h =
     (case slot h of None \<Rightarrow> [] | Some s \<Rightarrow> slot_deadlines t s) @
     (case criticalUntil h of None \<Rightarrow> [] | Some until \<Rightarrow> [until]) @
     (case agingWindowUntil h of None \<Rightarrow> [] | Some w \<Rightarrow> if isCritical now h then [] else [w]) @
     (case reservation h of None \<Rightarrow> [] | Some held \<Rightarrow> [h_since held + humanWaitMs t])"

definition nextDeadline :: "gate_timing \<Rightarrow> ms \<Rightarrow> 'm gate \<Rightarrow> ms option" where
  "nextDeadline t now g =
     (case concat (map (\<lambda>(_, h). host_deadlines t now h) g) of
        [] \<Rightarrow> None
      | d # ds \<Rightarrow> Some (fold min ds d))"

subsection \<open>Questions that change nothing\<close>

definition wouldRefuseAutomated :: "ms \<Rightarrow> 'm gate \<Rightarrow> string \<Rightarrow> boot_refusal option" where
  "wouldRefuseAutomated now g key =
     (case jget g key of
        None \<Rightarrow> None
      | Some h \<Rightarrow>
          if isCritical now h then Some Host_memory_critical
          else if slot h = None \<and> (agingWindowUntil h \<noteq> None \<or> reservation h = None) then None
          else Some Host_booting)"

definition isBooting :: "'m gate \<Rightarrow> string \<Rightarrow> bool" where
  "isBooting g key = (case jget g key of None \<Rightarrow> False | Some h \<Rightarrow> slot h \<noteq> None)"

end
