(* ===== verification/Admission_Retry.thy ===== *)
theory Admission_Retry
  imports Boot_Gate Flow_Types
begin

text \<open>
  \<open>packages/flow-runner/src/admission.ts\<close>: a runner that was refused because a Mac is busy asks again, less and
  less often, until it is admitted or its time is up. The attempt, the clock, the timer and the random
  number are arguments on a state \<open>'w\<close>, as the options of \<open>retryAdmission\<close> make them in the code. The errors
  an attempt throws are a datatype with the reasons the code reads off their classes; a decimal in a
  message is \<open>rt_num\<close>'s.
\<close>

subsection \<open>The code\<close>

datatype admission_reason = Refusal admission_refusal | All_held | Unrecognised_refusal

datatype join_failure = Session_not_found | Session_busy | Resources_exhausted | Join_unknown

datatype run_error =
    Admission_refused admission_reason string
  | Session_join join_failure string
  | Other_failure string

fun run_error_message :: "run_error \<Rightarrow> string" where
  "run_error_message (Admission_refused r m) = m"
| "run_error_message (Session_join f m) = m"
| "run_error_message (Other_failure m) = m"

fun admissionRefusalOf :: "run_error \<Rightarrow> admission_reason option" where
  "admissionRefusalOf (Admission_refused reason m) = Some reason"
| "admissionRefusalOf (Session_join f m) =
     (if f = Resources_exhausted then Some (Refusal Agent_resources_exhausted) else None)"
| "admissionRefusalOf (Other_failure m) = None"

record backoff =
  firstMs :: ms
  factor :: int
  maxMs :: ms
  jitter :: rat

definition ADMISSION_BACKOFF :: backoff where
  "ADMISSION_BACKOFF = \<lparr>firstMs = 5000, factor = 2, maxMs = 30000, jitter = 2 / 10\<rparr>"

record ('w, 'a) retry_host =
  rt_attempt :: "'w \<Rightarrow> 'w \<times> (run_error + 'a)"
  rt_now :: "'w \<Rightarrow> ms"
  rt_sleep :: "ms \<Rightarrow> 'w \<Rightarrow> 'w"
  rt_random :: "'w \<Rightarrow> 'w \<times> rat"
  rt_num :: "int \<Rightarrow> string"

text \<open>The value with the attempts it took and the time they took.\<close>

record 'a admitted =
  ad_value :: 'a
  ad_attempts :: nat
  ad_waitedMs :: ms

definition jittered :: "ms \<Rightarrow> rat \<Rightarrow> ms" where
  "jittered delay r = js_round (of_int delay * (1 + (r * 2 - 1) * jitter ADMISSION_BACKOFF))"

definition give_up :: "('w, 'a) retry_host \<Rightarrow> run_error \<Rightarrow> admission_reason \<Rightarrow> ms \<Rightarrow> nat \<Rightarrow> run_error" where
  "give_up H e reason waited attempts = Admission_refused reason
     (run_error_message e @ '' -- still refused after '' @ rt_num H (js_round (of_int waited / 1000)) @ ''s and ''
      @ rt_num H (int attempts) @ '' attempts'')"

text \<open>The waits are the calls of \<open>onWait\<close>, in order.\<close>

type_synonym wait = "admission_reason \<times> ms"

fun retry_loop ::
  "nat \<Rightarrow> ('w, 'a) retry_host \<Rightarrow> ms \<Rightarrow> ms \<Rightarrow> ms \<Rightarrow> nat \<Rightarrow> 'w \<Rightarrow> ('w \<times> wait list \<times> (run_error + 'a admitted)) option" where
  "retry_loop 0 H timeoutMs started delay attempts w = None"
| "retry_loop (Suc n) H timeoutMs started delay attempts w =
     (case rt_attempt H w of
        (w1, Inr v) \<Rightarrow>
          Some (w1, [], Inr \<lparr>ad_value = v, ad_attempts = attempts, ad_waitedMs = rt_now H w1 - started\<rparr>)
      | (w1, Inl e) \<Rightarrow>
          (case admissionRefusalOf e of
             None \<Rightarrow> Some (w1, [], Inl e)
           | Some reason \<Rightarrow>
               (case rt_random H w1 of (w2, r) \<Rightarrow>
                  (let left = started + timeoutMs - rt_now H w2 in
                   if left \<le> 0 then Some (w2, [], Inl (give_up H e reason (rt_now H w2 - started) attempts))
                   else (let wait = min (jittered delay r) left in
                     map_option (\<lambda>(w', ws, res). (w', (reason, wait) # ws, res))
                       (retry_loop n H timeoutMs started
                          (min (delay * factor ADMISSION_BACKOFF) (maxMs ADMISSION_BACKOFF))
                          (attempts + 1) (rt_sleep H wait w2)))))))"

definition retryAdmission ::
  "nat \<Rightarrow> ('w, 'a) retry_host \<Rightarrow> ms \<Rightarrow> 'w \<Rightarrow> ('w \<times> wait list \<times> (run_error + 'a admitted)) option" where
  "retryAdmission n H timeoutMs w = retry_loop n H timeoutMs (rt_now H w) (firstMs ADMISSION_BACKOFF) 1 w"

subsection \<open>What it does\<close>

text \<open>A clock that does not run backwards, a timer that takes time, a random number below one.\<close>

definition retry_host_ok :: "('w, 'a) retry_host \<Rightarrow> bool" where
  "retry_host_ok H \<longleftrightarrow>
     (\<forall>w. rt_now H w \<le> rt_now H (fst (rt_attempt H w)))
     \<and> (\<forall>w. rt_now H w \<le> rt_now H (fst (rt_random H w)) \<and> 0 \<le> snd (rt_random H w) \<and> snd (rt_random H w) < 1)
     \<and> (\<forall>m w. 1 \<le> m \<longrightarrow> rt_now H w + 1 \<le> rt_now H (rt_sleep H m w))"

lemma retry_host_okD:
  assumes "retry_host_ok H"
  shows "rt_attempt H w = (w1, r) \<Longrightarrow> rt_now H w \<le> rt_now H w1"
    and "rt_random H w = (w2, x) \<Longrightarrow> rt_now H w \<le> rt_now H w2 \<and> 0 \<le> x \<and> x < 1"
    and "1 \<le> m \<Longrightarrow> rt_now H w + 1 \<le> rt_now H (rt_sleep H m w)"
  using assms unfolding retry_host_ok_def by (metis fst_conv snd_conv)+

text \<open>
  The specification: the wait before attempt \<open>k + 2\<close> is five seconds doubled \<open>k\<close> times and at most thirty, up to a fifth
  shorter or longer by the random number, and cut to the time left. \<open>refused_along H til w ws w1\<close>: from \<open>w\<close>, attempts
  were refused and slept off one after another, with the waits \<open>ws\<close>, until \<open>w1\<close>.
\<close>

definition nominal :: "nat \<Rightarrow> ms" where
  "nominal k = min (5000 * 2 ^ k) 30000"

inductive refused_along :: "('w, 'a) retry_host \<Rightarrow> ms \<Rightarrow> 'w \<Rightarrow> wait list \<Rightarrow> 'w \<Rightarrow> bool" for H til w where
  along_start: "refused_along H til w [] w"
| along_wait: "refused_along H til w ws w1 \<Longrightarrow> rt_attempt H w1 = (w2, Inl e) \<Longrightarrow> admissionRefusalOf e = Some reason
    \<Longrightarrow> rt_random H w2 = (w3, x) \<Longrightarrow> rt_now H w3 < til
    \<Longrightarrow> m = min (js_round (of_int (nominal (length ws)) * (4 / 5 + 2 / 5 * x))) (til - rt_now H w3)
    \<Longrightarrow> refused_along H til w (ws @ [(reason, m)]) (rt_sleep H m w3)"

lemma jittered_bounds:
  assumes "5000 \<le> delay" and "delay \<le> 30000" and "0 \<le> r" and "r < 1"
  shows "4000 \<le> jittered delay r \<and> jittered delay r \<le> 36000"
proof -
  let ?x = "of_int delay * (1 + (r * 2 - 1) * jitter ADMISSION_BACKOFF)"
  have k: "8 / 10 \<le> 1 + (r * 2 - 1) * jitter ADMISSION_BACKOFF" "1 + (r * 2 - 1) * jitter ADMISSION_BACKOFF \<le> 12 / 10"
    using assms(3,4) by (simp_all add: ADMISSION_BACKOFF_def field_simps)
  have d: "(5000 :: rat) \<le> of_int delay" "of_int delay \<le> (30000 :: rat)" using assms(1,2) by simp_all
  have "5000 * (8 / 10) \<le> ?x" by (rule mult_mono) (use d k in linarith)+
  moreover have "?x \<le> 30000 * (12 / 10)" by (rule mult_mono) (use d k in linarith)+
  ultimately have "4000 \<le> \<lfloor>?x + 1 / 2\<rfloor>" "\<lfloor>?x + 1 / 2\<rfloor> \<le> 36000" by linarith+
  then show ?thesis by (simp add: jittered_def js_round_def)
qed

lemma jittered_nominal: "jittered d x = js_round (of_int d * (4 / 5 + 2 / 5 * x))"
  by (simp add: jittered_def ADMISSION_BACKOFF_def algebra_simps)

lemma nominal_bounds: "5000 \<le> nominal k" "nominal k \<le> 30000"
proof -
  have "(1 :: ms) \<le> 2 ^ k" by simp
  then show "5000 \<le> nominal k" unfolding nominal_def by linarith
qed (simp add: nominal_def)

lemma nominal_next: "min (nominal k * factor ADMISSION_BACKOFF) (maxMs ADMISSION_BACKOFF) = nominal (Suc k)"
  by (simp add: nominal_def ADMISSION_BACKOFF_def min_def)

lemma nominal_first: "firstMs ADMISSION_BACKOFF = nominal 0"
  by (simp add: nominal_def ADMISSION_BACKOFF_def)

lemma along_waits:
  assumes "refused_along H til w ws w1" and "retry_host_ok H" and "(reason, m) \<in> set ws"
  shows "1 \<le> m \<and> m \<le> 36000"
  using assms(1,3)
proof (induction rule: refused_along.induct)
  case (along_wait ws w1 w2 e r w3 x m')
  have x: "0 \<le> x" "x < 1" using retry_host_okD(2) [OF assms(2) along_wait.hyps(4)] by auto
  have "1 \<le> m' \<and> m' \<le> 36000"
    using jittered_bounds [OF nominal_bounds x, of "length ws"] along_wait.hyps(5,6) unfolding jittered_nominal by linarith
  with along_wait.IH along_wait.prems show ?case by auto
qed simp

text \<open>How the last attempt ended it all: \<open>n\<close> waits came before.\<close>

definition ends_with :: "('w, 'a) retry_host \<Rightarrow> ms \<Rightarrow> ms \<Rightarrow> nat \<Rightarrow> 'w \<Rightarrow> 'w \<Rightarrow> run_error + 'a admitted \<Rightarrow> bool" where
  "ends_with H started til n w1 w' res \<longleftrightarrow>
     (case rt_attempt H w1 of
        (w2, Inr v) \<Rightarrow> w' = w2 \<and> res = Inr \<lparr>ad_value = v, ad_attempts = Suc n, ad_waitedMs = rt_now H w' - started\<rparr>
      | (w2, Inl e) \<Rightarrow>
          (case admissionRefusalOf e of
             None \<Rightarrow> w' = w2 \<and> res = Inl e
           | Some reason \<Rightarrow> til \<le> rt_now H w' \<and> w' = fst (rt_random H w2)
               \<and> (\<exists>words. res = Inl (Admission_refused reason (run_error_message e @ words)))))"

lemma retry_loop_run:
  assumes "retry_host_ok H" and "nat (started + timeoutMs - rt_now H w) < n"
    and "refused_along H (started + timeoutMs) w0 ws0 w"
  shows "\<exists>w' ws res w1. retry_loop n H timeoutMs started (nominal (length ws0)) (Suc (length ws0)) w = Some (w', ws, res)
    \<and> refused_along H (started + timeoutMs) w0 (ws0 @ ws) w1
    \<and> ends_with H started (started + timeoutMs) (length (ws0 @ ws)) w1 w' res"
  using assms(2,3)
proof (induction n arbitrary: ws0 w)
  case (Suc n)
  let ?k = "length ws0"
  obtain w1 r where at: "rt_attempt H w = (w1, r)" by fastforce
  have stop: ?case
    if "retry_loop (Suc n) H timeoutMs started (nominal ?k) (Suc ?k) w = Some (w', [], res)"
      "ends_with H started (started + timeoutMs) ?k w w' res" for w' res
    using that Suc.prems(2) by (intro exI [of _ w'] exI [of _ "[]"] exI [of _ res] exI [of _ w]) simp
  show ?case
  proof (cases r)
    case (Inr v)
    with at show ?thesis by (intro stop) (simp_all add: ends_with_def)
  next
    case (Inl e)
    show ?thesis
    proof (cases "admissionRefusalOf e")
      case None
      with at Inl show ?thesis by (intro stop) (simp_all add: ends_with_def)
    next
      case (Some reason)
      obtain w2 x where rnd: "rt_random H w1 = (w2, x)" by fastforce
      let ?left = "started + timeoutMs - rt_now H w2"
      show ?thesis
      proof (cases "?left \<le> 0")
        case True
        have "\<exists>words. give_up H e reason (rt_now H w2 - started) (Suc ?k) = Admission_refused reason (run_error_message e @ words)"
          unfolding give_up_def by blast
        then obtain words where "give_up H e reason (rt_now H w2 - started) (Suc ?k) = Admission_refused reason (run_error_message e @ words)" ..
        with True at Inl Some rnd show ?thesis by (intro stop) (auto simp: Let_def ends_with_def)
      next
        case False
        define wait where "wait = min (jittered (nominal ?k) x) ?left"
        have x: "0 \<le> x" "x < 1" "rt_now H w1 \<le> rt_now H w2" using retry_host_okD(2) [OF assms(1) rnd] by auto
        have pos: "1 \<le> wait" using jittered_bounds [OF nominal_bounds x(1,2), of ?k] False unfolding wait_def by linarith
        have "rt_now H w + 1 \<le> rt_now H (rt_sleep H wait w2)"
          using retry_host_okD(3) [OF assms(1) pos, of w2] retry_host_okD(1) [OF assms(1) at] x(3) by simp
        moreover have "rt_now H w < started + timeoutMs"
          using False retry_host_okD(1) [OF assms(1) at] x(3) by simp
        ultimately have fuel: "nat (started + timeoutMs - rt_now H (rt_sleep H wait w2)) < n"
          using Suc.prems(1) by linarith
        have "refused_along H (started + timeoutMs) w0 (ws0 @ [(reason, wait)]) (rt_sleep H wait w2)"
          by (rule along_wait [OF Suc.prems(2) at [unfolded Inl] Some rnd]) (use False in \<open>simp_all add: wait_def jittered_nominal\<close>)
        from Suc.IH [OF fuel this] obtain w' ws res w3 where
          IH: "retry_loop n H timeoutMs started (nominal (Suc ?k)) (Suc (Suc ?k)) (rt_sleep H wait w2) = Some (w', ws, res)"
          "refused_along H (started + timeoutMs) w0 (ws0 @ (reason, wait) # ws) w3"
          "ends_with H started (started + timeoutMs) (length (ws0 @ (reason, wait) # ws)) w3 w' res" by auto
        have "retry_loop (Suc n) H timeoutMs started (nominal ?k) (Suc ?k) w = Some (w', (reason, wait) # ws, res)"
          using at Inl Some rnd False IH(1) by (simp add: Let_def wait_def nominal_next)
        with IH(2,3) show ?thesis by blast
      qed
    qed
  qed
qed simp

text \<open>
  C20. A refused runner stops asking: with one unit of fuel for each millisecond it was given, and one more, the retries
  end. Attempts are refused and waited off one after another, the waits starting at five seconds and doubling to thirty,
  each up to a fifth shorter or longer and never past the deadline; the attempt after them decides. Its value is returned
  with the attempts it took and the time, its error is thrown on as it is when it is no refusal, and a refusal ends the
  retries only once the time is up, thrown with its own reason and words. Every wait is shorter than the window the boot
  gate keeps open for automation after people had their turns, so a retry can arrive while it is open.
\<close>

theorem retries_end_and_meet_the_window:
  assumes "retry_host_ok H"
  shows "\<exists>w' ws res w1. retryAdmission (nat timeoutMs + 1) H timeoutMs w = Some (w', ws, res)
    \<and> refused_along H (rt_now H w + timeoutMs) w ws w1
    \<and> (\<forall>(reason, m) \<in> set ws. 1 \<le> m \<and> m < agingWindowMs GATE_DEFAULTS)
    \<and> (case rt_attempt H w1 of
         (w2, Inr v) \<Rightarrow> w' = w2
           \<and> res = Inr \<lparr>ad_value = v, ad_attempts = Suc (length ws), ad_waitedMs = rt_now H w' - rt_now H w\<rparr>
       | (w2, Inl e) \<Rightarrow>
           (case admissionRefusalOf e of
              None \<Rightarrow> w' = w2 \<and> res = Inl e
            | Some reason \<Rightarrow> rt_now H w + timeoutMs \<le> rt_now H w' \<and> w' = fst (rt_random H w2)
                \<and> (\<exists>words. res = Inl (Admission_refused reason (run_error_message e @ words)))))"
proof -
  have "nat (rt_now H w + timeoutMs - rt_now H w) < nat timeoutMs + 1" by simp
  from retry_loop_run [OF assms this along_start] obtain w' ws res w1 where run:
    "retryAdmission (nat timeoutMs + 1) H timeoutMs w = Some (w', ws, res)"
    "refused_along H (rt_now H w + timeoutMs) w ws w1"
    "ends_with H (rt_now H w) (rt_now H w + timeoutMs) (length ws) w1 w' res"
    by (auto simp: retryAdmission_def nominal_first)
  have "\<forall>(reason, m) \<in> set ws. 1 \<le> m \<and> m < agingWindowMs GATE_DEFAULTS"
    using along_waits [OF run(2) assms] by (fastforce simp: GATE_DEFAULTS_def)
  with run show ?thesis
    unfolding ends_with_def by (intro exI [of _ w'] exI [of _ ws] exI [of _ res] exI [of _ w1] conjI) assumption+
qed

text \<open>A host whose Mac is busy for the first attempts.\<close>

definition busy_host :: "(ms \<times> nat, string) retry_host" where
  "busy_host = \<lparr>rt_attempt = (\<lambda>(t, k). case k of 0 \<Rightarrow> ((t, 0), Inr ''booted'')
       | Suc j \<Rightarrow> ((t, j), Inl (Admission_refused (Refusal (Boot_refusal Host_booting)) ''booting''))),
     rt_now = fst, rt_sleep = (\<lambda>m (t, k). (t + max m 0, k)), rt_random = (\<lambda>w. (w, 1 / 2)), rt_num = (\<lambda>_. ''#'')\<rparr>"

lemma busy_host_ok: "retry_host_ok busy_host"
  by (auto simp: retry_host_ok_def busy_host_def split: nat.split)

theorem retries_end_and_meet_the_window_witness:
  "\<exists>w' ws res w1. retryAdmission (nat 60000 + 1) busy_host 60000 (0, 2) = Some (w', ws, res)
     \<and> refused_along busy_host 60000 (0, 2) ws w1 \<and> list_all (\<lambda>(reason, m). 1 \<le> m \<and> m < agingWindowMs GATE_DEFAULTS) ws"
proof -
  have "rt_now busy_host (0, 2) + 60000 = 60000" by (simp add: busy_host_def)
  with retries_end_and_meet_the_window [OF busy_host_ok, of 60000 "(0, 2)"] show ?thesis unfolding list_all_iff by metis
qed

end
