(* ===== verification/Channel_State.thy ===== *)
theory Channel_State
  imports Screen_Geometry Admission_Retry
begin

text \<open>
  One relay socket's sessions as a client sees them (\<open>packages/flow-runner/src/sessionChannel.ts\<close>, the requests of
  \<open>RelayClient.ts\<close>, and the errors of \<open>sessionErrors.ts\<close>): the messages, the failures and the state.
  A session id and a request id are numbers. An inbound message is the fields the client reads off it, \<open>None\<close> where
  one is missing or of another type. Of a failure's prose the model keeps the class, the note on the session, the words
  of the peer and whether it was marked as the environment's. The log, the request ids' randomness and the address of
  a watch page are left out.
\<close>

subsection \<open>What the relay sends\<close>

type_synonym sid = nat
type_synonym rid = nat

datatype command = Install | Launch | Clear | Open

datatype inbound_type =
    In_listed
  | In_joined
  | In_error
  | In_away
  | In_rebound
  | In_terminated
  | In_ready
  | In_boot_error
  | In_leased
  | In_lease_refused
  | In_done command
  | In_failed command
  | In_input_done
  | In_input_error
  | In_typed
  | In_type_error
  | In_postures
  | In_chrome
  | In_unread

record postures =
  po_ids :: "string list"
  po_current :: "string option"

record boot_outcome =
  bo_cold :: "bool option"
  bo_runReset :: "(string list \<times> string list) option"

datatype payload = No_payload | Chrome_payload chrome_payload | Postures_payload postures | Ready_payload boot_outcome | Other_payload

text \<open>\<open>applied\<close>: absent, the two lists of names, or something else.\<close>

datatype applied = Not_applied | Applied launch_applied | Malformed_applied

record inbound =
  im_type :: inbound_type
  im_session :: "sid option"
  im_request :: "rid option"
  im_reason :: "string option"
  im_message :: "string option"
  im_retryable :: "bool option"
  im_payload :: payload
  im_applied :: applied
  im_features :: "string list option"

subsection \<open>What the client sends\<close>

datatype outbound =
    Out_touch_start sid point
  | Out_touch_move sid point
  | Out_touch_end sid rid point
  | Out_touch_cancel sid
  | Out_pinch_start sid "point \<times> point"
  | Out_pinch_move sid "point \<times> point"
  | Out_pinch_end sid rid
  | Out_type sid rid string
  | Out_key sid rid string nat
  | Out_button sid rid string
  | Out_rotate sid orientation
  | Out_posture sid string
  | Out_install sid rid nat
  | Out_launch sid rid nat "launch_options option"
  | Out_clear sid rid string
  | Out_open_url sid rid string
  | Out_agents_list
  | Out_start sid
  | Out_boot sid rid string
  | Out_lease rid "string list"
  | Out_leave sid
  | Out_activity sid string

subsection \<open>Failures\<close>

datatype term_reason = Agent_disconnected | Unknown_reason

datatype input_reason =
    Not_booted | Channel_unavailable | Channel_starting | Dispatch_failed | Input_unsupported | Input_malformed | No_gesture
  | Not_session_owner

definition INPUT_ERROR_REASONS :: "(string \<times> input_reason) list" where
  "INPUT_ERROR_REASONS =
     [(''not-booted'', Not_booted), (''channel-unavailable'', Channel_unavailable), (''channel-starting'', Channel_starting),
      (''dispatch-failed'', Dispatch_failed), (''unsupported'', Input_unsupported), (''malformed'', Input_malformed),
      (''no-gesture'', No_gesture), (''not-session-owner'', Not_session_owner)]"

definition asInputErrorReason :: "string option \<Rightarrow> input_reason" where
  "asInputErrorReason v = (case Option.bind v (map_of INPUT_ERROR_REASONS) of Some r \<Rightarrow> r | None \<Rightarrow> Channel_unavailable)"

definition ENVIRONMENTAL_INPUT_REASONS :: "input_reason set" where
  "ENVIRONMENTAL_INPUT_REASONS = {Not_booted, Channel_unavailable, Channel_starting, Dispatch_failed, Not_session_owner}"

datatype lease_refusal_reason = No_device | Bad_request | Unrecognised

datatype failure_class =
    Session_ended_error term_reason
  | Session_left_error
  | Relay_closed_error
  | Request_timeout_error
  | Input_unconfirmed_error
  | Input_refused_error input_reason
  | Session_unavailable_error
  | Relay_unavailable_error
  | Relay_http_error nat
  | Transient_query_error
  | Platform_error
  | Device_lacks_error
  | Session_join_error join_failure
  | Admission_refused_error admission_reason
  | Lease_refused_error lease_refusal_reason

datatype session_note = Note_ended term_reason | Note_away | Note_reboot

record failure =
  fa_class :: failure_class
  fa_note :: "session_note option"
  fa_detail :: "string option" \<comment> \<open>what the peer said\<close>
  fa_marked :: bool \<comment> \<open>in \<open>markedEnvironmentFailures\<close>\<close>

definition failing :: "failure_class \<Rightarrow> session_note option \<Rightarrow> failure" where
  "failing c n = \<lparr>fa_class = c, fa_note = n, fa_detail = None, fa_marked = False\<rparr>"

definition marked :: "failure \<Rightarrow> failure" where
  "marked f = f\<lparr>fa_marked := True\<rparr>"

subsection \<open>The state\<close>

record lifecycle =
  li_away :: bool
  li_needsReboot :: bool
  li_terminated :: "term_reason option"

text \<open>What a waiter's predicate asks of a message.\<close>

datatype awaits =
    Aw_listed
  | Aw_command command rid
  | Aw_ack sid rid
  | Aw_typed sid rid
  | Aw_join sid
  | Aw_boot sid rid
  | Aw_lease rid
  | Aw_chrome sid
  | Aw_turned sid orientation
  | Aw_postures sid
  | Aw_posture sid string

record waiter =
  wt_promise :: nat
  wt_awaits :: awaits
  wt_session :: "sid option"
  wt_timeout :: rat

datatype gesture_kind = Touch_at point | Pinch_open

datatype socket = Sock_open | Sock_closing | Sock_gone

text \<open>
  A promise is a number; \<open>ch_settled\<close> holds those settled with what their continuation will see, and \<open>ch_armed\<close> the
  promises of the join and the boot that a lease's answer armed. A gesture's identity is a number too.
\<close>

record channel =
  ch_socket :: socket
  ch_waiters :: "waiter list"
  ch_settled :: "(nat, failure + inbound) jmap"
  ch_armed :: "(nat, nat \<times> nat) jmap"
  ch_fresh :: nat
  ch_life :: "(sid, lifecycle) jmap"
  ch_chromes :: "(sid, chrome_payload) jmap"
  ch_postures :: "(sid, postures) jmap"
  ch_gestures :: "(sid, nat \<times> gesture_kind) jmap"

definition new_channel :: channel where
  "new_channel = \<lparr>ch_socket = Sock_open, ch_waiters = [], ch_settled = [], ch_armed = [], ch_fresh = 0, ch_life = [],
     ch_chromes = [], ch_postures = [], ch_gestures = []\<rparr>"

subsection \<open>Matching\<close>

definition correlatesWith :: "inbound \<Rightarrow> rid \<Rightarrow> bool" where
  "correlatesWith m r = (case im_request m of None \<Rightarrow> True | Some i \<Rightarrow> i = r)"

definition wants :: "orientation \<Rightarrow> held_orientation" where
  "wants orient = (case orient of Portrait \<Rightarrow> Held_portrait | Landscape \<Rightarrow> Held_landscape)"

primrec fits_message :: "awaits \<Rightarrow> inbound \<Rightarrow> bool" where
  "fits_message Aw_listed m = (im_type m = In_listed)"
| "fits_message (Aw_command c r) m = ((im_type m = In_done c \<or> im_type m = In_failed c) \<and> im_request m = Some r)"
| "fits_message (Aw_ack s r) m =
     ((im_type m = In_input_done \<or> im_type m = In_input_error) \<and> im_session m = Some s \<and> im_request m = Some r)"
| "fits_message (Aw_typed s r) m =
     ((im_type m = In_typed \<or> im_type m = In_type_error) \<and> im_session m = Some s \<and> im_request m = Some r)"
| "fits_message (Aw_join s) m = ((im_type m = In_joined \<or> im_type m = In_error) \<and> im_session m = Some s)"
| "fits_message (Aw_boot s r) m =
     ((im_type m = In_ready \<or> im_type m = In_boot_error) \<and> im_session m = Some s \<and> correlatesWith m r)"
| "fits_message (Aw_lease r) m =
     (im_request m = Some r \<and> (im_type m = In_lease_refused \<or> im_type m = In_leased \<and> im_session m \<noteq> None))"
| "fits_message (Aw_chrome s) m = (im_type m = In_chrome \<and> im_session m = Some s)"
| "fits_message (Aw_turned s orient) m =
     (im_type m = In_chrome \<and> im_session m = Some s
       \<and> (case im_payload m of Chrome_payload c \<Rightarrow> chromeOrientation c = Some (wants orient) | _ \<Rightarrow> False))"
| "fits_message (Aw_postures s) m =
     (im_type m = In_postures \<and> im_session m = Some s
       \<and> (case im_payload m of Postures_payload p \<Rightarrow> 0 < length (po_ids p) | _ \<Rightarrow> False))"
| "fits_message (Aw_posture s i) m =
     (im_type m = In_postures \<and> im_session m = Some s
       \<and> (case im_payload m of Postures_payload p \<Rightarrow> po_current p = Some i | _ \<Rightarrow> False))"

end
