(* ===== verification/Session_Channel.thy ===== *)
theory Session_Channel
  imports Channel_State
begin

text \<open>
  \<open>SessionChannel\<close> without its requests (\<open>packages/flow-runner/src/sessionChannel.ts\<close>): what a message, a deadline, a
  lost connection and a leave do to the waiters and to what the client knows of each session.
\<close>

subsection \<open>What the relay said of a session\<close>

definition lifecycleOf :: "sid \<Rightarrow> channel \<Rightarrow> lifecycle" where
  "lifecycleOf s ch =
     (case jget (ch_life ch) s of Some l \<Rightarrow> l | None \<Rightarrow> \<lparr>li_away = False, li_needsReboot = False, li_terminated = None\<rparr>)"

definition set_life :: "sid \<Rightarrow> lifecycle \<Rightarrow> channel \<Rightarrow> channel" where
  "set_life s l ch = ch\<lparr>ch_life := jset s l (ch_life ch)\<rparr>"

definition sessionNote :: "sid \<Rightarrow> channel \<Rightarrow> session_note option" where
  "sessionNote s ch =
     (case jget (ch_life ch) s of
        None \<Rightarrow> None
      | Some l \<Rightarrow>
          (case li_terminated l of
             Some r \<Rightarrow> Some (Note_ended r)
           | None \<Rightarrow> if li_away l then Some Note_away else if li_needsReboot l then Some Note_reboot else None))"

definition failed :: "sid \<Rightarrow> string option \<Rightarrow> channel \<Rightarrow> failure" where
  "failed s detail ch =
     (case sessionNote s ch of
        Some n \<Rightarrow> (failing Session_unavailable_error (Some n))\<lparr>fa_detail := detail\<rparr>
      | None \<Rightarrow> (failing Platform_error None)\<lparr>fa_detail := detail\<rparr>)"

subsection \<open>Waiters\<close>

definition waitFor :: "awaits \<Rightarrow> rat \<Rightarrow> sid option \<Rightarrow> channel \<Rightarrow> channel" where
  "waitFor a timeoutMs s ch =
     ch\<lparr>ch_waiters := ch_waiters ch @ [\<lparr>wt_promise = ch_fresh ch, wt_awaits = a, wt_session = s, wt_timeout = timeoutMs\<rparr>],
        ch_fresh := Suc (ch_fresh ch)\<rparr>"

definition settle_promise :: "nat \<Rightarrow> failure + inbound \<Rightarrow> channel \<Rightarrow> channel" where
  "settle_promise p result ch = ch\<lparr>ch_settled := jset p result (ch_settled ch)\<rparr>"

text \<open>Every waiter of which \<open>which\<close> holds is taken off the list and fails with what \<open>why\<close> says.\<close>

definition reject_waiters :: "(waiter \<Rightarrow> bool) \<Rightarrow> (waiter \<Rightarrow> failure) \<Rightarrow> channel \<Rightarrow> channel" where
  "reject_waiters which why ch =
     fold (\<lambda>w. settle_promise (wt_promise w) (Inl (why w))) (rev (filter which (ch_waiters ch)))
       (ch\<lparr>ch_waiters := filter (\<lambda>w. \<not> which w) (ch_waiters ch)\<rparr>)"

definition settleSessionWaiters :: "sid \<Rightarrow> (waiter \<Rightarrow> failure) \<Rightarrow> channel \<Rightarrow> channel" where
  "settleSessionWaiters s why ch = reject_waiters (\<lambda>w. wt_session w = Some s) why ch"

definition rejectSession :: "sid \<Rightarrow> term_reason \<Rightarrow> channel \<Rightarrow> channel" where
  "rejectSession s r ch = settleSessionWaiters s (\<lambda>w. failing (Session_ended_error r) None) ch"

text \<open>A timer's callback; \<open>clearTimeout\<close> has disarmed that of a waiter settled before.\<close>

definition deadline_passes :: "nat \<Rightarrow> channel \<Rightarrow> channel" where
  "deadline_passes p ch =
     reject_waiters (\<lambda>w. wt_promise w = p)
       (\<lambda>w. failing Request_timeout_error (Option.bind (wt_session w) (\<lambda>s. sessionNote s ch))) ch"

definition connectionLost :: "channel \<Rightarrow> channel" where
  "connectionLost ch =
     reject_waiters (\<lambda>_. True) (\<lambda>w. failing Relay_closed_error (Option.bind (wt_session w) (\<lambda>s. sessionNote s ch))) ch"

subsection \<open>A message comes\<close>

definition BOOT_DEADLINE_MS :: rat where "BOOT_DEADLINE_MS = 240000"

definition note_lifecycle :: "inbound \<Rightarrow> channel \<Rightarrow> channel" where
  "note_lifecycle m ch =
     (case im_session m of
        None \<Rightarrow> ch
      | Some s \<Rightarrow>
          (case im_type m of
             In_away \<Rightarrow> set_life s ((lifecycleOf s ch)\<lparr>li_away := True\<rparr>) ch
           | In_rebound \<Rightarrow> set_life s ((lifecycleOf s ch)\<lparr>li_away := False, li_needsReboot := True\<rparr>) ch
           | In_terminated \<Rightarrow>
               (let named = (if im_reason m = Some ''agent-disconnected'' then Agent_disconnected else Unknown_reason)
                in rejectSession s named (set_life s ((lifecycleOf s ch)\<lparr>li_away := False, li_terminated := Some named\<rparr>) ch))
           | In_joined \<Rightarrow> (case jget (ch_life ch) s of Some l \<Rightarrow> set_life s (l\<lparr>li_away := False\<rparr>) ch | None \<Rightarrow> ch)
           | _ \<Rightarrow> ch))"

definition keep_payload :: "inbound \<Rightarrow> channel \<Rightarrow> channel" where
  "keep_payload m ch =
     (case im_session m of
        None \<Rightarrow> ch
      | Some s \<Rightarrow>
          (case im_payload m of
             Chrome_payload c \<Rightarrow> if im_type m = In_chrome then ch\<lparr>ch_chromes := jset s c (ch_chromes ch)\<rparr> else ch
           | Postures_payload p \<Rightarrow> if im_type m = In_postures then ch\<lparr>ch_postures := jset s p (ch_postures ch)\<rparr> else ch
           | _ \<Rightarrow> ch))"

text \<open>
  The predicate of a lease's waiter arms the waiters of the join and the boot as it says yes, so that the frames
  that come in the same burst find them.
\<close>

definition arm_lease :: "waiter \<Rightarrow> inbound \<Rightarrow> channel \<Rightarrow> channel" where
  "arm_lease w m ch =
     (case wt_awaits w of
        Aw_lease r \<Rightarrow>
          (case im_session m of
             Some s \<Rightarrow>
               if im_type m = In_leased then
                 (waitFor (Aw_boot s r) BOOT_DEADLINE_MS (Some s) (waitFor (Aw_join s) 5000 (Some s) ch))
                   \<lparr>ch_armed := jset (wt_promise w) (ch_fresh ch, Suc (ch_fresh ch)) (ch_armed ch)\<rparr>
               else ch
           | None \<Rightarrow> ch)
      | _ \<Rightarrow> ch)"

definition settle_first :: "inbound \<Rightarrow> channel \<Rightarrow> channel" where
  "settle_first m ch =
     (case find (\<lambda>w. fits_message (wt_awaits w) m) (ch_waiters ch) of
        None \<Rightarrow> ch
      | Some w \<Rightarrow>
          (let ch1 = arm_lease w m ch
           in settle_promise (wt_promise w) (Inr m) (ch1\<lparr>ch_waiters := remove1 w (ch_waiters ch1)\<rparr>)))"

definition dispatch :: "inbound \<Rightarrow> channel \<Rightarrow> channel" where
  "dispatch m ch = settle_first m (keep_payload m (note_lifecycle m ch))"

subsection \<open>Gestures and leaving\<close>

definition closeGesture :: "sid \<Rightarrow> nat \<Rightarrow> channel \<Rightarrow> bool \<times> channel" where
  "closeGesture s g ch =
     (if map_option fst (jget (ch_gestures ch) s) = Some g then (True, ch\<lparr>ch_gestures := jdel s (ch_gestures ch)\<rparr>) else (False, ch))"

definition open_gesture :: "sid \<Rightarrow> gesture_kind \<Rightarrow> channel \<Rightarrow> channel" where
  "open_gesture s g ch = ch\<lparr>ch_gestures := jset s (ch_fresh ch, g) (ch_gestures ch), ch_fresh := Suc (ch_fresh ch)\<rparr>"

definition leftMidGesture :: failure where
  "leftMidGesture = failing Session_left_error None"

definition not_connected :: failure where
  "not_connected = failing Relay_unavailable_error None"

text \<open>The last component says whether the leave was sent; where it was not, \<open>send\<close> has thrown.\<close>

definition leaveSession :: "sid \<Rightarrow> rid \<Rightarrow> channel \<Rightarrow> channel \<times> outbound list \<times> bool" where
  "leaveSession s r ch =
     (let opened = jget (ch_gestures ch) s;
          ch1 = (if opened = None then ch else ch\<lparr>ch_gestures := jdel s (ch_gestures ch)\<rparr>);
          closing = (case opened of
                       None \<Rightarrow> []
                     | Some (_, Touch_at p) \<Rightarrow> [Out_touch_cancel s, Out_touch_end s r p]
                     | Some (_, Pinch_open) \<Rightarrow> [Out_pinch_end s r])
      in if ch_socket ch \<noteq> Sock_open then (ch1, [], False)
         else (settleSessionWaiters s (\<lambda>w. failing Session_left_error None) ch1, closing @ [Out_leave s], True))"

definition ACTIVITY_MAX :: nat where "ACTIVITY_MAX = 200"

definition activity :: "sid \<Rightarrow> string \<Rightarrow> channel \<Rightarrow> outbound list" where
  "activity s label ch =
     (let cut = take ACTIVITY_MAX (trim label)
      in if cut = [] \<or> ch_socket ch \<noteq> Sock_open then [] else [Out_activity s cut])"

end
