(* ===== verification/Channel_Calls.thy ===== *)
theory Channel_Calls
  imports Session_Channel
begin

text \<open>
  The requests a client makes over a \<open>Session_Channel\<close> (\<open>packages/flow-runner/src/sessionChannel.ts\<close> and
  \<open>RelayClient.ts\<close>). A request is an asynchronous function: it runs until it awaits a promise or a delay, and goes on
  in a later event, so a call that is not over is the place it waits at (\<open>pending\<close>) and its continuation is \<open>resume\<close>
  or \<open>pace\<close>. A continuation may run long after its promise was settled; the order of events is free. The stream
  listener, which the video reads, is left out, and of what a boot or a lease asks for only the device and the sessions to leave out are kept.
\<close>

subsection \<open>Requests\<close>

type_synonym two_fingers = "point \<times> point"

datatype operation =
    Op_tap sid point
  | Op_swipe sid point point rat
  | Op_long_press sid point rat
  | Op_pinch sid two_fingers two_fingers rat
  | Op_type sid string
  | Op_key sid string "key_modifier list option"
  | Op_button sid string
  | Op_open_url sid string
  | Op_install sid nat
  | Op_launch sid nat "launch_options option"
  | Op_clear sid string
  | Op_orientation sid orientation rat
  | Op_posture sid posture rat
  | Op_chrome sid rat
  | Op_list
  | Op_can_lease
  | Op_join sid
  | Op_boot sid string
  | Op_lease "string list"

datatype result =
    Completed
  | Launched "launch_applied option"
  | Chrome_is "chrome_payload option"
  | Listed
  | Can_lease bool
  | Joined_session
  | Booted_device boot_outcome
  | Leased_device sid boot_outcome

text \<open>Where a request waits for a promise.\<close>

datatype stage =
    St_command sid command rid bool \<comment> \<open>the bool: launch options were sent\<close>
  | St_ack sid rid
  | St_typed sid rid
  | St_features sid nat "launch_options option"
  | St_listed
  | St_can_lease
  | St_chrome sid
  | St_orient_chrome sid orientation rat
  | St_turned sid orientation
  | St_postures sid posture rat
  | St_posture sid string
  | St_join sid
  | St_boot sid rid
  | St_lease rid
  | St_lease_join sid rid nat \<comment> \<open>and the promise of the boot\<close>
  | St_lease_boot sid rid

primrec awaits_of :: "stage \<Rightarrow> awaits" where
  "awaits_of (St_command s c r _) = Aw_command c r"
| "awaits_of (St_ack s r) = Aw_ack s r"
| "awaits_of (St_typed s r) = Aw_typed s r"
| "awaits_of (St_features _ _ _) = Aw_listed"
| "awaits_of St_listed = Aw_listed"
| "awaits_of St_can_lease = Aw_listed"
| "awaits_of (St_chrome s) = Aw_chrome s"
| "awaits_of (St_orient_chrome s _ _) = Aw_chrome s"
| "awaits_of (St_turned s orient) = Aw_turned s orient"
| "awaits_of (St_postures s _ _) = Aw_postures s"
| "awaits_of (St_posture s i) = Aw_posture s i"
| "awaits_of (St_join s) = Aw_join s"
| "awaits_of (St_boot s r) = Aw_boot s r"
| "awaits_of (St_lease r) = Aw_lease r"
| "awaits_of (St_lease_join s _ _) = Aw_join s"
| "awaits_of (St_lease_boot s r) = Aw_boot s r"

primrec session_of :: "stage \<Rightarrow> sid option" where
  "session_of (St_command s _ _ _) = Some s"
| "session_of (St_ack s _) = Some s"
| "session_of (St_typed s _) = Some s"
| "session_of (St_features _ _ _) = None"
| "session_of St_listed = None"
| "session_of St_can_lease = None"
| "session_of (St_chrome s) = Some s"
| "session_of (St_orient_chrome s _ _) = Some s"
| "session_of (St_turned s _) = Some s"
| "session_of (St_postures s _ _) = Some s"
| "session_of (St_posture s _) = Some s"
| "session_of (St_join s) = Some s"
| "session_of (St_boot s _) = Some s"
| "session_of (St_lease _) = None"
| "session_of (St_lease_join s _ _) = Some s"
| "session_of (St_lease_boot s _) = Some s"

text \<open>Where a gesture waits for its next delay: which of its eight steps comes, and the gesture's identity.\<close>

datatype pacing =
    Pc_swipe sid rid nat point point rat nat
  | Pc_press sid rid nat point rat
  | Pc_pinch sid nat two_fingers two_fingers nat

datatype pending = Waiting stage nat | Pacing pacing

datatype outcome = Goes_on pending | Ends "failure + result"

type_synonym moved = "channel \<times> outbound list \<times> outcome"

definition sending :: "outbound list \<Rightarrow> (channel \<Rightarrow> moved) \<Rightarrow> channel \<Rightarrow> moved" where
  "sending msgs k ch =
     (if ch_socket ch = Sock_open then (case k ch of (ch1, out, next) \<Rightarrow> (ch1, msgs @ out, next))
      else (ch, [], Ends (Inl not_connected)))"

text \<open>\<open>sendFirstRequest\<close>, as \<open>RelayClient\<close> overrides it: on a closing socket the waiter is registered all the same.\<close>

definition sending_first :: "outbound list \<Rightarrow> (channel \<Rightarrow> moved) \<Rightarrow> channel \<Rightarrow> moved" where
  "sending_first msgs k ch = (if ch_socket ch = Sock_closing then k ch else sending msgs k ch)"

definition awaiting :: "stage \<Rightarrow> rat \<Rightarrow> channel \<Rightarrow> moved" where
  "awaiting st timeoutMs ch = (waitFor (awaits_of st) timeoutMs (session_of st) ch, [], Goes_on (Waiting st (ch_fresh ch)))"

definition ends :: "failure + result \<Rightarrow> channel \<Rightarrow> moved" where
  "ends x ch = (ch, [], Ends x)"

definition INPUT_ACK_TIMEOUT_MS :: rat where "INPUT_ACK_TIMEOUT_MS = 10000"

primrec command_timeout :: "command \<Rightarrow> rat" where
  "command_timeout Install = 120000"
| "command_timeout Launch = 30000"
| "command_timeout Clear = 30000"
| "command_timeout Open = 15000"

definition launch_request :: "sid \<Rightarrow> nat \<Rightarrow> launch_options option \<Rightarrow> rid \<Rightarrow> channel \<Rightarrow> moved" where
  "launch_request s build options r =
     sending [Out_launch s r build options] (awaiting (St_command s Launch r (options \<noteq> None)) (command_timeout Launch))"

definition begin_gesture :: "sid \<Rightarrow> gesture_kind \<Rightarrow> (nat \<Rightarrow> pacing) \<Rightarrow> channel \<Rightarrow> moved" where
  "begin_gesture s g pc ch = (open_gesture s g ch, [], Goes_on (Pacing (pc (ch_fresh ch))))"

text \<open>The halves of \<open>setOrientation\<close> and \<open>setPosture\<close> that come once the chrome or the postures are known.\<close>

definition orient_from :: "sid \<Rightarrow> orientation \<Rightarrow> rat \<Rightarrow> chrome_payload \<Rightarrow> channel \<Rightarrow> moved" where
  "orient_from s orient timeoutMs chrome ch =
     (case chromeOrientation chrome of
        None \<Rightarrow> ends (Inl (failing Device_lacks_error (fa_note (failed s None ch)))) ch
      | Some now \<Rightarrow>
          if now = wants orient then ends (Inr Completed) ch
          else (case awaiting (St_turned s orient) timeoutMs ch of
                  (ch1, _, next) \<Rightarrow> sending [Out_rotate s orient] (\<lambda>c. (c, [], next)) ch1))"

definition posture_from :: "sid \<Rightarrow> posture \<Rightarrow> rat \<Rightarrow> postures \<Rightarrow> channel \<Rightarrow> moved" where
  "posture_from s posture timeoutMs ps ch =
     (if length (po_ids ps) \<noteq> 2 then ends (Inl (marked (failed s None ch))) ch
      else (let target = po_ids ps ! (if posture = Folded then 0 else 1) in
        if po_current ps = Some target then ends (Inr Completed) ch
        else (case awaiting (St_posture s target) timeoutMs ch of
                (ch1, _, next) \<Rightarrow> sending [Out_posture s target] (\<lambda>c. (c, [], next)) ch1)))"

subsection \<open>A request begins\<close>

definition lerp :: "point \<Rightarrow> point \<Rightarrow> rat \<Rightarrow> point" where
  "lerp a b t = (fst a + (fst b - fst a) * t, snd a + (snd b - snd a) * t)"

definition pinch_between :: "two_fingers \<Rightarrow> two_fingers \<Rightarrow> rat \<Rightarrow> two_fingers" where
  "pinch_between a b t = (lerp (fst a) (fst b) t, lerp (snd a) (snd b) t)"

definition modifiers_of :: "key_modifier list option \<Rightarrow> nat" where
  "modifiers_of ms = keyModifierBits (case ms of Some l \<Rightarrow> l | None \<Rightarrow> [])"

primrec begin_call :: "operation \<Rightarrow> rid \<Rightarrow> channel \<Rightarrow> moved" where
  "begin_call (Op_tap s p) r = sending [Out_touch_start s p, Out_touch_end s r p] (awaiting (St_ack s r) INPUT_ACK_TIMEOUT_MS)"
| "begin_call (Op_swipe s a b d) r = sending [Out_touch_start s a] (begin_gesture s (Touch_at a) (\<lambda>g. Pc_swipe s r g a b d 1))"
| "begin_call (Op_long_press s p d) r = sending [Out_touch_start s p] (begin_gesture s (Touch_at p) (\<lambda>g. Pc_press s r g p d))"
| "begin_call (Op_pinch s a b d) r = sending [Out_pinch_start s (pinch_between a b 0)] (begin_gesture s Pinch_open (\<lambda>g. Pc_pinch s g a b 1))"
| "begin_call (Op_type s text) r = sending [Out_type s r text] (awaiting (St_typed s r) 15000)"
| "begin_call (Op_key s code ms) r = sending [Out_key s r code (modifiers_of ms)] (awaiting (St_ack s r) INPUT_ACK_TIMEOUT_MS)"
| "begin_call (Op_button s name) r = sending [Out_button s r name] (awaiting (St_ack s r) INPUT_ACK_TIMEOUT_MS)"
| "begin_call (Op_open_url s url) r = sending [Out_open_url s r url] (awaiting (St_command s Open r False) (command_timeout Open))"
| "begin_call (Op_install s build) r = sending [Out_install s r build] (awaiting (St_command s Install r False) (command_timeout Install))"
| "begin_call (Op_launch s build options) r =
     (if options \<noteq> None then sending_first [Out_agents_list] (awaiting (St_features s build options) 5000)
      else launch_request s build options r)"
| "begin_call (Op_clear s bundle) r = sending [Out_clear s r bundle] (awaiting (St_command s Clear r False) (command_timeout Clear))"
| "begin_call (Op_orientation s orient timeoutMs) r = (\<lambda>ch.
     case jget (ch_chromes ch) s of
       Some chrome \<Rightarrow> orient_from s orient timeoutMs chrome ch
     | None \<Rightarrow> awaiting (St_orient_chrome s orient timeoutMs) timeoutMs ch)"
| "begin_call (Op_posture s posture timeoutMs) r = (\<lambda>ch.
     case jget (ch_postures ch) s of
       Some ps \<Rightarrow> if po_ids ps = [] then awaiting (St_postures s posture timeoutMs) timeoutMs ch
                  else posture_from s posture timeoutMs ps ch
     | None \<Rightarrow> awaiting (St_postures s posture timeoutMs) timeoutMs ch)"
| "begin_call (Op_chrome s timeoutMs) r = (\<lambda>ch.
     case jget (ch_chromes ch) s of
       Some chrome \<Rightarrow> ends (Inr (Chrome_is (Some chrome))) ch
     | None \<Rightarrow> awaiting (St_chrome s) timeoutMs ch)"
| "begin_call Op_list r = sending_first [Out_agents_list] (awaiting St_listed 5000)"
| "begin_call Op_can_lease r = sending_first [Out_agents_list] (awaiting St_can_lease 5000)"
| "begin_call (Op_join s) r = sending_first [Out_start s] (awaiting (St_join s) 5000)"
| "begin_call (Op_boot s dev) r = sending [Out_boot s r dev] (awaiting (St_boot s r) BOOT_DEADLINE_MS)"
| "begin_call (Op_lease exclude) r = sending_first [Out_lease r exclude] (awaiting (St_lease r) 10000)"

subsection \<open>A gesture goes on after a delay\<close>

definition STEPS :: nat where "STEPS = 8"

definition is_open :: "sid \<Rightarrow> nat \<Rightarrow> channel \<Rightarrow> bool" where
  "is_open s g ch \<longleftrightarrow> map_option fst (jget (ch_gestures ch) s) = Some g"

primrec pace :: "pacing \<Rightarrow> rid \<Rightarrow> channel \<Rightarrow> moved" where
  "pace (Pc_swipe s q g a b d i) r ch =
     (if i < STEPS then
        if \<not> is_open s g ch then ends (Inl leftMidGesture) ch
        else sending [Out_touch_move s (lerp a b (of_nat i / of_nat STEPS))]
               (\<lambda>c. (c, [], Goes_on (Pacing (Pc_swipe s q g a b d (Suc i))))) ch
      else (case closeGesture s g ch of
              (False, ch1) \<Rightarrow> ends (Inl leftMidGesture) ch1
            | (True, ch1) \<Rightarrow> sending [Out_touch_end s q b] (awaiting (St_ack s q) (INPUT_ACK_TIMEOUT_MS + d)) ch1))"
| "pace (Pc_press s q g p d) r ch =
     (case closeGesture s g ch of
        (False, ch1) \<Rightarrow> ends (Inl leftMidGesture) ch1
      | (True, ch1) \<Rightarrow> sending [Out_touch_end s q p] (awaiting (St_ack s q) (INPUT_ACK_TIMEOUT_MS + d)) ch1)"
| "pace (Pc_pinch s g a b i) r ch =
     (if \<not> is_open s g ch then ends (Inl leftMidGesture) ch
      else sending [Out_pinch_move s (pinch_between a b (of_nat i / of_nat STEPS))]
             (\<lambda>c. if i < STEPS then (c, [], Goes_on (Pacing (Pc_pinch s g a b (Suc i))))
                  else sending [Out_pinch_end s r] (awaiting (St_ack s r) INPUT_ACK_TIMEOUT_MS) (snd (closeGesture s g c))) ch)"

subsection \<open>A request goes on once its promise is settled\<close>

definition SESSION_START_FAILURES :: "(string \<times> join_failure) list" where
  "SESSION_START_FAILURES =
     [(''session-not-found'', Session_not_found), (''session-busy'', Session_busy), (''agent-resources-exhausted'', Resources_exhausted)]"

definition BOOT_REFUSALS :: "(string \<times> admission_reason) list" where
  "BOOT_REFUSALS =
     [(''host-booting'', Refusal (Boot_refusal Host_booting)), (''host-memory-critical'', Refusal (Boot_refusal Host_memory_critical)),
      (''host-at-capacity'', Refusal (Boot_refusal Host_at_capacity))]"

definition known_or :: "'a \<Rightarrow> (string \<times> 'a) list \<Rightarrow> string option \<Rightarrow> 'a" where
  "known_or otherwise table v = (case Option.bind v (map_of table) of Some x \<Rightarrow> x | None \<Rightarrow> otherwise)"

definition failing_with :: "failure_class \<Rightarrow> string option \<Rightarrow> failure" where
  "failing_with c detail = (failing c None)\<lparr>fa_detail := detail\<rparr>"

definition joinReply :: "inbound \<Rightarrow> failure option" where
  "joinReply m =
     (if im_type m \<noteq> In_error then None
      else Some (failing_with (Session_join_error (known_or Join_unknown SESSION_START_FAILURES (im_reason m))) (im_message m)))"

definition readyOutcome :: "payload \<Rightarrow> boot_outcome" where
  "readyOutcome p = (case p of Ready_payload b \<Rightarrow> b | _ \<Rightarrow> \<lparr>bo_cold = None, bo_runReset = None\<rparr>)"

definition bootReply :: "sid \<Rightarrow> inbound \<Rightarrow> channel \<Rightarrow> channel \<times> (failure + boot_outcome)" where
  "bootReply s m ch =
     (if im_type m = In_boot_error then
        (ch, Inl (if im_reason m \<noteq> None
                  then failing_with (Admission_refused_error (known_or Unrecognised_refusal BOOT_REFUSALS (im_reason m))) (im_message m)
                  else failed s (im_message m) ch))
      else (case jget (ch_life ch) s of Some l \<Rightarrow> set_life s (l\<lparr>li_needsReboot := False\<rparr>) ch | None \<Rightarrow> ch,
            Inr (readyOutcome (im_payload m))))"

definition lease_refused :: "inbound \<Rightarrow> failure" where
  "lease_refused m =
     failing_with
       (if im_reason m = Some ''no-device'' then Lease_refused_error No_device
        else if im_reason m = Some ''bad-request'' then Lease_refused_error Bad_request
        else if im_retryable m = Some False then Lease_refused_error Unrecognised
        else Admission_refused_error
               (known_or Unrecognised_refusal
                 (BOOT_REFUSALS @ [(''agent-resources-exhausted'', Refusal Agent_resources_exhausted), (''all-held'', All_held)]) (im_reason m)))
       (im_message m)"

text \<open>A lease whose join or boot failed leaves the session it was given; a leave that cannot be sent is let go.\<close>

definition abandon_lease :: "sid \<Rightarrow> rid \<Rightarrow> failure \<Rightarrow> channel \<Rightarrow> moved" where
  "abandon_lease s r e ch = (case leaveSession s r ch of (ch1, out, _) \<Rightarrow> (ch1, out, Ends (Inl e)))"

definition launch_reply :: "sid \<Rightarrow> bool \<Rightarrow> inbound \<Rightarrow> channel \<Rightarrow> failure + result" where
  "launch_reply s asked_options m ch =
     (if im_type m = In_failed Launch then
        (let err = failed s (im_message m) ch in Inl (if im_reason m = Some ''agent-outdated'' then marked err else err))
      else if asked_options \<and> im_applied m = Not_applied then Inl (marked (failed s None ch))
      else (case im_applied m of
              Not_applied \<Rightarrow> Inr (Launched None)
            | Applied names \<Rightarrow> Inr (Launched (Some names))
            | Malformed_applied \<Rightarrow> Inl (marked (failed s None ch))))"

definition input_refused :: "sid \<Rightarrow> inbound \<Rightarrow> channel \<Rightarrow> failure" where
  "input_refused s m ch =
     (failing (Input_refused_error (asInputErrorReason (im_reason m))) (fa_note (failed s None ch)))\<lparr>fa_detail := im_message m\<rparr>"

definition unconfirmed :: "failure \<Rightarrow> failure" where
  "unconfirmed f =
     (case fa_class f of
        Session_ended_error _ \<Rightarrow> f
      | Session_left_error \<Rightarrow> f
      | _ \<Rightarrow> failing Input_unconfirmed_error (fa_note f))"

text \<open>A deadline that says something of the device, rather than of the request.\<close>

definition on_timeout :: "failure \<Rightarrow> failure \<Rightarrow> failure" where
  "on_timeout f instead = (if fa_class f = Request_timeout_error then instead else f)"

primrec resume :: "stage \<Rightarrow> nat \<Rightarrow> failure + inbound \<Rightarrow> rid \<Rightarrow> channel \<Rightarrow> moved" where
  "resume (St_command s c q asked_options) p x r ch =
     (case x of
        Inl f \<Rightarrow> ends (Inl f) ch
      | Inr m \<Rightarrow> (if c = Launch then ends (launch_reply s asked_options m ch) ch
      else if im_type m = In_failed c then ends (Inl (failed s (im_message m) ch)) ch
      else ends (Inr Completed) ch))"
| "resume (St_ack s q) p x r ch =
     (case x of
        Inl f \<Rightarrow> ends (Inl (unconfirmed f)) ch
      | Inr m \<Rightarrow> ends (if im_type m = In_input_error then Inl (input_refused s m ch) else Inr Completed) ch)"
| "resume (St_typed s q) p x r ch =
     (case x of
        Inl f \<Rightarrow> ends (Inl f) ch
      | Inr m \<Rightarrow> ends (if im_type m = In_type_error then Inl (input_refused s m ch) else Inr Completed) ch)"
| "resume (St_features s build options) p x r ch =
     (case x of
        Inl f \<Rightarrow> ends (Inl f) ch
      | Inr m \<Rightarrow> (if ''launch-options'' \<in> set (case im_features m of Some fs \<Rightarrow> fs | None \<Rightarrow> []) then launch_request s build options r ch
      else ends (Inl (marked (failed s None ch))) ch))"
| "resume St_listed p x r ch =
     (case x of
        Inl f \<Rightarrow> ends (Inl f) ch
      | Inr m \<Rightarrow> ends (Inr Listed) ch)"
| "resume St_can_lease p x r ch =
     (case x of
        Inl f \<Rightarrow> ends (Inl f) ch
      | Inr m \<Rightarrow> ends (Inr (Can_lease (''device-lease'' \<in> set (case im_features m of Some fs \<Rightarrow> fs | None \<Rightarrow> [])))) ch)"
| "resume (St_chrome s) p x r ch =
     (case x of
        Inl f \<Rightarrow> ends (if fa_class f = Request_timeout_error then Inr (Chrome_is None) else Inl f) ch
      | Inr m \<Rightarrow> ends (Inr (Chrome_is (case im_payload m of Chrome_payload c \<Rightarrow> Some c | _ \<Rightarrow> None))) ch)"
| "resume (St_orient_chrome s orient timeoutMs) p x r ch =
     (case x of
        Inl f \<Rightarrow> ends (Inl (on_timeout f (marked (failed s None ch)))) ch
      | Inr m \<Rightarrow> (case im_payload m of
        Chrome_payload c \<Rightarrow> orient_from s orient timeoutMs c ch
      | _ \<Rightarrow> ends (Inl (marked (failed s None ch))) ch))"
| "resume (St_turned s orient) p x r ch =
     (case x of
        Inl f \<Rightarrow> ends (Inl (on_timeout f (marked (failed s None ch)))) ch
      | Inr m \<Rightarrow> ends (Inr Completed) ch)"
| "resume (St_postures s posture timeoutMs) p x r ch =
     (case x of
        Inl f \<Rightarrow> ends (Inl (on_timeout f (failing Device_lacks_error (fa_note (failed s None ch))))) ch
      | Inr m \<Rightarrow> (case im_payload m of
        Postures_payload ps \<Rightarrow> posture_from s posture timeoutMs ps ch
      | _ \<Rightarrow> ends (Inl (failing Platform_error None)) ch))"
| "resume (St_posture s i) p x r ch =
     (case x of
        Inl f \<Rightarrow> ends (Inl (on_timeout f (marked (failed s None ch)))) ch
      | Inr m \<Rightarrow> ends (Inr Completed) ch)"
| "resume (St_join s) p x r ch =
     (case x of
        Inl f \<Rightarrow> ends (Inl f) ch
      | Inr m \<Rightarrow> ends (case joinReply m of Some e \<Rightarrow> Inl e | None \<Rightarrow> Inr Joined_session) ch)"
| "resume (St_boot s q) p x r ch =
     (case x of
        Inl f \<Rightarrow> ends (Inl f) ch
      | Inr m \<Rightarrow> (case bootReply s m ch of (ch1, Inl e) \<Rightarrow> ends (Inl e) ch1 | (ch1, Inr b) \<Rightarrow> ends (Inr (Booted_device b)) ch1))"
| "resume (St_lease q) p x r ch =
     (case x of
        Inl f \<Rightarrow> ends (Inl f) ch
      | Inr m \<Rightarrow> (case (im_session m, jget (ch_armed ch) p) of
          (Some s, Some (joined, booted)) \<Rightarrow>
            if im_type m = In_leased then (ch, [], Goes_on (Waiting (St_lease_join s q booted) joined))
            else ends (Inl (lease_refused m)) ch
        | _ \<Rightarrow> ends (Inl (lease_refused m)) ch))"
| "resume (St_lease_join s q booted) p x r ch =
     (case x of
        Inl f \<Rightarrow> abandon_lease s r f (settleSessionWaiters s (\<lambda>_. f) ch)
      | Inr m \<Rightarrow> (case joinReply m of
        Some e \<Rightarrow> abandon_lease s r e (settleSessionWaiters s (\<lambda>_. e) ch)
      | None \<Rightarrow> (ch, [], Goes_on (Waiting (St_lease_boot s q) booted))))"
| "resume (St_lease_boot s q) p x r ch =
     (case x of
        Inl f \<Rightarrow> abandon_lease s r f ch
      | Inr m \<Rightarrow> (case bootReply s m ch of
        (ch1, Inl e) \<Rightarrow> abandon_lease s r e ch1
      | (ch1, Inr b) \<Rightarrow> ends (Inr (Leased_device s b)) ch1))"

subsection \<open>A client\<close>

record client =
  cl_channel :: channel
  cl_calls :: "(nat, operation \<times> pending) jmap"
  cl_fresh :: nat

definition new_client :: client where
  "new_client = \<lparr>cl_channel = new_channel, cl_calls = [], cl_fresh = 0\<rparr>"

datatype client_event =
    Asks operation rid
  | Comes inbound
  | Times_out nat
  | Goes nat rid \<comment> \<open>the continuation of a call whose promise is settled\<close>
  | Delayed nat rid \<comment> \<open>a gesture's delay is over\<close>
  | Leaves sid rid
  | Closing
  | Closes

datatype client_fx = Sends outbound | Finished nat operation "failure + result" | Leave_throws

definition move :: "nat \<Rightarrow> operation \<Rightarrow> moved \<Rightarrow> client \<Rightarrow> client \<times> client_fx list" where
  "move c op mv cl =
     (case mv of
        (ch, out, Goes_on pn) \<Rightarrow>
          (cl\<lparr>cl_channel := ch, cl_calls := jset c (op, pn) (cl_calls cl)\<rparr>, map Sends out)
      | (ch, out, Ends x) \<Rightarrow>
          (cl\<lparr>cl_channel := ch, cl_calls := jdel c (cl_calls cl)\<rparr>, map Sends out @ [Finished c op x]))"

definition on_channel :: "(channel \<Rightarrow> channel) \<Rightarrow> client \<Rightarrow> client \<times> client_fx list" where
  "on_channel f cl = (cl\<lparr>cl_channel := f (cl_channel cl)\<rparr>, [])"

primrec client_step :: "client_event \<Rightarrow> client \<Rightarrow> client \<times> client_fx list" where
  "client_step (Asks op r) cl = move (cl_fresh cl) op (begin_call op r (cl_channel cl)) (cl\<lparr>cl_fresh := Suc (cl_fresh cl)\<rparr>)"
| "client_step (Comes m) cl = on_channel (dispatch m) cl"
| "client_step (Times_out p) cl = on_channel (deadline_passes p) cl"
| "client_step (Goes c r) cl =
     (case jget (cl_calls cl) c of
        Some (op, Waiting st p) \<Rightarrow>
          (case jget (ch_settled (cl_channel cl)) p of
             Some x \<Rightarrow> move c op (resume st p x r (cl_channel cl)) cl
           | None \<Rightarrow> (cl, []))
      | _ \<Rightarrow> (cl, []))"
| "client_step (Delayed c r) cl =
     (case jget (cl_calls cl) c of
        Some (op, Pacing pc) \<Rightarrow> move c op (pace pc r (cl_channel cl)) cl
      | _ \<Rightarrow> (cl, []))"
| "client_step (Leaves s r) cl =
     (case leaveSession s r (cl_channel cl) of
        (ch, out, sent) \<Rightarrow> (cl\<lparr>cl_channel := ch\<rparr>, map Sends out @ (if sent then [] else [Leave_throws])))"
| "client_step Closing cl = on_channel (\<lambda>ch. if ch_socket ch = Sock_open then ch\<lparr>ch_socket := Sock_closing\<rparr> else ch) cl"
| "client_step Closes cl = on_channel (\<lambda>ch. connectionLost (ch\<lparr>ch_socket := Sock_gone\<rparr>)) cl"

end
