(* ===== verification/Flow_Driver.thy ===== *)
theory Flow_Driver
  imports Flow_Poll Channel_Calls
begin

text \<open>
  Between the flow engine and a session (\<open>packages/flow-runner/src/SocketFlowDriver.ts\<close>, and the reading of a UI tree in
  \<open>RelayClient.ts\<close>): which request an action of the engine makes and where its points land, what a failed read of the
  screen means, and whom a failure is blamed on. Fetching is left out: the reply of the route is an argument. So is the
  screenshot, which the route answers.
\<close>

subsection \<open>Whom a failure is blamed on\<close>

definition isEnvironmentFailure :: "failure \<Rightarrow> bool" where
  "isEnvironmentFailure f =
     (case fa_class f of
        Input_refused_error r \<Rightarrow> r \<in> ENVIRONMENTAL_INPUT_REASONS
      | Session_ended_error _ \<Rightarrow> True
      | Session_left_error \<Rightarrow> True
      | Relay_closed_error \<Rightarrow> True
      | Relay_http_error _ \<Rightarrow> True
      | Relay_unavailable_error \<Rightarrow> True
      | Request_timeout_error \<Rightarrow> True
      | Input_unconfirmed_error \<Rightarrow> True
      | Session_unavailable_error \<Rightarrow> True
      | _ \<Rightarrow> False)"

definition guard :: "failure \<Rightarrow> failure" where
  "guard f = (if isEnvironmentFailure f then marked f else f)"

text \<open>A pinch refused as unsupported is the device's backend.\<close>

definition guard_pinch :: "failure \<Rightarrow> failure" where
  "guard_pinch f = (if fa_class (guard f) = Input_refused_error Input_unsupported then marked (guard f) else guard f)"

definition blames_environment :: "failure \<Rightarrow> bool" where
  "blames_environment f \<longleftrightarrow> fa_class f = Device_lacks_error \<or> fa_marked f"

subsection \<open>Actions\<close>

record driver =
  dr_session :: sid
  dr_build :: "nat option"
  dr_turn :: "turn option"

definition driver_point :: "driver \<Rightarrow> point \<Rightarrow> point" where
  "driver_point D p = toFramePoint (dr_turn D) p"

definition driver_fingers :: "driver \<Rightarrow> two_fingers \<Rightarrow> two_fingers" where
  "driver_fingers D f = (driver_point D (fst f), driver_point D (snd f))"

text \<open>\<open>None\<close>: the flow launches an app and the run was given no build, which is refused before any request.\<close>

primrec driver_operation :: "driver \<Rightarrow> action \<Rightarrow> operation option" where
  "driver_operation D (Do_clear_state app) = Some (Op_clear (dr_session D) app)"
| "driver_operation D (Do_launch options) = map_option (\<lambda>b. Op_launch (dr_session D) b options) (dr_build D)"
| "driver_operation D (Do_tap x y) = Some (Op_tap (dr_session D) (driver_point D (x, y)))"
| "driver_operation D (Do_swipe a b d) = Some (Op_swipe (dr_session D) (driver_point D a) (driver_point D b) d)"
| "driver_operation D (Do_input_text t) = Some (Op_type (dr_session D) t)"
| "driver_operation D (Do_press_key code ms) = Some (Op_key (dr_session D) code ms)"
| "driver_operation D (Do_open_url url) = Some (Op_open_url (dr_session D) url)"
| "driver_operation D (Do_press_button n) = Some (Op_button (dr_session D) n)"
| "driver_operation D (Do_long_press x y d) = Some (Op_long_press (dr_session D) (driver_point D (x, y)) d)"
| "driver_operation D (Do_pinch a b d) = Some (Op_pinch (dr_session D) (driver_fingers D a) (driver_fingers D b) d)"
| "driver_operation D (Do_set_orientation orient t) = Some (Op_orientation (dr_session D) orient (of_int t))"
| "driver_operation D (Do_set_posture posture t) = Some (Op_posture (dr_session D) posture (of_int t))"

definition driver_failure :: "action \<Rightarrow> failure \<Rightarrow> failure" where
  "driver_failure a f = (case a of Do_pinch _ _ _ \<Rightarrow> guard_pinch f | _ \<Rightarrow> guard f)"

subsection \<open>Which way the app stands after a turn\<close>

text \<open>The reads of the tree until the settle time is over; a failed read ends the loop.\<close>

fun settle_reads :: "bool \<Rightarrow> turn option \<Rightarrow> turn option \<Rightarrow> turn option option list \<Rightarrow> turn option" where
  "settle_reads expected previous now [] = now"
| "settle_reads expected previous now (None # reads) = now"
| "settle_reads expected previous now (Some None # reads) =
     (if \<not> expected then None else settle_reads expected previous now reads)"
| "settle_reads expected previous now (Some (Some t) # reads) =
     (if previous = Some t then Some t else settle_reads expected (Some t) (Some t) reads)"

definition turned_driver :: "chrome_payload option \<Rightarrow> turn option option list \<Rightarrow> driver \<Rightarrow> driver" where
  "turned_driver chrome reads D =
     (let expected = dr_turn D \<noteq> None \<or> (case chrome of Some (Ios_payload _ _) \<Rightarrow> True | _ \<Rightarrow> False)
      in D\<lparr>dr_turn := settle_reads expected None None reads\<rparr>)"

subsection \<open>Reading the screen\<close>

definition UI_ROLES :: "string list" where
  "UI_ROLES = [''button'', ''text'', ''input'', ''image'', ''checkbox'', ''switch'', ''slider'', ''list'', ''cell'', ''tab'', ''other'']"

text \<open>Of an element whose fields have their types; \<open>None\<close> stands for any other value.\<close>

definition isUIElement :: "ui_element option \<Rightarrow> bool" where
  "isUIElement v =
     (case v of
        None \<Rightarrow> False
      | Some e \<Rightarrow> el_role e \<in> set UI_ROLES
          \<and> 0 \<le> fr_x (el_frame e) \<and> 0 \<le> fr_y (el_frame e) \<and> 0 \<le> fr_width (el_frame e) \<and> 0 \<le> fr_height (el_frame e)
          \<and> fr_x (el_frame e) + fr_width (el_frame e) \<le> 1 \<and> fr_y (el_frame e) + fr_height (el_frame e) \<le> 1)"

datatype tree_reply =
    Tree_body "ui_element option list option" "int option" \<comment> \<open>the elements where they are a list, and the turn\<close>
  | Tree_status nat
  | Tree_unreadable nat \<comment> \<open>a success that is no JSON\<close>
  | Tree_unreached

definition PERMANENT_QUERY_STATUSES :: "nat set" where
  "PERMANENT_QUERY_STATUSES = {400, 401, 403, 404, 409}"

text \<open>An HTTP error: its status, and whether it was thrown as permanent.\<close>

definition getTree :: "tree_reply \<Rightarrow> (nat \<times> bool) + (ui_element list \<times> turn option)" where
  "getTree reply =
     (case reply of
        Tree_body (Some vs) t \<Rightarrow> if list_all isUIElement vs then Inr (map the vs, interfaceTurnOf t) else Inl (200, True)
      | Tree_body None t \<Rightarrow> Inl (200, True)
      | Tree_status n \<Rightarrow> Inl (n, False)
      | Tree_unreadable n \<Rightarrow> Inl (n, True)
      | Tree_unreached \<Rightarrow> Inl (0, False))"

definition queryUITreeWithTurn :: "sid \<Rightarrow> tree_reply \<Rightarrow> channel \<Rightarrow> failure + (ui_element list \<times> turn option)" where
  "queryUITreeWithTurn s reply ch =
     (case getTree reply of
        Inr tree \<Rightarrow> Inr tree
      | Inl (status, permanent) \<Rightarrow>
          (case Option.bind (jget (ch_life ch) s)
                  (\<lambda>l. case li_terminated l of Some r \<Rightarrow> Some (Note_ended r) | None \<Rightarrow> if li_needsReboot l then Some Note_reboot else None) of
             Some why \<Rightarrow> Inl (failing Session_unavailable_error (Some why))
           | None \<Rightarrow>
               if \<not> permanent \<and> status \<notin> PERMANENT_QUERY_STATUSES then Inl (failing Transient_query_error None)
               else Inl (failing (Relay_http_error status) None)))"

definition queryUITree :: "tree_reply \<Rightarrow> channel \<Rightarrow> driver \<Rightarrow> driver \<times> (failure + ui_element list)" where
  "queryUITree reply ch D =
     (case queryUITreeWithTurn (dr_session D) reply ch of
        Inl f \<Rightarrow> (D, Inl (guard f))
      | Inr (elements, t) \<Rightarrow> (D\<lparr>dr_turn := t\<rparr>, Inr elements))"

subsection \<open>A step is placed by the last turn that was read\<close>

lemma settle_reads_result:
  "settle_reads expected previous now reads = now \<or> settle_reads expected previous now reads = None
   \<or> Some (settle_reads expected previous now reads) \<in> set reads"
  by (induction expected previous now reads rule: settle_reads.induct) auto

text \<open>The turn from before is never applied after the device was turned.\<close>

lemma turned_driver_forgets:
  "dr_turn (turned_driver chrome reads D) = None \<or> Some (dr_turn (turned_driver chrome reads D)) \<in> set reads"
  using settle_reads_result [of _ None None reads] by (auto simp: turned_driver_def Let_def)

end
