(* ===== verification/Channel_Inv.thy ===== *)
theory Channel_Inv
  imports Flow_Driver
begin

text \<open>
  What holds of a client's waiters over every run: a promise has one waiter or one result and never both, a result
  is a message that fits what was awaited or a failure with a reason, and every request that is not over waits for
  a promise that has a waiter or a result. \<open>leads\<close> is what any operation may do to them.
\<close>

subsection \<open>Promises\<close>

text \<open>Why a waiter is given up: the environment, or the refusal of a lease's join, which settles its session's.\<close>

definition reason_ok :: "failure \<Rightarrow> bool" where
  "reason_ok f \<longleftrightarrow> isEnvironmentFailure f \<or> (\<exists>j. fa_class f = Session_join_error j)"

definition result_ok :: "channel \<Rightarrow> awaits \<Rightarrow> nat \<Rightarrow> failure + inbound \<Rightarrow> bool" where
  "result_ok ch a p x =
     (case x of
        Inl f \<Rightarrow> reason_ok f
      | Inr m \<Rightarrow> fits_message a m \<and> ((\<exists>r. a = Aw_lease r) \<and> im_type m = In_leased \<longrightarrow> jget (ch_armed ch) p \<noteq> None))"

definition tied :: "channel \<Rightarrow> awaits \<Rightarrow> sid option \<Rightarrow> nat \<Rightarrow> bool" where
  "tied ch a s p \<longleftrightarrow>
     (\<exists>w \<in> set (ch_waiters ch). wt_promise w = p \<and> wt_awaits w = a \<and> wt_session w = s)
   \<or> (\<exists>x. jget (ch_settled ch) p = Some x \<and> result_ok ch a p x)"

definition lease_tied :: "channel \<Rightarrow> nat \<Rightarrow> nat \<times> nat \<Rightarrow> bool" where
  "lease_tied ch p jb \<longleftrightarrow>
     (\<exists>m s r. jget (ch_settled ch) p = Some (Inr m) \<and> im_session m = Some s \<and> im_request m = Some r
       \<and> tied ch (Aw_join s) (Some s) (fst jb) \<and> tied ch (Aw_boot s r) (Some s) (snd jb))"

definition channel_ok :: "channel \<Rightarrow> bool" where
  "channel_ok ch \<longleftrightarrow> distinct (map wt_promise (ch_waiters ch))
     \<and> (\<forall>w \<in> set (ch_waiters ch). wt_promise w < ch_fresh ch \<and> jget (ch_settled ch) (wt_promise w) = None)
     \<and> (\<forall>p x. jget (ch_settled ch) p = Some x \<longrightarrow> p < ch_fresh ch)
     \<and> (\<forall>p jb. jget (ch_armed ch) p = Some jb \<longrightarrow> lease_tied ch p jb)"

definition leads :: "channel \<Rightarrow> channel \<Rightarrow> bool" where
  "leads ch ch' \<longleftrightarrow> channel_ok ch' \<and> ch_fresh ch \<le> ch_fresh ch'
     \<and> (\<forall>p jb. jget (ch_armed ch) p = Some jb \<longrightarrow> jget (ch_armed ch') p = Some jb)
     \<and> (\<forall>p x. jget (ch_settled ch) p = Some x \<longrightarrow> jget (ch_settled ch') p = Some x)
     \<and> (\<forall>w \<in> set (ch_waiters ch). w \<in> set (ch_waiters ch')
          \<or> (\<exists>x. jget (ch_settled ch') (wt_promise w) = Some x \<and> result_ok ch' (wt_awaits w) (wt_promise w) x))"

lemma leads_ok: "leads ch ch' \<Longrightarrow> channel_ok ch'"
  by (simp add: leads_def)

lemma result_ok_armed:
  "result_ok ch a p x \<Longrightarrow> (\<And>q jb. jget (ch_armed ch) q = Some jb \<Longrightarrow> jget (ch_armed ch') q = Some jb) \<Longrightarrow> result_ok ch' a p x"
  by (auto simp: result_ok_def split: sum.splits)

lemma leadsD:
  assumes "leads ch ch'"
  shows "ch_fresh ch \<le> ch_fresh ch'"
    and "jget (ch_armed ch) p = Some jb \<Longrightarrow> jget (ch_armed ch') p = Some jb"
    and "jget (ch_settled ch) p = Some x \<Longrightarrow> jget (ch_settled ch') p = Some x"
    and "w \<in> set (ch_waiters ch) \<Longrightarrow> w \<in> set (ch_waiters ch')
          \<or> (\<exists>x. jget (ch_settled ch') (wt_promise w) = Some x \<and> result_ok ch' (wt_awaits w) (wt_promise w) x)"
  using assms unfolding leads_def by blast+

lemma result_ok_leads: "leads ch ch' \<Longrightarrow> result_ok ch a p x \<Longrightarrow> result_ok ch' a p x"
  by (rule result_ok_armed, assumption, rule leadsD(2))

lemma tied_leads:
  assumes "tied ch a s p" and l: "leads ch ch'"
  shows "tied ch' a s p"
  using assms(1) unfolding tied_def
proof (elim disjE bexE exE conjE)
  fix w assume "w \<in> set (ch_waiters ch)" "wt_promise w = p" "wt_awaits w = a" "wt_session w = s"
  with leadsD(4) [OF l, of w] show "(\<exists>w\<in>set (ch_waiters ch'). wt_promise w = p \<and> wt_awaits w = a \<and> wt_session w = s)
      \<or> (\<exists>x. jget (ch_settled ch') p = Some x \<and> result_ok ch' a p x)" by blast
next
  fix x assume "jget (ch_settled ch) p = Some x" "result_ok ch a p x"
  with leadsD(3) [OF l, of p x] result_ok_leads [OF l, of a p x]
  show "(\<exists>w\<in>set (ch_waiters ch'). wt_promise w = p \<and> wt_awaits w = a \<and> wt_session w = s)
      \<or> (\<exists>x. jget (ch_settled ch') p = Some x \<and> result_ok ch' a p x)" by blast
qed

lemma leads_trans:
  assumes l: "leads ch ch1" "leads ch1 ch2"
  shows "leads ch ch2"
  unfolding leads_def
proof (intro conjI allI impI ballI)
  show "channel_ok ch2" using l(2) by (rule leads_ok)
  show "ch_fresh ch \<le> ch_fresh ch2" using leadsD(1) [OF l(1)] leadsD(1) [OF l(2)] by (rule order_trans)
  show "jget (ch_armed ch2) p = Some jb" if "jget (ch_armed ch) p = Some jb" for p jb
    using leadsD(2) [OF l(2) leadsD(2) [OF l(1) that]] .
  show "jget (ch_settled ch2) p = Some x" if "jget (ch_settled ch) p = Some x" for p x
    using leadsD(3) [OF l(2) leadsD(3) [OF l(1) that]] .
  fix w assume "w \<in> set (ch_waiters ch)"
  from leadsD(4) [OF l(1) this]
  show "w \<in> set (ch_waiters ch2) \<or> (\<exists>x. jget (ch_settled ch2) (wt_promise w) = Some x \<and> result_ok ch2 (wt_awaits w) (wt_promise w) x)"
    using leadsD(3,4) [OF l(2)] result_ok_leads [OF l(2)] by blast
qed

lemma result_ok_cong: "ch_armed ch' = ch_armed ch \<Longrightarrow> result_ok ch' = result_ok ch"
  by (intro ext) (simp add: result_ok_def split: sum.split)

text \<open>What leaves the promises alone.\<close>

definition same_promises :: "channel \<Rightarrow> channel \<Rightarrow> bool" where
  "same_promises ch ch' \<longleftrightarrow> ch_waiters ch' = ch_waiters ch \<and> ch_settled ch' = ch_settled ch \<and> ch_armed ch' = ch_armed ch
     \<and> ch_fresh ch \<le> ch_fresh ch'"

lemma same_promises_refl [simp]: "same_promises ch ch"
  by (simp add: same_promises_def)

lemma same_result: "same_promises ch ch' \<Longrightarrow> result_ok ch' = result_ok ch"
  by (rule result_ok_cong) (simp add: same_promises_def)

lemma same_tied: "same_promises ch ch' \<Longrightarrow> tied ch' = tied ch"
  using same_result [of ch ch'] by (intro ext) (simp add: same_promises_def tied_def)

lemma same_lease_tied: "same_promises ch ch' \<Longrightarrow> lease_tied ch' = lease_tied ch"
  using same_tied [of ch ch'] by (intro ext) (simp add: same_promises_def lease_tied_def)

lemma same_leads:
  assumes ok: "channel_ok ch" and s: "same_promises ch ch'"
  shows "leads ch ch'"
proof -
  have f: "ch_waiters ch' = ch_waiters ch" "ch_settled ch' = ch_settled ch" "ch_armed ch' = ch_armed ch" "ch_fresh ch \<le> ch_fresh ch'"
    using s by (simp_all add: same_promises_def)
  have "channel_ok ch'"
    using ok f(4) unfolding channel_ok_def same_lease_tied [OF s] f(1-3) by (meson order_less_le_trans)
  then show ?thesis unfolding leads_def f(1-3) using f(4) by blast
qed

lemma same_steps [simp]:
  "same_promises ch (set_life s l ch)"
  "same_promises ch (open_gesture s g ch)"
  "same_promises ch (snd (closeGesture s i ch))"
  "same_promises ch (keep_payload m ch)"
  "same_promises ch (ch\<lparr>ch_socket := k\<rparr>)"
  by (simp_all add: same_promises_def set_life_def open_gesture_def closeGesture_def keep_payload_def
      split: option.split payload.split)

subsection \<open>A waiter is added\<close>

lemma waitFor_fields [simp]:
  "ch_waiters (waitFor a t s ch) = ch_waiters ch @ [\<lparr>wt_promise = ch_fresh ch, wt_awaits = a, wt_session = s, wt_timeout = t\<rparr>]"
  "ch_fresh (waitFor a t s ch) = Suc (ch_fresh ch)"
  "ch_settled (waitFor a t s ch) = ch_settled ch"
  "ch_armed (waitFor a t s ch) = ch_armed ch"
  "ch_gestures (waitFor a t s ch) = ch_gestures ch"
  "ch_socket (waitFor a t s ch) = ch_socket ch"
  by (simp_all add: waitFor_def)

lemma waitFor_result [simp]: "result_ok (waitFor a t s ch) = result_ok ch"
  by (rule result_ok_cong) simp

lemma leads_waitFor:
  assumes ok: "channel_ok ch"
  shows "leads ch (waitFor a t s ch)" and "tied (waitFor a t s ch) a s (ch_fresh ch)"
proof -
  let ?c = "waitFor a t s ch"
  have tied: "tied ch b u p \<Longrightarrow> tied ?c b u p" for b u p
    unfolding tied_def waitFor_fields waitFor_result by auto
  have lease: "lease_tied ch p jb \<Longrightarrow> lease_tied ?c p jb" for p jb
    unfolding lease_tied_def waitFor_fields using tied by blast
  have "channel_ok ?c"
    unfolding channel_ok_def
  proof (intro conjI allI impI ballI)
    show "distinct (map wt_promise (ch_waiters ?c))" using ok by (auto simp: channel_ok_def)
    show "wt_promise w < ch_fresh ?c" "jget (ch_settled ?c) (wt_promise w) = None" if "w \<in> set (ch_waiters ?c)" for w
      using that ok by (auto simp: channel_ok_def less_Suc_eq simp del: map_of_eq_None_iff intro: option.exhaust [of "jget (ch_settled ch) (ch_fresh ch)"])
    show "p < ch_fresh ?c" if "jget (ch_settled ?c) p = Some x" for p x
      using that ok unfolding channel_ok_def waitFor_fields by (meson less_SucI)
    show "lease_tied ?c p jb" if "jget (ch_armed ?c) p = Some jb" for p jb
      using that ok lease unfolding channel_ok_def waitFor_fields by blast
  qed
  then show "leads ch ?c" unfolding leads_def waitFor_fields waitFor_result by auto
  show "tied ?c a s (ch_fresh ch)" unfolding tied_def by simp
qed

subsection \<open>Waiters are given up\<close>

lemma settle_fold:
  "ch_waiters (fold (\<lambda>w. settle_promise (wt_promise w) (Inl (why w))) ws ch) = ch_waiters ch"
  "ch_armed (fold (\<lambda>w. settle_promise (wt_promise w) (Inl (why w))) ws ch) = ch_armed ch"
  "ch_fresh (fold (\<lambda>w. settle_promise (wt_promise w) (Inl (why w))) ws ch) = ch_fresh ch"
  "ch_gestures (fold (\<lambda>w. settle_promise (wt_promise w) (Inl (why w))) ws ch) = ch_gestures ch"
  "ch_socket (fold (\<lambda>w. settle_promise (wt_promise w) (Inl (why w))) ws ch) = ch_socket ch"
  "ch_life (fold (\<lambda>w. settle_promise (wt_promise w) (Inl (why w))) ws ch) = ch_life ch"
  "ch_chromes (fold (\<lambda>w. settle_promise (wt_promise w) (Inl (why w))) ws ch) = ch_chromes ch"
  "ch_postures (fold (\<lambda>w. settle_promise (wt_promise w) (Inl (why w))) ws ch) = ch_postures ch"
  by (induction ws arbitrary: ch) (simp_all add: settle_promise_def)

lemma settle_fold_other:
  "p \<notin> wt_promise ` set ws \<Longrightarrow> jget (ch_settled (fold (\<lambda>w. settle_promise (wt_promise w) (Inl (why w))) ws ch)) p = jget (ch_settled ch) p"
  by (induction ws arbitrary: ch) (auto simp: settle_promise_def jmap_simps)

lemma settle_fold_hit:
  assumes "distinct (map wt_promise ws)" "w \<in> set ws"
  shows "jget (ch_settled (fold (\<lambda>w. settle_promise (wt_promise w) (Inl (why w))) ws ch)) (wt_promise w) = Some (Inl (why w))"
  using assms
proof (induction ws arbitrary: ch)
  case (Cons v ws)
  show ?case
  proof (cases "w = v")
    case True
    with Cons.prems have "wt_promise v \<notin> wt_promise ` set ws" by auto
    then have "jget (ch_settled (fold (\<lambda>w. settle_promise (wt_promise w) (Inl (why w))) ws (settle_promise (wt_promise v) (Inl (why v)) ch)))
        (wt_promise v) = Some (Inl (why v))"
      by (subst settle_fold_other) (simp_all add: settle_promise_def jmap_simps)
    with True show ?thesis by simp
  next
    case False
    with Cons show ?thesis by auto
  qed
qed simp

lemma reject_fields [simp]:
  "ch_waiters (reject_waiters which why ch) = filter (\<lambda>w. \<not> which w) (ch_waiters ch)"
  "ch_armed (reject_waiters which why ch) = ch_armed ch"
  "ch_fresh (reject_waiters which why ch) = ch_fresh ch"
  "ch_gestures (reject_waiters which why ch) = ch_gestures ch"
  "ch_socket (reject_waiters which why ch) = ch_socket ch"
  "ch_life (reject_waiters which why ch) = ch_life ch"
  "ch_chromes (reject_waiters which why ch) = ch_chromes ch"
  "ch_postures (reject_waiters which why ch) = ch_postures ch"
  by (simp_all add: reject_waiters_def settle_fold)

lemma reject_settled:
  assumes "channel_ok ch"
  shows "w \<in> set (ch_waiters ch) \<Longrightarrow> which w \<Longrightarrow>
      jget (ch_settled (reject_waiters which why ch)) (wt_promise w) = Some (Inl (why w))"
    and "p \<notin> wt_promise ` {w \<in> set (ch_waiters ch). which w} \<Longrightarrow>
      jget (ch_settled (reject_waiters which why ch)) p = jget (ch_settled ch) p"
proof -
  have "distinct (map wt_promise (ch_waiters ch))" using assms by (simp add: channel_ok_def)
  then have d: "distinct (map wt_promise (rev (filter which (ch_waiters ch))))"
    by (simp add: distinct_map_filter rev_map [symmetric])
  show "w \<in> set (ch_waiters ch) \<Longrightarrow> which w \<Longrightarrow>
      jget (ch_settled (reject_waiters which why ch)) (wt_promise w) = Some (Inl (why w))"
    unfolding reject_waiters_def by (rule settle_fold_hit [OF d]) simp
  show "p \<notin> wt_promise ` {w \<in> set (ch_waiters ch). which w} \<Longrightarrow>
      jget (ch_settled (reject_waiters which why ch)) p = jget (ch_settled ch) p"
    unfolding reject_waiters_def by (subst settle_fold_other) auto
qed

lemma reject_kept:
  "channel_ok ch \<Longrightarrow> jget (ch_settled ch) p = Some x \<Longrightarrow> jget (ch_settled (reject_waiters which why ch)) p = Some x"
  by (subst reject_settled(2)) (auto simp: channel_ok_def)

lemma reject_cases:
  assumes "channel_ok ch" "jget (ch_settled (reject_waiters which why ch)) p = Some x"
  shows "jget (ch_settled ch) p = Some x \<or> (\<exists>w \<in> set (ch_waiters ch). which w \<and> wt_promise w = p \<and> x = Inl (why w))"
proof (cases "p \<in> wt_promise ` {w \<in> set (ch_waiters ch). which w}")
  case True
  with assms reject_settled(1) [OF assms(1)] show ?thesis by fastforce
next
  case False
  with assms show ?thesis by (simp add: reject_settled(2))
qed

lemma leads_reject:
  assumes ok: "channel_ok ch" and why: "\<And>w. w \<in> set (ch_waiters ch) \<Longrightarrow> which w \<Longrightarrow> reason_ok (why w)"
  shows "leads ch (reject_waiters which why ch)"
proof -
  let ?c = "reject_waiters which why ch"
  have hit: "result_ok ?c a p (Inl (why w))" if "w \<in> set (ch_waiters ch)" "which w" for w a p
    using why [OF that] by (simp add: result_ok_def)
  have tied: "tied ?c a s p" if "tied ch a s p" for a s p
    using that unfolding tied_def
  proof (elim disjE bexE exE conjE)
    fix w assume w: "w \<in> set (ch_waiters ch)" "wt_promise w = p" "wt_awaits w = a" "wt_session w = s"
    then show "(\<exists>w\<in>set (ch_waiters ?c). wt_promise w = p \<and> wt_awaits w = a \<and> wt_session w = s)
        \<or> (\<exists>x. jget (ch_settled ?c) p = Some x \<and> result_ok ?c a p x)"
      using reject_settled(1) [OF ok w(1), of which why] hit [of w a p] by (cases "which w") auto
  next
    fix x assume "jget (ch_settled ch) p = Some x" "result_ok ch a p x"
    then show "(\<exists>w\<in>set (ch_waiters ?c). wt_promise w = p \<and> wt_awaits w = a \<and> wt_session w = s)
        \<or> (\<exists>x. jget (ch_settled ?c) p = Some x \<and> result_ok ?c a p x)"
      using reject_kept [OF ok] result_ok_cong [of ?c ch] by auto
  qed
  have "channel_ok ?c"
    unfolding channel_ok_def
  proof (intro conjI allI impI ballI)
    show "distinct (map wt_promise (ch_waiters ?c))" using ok by (simp add: channel_ok_def distinct_map_filter)
    show "wt_promise w < ch_fresh ?c" if "w \<in> set (ch_waiters ?c)" for w using that ok by (auto simp: channel_ok_def)
    show "jget (ch_settled ?c) (wt_promise w) = None" if w: "w \<in> set (ch_waiters ?c)" for w
    proof -
      have "distinct (map wt_promise (ch_waiters ch))" using ok by (simp add: channel_ok_def)
      then have "wt_promise w \<notin> wt_promise ` {v \<in> set (ch_waiters ch). which v}"
        using w by (auto simp: distinct_map dest: inj_onD)
      with w ok show ?thesis by (simp add: reject_settled(2)) (simp add: channel_ok_def)
    qed
    show "p < ch_fresh ?c" if "jget (ch_settled ?c) p = Some x" for p x
      using reject_cases [OF ok that] ok by (auto simp: channel_ok_def)
    show "lease_tied ?c p jb" if "jget (ch_armed ?c) p = Some jb" for p jb
    proof -
      from that ok have "lease_tied ch p jb" unfolding channel_ok_def reject_fields by blast
      then obtain m s r where "jget (ch_settled ch) p = Some (Inr m)" "im_session m = Some s" "im_request m = Some r"
        "tied ch (Aw_join s) (Some s) (fst jb)" "tied ch (Aw_boot s r) (Some s) (snd jb)" unfolding lease_tied_def by blast
      with tied reject_kept [OF ok] show ?thesis unfolding lease_tied_def by blast
    qed
  qed
  moreover have "w \<in> set (ch_waiters ?c) \<or> (\<exists>x. jget (ch_settled ?c) (wt_promise w) = Some x \<and> result_ok ?c (wt_awaits w) (wt_promise w) x)"
    if "w \<in> set (ch_waiters ch)" for w
    using that reject_settled(1) [OF ok that] hit [OF that] by (cases "which w") auto
  ultimately show ?thesis using reject_kept [OF ok] by (simp add: leads_def)
qed

subsection \<open>A message is matched\<close>

lemma waiter_unique:
  "channel_ok ch \<Longrightarrow> w \<in> set (ch_waiters ch) \<Longrightarrow> v \<in> set (ch_waiters ch) \<Longrightarrow> wt_promise v = wt_promise w \<Longrightarrow> v = w"
  by (auto simp: channel_ok_def distinct_map dest: inj_onD)

lemma armed_settled: "channel_ok ch \<Longrightarrow> jget (ch_settled ch) p = None \<Longrightarrow> jget (ch_armed ch) p = None"
  unfolding channel_ok_def lease_tied_def by (metis not_None_eq)

text \<open>What \<open>ch_armed\<close> may become when the waiter \<open>w\<close> is settled by \<open>m\<close>.\<close>

definition arms_well :: "channel \<Rightarrow> waiter \<Rightarrow> inbound \<Rightarrow> (nat, nat \<times> nat) jmap \<Rightarrow> bool" where
  "arms_well ch w m A \<longleftrightarrow>
     (A = ch_armed ch \<and> \<not> ((\<exists>r. wt_awaits w = Aw_lease r) \<and> im_type m = In_leased))
   \<or> (\<exists>s r jb. A = jset (wt_promise w) jb (ch_armed ch) \<and> im_session m = Some s \<and> im_request m = Some r
        \<and> tied ch (Aw_join s) (Some s) (fst jb) \<and> tied ch (Aw_boot s r) (Some s) (snd jb))"

lemma leads_settle:
  assumes ok: "channel_ok ch" and w: "w \<in> set (ch_waiters ch)" and fits: "fits_message (wt_awaits w) m"
    and A: "arms_well ch w m A"
  shows "leads ch (settle_promise (wt_promise w) (Inr m) (ch\<lparr>ch_armed := A, ch_waiters := remove1 w (ch_waiters ch)\<rparr>))"
proof -
  let ?p = "wt_promise w"
  let ?c = "settle_promise ?p (Inr m) (ch\<lparr>ch_armed := A, ch_waiters := remove1 w (ch_waiters ch)\<rparr>)"
  have c: "ch_waiters ?c = remove1 w (ch_waiters ch)" "ch_armed ?c = A" "ch_fresh ?c = ch_fresh ch"
    "jget (ch_settled ?c) = (jget (ch_settled ch))(?p \<mapsto> Inr m)"
    by (simp_all add: settle_promise_def jmap_simps)
  have p: "jget (ch_settled ch) ?p = None" "?p < ch_fresh ch" using ok w unfolding channel_ok_def by blast+
  have d: "distinct (ch_waiters ch)" using ok by (simp add: channel_ok_def distinct_map)
  have armed: "jget A q = Some jb" if "jget (ch_armed ch) q = Some jb" for q jb
    using that A armed_settled [OF ok p(1)] unfolding arms_well_def by (auto simp: jmap_simps)
  have old: "jget (ch_settled ?c) q = Some x" if "jget (ch_settled ch) q = Some x" for q x
    using that p(1) unfolding c(4) by auto
  have result: "result_ok ?c a q x" if "result_ok ch a q x" for a q x
    using that by (rule result_ok_armed) (simp add: c(2) armed)
  have new: "result_ok ?c (wt_awaits w) ?p (Inr m)"
    using fits A unfolding result_ok_def arms_well_def c(2) by (auto simp: jmap_simps)
  have others: "v \<in> set (ch_waiters ?c) \<or> v = w" if "v \<in> set (ch_waiters ch)" for v using that d by (simp add: c(1) set_remove1_eq)
  have tied: "tied ?c a s q" if "tied ch a s q" for a s q
    using that unfolding tied_def
  proof (elim disjE bexE exE conjE)
    fix v assume "v \<in> set (ch_waiters ch)" "wt_promise v = q" "wt_awaits v = a" "wt_session v = s"
    with others [of v] new show "(\<exists>w\<in>set (ch_waiters ?c). wt_promise w = q \<and> wt_awaits w = a \<and> wt_session w = s)
        \<or> (\<exists>x. jget (ch_settled ?c) q = Some x \<and> result_ok ?c a q x)" unfolding c(4) by auto
  next
    fix x assume "jget (ch_settled ch) q = Some x" "result_ok ch a q x"
    with old result show "(\<exists>w\<in>set (ch_waiters ?c). wt_promise w = q \<and> wt_awaits w = a \<and> wt_session w = s)
        \<or> (\<exists>x. jget (ch_settled ?c) q = Some x \<and> result_ok ?c a q x)" by blast
  qed
  have lease: "lease_tied ?c q jb" if "lease_tied ch q jb" for q jb
    using that old tied unfolding lease_tied_def by blast
  have "channel_ok ?c"
    unfolding channel_ok_def
  proof (intro conjI allI impI ballI)
    show "distinct (map wt_promise (ch_waiters ?c))"
      using ok unfolding c(1) channel_ok_def distinct_map
      by (meson distinct_remove1 inj_on_subset set_remove1_subset)
    fix v assume "v \<in> set (ch_waiters ?c)"
    then have v: "v \<in> set (ch_waiters ch)" "v \<noteq> w" using d by (simp_all add: c(1) set_remove1_eq)
    then have "wt_promise v \<noteq> ?p" using waiter_unique [OF ok w] by blast
    with v(1) ok show "wt_promise v < ch_fresh ?c" "jget (ch_settled ?c) (wt_promise v) = None"
      unfolding c(3,4) channel_ok_def by auto
  next
    show "q < ch_fresh ?c" if "jget (ch_settled ?c) q = Some x" for q x
      using that ok p(2) unfolding c(3,4) channel_ok_def by (auto split: if_splits)
    fix q jb assume "jget (ch_armed ?c) q = Some jb"
    with A consider "jget (ch_armed ch) q = Some jb"
      | s r where "q = ?p" "im_session m = Some s" "im_request m = Some r" "tied ch (Aw_join s) (Some s) (fst jb)" "tied ch (Aw_boot s r) (Some s) (snd jb)"
      unfolding arms_well_def c(2) by (auto simp: jmap_simps split: if_splits)
    then show "lease_tied ?c q jb"
    proof cases
      case 1
      with ok have "lease_tied ch q jb" unfolding channel_ok_def by blast
      then show ?thesis by (rule lease)
    next
      case 2
      then have "jget (ch_settled ?c) q = Some (Inr m)" unfolding c(4) by simp
      with 2 tied show ?thesis unfolding lease_tied_def by blast
    qed
  qed
  moreover have "v \<in> set (ch_waiters ?c) \<or> (\<exists>x. jget (ch_settled ?c) (wt_promise v) = Some x \<and> result_ok ?c (wt_awaits v) (wt_promise v) x)"
    if "v \<in> set (ch_waiters ch)" for v
    using others [OF that] new unfolding c(4) by auto
  moreover have "jget (ch_armed ?c) q = Some jb" if "jget (ch_armed ch) q = Some jb" for q jb using armed [OF that] by (simp add: c(2))
  moreover have "ch_fresh ch \<le> ch_fresh ?c" by (simp add: c(3))
  ultimately show ?thesis unfolding leads_def using old by blast
qed

lemma leads_settle_first:
  assumes ok: "channel_ok ch"
  shows "leads ch (settle_first m ch)"
proof (cases "find (\<lambda>w. fits_message (wt_awaits w) m) (ch_waiters ch)")
  case None
  then show ?thesis using same_leads [OF ok, of ch] by (simp add: settle_first_def)
next
  case (Some w)
  from find_Some_mem [OF this] have w: "w \<in> set (ch_waiters ch)" and fits: "fits_message (wt_awaits w) m" by auto
  show ?thesis
  proof (cases "(\<exists>r. wt_awaits w = Aw_lease r) \<and> im_type m = In_leased")
    case False
    then have "arm_lease w m ch = ch" by (auto simp: arm_lease_def split: awaits.split option.split)
    with Some have "settle_first m ch
        = settle_promise (wt_promise w) (Inr m) (ch\<lparr>ch_armed := ch_armed ch, ch_waiters := remove1 w (ch_waiters ch)\<rparr>)"
      by (simp add: settle_first_def)
    with leads_settle [OF ok w fits, of "ch_armed ch"] False show ?thesis by (simp add: arms_well_def)
  next
    case True
    then obtain r where r: "wt_awaits w = Aw_lease r" "im_type m = In_leased" by blast
    with fits obtain s where s: "im_session m = Some s" "im_request m = Some r" by auto
    let ?c1 = "waitFor (Aw_join s) 5000 (Some s) ch"
    let ?c = "waitFor (Aw_boot s r) BOOT_DEADLINE_MS (Some s) ?c1"
    let ?A = "jset (wt_promise w) (ch_fresh ch, Suc (ch_fresh ch)) (ch_armed ?c)"
    note l1 = leads_waitFor [OF ok, of "Aw_join s" 5000 "Some s"]
    note l2 = leads_waitFor [OF leads_ok [OF l1(1)], of "Aw_boot s r" BOOT_DEADLINE_MS "Some s"]
    have "arms_well ?c w m ?A"
      using s tied_leads [OF l1(2) l2(1)] l2(2) unfolding arms_well_def by auto
    from leads_settle [OF leads_ok [OF l2(1)] _ fits this] w
    have "leads ?c (settle_promise (wt_promise w) (Inr m) (?c\<lparr>ch_armed := ?A, ch_waiters := remove1 w (ch_waiters ?c)\<rparr>))" by simp
    moreover have "settle_first m ch = settle_promise (wt_promise w) (Inr m) (?c\<lparr>ch_armed := ?A, ch_waiters := remove1 w (ch_waiters ?c)\<rparr>)"
      using Some r s by (simp add: settle_first_def arm_lease_def Let_def)
    ultimately show ?thesis using leads_trans [OF leads_trans [OF l1(1) l2(1)]] by simp
  qed
qed

lemma reason_simps [simp]:
  "reason_ok (failing (Session_ended_error t) n)" "reason_ok (failing Session_left_error n)"
  "reason_ok (failing Request_timeout_error n)" "reason_ok (failing Relay_closed_error n)"
  by (simp_all add: reason_ok_def isEnvironmentFailure_def failing_def)

lemma leads_ends_session:
  assumes "channel_ok ch"
  shows "leads ch (rejectSession s n (set_life s l ch))"
proof -
  have life: "leads ch (set_life s l ch)" using assms by (simp add: same_leads)
  have "leads (set_life s l ch) (rejectSession s n (set_life s l ch))"
    unfolding rejectSession_def settleSessionWaiters_def by (rule leads_reject [OF leads_ok [OF life]]) simp
  with life show ?thesis by (rule leads_trans)
qed

lemma leads_note_lifecycle: "channel_ok ch \<Longrightarrow> leads ch (note_lifecycle m ch)"
  by (simp add: note_lifecycle_def Let_def leads_ends_session same_leads split: option.split inbound_type.split)

lemma leads_dispatch:
  assumes "channel_ok ch"
  shows "leads ch (dispatch m ch)"
proof -
  note a = leads_note_lifecycle [OF assms, of m]
  note b = same_leads [OF leads_ok [OF a] same_steps(4), of m]
  show ?thesis
    unfolding dispatch_def using leads_trans [OF leads_trans [OF a b] leads_settle_first [OF leads_ok [OF b]]] .
qed

lemma leads_deadline: "channel_ok ch \<Longrightarrow> leads ch (deadline_passes p ch)"
  unfolding deadline_passes_def by (rule leads_reject) simp_all

lemma leads_lost: "channel_ok ch \<Longrightarrow> leads ch (connectionLost ch)"
  unfolding connectionLost_def by (rule leads_reject) simp_all

lemma leads_leave:
  assumes "channel_ok ch"
  shows "leads ch (fst (leaveSession s r ch))"
proof -
  have "leads ch (settleSessionWaiters s (\<lambda>w. failing Session_left_error None) c)" if "same_promises ch c" for c
    unfolding settleSessionWaiters_def
    by (rule leads_trans [OF same_leads [OF assms that] leads_reject]) (simp_all add: leads_ok [OF same_leads [OF assms that]])
  moreover have "same_promises ch (ch\<lparr>ch_gestures := g\<rparr>)" for g by (simp add: same_promises_def)
  ultimately show ?thesis using assms by (simp add: leaveSession_def Let_def same_leads)
qed

subsection \<open>Requests\<close>

text \<open>A request that is not over waits for a promise that has a waiter or a result.\<close>

definition pending_ok :: "channel \<Rightarrow> pending \<Rightarrow> bool" where
  "pending_ok ch pn \<longleftrightarrow>
     (case pn of
        Waiting st p \<Rightarrow> tied ch (awaits_of st) (session_of st) p
          \<and> (\<forall>s q b. st = St_lease_join s q b \<longrightarrow> tied ch (Aw_boot s q) (Some s) b)
      | Pacing pc \<Rightarrow> True)"

primrec outcome_ok :: "channel \<Rightarrow> outcome \<Rightarrow> bool" where
  "outcome_ok ch (Goes_on pn) = pending_ok ch pn"
| "outcome_ok ch (Ends x) = True"

definition proper :: "channel \<Rightarrow> moved \<Rightarrow> bool" where
  "proper ch mv \<longleftrightarrow> leads ch (fst mv) \<and> outcome_ok (fst mv) (snd (snd mv))"

lemma pending_ok_leads: "pending_ok ch pn \<Longrightarrow> leads ch ch' \<Longrightarrow> pending_ok ch' pn"
  unfolding pending_ok_def by (auto intro: tied_leads split: pending.splits)

lemma proper_ends [simp]: "leads ch ch' \<Longrightarrow> proper ch (ends x ch')"
  by (simp add: proper_def ends_def)

lemma proper_sending: "channel_ok ch \<Longrightarrow> proper ch (k ch) \<Longrightarrow> proper ch (sending msgs k ch)"
  by (cases "k ch") (simp add: sending_def proper_def ends_def same_leads)

lemma proper_sending_first: "channel_ok ch \<Longrightarrow> proper ch (k ch) \<Longrightarrow> proper ch (sending_first msgs k ch)"
  by (simp add: sending_first_def proper_sending)

lemma proper_awaiting:
  assumes "channel_ok ch" "\<And>s q b. st \<noteq> St_lease_join s q b"
  shows "proper ch (awaiting st t ch)"
  using leads_waitFor [OF assms(1), of "awaits_of st" t "session_of st"] assms(2)
  by (simp add: proper_def awaiting_def pending_ok_def)

lemma proper_gesture: "channel_ok ch \<Longrightarrow> proper ch (begin_gesture s g pc ch)"
  by (simp add: proper_def begin_gesture_def same_leads pending_ok_def)

lemma proper_trans: "leads ch ch1 \<Longrightarrow> proper ch1 mv \<Longrightarrow> proper ch mv"
  unfolding proper_def using leads_trans by blast

lemma proper_after_wait:
  assumes "channel_ok ch" "\<And>s q b. st \<noteq> St_lease_join s q b"
  shows "proper ch (case awaiting st t ch of (ch1, _, next) \<Rightarrow> sending msgs (\<lambda>c. (c, [], next)) ch1)"
proof -
  obtain ch1 out nx where a: "awaiting st t ch = (ch1, out, nx)" by (cases "awaiting st t ch") auto
  from proper_awaiting [OF assms, of t] a have "leads ch ch1" "proper ch1 (ch1, [], nx)"
    by (auto simp: proper_def same_leads leads_ok)
  with a show ?thesis using proper_trans [OF _ proper_sending [OF leads_ok]] by simp
qed

lemma proper_orient: "channel_ok ch \<Longrightarrow> proper ch (orient_from s orient t chrome ch)"
  by (simp add: orient_from_def same_leads proper_after_wait split: option.split)

lemma proper_posture: "channel_ok ch \<Longrightarrow> proper ch (posture_from s posture t ps ch)"
  by (simp add: posture_from_def same_leads proper_after_wait Let_def)

lemma proper_launch: "channel_ok ch \<Longrightarrow> proper ch (launch_request s build options r ch)"
  by (simp add: launch_request_def proper_sending proper_awaiting)

lemma proper_begin: "channel_ok ch \<Longrightarrow> proper ch (begin_call op r ch)"
  by (cases op)
    (simp_all add: proper_sending proper_sending_first proper_awaiting proper_gesture proper_launch proper_orient proper_posture
      same_leads split: option.split)

lemma proper_closed:
  assumes "channel_ok ch" "\<And>s q b. st \<noteq> St_lease_join s q b" "same_promises ch c"
  shows "proper ch (sending msgs (awaiting st t) c)"
proof -
  have l: "leads ch c" using assms(1,3) by (rule same_leads)
  have "proper c (sending msgs (awaiting st t) c)"
    using leads_ok [OF l] by (intro proper_sending proper_awaiting) (simp_all add: assms(2))
  with l show ?thesis by (rule proper_trans)
qed

lemma closeGesture_same: "closeGesture s g ch = (b, c) \<Longrightarrow> same_promises ch c"
  using same_steps(3) [of ch s g] by simp

lemma proper_pace: "channel_ok ch \<Longrightarrow> proper ch (pace pc r ch)"
proof (induction pc)
  case (Pc_swipe s q g a b d i)
  then show ?case
    by (auto simp: same_leads proper_sending proper_def [of ch "(ch, [], _)"] pending_ok_def
        intro!: proper_closed same_leads dest: closeGesture_same split: prod.split bool.split)
next
  case (Pc_press s q g p d)
  then show ?case
    by (auto intro!: proper_closed same_leads proper_ends dest: closeGesture_same split: prod.split bool.split)
next
  case (Pc_pinch s g a b i)
  then show ?case
    by (auto simp: same_leads proper_def [of ch "(ch, [], _)"] pending_ok_def intro!: proper_sending proper_closed)
qed

lemma bootReply_same: "bootReply s m ch = (c, x) \<Longrightarrow> same_promises ch c"
  by (auto simp: bootReply_def split: if_splits option.splits)

lemma proper_abandon: "channel_ok ch \<Longrightarrow> proper ch (abandon_lease s r e ch)"
  using leads_leave [of ch s r] by (auto simp: abandon_lease_def proper_def split: prod.split)

lemma joinReply_reason: "joinReply m = Some e \<Longrightarrow> reason_ok e"
  by (auto simp: joinReply_def failing_with_def failing_def reason_ok_def split: if_splits)

lemma proper_join_failed:
  assumes "channel_ok ch" "reason_ok e"
  shows "proper ch (abandon_lease s r e (settleSessionWaiters s (\<lambda>_. e) ch))"
proof -
  have "leads ch (settleSessionWaiters s (\<lambda>_. e) ch)"
    unfolding settleSessionWaiters_def using assms by (rule leads_reject)
  then show ?thesis using proper_trans proper_abandon leads_ok by blast
qed

lemma armed_tied:
  assumes "channel_ok ch" "jget (ch_armed ch) p = Some (j, b)" "jget (ch_settled ch) p = Some (Inr m)"
    "im_session m = Some s" "im_request m = Some q"
  shows "tied ch (Aw_join s) (Some s) j" "tied ch (Aw_boot s q) (Some s) b"
proof -
  from assms(1,2) have "lease_tied ch p (j, b)" unfolding channel_ok_def by blast
  with assms(3-5) show "tied ch (Aw_join s) (Some s) j" "tied ch (Aw_boot s q) (Some s) b"
    by (auto simp: lease_tied_def)
qed

lemma proper_resume:
  assumes ok: "channel_ok ch" and pn: "pending_ok ch (Waiting st p)" and x: "jget (ch_settled ch) p = Some x"
  shows "proper ch (resume st p x r ch)"
proof -
  have "\<And>w. w \<in> set (ch_waiters ch) \<Longrightarrow> wt_promise w \<noteq> p" using ok x unfolding channel_ok_def by fastforce
  with pn x have res: "result_ok ch (awaits_of st) p x" by (auto simp: pending_ok_def tied_def)
  show ?thesis
  proof (cases st)
    case (St_lease q)
    show ?thesis
    proof (cases x)
      case (Inr m)
      with res St_lease have q: "im_request m = Some q" by (simp add: result_ok_def)
      show ?thesis
      proof (cases "im_session m")
        case (Some s)
        show ?thesis
        proof (cases "jget (ch_armed ch) p")
          case jb: (Some jb)
          then show ?thesis
            using armed_tied [OF ok _ x [unfolded Inr] Some q, of "fst jb" "snd jb"] Inr St_lease Some same_leads [OF ok]
            by (cases jb) (auto simp: proper_def pending_ok_def ends_def)
        qed (use Inr St_lease Some same_leads [OF ok] in simp)
      qed (use Inr St_lease same_leads [OF ok] in simp)
    qed (use St_lease same_leads [OF ok] in simp)
  next
    case (St_lease_join s q b)
    with pn have b: "tied ch (Aw_boot s q) (Some s) b" by (simp add: pending_ok_def)
    show ?thesis
    proof (cases x)
      case (Inl f)
      with res have "reason_ok f" by (simp add: result_ok_def)
      with Inl St_lease_join show ?thesis by (simp add: proper_join_failed [OF ok])
    next
      case (Inr m)
      with St_lease_join b same_leads [OF ok] joinReply_reason [of m] proper_join_failed [OF ok] show ?thesis
        by (auto simp: proper_def [of ch "(ch, [], _)"] pending_ok_def split: option.split)
    qed
  next
    case (St_lease_boot s q)
    then show ?thesis
      using same_leads [OF ok] proper_abandon [OF ok] proper_trans [OF same_leads [OF ok] proper_abandon [OF leads_ok [OF same_leads [OF ok]]]]
      by (auto dest: bootReply_same split: sum.split prod.split)
  next
    case (St_boot s q)
    then show ?thesis
      using same_leads [OF ok] by (auto dest: bootReply_same split: sum.split prod.split)
  qed (use ok same_leads [OF ok] proper_orient [OF ok] proper_posture [OF ok] proper_launch [OF ok] in
      \<open>auto split: sum.split payload.split\<close>)
qed

end
