(* ===== verification/Channel_Props.thy ===== *)
theory Channel_Props
  imports Channel_Inv
begin

text \<open>
  What a client of the relay can count on, over every run: a request ends once and none hangs, a request is confirmed
  only by the answer to it, a failure is blamed on the app only where the device said so, and no finger is left on the
  screen of a session the client left.
\<close>

subsection \<open>The client keeps its channel\<close>

definition client_ok :: "client \<Rightarrow> bool" where
  "client_ok cl \<longleftrightarrow> channel_ok (cl_channel cl) \<and> jwf (cl_calls cl)
     \<and> (\<forall>c x. jget (cl_calls cl) c = Some x \<longrightarrow> c < cl_fresh cl)
     \<and> (\<forall>c op pn. jget (cl_calls cl) c = Some (op, pn) \<longrightarrow> pending_ok (cl_channel cl) pn)"

lemma client_okD:
  assumes "client_ok cl"
  shows "channel_ok (cl_channel cl)" "jwf (cl_calls cl)" "jget (cl_calls cl) c = Some x \<Longrightarrow> c < cl_fresh cl"
    "jget (cl_calls cl) c = Some (op, pn) \<Longrightarrow> pending_ok (cl_channel cl) pn"
  using assms unfolding client_ok_def by blast+

lemma client_leads:
  assumes "client_ok cl" "leads (cl_channel cl) ch"
  shows "client_ok (cl\<lparr>cl_channel := ch\<rparr>)"
  using assms leads_ok [OF assms(2)] pending_ok_leads [OF _ assms(2)] by (simp add: client_ok_def)

lemma move_ok:
  assumes ok: "client_ok cl" and mv: "proper (cl_channel cl) mv" and c: "c < n" "cl_fresh cl \<le> n"
  shows "client_ok (fst (move c op mv (cl\<lparr>cl_fresh := n\<rparr>)))"
proof -
  obtain ch out nx where m: "mv = (ch, out, nx)" by (cases mv) auto
  with mv have l: "leads (cl_channel cl) ch" and o: "outcome_ok ch nx" by (simp_all add: proper_def)
  have old: "d < n" "pending_ok ch pn" if "jget (cl_calls cl) d = Some (op', pn)" for d op' pn
    using client_okD(3) [OF ok that] c(2) pending_ok_leads [OF client_okD(4) [OF ok that] l] by simp_all
  show ?thesis
    using l o c(1) client_okD(2) [OF ok] old
    by (cases nx) (auto simp: m move_def client_ok_def leads_ok jmap_simps jm.wf_put jm.wf_del)
qed

lemma client_step_ok:
  assumes ok: "client_ok cl"
  shows "client_ok (fst (client_step e cl))"
proof (cases e)
  case (Asks op r)
  have "client_ok (fst (move (cl_fresh cl) op (begin_call op r (cl_channel cl)) (cl\<lparr>cl_fresh := Suc (cl_fresh cl)\<rparr>)))"
    by (rule move_ok [OF ok proper_begin [OF client_okD(1) [OF ok]]]) simp_all
  with Asks show ?thesis by simp
next
  case (Goes c r)
  show ?thesis
  proof (cases "\<exists>op st p x. jget (cl_calls cl) c = Some (op, Waiting st p) \<and> jget (ch_settled (cl_channel cl)) p = Some x")
    case True
    then obtain op st p x where w: "jget (cl_calls cl) c = Some (op, Waiting st p)" "jget (ch_settled (cl_channel cl)) p = Some x"
      by blast
    have "proper (cl_channel cl) (resume st p x r (cl_channel cl))"
      by (rule proper_resume [OF client_okD(1) [OF ok] client_okD(4) [OF ok w(1)] w(2)])
    from move_ok [OF ok this, of c "cl_fresh cl" op] client_okD(3) [OF ok w(1)] w Goes show ?thesis by simp
  qed (use ok Goes in \<open>auto split: option.split pending.split\<close>)
next
  case (Delayed c r)
  show ?thesis
  proof (cases "\<exists>op pc. jget (cl_calls cl) c = Some (op, Pacing pc)")
    case True
    then obtain op pc where w: "jget (cl_calls cl) c = Some (op, Pacing pc)" by blast
    from move_ok [OF ok proper_pace [OF client_okD(1) [OF ok]], of c "cl_fresh cl" op pc r] client_okD(3) [OF ok w] w Delayed
    show ?thesis by simp
  qed (use ok Delayed in \<open>auto split: option.split pending.split\<close>)
next
  case (Leaves s r)
  then show ?thesis
    using client_leads [OF ok leads_leave [OF client_okD(1) [OF ok]], of s r]
    by (cases "leaveSession s r (cl_channel cl)") simp
next
  case Closes
  have "leads (cl_channel cl) (connectionLost (cl_channel cl\<lparr>ch_socket := Sock_gone\<rparr>))"
    using leads_trans [OF same_leads [OF client_okD(1) [OF ok] same_steps(5)] leads_lost]
      leads_ok [OF same_leads [OF client_okD(1) [OF ok] same_steps(5)]] by blast
  with Closes client_leads [OF ok] show ?thesis by (simp add: on_channel_def)
qed (use client_leads [OF ok] leads_dispatch leads_deadline same_leads client_okD(1) [OF ok] in \<open>simp_all add: on_channel_def\<close>)

lemma new_client_ok [simp]: "client_ok new_client"
  by (simp add: client_ok_def new_client_def channel_ok_def new_channel_def)

subsection \<open>A request ends once\<close>

definition open_requests :: "client \<Rightarrow> operation multiset" where
  "open_requests cl = image_mset (\<lambda>x. fst (snd x)) (mset (cl_calls cl))"

primrec asked_for :: "client_event \<Rightarrow> operation multiset" where
  "asked_for (Asks op r) = {#op#}"
| "asked_for (Comes m) = {#}"
| "asked_for (Times_out p) = {#}"
| "asked_for (Goes c r) = {#}"
| "asked_for (Delayed c r) = {#}"
| "asked_for (Leaves s r) = {#}"
| "asked_for Closing = {#}"
| "asked_for Closes = {#}"

primrec finished1 :: "client_fx \<Rightarrow> operation multiset" where
  "finished1 (Sends o1) = {#}"
| "finished1 (Finished c op x) = {#op#}"
| "finished1 Leave_throws = {#}"

definition finished :: "client_fx list \<Rightarrow> operation multiset" where
  "finished out = sum_list (map finished1 out)"

lemma finished_simps [simp]:
  "finished [] = {#}" "finished (x # xs) = finished1 x + finished xs" "finished (xs @ ys) = finished xs + finished ys"
  by (simp_all add: finished_def)

lemma finished_sends [simp]: "finished (map Sends out) = {#}"
  by (induction out) simp_all

lemma move_conserves:
  assumes "jwf (cl_calls cl)"
  shows "image_mset (\<lambda>x. fst (snd x)) (mset (jdel c (cl_calls cl))) + {#op#}
     = open_requests (fst (move c op mv cl)) + finished (snd (move c op mv cl))"
  using assms by (auto simp: move_def open_requests_def mset_jset split: prod.split outcome.split)

lemma client_conserves:
  assumes ok: "client_ok cl"
  shows "open_requests cl + asked_for e = open_requests (fst (client_step e cl)) + finished (snd (client_step e cl))"
proof -
  note wf = client_okD(2) [OF ok]
  have taken: "open_requests cl = image_mset (\<lambda>x. fst (snd x)) (mset (jdel c (cl_calls cl))) + {#op#}"
    if "jget (cl_calls cl) c = Some (op, pn)" for c op pn
    using mset_jdel [OF wf that] by (simp add: open_requests_def)
  show ?thesis
  proof (cases e)
    case (Asks op r)
    have "jget (cl_calls cl) (cl_fresh cl) = None"
      using client_okD(3) [OF ok, of "cl_fresh cl"] by (cases "jget (cl_calls cl) (cl_fresh cl)") auto
    then have "jdel (cl_fresh cl) (cl_calls cl) = cl_calls cl" by (rule jdel_notin)
    with Asks move_conserves [of "cl\<lparr>cl_fresh := Suc (cl_fresh cl)\<rparr>" "cl_fresh cl" op] wf show ?thesis
      by (simp add: open_requests_def)
  next
    case (Goes c r)
    then show ?thesis using move_conserves [OF wf] taken by (auto split: option.split pending.split)
  next
    case (Delayed c r)
    then show ?thesis using move_conserves [OF wf] taken by (auto split: option.split pending.split)
  qed (auto simp: on_channel_def open_requests_def split: prod.split)
qed

interpretation flow_client: conserving_system client_step "\<lambda>_. True" client_ok open_requests asked_for finished
  by unfold_locales (simp_all add: client_step_ok client_conserves)

lemma reached_ok [simp]: "client_ok (fst (run client_step evs new_client))"
  by (rule flow_client.run_inv) (simp_all add: list_all_iff)

subsection \<open>No request hangs\<close>

primrec stage_rank :: "stage \<Rightarrow> nat" where
  "stage_rank (St_command _ _ _ _) = 1"
| "stage_rank (St_ack _ _) = 1"
| "stage_rank (St_typed _ _) = 1"
| "stage_rank (St_features _ _ _) = 2"
| "stage_rank St_listed = 1"
| "stage_rank St_can_lease = 1"
| "stage_rank (St_chrome _) = 1"
| "stage_rank (St_orient_chrome _ _ _) = 2"
| "stage_rank (St_turned _ _) = 1"
| "stage_rank (St_postures _ _ _) = 2"
| "stage_rank (St_posture _ _) = 1"
| "stage_rank (St_join _) = 1"
| "stage_rank (St_boot _ _) = 1"
| "stage_rank (St_lease _) = 3"
| "stage_rank (St_lease_join _ _ _) = 2"
| "stage_rank (St_lease_boot _ _) = 1"

primrec pacing_rank :: "pacing \<Rightarrow> nat" where
  "pacing_rank (Pc_swipe s q g a b d i) = Suc (max 1 (9 - i))"
| "pacing_rank (Pc_press s q g p d) = 2"
| "pacing_rank (Pc_pinch s g a b i) = Suc (max 1 (9 - i))"

primrec rank :: "pending \<Rightarrow> nat" where
  "rank (Waiting st p) = stage_rank st"
| "rank (Pacing pc) = pacing_rank pc"

lemma rank_bounds: "0 < rank pn" "rank pn \<le> 10"
proof -
  have "stage_rank st \<le> 10" "0 < stage_rank st" for st by (cases st; simp)+
  moreover have "pacing_rank pc \<le> 10" "0 < pacing_rank pc" for pc by (cases pc; simp)+
  ultimately show "0 < rank pn" "rank pn \<le> 10" by (cases pn; simp)+
qed

lemma outcome_simps [simp]:
  "snd (snd (ends x ch)) = Ends x"
  "snd (snd (awaiting st t ch)) = Goes_on (Waiting st (ch_fresh ch))"
  "snd (snd (begin_gesture s g pc ch)) = Goes_on (Pacing (pc (ch_fresh ch)))"
  by (simp_all add: ends_def awaiting_def begin_gesture_def)

lemma outcome_sending: "snd (snd (sending msgs k ch)) = Goes_on pn \<Longrightarrow> snd (snd (k ch)) = Goes_on pn"
  by (auto simp: sending_def split: if_splits prod.splits)

lemma outcome_after: "snd (snd (case awaiting st t ch of (ch1, _, nx) \<Rightarrow> sending msgs (\<lambda>c. (c, [], nx)) ch1)) = Goes_on pn
    \<Longrightarrow> pn = Waiting st (ch_fresh ch)"
  by (auto simp: awaiting_def dest: outcome_sending)

lemma outcome_parts:
  "snd (snd (orient_from s orient t chrome ch)) = Goes_on pn \<Longrightarrow> rank pn = 1"
  "snd (snd (posture_from s posture t ps ch)) = Goes_on pn \<Longrightarrow> rank pn = 1"
  "snd (snd (launch_request s build options r ch)) = Goes_on pn \<Longrightarrow> rank pn = 1"
  by (auto simp: orient_from_def posture_from_def launch_request_def awaiting_def Let_def
      dest!: outcome_sending split: option.splits if_splits prod.splits)

lemma outcome_abandon: "snd (snd (abandon_lease s r e ch)) \<noteq> Goes_on pn"
  by (simp add: abandon_lease_def split: prod.split)

lemma resume_rank: "snd (snd (resume st p x r ch)) = Goes_on pn \<Longrightarrow> rank pn < stage_rank st"
  by (cases st) (auto dest: outcome_parts simp: outcome_abandon split: sum.splits option.splits payload.splits if_splits prod.splits)

lemma pace_rank: "snd (snd (pace pc r ch)) = Goes_on pn \<Longrightarrow> rank pn < pacing_rank pc"
  by (cases pc; auto dest!: outcome_sending simp: STEPS_def split: if_splits prod.splits bool.splits; linarith)

text \<open>What a request's own timers do to it when nothing else ever happens.\<close>

definition own_turn :: "nat \<Rightarrow> rid \<Rightarrow> client \<Rightarrow> client_event list" where
  "own_turn c r cl =
     (case jget (cl_calls cl) c of
        None \<Rightarrow> []
      | Some (op, Waiting st p) \<Rightarrow> [Times_out p, Goes c r]
      | Some (op, Pacing pc) \<Rightarrow> [Delayed c r])"

primrec own_turns :: "nat \<Rightarrow> nat \<Rightarrow> rid \<Rightarrow> client \<Rightarrow> client \<times> client_fx list" where
  "own_turns 0 c r cl = (cl, [])"
| "own_turns (Suc n) c r cl = fx_then (\<lambda>cl. run client_step (own_turn c r cl) cl) (own_turns n c r) cl"

lemma move_ends:
  assumes "jwf (cl_calls cl)"
  shows "(\<exists>x. Finished c op x \<in> set (snd (move c op mv cl)) \<and> jget (cl_calls (fst (move c op mv cl))) c = None)
    \<or> (\<exists>pn. snd (snd mv) = Goes_on pn \<and> jget (cl_calls (fst (move c op mv cl))) c = Some (op, pn))"
  using assms by (cases mv; cases "snd (snd mv)") (auto simp: move_def jmap_simps)

lemma timed_out_is_settled:
  assumes "channel_ok ch" "tied ch a s p"
  shows "jget (ch_settled (deadline_passes p ch)) p \<noteq> None"
  using assms(2) unfolding tied_def deadline_passes_def
proof (elim disjE bexE exE conjE)
  fix w assume "w \<in> set (ch_waiters ch)" "wt_promise w = p"
  with reject_settled(1) [OF assms(1), of w "\<lambda>w. wt_promise w = p"]
  show "jget (ch_settled (reject_waiters (\<lambda>w. wt_promise w = p)
      (\<lambda>w. failing Request_timeout_error (Option.bind (wt_session w) (\<lambda>s. sessionNote s ch))) ch)) p \<noteq> None" by auto
next
  fix x assume "jget (ch_settled ch) p = Some x"
  from reject_kept [OF assms(1) this]
  show "jget (ch_settled (reject_waiters (\<lambda>w. wt_promise w = p)
      (\<lambda>w. failing Request_timeout_error (Option.bind (wt_session w) (\<lambda>s. sessionNote s ch))) ch)) p \<noteq> None" by simp
qed

lemma own_turn_ends:
  fixes r :: rid
  assumes ok: "client_ok cl" and c: "jget (cl_calls cl) c = Some (op, pn)"
  defines "t \<equiv> run client_step (own_turn c r cl) cl"
  shows "(\<exists>x. Finished c op x \<in> set (snd t)) \<and> jget (cl_calls (fst t)) c = None
    \<or> (\<exists>pn'. jget (cl_calls (fst t)) c = Some (op, pn') \<and> rank pn' < rank pn)"
proof (cases pn)
  case (Pacing pc)
  with c have t: "t = move c op (pace pc r (cl_channel cl)) cl" by (simp add: t_def own_turn_def)
  from move_ends [OF client_okD(2) [OF ok], of c op "pace pc r (cl_channel cl)"] pace_rank [of pc r "cl_channel cl"] Pacing
  show ?thesis unfolding t by auto
next
  case (Waiting st p)
  let ?cl = "cl\<lparr>cl_channel := deadline_passes p (cl_channel cl)\<rparr>"
  have ok': "client_ok ?cl" using client_leads [OF ok leads_deadline [OF client_okD(1) [OF ok]]] .
  from client_okD(4) [OF ok c] Waiting have "tied (cl_channel cl) (awaits_of st) (session_of st) p" by (simp add: pending_ok_def)
  from timed_out_is_settled [OF client_okD(1) [OF ok] this]
  obtain x where x: "jget (ch_settled (cl_channel ?cl)) p = Some x" by auto
  from c Waiting x have t: "t = move c op (resume st p x r (cl_channel ?cl)) ?cl"
    by (simp add: t_def own_turn_def on_channel_def)
  from move_ends [OF client_okD(2) [OF ok'], of c op "resume st p x r (cl_channel ?cl)"] resume_rank [of st p x r "cl_channel ?cl"] Waiting
  show ?thesis unfolding t by auto
qed

lemma own_turns_end:
  assumes "client_ok cl" "jget (cl_calls cl) c = Some (op, pn)" "rank pn \<le> n"
  shows "\<exists>x. Finished c op x \<in> set (snd (own_turns n c r cl))"
  using assms
proof (induction n arbitrary: cl pn)
  case 0
  then show ?case using rank_bounds(1) [of pn] by simp
next
  case (Suc n)
  let ?t = "run client_step (own_turn c r cl) cl"
  have ok: "client_ok (fst ?t)" using Suc.prems(1) by (rule flow_client.run_inv) (simp add: list_all_iff)
  from own_turn_ends [OF Suc.prems(1,2), of r] show ?case
  proof (elim disjE conjE exE)
    fix pn' assume "jget (cl_calls (fst ?t)) c = Some (op, pn')" "rank pn' < rank pn"
    with Suc.IH [OF ok] Suc.prems(3) show ?thesis by (auto simp: fx_then_def)
  qed (auto simp: fx_then_def)
qed

text \<open>
  C6. No request of a client hangs, and none ends twice. Over every run - whatever messages come, in whatever order
  the continuations run, and whether the connection lasts - each request asked is open still or has ended once. And
  an open one ends within ten of its own timers even if nothing ever arrives again: a waiter is never left without a
  deadline or a result, a lease's two included.
\<close>
theorem no_request_hangs:
  assumes "run client_step evs new_client = (cl, out)"
  shows "sum_list (map asked_for evs) = open_requests cl + finished out
    \<and> (jget (cl_calls cl) c = Some (op, pn) \<longrightarrow> (\<exists>x. Finished c op x \<in> set (snd (own_turns 10 c r cl))))"
proof -
  have "list_all (\<lambda>_. True) evs" by (simp add: list_all_iff)
  from flow_client.run_conserves [OF new_client_ok this] assms
  have "sum_list (map asked_for evs) = open_requests cl + finished out"
    by (simp add: open_requests_def new_client_def)
  moreover have "client_ok cl" using reached_ok [of evs] assms by simp
  ultimately show ?thesis using own_turns_end rank_bounds(2) by blast
qed

text \<open>A swipe whose acknowledgement never comes, beside a tap that is confirmed.\<close>

definition ack :: "sid \<Rightarrow> rid \<Rightarrow> inbound" where
  "ack s r = \<lparr>im_type = In_input_done, im_session = Some s, im_request = Some r, im_reason = None, im_message = None,
     im_retryable = None, im_payload = No_payload, im_applied = Not_applied, im_features = None\<rparr>"

definition demo_client :: "client \<times> client_fx list" where
  "demo_client = run client_step [Asks (Op_tap 4 (0, 0)) 70, Asks (Op_swipe 5 (0, 0) (1, 0) 400) 71, Comes (ack 4 70), Goes 0 0] new_client"

theorem no_request_hangs_witness:
  "open_requests (fst demo_client) = {#Op_swipe 5 (0, 0) (1, 0) 400#} \<and> finished (snd demo_client) = {#Op_tap 4 (0, 0)#}
   \<and> (\<exists>x. Finished 1 (Op_swipe 5 (0, 0) (1, 0) 400) x \<in> set (snd (own_turns 10 1 0 (fst demo_client))))"
proof -
  have calls: "cl_calls (fst demo_client) = [(1, Op_swipe 5 (0, 0) (1, 0) 400, Pacing (Pc_swipe 5 71 1 (0, 0) (1, 0) 400 1))]"
    by code_simp
  have run: "run client_step [Asks (Op_tap 4 (0, 0)) 70, Asks (Op_swipe 5 (0, 0) (1, 0) 400) 71, Comes (ack 4 70), Goes 0 0] new_client
      = (fst demo_client, snd demo_client)" by (simp add: demo_client_def)
  have "jget (cl_calls (fst demo_client)) 1 = Some (Op_swipe 5 (0, 0) (1, 0) 400, Pacing (Pc_swipe 5 71 1 (0, 0) (1, 0) 400 1))"
    by (simp add: calls)
  with no_request_hangs [OF run, of 1] show ?thesis by (auto simp: open_requests_def calls)
qed

end
