(* ===== verification/Channel_Answers.thy ===== *)
theory Channel_Answers
  imports Channel_Props
begin

text \<open>
  What a client was told by what it was sent: a request is confirmed, or refused to the app's account, only by a message
  that answers the very message that carried it and that came after it. The history is the events of the run.
\<close>

subsection \<open>Requests and their answers\<close>

text \<open>The message that carries a request, as seen from the place where the request waits for its answer.\<close>

definition for_ack :: "stage \<Rightarrow> sid \<Rightarrow> (rid \<Rightarrow> outbound) \<Rightarrow> outbound option" where
  "for_ack st s msg = (case st of St_ack s' r \<Rightarrow> if s' = s then Some (msg r) else None | _ \<Rightarrow> None)"

definition for_command :: "stage \<Rightarrow> sid \<Rightarrow> command \<Rightarrow> bool \<Rightarrow> (rid \<Rightarrow> outbound) \<Rightarrow> outbound option" where
  "for_command st s c options msg =
     (case st of St_command s' c' r b \<Rightarrow> if s' = s \<and> c' = c \<and> b = options then Some (msg r) else None | _ \<Rightarrow> None)"

primrec request_of :: "operation \<Rightarrow> stage \<Rightarrow> outbound option" where
  "request_of (Op_tap s p) st = for_ack st s (\<lambda>r. Out_touch_end s r p)"
| "request_of (Op_swipe s a b d) st = for_ack st s (\<lambda>r. Out_touch_end s r b)"
| "request_of (Op_long_press s p d) st = for_ack st s (\<lambda>r. Out_touch_end s r p)"
| "request_of (Op_pinch s a b d) st = for_ack st s (\<lambda>r. Out_pinch_end s r)"
| "request_of (Op_type s text) st = (case st of St_typed s' r \<Rightarrow> if s' = s then Some (Out_type s r text) else None | _ \<Rightarrow> None)"
| "request_of (Op_key s code ms) st = for_ack st s (\<lambda>r. Out_key s r code (modifiers_of ms))"
| "request_of (Op_button s name) st = for_ack st s (\<lambda>r. Out_button s r name)"
| "request_of (Op_open_url s url) st = for_command st s Open False (\<lambda>r. Out_open_url s r url)"
| "request_of (Op_install s build) st = for_command st s Install False (\<lambda>r. Out_install s r build)"
| "request_of (Op_launch s build options) st = for_command st s Launch (options \<noteq> None) (\<lambda>r. Out_launch s r build options)"
| "request_of (Op_clear s bundle) st = for_command st s Clear False (\<lambda>r. Out_clear s r bundle)"
| "request_of (Op_orientation s orient t) st = (if st = St_turned s orient then Some (Out_rotate s orient) else None)"
| "request_of (Op_posture s posture t) st =
     (case st of St_posture s' i \<Rightarrow> if s' = s then Some (Out_posture s i) else None | _ \<Rightarrow> None)"
| "request_of (Op_chrome s t) st = None"
| "request_of Op_list st = None"
| "request_of Op_can_lease st = None"
| "request_of (Op_join s) st = None"
| "request_of (Op_boot s dev) st = (case st of St_boot s' r \<Rightarrow> if s' = s then Some (Out_boot s r dev) else None | _ \<Rightarrow> None)"
| "request_of (Op_lease exclude) st = None"

text \<open>The places a request is at before it has been sent, or that wait for news rather than an answer.\<close>

primrec early :: "operation \<Rightarrow> stage \<Rightarrow> bool" where
  "early (Op_tap s p) st = False"
| "early (Op_swipe s a b d) st = False"
| "early (Op_long_press s p d) st = False"
| "early (Op_pinch s a b d) st = False"
| "early (Op_type s text) st = False"
| "early (Op_key s code ms) st = False"
| "early (Op_button s name) st = False"
| "early (Op_open_url s url) st = False"
| "early (Op_install s build) st = False"
| "early (Op_launch s build options) st = (st = St_features s build options \<and> options \<noteq> None)"
| "early (Op_clear s bundle) st = False"
| "early (Op_orientation s orient t) st = (st = St_orient_chrome s orient t)"
| "early (Op_posture s posture t) st = (st = St_postures s posture t)"
| "early (Op_chrome s t) st = (st = St_chrome s)"
| "early Op_list st = (st = St_listed)"
| "early Op_can_lease st = (st = St_can_lease)"
| "early (Op_join s) st = (st = St_join s)"
| "early (Op_boot s dev) st = False"
| "early (Op_lease exclude) st =
     ((\<exists>r. st = St_lease r) \<or> (\<exists>s r b. st = St_lease_join s r b) \<or> (\<exists>s r. st = St_lease_boot s r))"

primrec paces :: "pacing \<Rightarrow> operation \<Rightarrow> bool" where
  "paces (Pc_swipe s q g a b d i) op = (op = Op_swipe s a b d)"
| "paces (Pc_press s q g p d) op = (op = Op_long_press s p d)"
| "paces (Pc_pinch s g a b i) op = (\<exists>d. op = Op_pinch s a b d)"

text \<open>The history.\<close>

definition was_sent :: "client_event list \<Rightarrow> outbound \<Rightarrow> bool" where
  "was_sent evs o1 \<longleftrightarrow> Sends o1 \<in> set (snd (run client_step evs new_client))"

definition came_after :: "client_event list \<Rightarrow> outbound \<Rightarrow> inbound \<Rightarrow> bool" where
  "came_after evs o1 m \<longleftrightarrow> (\<exists>before later. evs = before @ Comes m # later \<and> was_sent before o1)"

lemma was_sent_snoc: "was_sent evs o1 \<Longrightarrow> was_sent (evs @ [e]) o1"
  by (simp add: was_sent_def run_append)

lemma came_after_snoc: "came_after evs o1 m \<Longrightarrow> came_after (evs @ [e]) o1 m"
  unfolding came_after_def by fastforce

lemma came_now: "was_sent evs o1 \<Longrightarrow> came_after (evs @ [Comes m]) o1 m"
  unfolding came_after_def by fastforce

subsection \<open>No operation but a message brings a result\<close>

definition no_news :: "channel \<Rightarrow> channel \<Rightarrow> bool" where
  "no_news ch ch' \<longleftrightarrow> (\<forall>p m. jget (ch_settled ch') p = Some (Inr m) \<longrightarrow> jget (ch_settled ch) p = Some (Inr m))"

lemma no_news_refl [simp]: "no_news ch ch"
  by (simp add: no_news_def)

lemma no_news_trans: "no_news ch ch1 \<Longrightarrow> no_news ch1 ch2 \<Longrightarrow> no_news ch ch2"
  by (simp add: no_news_def)

lemma no_news_same: "same_promises ch ch' \<Longrightarrow> no_news ch ch'"
  by (simp add: same_promises_def no_news_def)

lemma no_news_wait [simp]: "no_news ch (waitFor a t s ch)"
  by (simp add: no_news_def)

lemma no_news_reject: "channel_ok ch \<Longrightarrow> no_news ch (reject_waiters which why ch)"
  unfolding no_news_def by (auto dest: reject_cases)

lemma no_news_leave:
  assumes "channel_ok ch"
  shows "no_news ch (fst (leaveSession s r ch))"
proof -
  have "no_news ch (settleSessionWaiters s why c)" if "same_promises ch c" for why c
    unfolding settleSessionWaiters_def
    by (rule no_news_trans [OF no_news_same [OF that] no_news_reject [OF leads_ok [OF same_leads [OF assms that]]]])
  moreover have "same_promises ch (ch\<lparr>ch_gestures := g\<rparr>)" for g by (simp add: same_promises_def)
  ultimately show ?thesis by (simp add: leaveSession_def Let_def no_news_same)
qed

lemma dispatch_news:
  assumes ok: "channel_ok ch" and r: "jget (ch_settled (dispatch m ch)) p = Some (Inr m')"
  shows "jget (ch_settled ch) p = Some (Inr m') \<or> m' = m"
proof -
  let ?c = "keep_payload m (note_lifecycle m ch)"
  have "no_news ch (rejectSession s n (set_life s l ch))" for s n l
    unfolding rejectSession_def settleSessionWaiters_def
    using no_news_trans [OF no_news_same no_news_reject [OF leads_ok [OF same_leads [OF ok]]]] same_steps(1) by blast
  then have "no_news ch (note_lifecycle m ch)"
    by (simp add: note_lifecycle_def Let_def no_news_same split: option.split inbound_type.split)
  then have c: "no_news ch ?c" using no_news_trans [OF _ no_news_same [OF same_steps(4)]] by blast
  have arm: "ch_settled (arm_lease w m c) = ch_settled c" for w c
    by (simp add: arm_lease_def split: awaits.split option.split)
  show ?thesis
  proof (cases "find (\<lambda>w. fits_message (wt_awaits w) m) (ch_waiters ?c)")
    case None
    with r c show ?thesis by (simp add: dispatch_def settle_first_def no_news_def)
  next
    case (Some w)
    with r have "p = wt_promise w \<and> m' = m \<or> jget (ch_settled ?c) p = Some (Inr m')"
      by (simp add: dispatch_def settle_first_def settle_promise_def Let_def arm jmap_simps split: if_splits)
    with c show ?thesis unfolding no_news_def by blast
  qed
qed

subsection \<open>What a request does\<close>

primrec next_well :: "operation \<Rightarrow> nat \<Rightarrow> outbound list \<Rightarrow> pending \<Rightarrow> bool" where
  "next_well op n out (Pacing pc) = paces pc op"
| "next_well op n out (Waiting st p) = (early op st \<or> (\<exists>o1 \<in> set out. request_of op st = Some o1) \<and> n \<le> p)"

primrec outcome_well :: "operation \<Rightarrow> nat \<Rightarrow> outbound list \<Rightarrow> outcome \<Rightarrow> bool" where
  "outcome_well op n out (Goes_on pn) = next_well op n out pn"
| "outcome_well op n out (Ends x) = True"

definition moves_well :: "operation \<Rightarrow> channel \<Rightarrow> moved \<Rightarrow> bool" where
  "moves_well op ch mv \<longleftrightarrow> no_news ch (fst mv) \<and> outcome_well op (ch_fresh ch) (fst (snd mv)) (snd (snd mv))"

lemma well_ends [simp]: "moves_well op ch (ends x c) = no_news ch c"
  by (simp add: moves_well_def ends_def)

lemma next_well_mono: "next_well op n out pn \<Longrightarrow> next_well op n (msgs @ out) pn"
  by (cases pn) auto

lemma well_sending:
  assumes "moves_well op ch (k ch)"
  shows "moves_well op ch (sending msgs k ch)"
  using assms next_well_mono by (cases "k ch"; cases "snd (snd (k ch))") (auto simp: sending_def moves_well_def ends_def)

lemma well_sending_first: "moves_well op ch (k ch) \<Longrightarrow> moves_well op ch (sending_first msgs k ch)"
  by (simp add: sending_first_def well_sending)

lemma well_request:
  assumes "\<And>c. request_of op st = Some c \<longrightarrow> c \<in> set msgs" "request_of op st \<noteq> None" "no_news ch c" "ch_fresh ch \<le> ch_fresh c"
  shows "moves_well op ch (sending msgs (awaiting st t) c)"
  using assms by (auto simp: sending_def moves_well_def ends_def awaiting_def no_news_def split: prod.split)

lemma well_early: "early op st \<Longrightarrow> moves_well op ch (awaiting st t ch)"
  by (simp add: moves_well_def awaiting_def)

lemma well_gesture: "paces (pc (ch_fresh ch)) op \<Longrightarrow> moves_well op ch (begin_gesture s g pc ch)"
  using no_news_same [OF same_steps(2), of ch s g] by (simp add: moves_well_def begin_gesture_def)

lemma well_after_wait:
  assumes "\<And>c. request_of op st = Some c \<longrightarrow> c \<in> set msgs" "request_of op st \<noteq> None"
  shows "moves_well op ch (case awaiting st t ch of (ch1, _, nx) \<Rightarrow> sending msgs (\<lambda>c. (c, [], nx)) ch1)"
  using assms by (auto simp: awaiting_def sending_def moves_well_def ends_def split: prod.split)

lemma well_orient: "moves_well (Op_orientation s orient t) ch (orient_from s orient t' chrome ch)"
  by (simp add: orient_from_def well_after_wait split: option.split)

lemma well_posture: "moves_well (Op_posture s posture t) ch (posture_from s posture t' ps ch)"
  by (simp add: posture_from_def well_after_wait Let_def)

lemma well_launch: "moves_well (Op_launch s build options) ch (launch_request s build options r ch)"
  unfolding launch_request_def by (rule well_request) (simp_all add: for_command_def)

lemma well_begin: "moves_well op ch (begin_call op r ch)"
  by (cases op)
    (simp_all add: well_request for_ack_def for_command_def well_sending well_sending_first well_gesture well_early well_launch
      well_orient well_posture split: option.split)

lemma well_pace: "paces pc op \<Longrightarrow> moves_well op ch (pace pc r ch)"
proof (induction pc)
  case (Pc_swipe s q g a b d i)
  then show ?case
    by (auto simp: for_ack_def closeGesture_def no_news_def moves_well_def [of _ _ "(ch, [], _)"] intro!: well_request well_sending
        split: prod.split bool.split)
next
  case (Pc_press s q g p d)
  then show ?case
    by (auto simp: for_ack_def closeGesture_def no_news_def intro!: well_request split: prod.split bool.split)
next
  case (Pc_pinch s g a b i)
  then show ?case
    by (auto simp: is_open_def for_ack_def closeGesture_def no_news_def moves_well_def [of _ _ "(ch, [], _)"]
        intro!: well_request well_sending)
qed

lemma well_abandon: "channel_ok ch \<Longrightarrow> no_news c ch \<Longrightarrow> moves_well op c (abandon_lease s r e ch)"
  using no_news_trans [OF _ no_news_leave, of c ch s r]
  by (cases "leaveSession s r ch") (simp add: abandon_lease_def moves_well_def)

lemma well_join_failed:
  assumes "channel_ok ch" "reason_ok e"
  shows "moves_well op ch (abandon_lease s r e (settleSessionWaiters s (\<lambda>_. e) ch))"
proof -
  have "leads ch (settleSessionWaiters s (\<lambda>_. e) ch)"
    unfolding settleSessionWaiters_def using assms by (rule leads_reject)
  then show ?thesis
    unfolding settleSessionWaiters_def by (intro well_abandon leads_ok) (simp_all add: no_news_reject [OF assms(1)])
qed

lemma settled_ok:
  assumes "channel_ok ch" "tied ch a s p" "jget (ch_settled ch) p = Some x"
  shows "result_ok ch a p x"
proof -
  have "\<And>w. w \<in> set (ch_waiters ch) \<Longrightarrow> wt_promise w \<noteq> p" using assms(1,3) unfolding channel_ok_def by fastforce
  with assms(2,3) show ?thesis by (auto simp: tied_def)
qed

lemma well_news_boot: "bootReply s m ch = (c, y) \<Longrightarrow> no_news ch c"
  using no_news_same [OF bootReply_same] .

lemma request_ends:
  assumes "request_of op st = Some c" and "channel_ok ch"
  shows "\<exists>y ch'. resume st p x r ch = ends y ch' \<and> no_news ch ch'"
  using assms
  by (cases op)
    (auto simp: for_ack_def for_command_def split: stage.splits if_splits sum.split prod.split dest: well_news_boot intro: no_news_refl)

lemma well_resume:
  assumes ok: "channel_ok ch" and pn: "tied ch (awaits_of st) (session_of st) p" and x: "jget (ch_settled ch) p = Some x"
    and well: "early op st \<or> request_of op st \<noteq> None"
  shows "moves_well op ch (resume st p x r ch)"
proof (cases "request_of op st")
  case (Some c)
  from request_ends [OF this ok, of p x r] show ?thesis by auto
next
  case None
  with well have early: "early op st" by blast
  note res = settled_ok [OF ok pn x]
  show ?thesis
  proof (cases op)
    case (Op_lease exclude)
    with early consider q where "st = St_lease q" | s q b where "st = St_lease_join s q b" | s q where "st = St_lease_boot s q" by auto
    then show ?thesis
    proof cases
      case 1
      then show ?thesis using Op_lease
        by (auto simp: moves_well_def [of _ _ "(ch, [], _)"] split: sum.split option.split)
    next
      case 2
      show ?thesis
      proof (cases x)
        case (Inl f)
        with res have "reason_ok f" by (simp add: result_ok_def)
        with Inl 2 show ?thesis by (simp add: well_join_failed [OF ok])
      next
        case (Inr m)
        with 2 Op_lease show ?thesis
          by (auto simp: moves_well_def [of _ _ "(ch, [], _)"] well_join_failed [OF ok joinReply_reason] split: option.split)
      qed
    next
      case 3
      then show ?thesis
        using ok same_leads [OF ok bootReply_same, THEN leads_ok]
        by (auto intro: well_abandon well_news_boot dest: well_news_boot split: sum.split prod.split)
    qed
  qed (use early in \<open>auto simp: well_launch well_orient well_posture split: sum.split payload.split\<close>)
qed

subsection \<open>Every request is tracked to the message that carried it\<close>

primrec tracked :: "client_event list \<Rightarrow> channel \<Rightarrow> operation \<Rightarrow> pending \<Rightarrow> bool" where
  "tracked evs ch op (Pacing pc) = paces pc op"
| "tracked evs ch op (Waiting st p) =
     (early op st \<or> (\<exists>c. request_of op st = Some c \<and> was_sent evs c
        \<and> (\<forall>m. jget (ch_settled ch) p = Some (Inr m) \<longrightarrow> came_after evs c m)))"

definition history_ok :: "client_event list \<Rightarrow> client \<Rightarrow> bool" where
  "history_ok evs cl \<longleftrightarrow> (\<forall>c op pn. jget (cl_calls cl) c = Some (op, pn) \<longrightarrow> tracked evs (cl_channel cl) op pn)"

lemma tracked_step:
  assumes "tracked evs ch op pn"
    and "\<And>p m. jget (ch_settled ch') p = Some (Inr m) \<Longrightarrow> jget (ch_settled ch) p = Some (Inr m) \<or> e = Comes m"
  shows "tracked (evs @ [e]) ch' op pn"
proof (cases pn)
  case (Waiting st p)
  with assms(1) consider "early op st"
    | c where "request_of op st = Some c" "was_sent evs c" "\<And>m. jget (ch_settled ch) p = Some (Inr m) \<Longrightarrow> came_after evs c m" by auto
  then show ?thesis
  proof cases
    case 2
    have "came_after (evs @ [e]) c m" if "jget (ch_settled ch') p = Some (Inr m)" for m
      using assms(2) [OF that] 2(2,3) came_after_snoc came_now by blast
    with 2(1) was_sent_snoc [OF 2(2)] Waiting show ?thesis by auto
  qed (use Waiting in simp)
qed (use assms(1) in simp)

lemma history_channel:
  assumes "history_ok evs cl"
    and "\<And>p m. jget (ch_settled ch') p = Some (Inr m) \<Longrightarrow> jget (ch_settled (cl_channel cl)) p = Some (Inr m) \<or> e = Comes m"
  shows "history_ok (evs @ [e]) (cl\<lparr>cl_channel := ch'\<rparr>)"
  using assms(1) tracked_step [OF _ assms(2)] by (simp add: history_ok_def)

lemma history_move:
  assumes h: "history_ok evs cl" and mv: "moves_well op (cl_channel cl) mv" "proper (cl_channel cl) mv"
    and sent: "\<And>c. c \<in> set (fst (snd mv)) \<Longrightarrow> was_sent (evs @ [e]) c" and wf: "jwf (cl_calls cl)" and ok: "channel_ok (cl_channel cl)"
  shows "history_ok (evs @ [e]) (fst (move c op mv (cl\<lparr>cl_fresh := n\<rparr>)))"
proof -
  obtain ch out nx where m: "mv = (ch, out, nx)" by (cases mv) auto
  have news: "jget (ch_settled ch) p = Some (Inr m) \<Longrightarrow> jget (ch_settled (cl_channel cl)) p = Some (Inr m) \<or> e = Comes m" for p m
    using mv(1) m by (auto simp: moves_well_def no_news_def)
  have old: "tracked (evs @ [e]) ch op' pn" if "jget (cl_calls cl) d = Some (op', pn)" for d op' pn
    using h that tracked_step [OF _ news] by (simp add: history_ok_def)
  have below: "jget (ch_settled (cl_channel cl)) p = Some x \<Longrightarrow> p < ch_fresh (cl_channel cl)" for p x
    using ok unfolding channel_ok_def by blast
  show ?thesis
  proof (cases nx)
    case (Ends x)
    with m old wf show ?thesis by (auto simp: move_def history_ok_def jmap_simps)
  next
    case (Goes_on pn)
    have "tracked (evs @ [e]) ch op pn"
    proof (cases pn)
      case (Pacing pc)
      with mv(1) m Goes_on show ?thesis by (simp add: moves_well_def)
    next
      case (Waiting st p)
      with mv(1) m Goes_on have "early op st \<or> (\<exists>c \<in> set out. request_of op st = Some c) \<and> ch_fresh (cl_channel cl) \<le> p"
        by (simp add: moves_well_def)
      then show ?thesis
      proof (elim disjE conjE bexE)
        fix c assume c: "c \<in> set out" "request_of op st = Some c" and p: "ch_fresh (cl_channel cl) \<le> p"
        have "jget (ch_settled ch) p \<noteq> Some (Inr m)" for m
          using mv(1) m below [of p "Inr m"] p by (auto simp: moves_well_def no_news_def)
        with c sent m Waiting show ?thesis by auto
      qed (use Waiting in simp)
    qed
    with m Goes_on old wf show ?thesis by (auto simp: move_def history_ok_def jmap_simps)
  qed
qed

lemma move_sends: "c \<in> set (fst (snd mv)) \<Longrightarrow> Sends c \<in> set (snd (move d op mv cl))"
  by (cases mv; cases "snd (snd mv)") (auto simp: move_def)

lemma sent_now: "Sends c \<in> set (snd (client_step e (fst (run client_step evs new_client)))) \<Longrightarrow> was_sent (evs @ [e]) c"
  by (simp add: was_sent_def run_append)

lemma tracked_belongs: "tracked evs ch op (Waiting st p) \<Longrightarrow> early op st \<or> request_of op st \<noteq> None"
  by auto

lemma history_reached: "history_ok evs (fst (run client_step evs new_client))"
proof (induction evs rule: rev_induct)
  case Nil
  then show ?case by (simp add: history_ok_def new_client_def)
next
  case (snoc e evs)
  let ?cl = "fst (run client_step evs new_client)"
  note ok = client_okD(1) [OF reached_ok [of evs]] and wf = client_okD(2) [OF reached_ok [of evs]]
  have step: "fst (run client_step (evs @ [e]) new_client) = fst (client_step e ?cl)" by (simp add: run_append)
  have plain: "history_ok (evs @ [e]) (?cl\<lparr>cl_channel := ch\<rparr>)" if "no_news (cl_channel ?cl) ch" for ch
    using history_channel [OF snoc.IH] that unfolding no_news_def by blast
  have still: "history_ok (evs @ [e]) ?cl" using plain [of "cl_channel ?cl"] by simp
  have "history_ok (evs @ [e]) (fst (client_step e ?cl))"
  proof (cases e)
    case (Asks op r)
    let ?mv = "begin_call op r (cl_channel ?cl)"
    have sent: "was_sent (evs @ [e]) c" if "c \<in> set (fst (snd ?mv))" for c
      using move_sends [OF that] Asks by (intro sent_now) simp
    show ?thesis
      using history_move [OF snoc.IH well_begin proper_begin [OF ok] sent wf ok, where c = "cl_fresh ?cl" and n = "Suc (cl_fresh ?cl)"] Asks by simp
  next
    case (Comes m)
    with history_channel [OF snoc.IH, of "dispatch m (cl_channel ?cl)" e] dispatch_news [OF ok, of m]
    show ?thesis by (simp add: on_channel_def) blast
  next
    case (Times_out p)
    with plain [OF no_news_reject [OF ok]] show ?thesis by (simp add: on_channel_def deadline_passes_def)
  next
    case (Goes d r)
    show ?thesis
    proof (cases "\<exists>op st p x. jget (cl_calls ?cl) d = Some (op, Waiting st p) \<and> jget (ch_settled (cl_channel ?cl)) p = Some x")
      case True
      then obtain op st p x where w: "jget (cl_calls ?cl) d = Some (op, Waiting st p)" "jget (ch_settled (cl_channel ?cl)) p = Some x"
        by blast
      let ?mv = "resume st p x r (cl_channel ?cl)"
      have pn: "pending_ok (cl_channel ?cl) (Waiting st p)" by (rule client_okD(4) [OF reached_ok w(1)])
      then have tied: "tied (cl_channel ?cl) (awaits_of st) (session_of st) p" by (simp add: pending_ok_def)
      from snoc.IH w(1) have belongs: "early op st \<or> request_of op st \<noteq> None"
        unfolding history_ok_def by (intro tracked_belongs) blast
      have sent: "was_sent (evs @ [e]) c" if "c \<in> set (fst (snd ?mv))" for c
        using move_sends [OF that] w Goes by (intro sent_now) simp
      show ?thesis
        using history_move [OF snoc.IH well_resume [OF ok tied w(2) belongs] proper_resume [OF ok pn w(2)] sent wf ok, where c = d and n = "cl_fresh ?cl"]
          w Goes by simp
    next
      case False
      then have "fst (client_step e ?cl) = ?cl" using Goes by (auto split: option.split pending.split)
      with still show ?thesis by simp
    qed
  next
    case (Delayed d r)
    show ?thesis
    proof (cases "\<exists>op pc. jget (cl_calls ?cl) d = Some (op, Pacing pc)")
      case True
      then obtain op pc where w: "jget (cl_calls ?cl) d = Some (op, Pacing pc)" by blast
      let ?mv = "pace pc r (cl_channel ?cl)"
      from snoc.IH w have paces: "paces pc op" unfolding history_ok_def by fastforce
      have sent: "was_sent (evs @ [e]) c" if "c \<in> set (fst (snd ?mv))" for c
        using move_sends [OF that] w Delayed by (intro sent_now) simp
      show ?thesis
        using history_move [OF snoc.IH well_pace [OF paces] proper_pace [OF ok] sent wf ok, where c = d and n = "cl_fresh ?cl"] w Delayed by simp
    next
      case False
      then have "fst (client_step e ?cl) = ?cl" using Delayed by (auto split: option.split pending.split)
      with still show ?thesis by simp
    qed
  next
    case (Leaves s r)
    with plain [OF no_news_leave [OF ok]] show ?thesis by (cases "leaveSession s r (cl_channel ?cl)") (force dest: arg_cong [where f = fst])
  next
    case Closes
    have "no_news (cl_channel ?cl) (connectionLost (cl_channel ?cl\<lparr>ch_socket := Sock_gone\<rparr>))"
      unfolding connectionLost_def
      by (rule no_news_trans [OF no_news_same [OF same_steps(5)] no_news_reject [OF leads_ok [OF same_leads [OF ok same_steps(5)]]]])
    from plain [OF this] Closes show ?thesis by (simp add: on_channel_def)
  next
    case Closing
    have "no_news (cl_channel ?cl) (cl_channel ?cl\<lparr>ch_socket := k\<rparr>)" for k by (rule no_news_same [OF same_steps(5)])
    from plain [OF this] still Closing show ?thesis by (simp add: on_channel_def)
  qed
  with step show ?case by simp
qed

subsection \<open>How a request ends\<close>

definition refuses :: "inbound \<Rightarrow> bool" where
  "refuses m \<longleftrightarrow>
     (case im_type m of
        In_failed c \<Rightarrow> True
      | In_input_error \<Rightarrow> True
      | In_type_error \<Rightarrow> True
      | In_boot_error \<Rightarrow> True
      | _ \<Rightarrow> False)"

text \<open>What the protocol says of an answer: the types that answer a message, its session and its request id.\<close>

definition input_reply :: "inbound_type \<Rightarrow> inbound_type \<Rightarrow> sid \<Rightarrow> rid \<Rightarrow> inbound \<Rightarrow> bool" where
  "input_reply done_type error_type s r m \<longleftrightarrow>
     im_type m \<in> {done_type, error_type} \<and> im_session m = Some s \<and> im_request m = Some r"

definition command_reply :: "command \<Rightarrow> rid \<Rightarrow> inbound \<Rightarrow> bool" where
  "command_reply c r m \<longleftrightarrow> im_type m \<in> {In_done c, In_failed c} \<and> im_request m = Some r"

fun replies_to :: "outbound \<Rightarrow> inbound \<Rightarrow> bool" where
  "replies_to (Out_touch_end s r p) m = input_reply In_input_done In_input_error s r m"
| "replies_to (Out_pinch_end s r) m = input_reply In_input_done In_input_error s r m"
| "replies_to (Out_key s r code ms) m = input_reply In_input_done In_input_error s r m"
| "replies_to (Out_button s r n) m = input_reply In_input_done In_input_error s r m"
| "replies_to (Out_type s r x) m = input_reply In_typed In_type_error s r m"
| "replies_to (Out_install s r b) m = command_reply Install r m"
| "replies_to (Out_launch s r b options) m = command_reply Launch r m"
| "replies_to (Out_clear s r b) m = command_reply Clear r m"
| "replies_to (Out_open_url s r url) m = command_reply Open r m"
| "replies_to (Out_boot s r d) m =
     (im_type m \<in> {In_ready, In_boot_error} \<and> im_session m = Some s \<and> im_request m \<in> {None, Some r})"
| "replies_to (Out_rotate s orient) m =
     (im_type m = In_chrome \<and> im_session m = Some s
       \<and> (\<exists>c. im_payload m = Chrome_payload c \<and> chromeOrientation c = Some (wants orient)))"
| "replies_to (Out_posture s i) m =
     (im_type m = In_postures \<and> im_session m = Some s \<and> (\<exists>p. im_payload m = Postures_payload p \<and> po_current p = Some i))"
| "replies_to _ m = False"

text \<open>The message \<open>m\<close> is the answer, of the one kind or the other, to the message \<open>c\<close> that carried the request.\<close>

definition answers_request :: "operation \<Rightarrow> outbound \<Rightarrow> inbound \<Rightarrow> bool" where
  "answers_request op c m \<longleftrightarrow> (\<exists>st. request_of op st = Some c) \<and> replies_to c m"

lemma fitting_reply:
  assumes "request_of op st = Some c" "fits_message (awaits_of st) m"
  shows "answers_request op c m"
proof -
  have "replies_to c m"
    using assms
    by (cases op) (auto simp: for_ack_def for_command_def input_reply_def command_reply_def correlatesWith_def
        split: stage.splits if_splits option.splits payload.splits)
  with assms(1) show ?thesis unfolding answers_request_def by blast
qed

lemma run_effect:
  "x \<in> set (snd (run f evs s)) \<Longrightarrow> \<exists>before e later. evs = before @ e # later \<and> x \<in> set (snd (f e (fst (run f before s))))"
proof (induction evs rule: rev_induct)
  case (snoc e evs)
  then consider "x \<in> set (snd (run f evs s))" | "x \<in> set (snd (f e (fst (run f evs s))))" by (auto simp: run_append)
  then show ?case
  proof cases
    case 1
    with snoc.IH show ?thesis by (metis append.assoc append_Cons)
  qed blast
qed simp

lemma move_finished: "Finished c op x \<in> set (snd (move d op' mv cl)) \<Longrightarrow> op = op' \<and> snd (snd mv) = Ends x"
  by (cases mv; cases "snd (snd mv)") (auto simp: move_def)

text \<open>Where the end of a request comes from.\<close>

lemma finished_cases:
  assumes "Finished c op x \<in> set (snd (run client_step evs new_client))"
  obtains (begun) r ch where "snd (snd (begin_call op r ch)) = Ends x"
    | (paced) pc r ch where "snd (snd (pace pc r ch)) = Ends x"
    | (resumed) before later st p y r ch where "evs = before @ later" "tracked before ch op (Waiting st p)" "channel_ok ch"
        "tied ch (awaits_of st) (session_of st) p" "jget (ch_settled ch) p = Some y" "snd (snd (resume st p y r ch)) = Ends x"
proof -
  from run_effect [OF assms] obtain before e later where evs: "evs = before @ e # later"
    and fin: "Finished c op x \<in> set (snd (client_step e (fst (run client_step before new_client))))" by blast
  let ?cl = "fst (run client_step before new_client)"
  show thesis
  proof (cases e)
    case (Asks op' r)
    with fin move_finished show thesis by (intro begun) fastforce
  next
    case (Goes d r)
    with fin obtain op' st p y where w: "jget (cl_calls ?cl) d = Some (op', Waiting st p)" "jget (ch_settled (cl_channel ?cl)) p = Some y"
      "Finished c op x \<in> set (snd (move d op' (resume st p y r (cl_channel ?cl)) ?cl))"
      by (auto split: option.splits pending.splits)
    from move_finished [OF w(3)] have op: "op' = op" and res: "snd (snd (resume st p y r (cl_channel ?cl))) = Ends x" by simp_all
    have "tracked before (cl_channel ?cl) op (Waiting st p)"
      using history_reached [of before] w(1) op unfolding history_ok_def by blast
    moreover have "tied (cl_channel ?cl) (awaits_of st) (session_of st) p"
      using client_okD(4) [OF reached_ok w(1)] by (simp add: pending_ok_def)
    ultimately show thesis using evs w(2) res client_okD(1) [OF reached_ok] by (intro resumed [of before "e # later"]) auto
  next
    case (Delayed d r)
    with fin obtain op' pc where w: "Finished c op x \<in> set (snd (move d op' (pace pc r (cl_channel ?cl)) ?cl))"
      by (auto split: option.splits pending.splits)
    from move_finished [OF w] show thesis by (intro paced) auto
  next
    case (Leaves s r)
    with fin show thesis by (cases "leaveSession s r (cl_channel ?cl)") (auto split: if_splits)
  qed (use fin in \<open>simp_all add: on_channel_def\<close>)
qed

lemma came_after_later: "came_after before c m \<Longrightarrow> came_after (before @ later) c m"
  unfolding came_after_def by fastforce

text \<open>The requests whose end means that the device, or the agent, has done something.\<close>

primrec asks_device :: "operation \<Rightarrow> bool" where
  "asks_device (Op_tap s p) = True"
| "asks_device (Op_swipe s a b d) = True"
| "asks_device (Op_long_press s p d) = True"
| "asks_device (Op_pinch s a b d) = True"
| "asks_device (Op_type s text) = True"
| "asks_device (Op_key s code ms) = True"
| "asks_device (Op_button s name) = True"
| "asks_device (Op_open_url s url) = True"
| "asks_device (Op_install s build) = True"
| "asks_device (Op_launch s build options) = True"
| "asks_device (Op_clear s bundle) = True"
| "asks_device (Op_orientation s orient t) = False"
| "asks_device (Op_posture s posture t) = False"
| "asks_device (Op_chrome s t) = False"
| "asks_device Op_list = False"
| "asks_device Op_can_lease = False"
| "asks_device (Op_join s) = False"
| "asks_device (Op_boot s dev) = True"
| "asks_device (Op_lease exclude) = False"

lemma sending_ends: "snd (snd (sending msgs k ch)) = Ends (Inr v) \<Longrightarrow> snd (snd (k ch)) = Ends (Inr v)"
  by (auto simp: sending_def split: if_splits prod.splits)

lemma launch_goes_on: "snd (snd (launch_request s build options r ch)) \<noteq> Ends (Inr v)"
  unfolding launch_request_def by (auto dest: sending_ends)

lemma begin_unfinished: "asks_device op \<Longrightarrow> snd (snd (begin_call op r ch)) \<noteq> Ends (Inr v)"
  by (cases op) (auto dest!: sending_ends simp: sending_first_def launch_goes_on split: if_splits)

lemma pace_unfinished: "snd (snd (pace pc r ch)) \<noteq> Ends (Inr v)"
  by (cases pc) (auto dest!: sending_ends split: if_splits prod.splits bool.splits)

lemma request_confirmed:
  assumes "request_of op st = Some c" "snd (snd (resume st p y r ch)) = Ends (Inr v)" "asks_device op"
  shows "\<exists>m. y = Inr m \<and> (fits_message (awaits_of st) m \<longrightarrow> \<not> refuses m)"
  using assms
  by (cases op)
    (auto simp: for_ack_def for_command_def refuses_def launch_reply_def bootReply_def Let_def
      split: stage.splits if_splits sum.splits prod.splits option.splits applied.splits)


subsection \<open>Whom a failure is blamed on\<close>

definition product_failure :: "failure \<Rightarrow> bool" where
  "product_failure f \<longleftrightarrow> \<not> fa_marked f \<and> fa_class f \<noteq> Device_lacks_error \<and> \<not> isEnvironmentFailure f"

lemma blamed_product:
  assumes "\<not> blames_environment (driver_failure a f)"
  shows "product_failure f"
proof -
  have g: "\<not> blames_environment (guard f) \<Longrightarrow> product_failure f"
    by (auto simp: guard_def blames_environment_def product_failure_def marked_def split: if_splits)
  have "\<not> blames_environment (guard_pinch f) \<Longrightarrow> \<not> blames_environment (guard f)"
    by (auto simp: guard_pinch_def blames_environment_def marked_def split: if_splits)
  with g assms show ?thesis by (cases a) (simp_all add: driver_failure_def)
qed

definition said_by_device :: "inbound \<Rightarrow> failure \<Rightarrow> bool" where
  "said_by_device m f \<longleftrightarrow> refuses m \<and> fa_detail f = im_message m
     \<and> (fa_class f = Platform_error \<and> fa_note f = None
        \<or> (\<exists>r \<in> {Input_unsupported, Input_malformed, No_gesture}. fa_class f = Input_refused_error r))"

lemma not_product [simp]:
  "\<not> product_failure (marked f)" "\<not> product_failure not_connected" "\<not> product_failure leftMidGesture"
  "\<not> product_failure (failing Device_lacks_error n)" "\<not> product_failure (failing Input_unconfirmed_error n)"
  by (simp_all add: product_failure_def marked_def not_connected_def leftMidGesture_def failing_def isEnvironmentFailure_def)

lemma failed_product: "product_failure (failed s d ch) \<Longrightarrow> fa_class (failed s d ch) = Platform_error \<and> fa_note (failed s d ch) = None"
  by (auto simp: failed_def failing_def product_failure_def isEnvironmentFailure_def split: option.splits)

lemma failed_detail [simp]: "fa_detail (failed s d ch) = d"
  by (simp add: failed_def split: option.split)

lemma refused_product:
  assumes "product_failure (input_refused s m ch)"
  shows "\<exists>r \<in> {Input_unsupported, Input_malformed, No_gesture}. fa_class (input_refused s m ch) = Input_refused_error r"
  using assms
  by (cases "asInputErrorReason (im_reason m)")
    (auto simp: input_refused_def product_failure_def isEnvironmentFailure_def failing_def ENVIRONMENTAL_INPUT_REASONS_def)

lemma refused_detail [simp]: "fa_detail (input_refused s m ch) = im_message m"
  by (simp add: input_refused_def)

lemma reason_product: "reason_ok f \<Longrightarrow> product_failure f \<Longrightarrow> \<exists>j. fa_class f = Session_join_error j"
  by (auto simp: reason_ok_def product_failure_def)

lemma unconfirmed_product: "\<not> product_failure (unconfirmed f)"
  by (auto simp: unconfirmed_def product_failure_def isEnvironmentFailure_def failing_def split: failure_class.split)

lemma on_timeout_product: "product_failure (on_timeout f g) \<Longrightarrow> product_failure g \<or> product_failure f"
  by (auto simp: on_timeout_def split: if_splits)

text \<open>A request a flow's step makes.\<close>

definition step_request :: "operation \<Rightarrow> bool" where
  "step_request op \<longleftrightarrow> (\<exists>D a. driver_operation D a = Some op)"

lemma step_request_cases:
  assumes "step_request op"
  shows "asks_device op \<and> (\<forall>s b. op \<noteq> Op_install s b) \<and> (\<forall>s d. op \<noteq> Op_boot s d)
    \<or> (\<exists>s orient t. op = Op_orientation s orient t) \<or> (\<exists>s posture t. op = Op_posture s posture t)"
proof -
  from assms obtain D a where "driver_operation D a = Some op" unfolding step_request_def by blast
  then show ?thesis by (cases a) auto
qed

lemma sending_fails: "snd (snd (sending msgs k ch)) = Ends (Inl f) \<Longrightarrow> product_failure f \<Longrightarrow> snd (snd (k ch)) = Ends (Inl f)"
  by (auto simp: sending_def ends_def split: if_splits prod.splits)

lemma parts_not_product:
  "snd (snd (orient_from s orient t chrome ch)) = Ends (Inl f) \<Longrightarrow> \<not> product_failure f"
  "snd (snd (posture_from s posture t ps ch)) = Ends (Inl f) \<Longrightarrow> \<not> product_failure f"
  "snd (snd (launch_request s build options r ch)) = Ends (Inl f) \<Longrightarrow> \<not> product_failure f"
  by (auto simp: orient_from_def posture_from_def launch_request_def awaiting_def Let_def dest!: sending_fails
      split: option.splits if_splits prod.splits)

lemma begin_not_product:
  assumes "step_request op" "snd (snd (begin_call op r ch)) = Ends (Inl f)"
  shows "\<not> product_failure f"
  using assms step_request_cases [OF assms(1)] parts_not_product
  by (cases op) (auto dest!: sending_fails simp: sending_first_def split: if_splits option.splits)

lemma pace_not_product: "snd (snd (pace pc r ch)) = Ends (Inl f) \<Longrightarrow> \<not> product_failure f"
  by (cases pc) (auto dest!: sending_fails split: if_splits prod.splits bool.splits)

lemma resume_early_blame:
  assumes "early op st" "step_request op" "snd (snd (resume st p y r ch)) = Ends (Inl f)" "product_failure f"
    and "result_ok ch (awaits_of st) p y"
  shows "\<exists>j. fa_class f = Session_join_error j"
proof -
  have gone: "\<exists>j. fa_class f = Session_join_error j" if "y = Inl g" "f = g \<or> f = on_timeout g h" "\<not> product_failure h" for g h
    using that assms(4,5) reason_product on_timeout_product by (auto simp: result_ok_def on_timeout_def split: if_splits)
  show ?thesis
  proof (cases op)
    case (Op_launch s build options)
    with assms(1) have "st = St_features s build options" by simp
    with assms(3) gone [of f "marked f"] assms(4) parts_not_product(3) show ?thesis by (cases y) (auto split: if_splits)
  next
    case (Op_orientation s orient t)
    with assms(1) have "st = St_orient_chrome s orient t" by simp
    with assms(3) gone [where h = "marked (failed s None ch)"] assms(4) parts_not_product(1) show ?thesis
      by (cases y) (auto split: payload.splits)
  next
    case (Op_posture s posture t)
    with assms(1) have st: "st = St_postures s posture t" by simp
    show ?thesis
    proof (cases y)
      case (Inl g)
      with st assms(3) gone [where h = "failing Device_lacks_error (fa_note (failed s None ch))"] show ?thesis by auto
    next
      case (Inr m)
      with st assms(3-5) parts_not_product(2) show ?thesis by (auto simp: result_ok_def split: payload.splits)
    qed
  qed (use assms(1) step_request_cases [OF assms(2)] in auto)
qed

lemma said_failed:
  "refuses m \<Longrightarrow> product_failure (failed s (im_message m) ch) \<Longrightarrow> said_by_device m (failed s (im_message m) ch)"
  using failed_product [of s "im_message m" ch] by (simp add: said_by_device_def)

lemma said_refused: "refuses m \<Longrightarrow> product_failure (input_refused s m ch) \<Longrightarrow> said_by_device m (input_refused s m ch)"
  using refused_product [of s m ch] by (simp add: said_by_device_def)

lemma launch_blame: "launch_reply s b m ch = Inl f \<Longrightarrow> product_failure f \<Longrightarrow> said_by_device m f"
  by (auto simp: launch_reply_def Let_def refuses_def intro!: said_failed split: if_splits applied.splits)

lemma stage_blame:
  assumes "snd (snd (resume st p y r ch)) = Ends (Inl f)" "product_failure f" "result_ok ch (awaits_of st) p y"
    and st: "(\<exists>s q. st = St_ack s q) \<or> (\<exists>s q. st = St_typed s q) \<or> (\<exists>s c q b. st = St_command s c q b)
      \<or> (\<exists>s orient. st = St_turned s orient) \<or> (\<exists>s i. st = St_posture s i)"
  shows "(\<exists>j. fa_class f = Session_join_error j) \<or> (\<exists>m. y = Inr m \<and> said_by_device m f)"
proof (cases y)
  case (Inl g)
  with assms have "f = unconfirmed g \<or> f = g \<or> (\<exists>s. f = on_timeout g (marked (failed s None ch)))" by auto
  with Inl assms(2,3) show ?thesis
    using reason_product unconfirmed_product by (auto simp: result_ok_def on_timeout_def split: if_splits)
next
  case (Inr m)
  with assms show ?thesis
    by (auto simp: refuses_def intro!: said_failed said_refused dest: launch_blame split: if_splits)
qed

lemma request_stage:
  assumes "request_of op st = Some c" "step_request op"
  shows "(\<exists>s q. st = St_ack s q) \<or> (\<exists>s q. st = St_typed s q) \<or> (\<exists>s c q b. st = St_command s c q b)
      \<or> (\<exists>s orient. st = St_turned s orient) \<or> (\<exists>s i. st = St_posture s i)"
  using assms(1) step_request_cases [OF assms(2)]
  by (cases op; cases st) (auto simp: for_ack_def for_command_def split: if_splits)

lemmas resume_blame = stage_blame [OF _ _ _ request_stage]


subsection \<open>Two runs\<close>


definition type_refused :: inbound where
  "type_refused = (ack 4 70)\<lparr>im_type := In_type_error, im_reason := Some ''malformed'', im_message := Some ''too long''\<rparr>"

definition type_failure :: failure where
  "type_failure = \<lparr>fa_class = Input_refused_error Input_malformed, fa_note = None, fa_detail = Some ''too long'', fa_marked = False\<rparr>"


end
