(* ===== verification/Channel_Gestures.thy ===== *)
theory Channel_Gestures
  imports Channel_Answers
begin

text \<open>
  What the messages a client sent leave pressed on a session's screen. \<open>press\<close> reads them as the device does; the
  client's own record of the gestures it has open is compared with that. A flow makes one request at a time, so no
  gesture or tap is begun on a session whose gesture is still open (\<open>one_at_a_time\<close>).
\<close>

subsection \<open>What is pressed\<close>

text \<open>Whether a finger is down, and whether a pinch is on.\<close>

fun press :: "sid \<Rightarrow> outbound \<Rightarrow> bool \<times> bool \<Rightarrow> bool \<times> bool" where
  "press s (Out_touch_start s' p) b = (if s' = s then (True, snd b) else b)"
| "press s (Out_touch_end s' r p) b = (if s' = s then (False, snd b) else b)"
| "press s (Out_touch_cancel s') b = (if s' = s then (False, snd b) else b)"
| "press s (Out_pinch_start s' f) b = (if s' = s then (fst b, True) else b)"
| "press s (Out_pinch_end s' r) b = (if s' = s then (fst b, False) else b)"
| "press s _ b = b"

fun sent_message :: "client_fx \<Rightarrow> outbound list" where
  "sent_message (Sends m) = [m]"
| "sent_message _ = []"

definition wire :: "client_fx list \<Rightarrow> outbound list" where
  "wire out = concat (map sent_message out)"

definition pressed :: "sid \<Rightarrow> client_fx list \<Rightarrow> bool \<times> bool" where
  "pressed s out = fold (press s) (wire out) (False, False)"

definition open_kind :: "sid \<Rightarrow> channel \<Rightarrow> bool \<times> bool" where
  "open_kind s ch =
     (case jget (ch_gestures ch) s of
        None \<Rightarrow> (False, False)
      | Some (g, Touch_at p) \<Rightarrow> (True, False)
      | Some (g, Pinch_open) \<Rightarrow> (False, True))"

lemma wire_simps [simp]: "wire [] = []" "wire (x # xs) = sent_message x @ wire xs" "wire (xs @ ys) = wire xs @ wire ys"
  by (simp_all add: wire_def)

lemma wire_sends [simp]: "wire (map Sends out) = out"
  by (induction out) simp_all

subsection \<open>One request at a time\<close>

fun presses :: "operation \<Rightarrow> sid option" where
  "presses (Op_tap s p) = Some s"
| "presses (Op_swipe s a b d) = Some s"
| "presses (Op_long_press s p d) = Some s"
| "presses (Op_pinch s a b d) = Some s"
| "presses _ = None"

fun allowed :: "client_event \<Rightarrow> client \<Rightarrow> bool" where
  "allowed (Asks op r) cl =
     (case presses op of None \<Rightarrow> True | Some s \<Rightarrow> jget (ch_gestures (cl_channel cl)) s = None)"
| "allowed Closing cl = False"
| "allowed Closes cl = False"
| "allowed _ cl = True"

primrec one_at_a_time :: "client_event list \<Rightarrow> client \<Rightarrow> bool" where
  "one_at_a_time [] cl = True"
| "one_at_a_time (e # es) cl = (allowed e cl \<and> one_at_a_time es (fst (client_step e cl)))"

subsection \<open>Who owns a gesture\<close>

primrec gesture_of :: "pacing \<Rightarrow> sid \<times> nat" where
  "gesture_of (Pc_swipe s q g a b d i) = (s, g)"
| "gesture_of (Pc_press s q g p d) = (s, g)"
| "gesture_of (Pc_pinch s g a b i) = (s, g)"

primrec kind_of :: "pacing \<Rightarrow> gesture_kind \<Rightarrow> bool" where
  "kind_of (Pc_swipe s q g a b d i) k = (k \<noteq> Pinch_open)"
| "kind_of (Pc_press s q g p d) k = (k \<noteq> Pinch_open)"
| "kind_of (Pc_pinch s g a b i) k = (k = Pinch_open)"

definition paced_ok :: "channel \<Rightarrow> pacing \<Rightarrow> bool" where
  "paced_ok ch pc \<longleftrightarrow> snd (gesture_of pc) < ch_fresh ch
     \<and> (\<forall>k. jget (ch_gestures ch) (fst (gesture_of pc)) = Some (snd (gesture_of pc), k) \<longrightarrow> kind_of pc k)"

definition owned :: "client \<Rightarrow> sid \<Rightarrow> nat \<Rightarrow> bool" where
  "owned cl s g \<longleftrightarrow> (\<exists>c op pc. jget (cl_calls cl) c = Some (op, Pacing pc) \<and> gesture_of pc = (s, g))"

definition gestures_ok :: "client \<Rightarrow> bool" where
  "gestures_ok cl \<longleftrightarrow> ch_socket (cl_channel cl) = Sock_open
     \<and> (\<forall>s g k. jget (ch_gestures (cl_channel cl)) s = Some (g, k) \<longrightarrow> owned cl s g)
     \<and> (\<forall>c op pc. jget (cl_calls cl) c = Some (op, Pacing pc) \<longrightarrow> paced_ok (cl_channel cl) pc)"

text \<open>What a request's move may do: the gestures it opens or closes agree with what it sends.\<close>

definition presses_well :: "channel \<Rightarrow> channel \<Rightarrow> outbound list \<Rightarrow> bool" where
  "presses_well ch ch' out \<longleftrightarrow> (\<forall>s. fold (press s) out (open_kind s ch) = open_kind s ch')"

lemma same_gestures: "ch_gestures ch' = ch_gestures ch \<Longrightarrow> open_kind s ch' = open_kind s ch"
  by (simp add: open_kind_def)

subsection \<open>A channel's steps keep the gestures\<close>

lemma set_life_gestures [simp]: "ch_gestures (set_life s l ch) = ch_gestures ch" "ch_socket (set_life s l ch) = ch_socket ch"
  by (simp_all add: set_life_def)

lemma dispatch_gestures [simp]: "ch_gestures (dispatch m ch) = ch_gestures ch" "ch_socket (dispatch m ch) = ch_socket ch"
proof -
  have n: "ch_gestures (note_lifecycle m ch) = ch_gestures ch" "ch_socket (note_lifecycle m ch) = ch_socket ch"
    by (simp_all add: note_lifecycle_def rejectSession_def settleSessionWaiters_def Let_def split: option.split inbound_type.split)
  have k: "ch_gestures (keep_payload m ch) = ch_gestures ch" "ch_socket (keep_payload m ch) = ch_socket ch" for ch
    by (simp_all add: keep_payload_def split: option.split payload.split)
  have a: "ch_gestures (arm_lease w m ch) = ch_gestures ch" "ch_socket (arm_lease w m ch) = ch_socket ch" for w ch
    by (simp_all add: arm_lease_def split: awaits.split option.split)
  have "ch_gestures (settle_first m ch) = ch_gestures ch" "ch_socket (settle_first m ch) = ch_socket ch" for ch
    by (simp_all add: settle_first_def settle_promise_def Let_def a split: option.split)
  then show "ch_gestures (dispatch m ch) = ch_gestures ch" "ch_socket (dispatch m ch) = ch_socket ch"
    by (simp_all add: dispatch_def k n)
qed

lemma deadline_gestures [simp]: "ch_gestures (deadline_passes p ch) = ch_gestures ch" "ch_socket (deadline_passes p ch) = ch_socket ch"
  by (simp_all add: deadline_passes_def)

lemma leave_gestures:
  assumes "ch_socket ch = Sock_open"
  shows "ch_gestures (fst (leaveSession s r ch)) = jdel s (ch_gestures ch)" "ch_socket (fst (leaveSession s r ch)) = Sock_open"
    "presses_well ch (fst (leaveSession s r ch)) (fst (snd (leaveSession s r ch)))"
  using assms
  by (auto simp: leaveSession_def settleSessionWaiters_def Let_def jdel_notin presses_well_def open_kind_def delete_conv'
      split: option.split gesture_kind.split)

subsection \<open>A request's moves\<close>

text \<open>
  What a move does to the gestures: on an open socket it leaves them alone, opens one, or closes one, with the messages
  that say so, and a gesture that goes on keeps its identity.
\<close>

definition touches_well :: "channel \<Rightarrow> moved \<Rightarrow> bool" where
  "touches_well ch mv \<longleftrightarrow> ch_socket (fst mv) = Sock_open \<and> presses_well ch (fst mv) (fst (snd mv))
     \<and> (\<forall>s g k. jget (ch_gestures (fst mv)) s = Some (g, k) \<longrightarrow> jget (ch_gestures ch) s = Some (g, k)
          \<or> ch_fresh ch \<le> g \<and> (\<exists>pc. snd (snd mv) = Goes_on (Pacing pc) \<and> gesture_of pc = (s, g)))"

lemma touches_quiet:
  assumes "ch_socket c = Sock_open" "ch_gestures c = ch_gestures ch" "\<And>s. fold (press s) out (open_kind s ch) = open_kind s ch"
  shows "touches_well ch (c, out, nx)"
  using assms same_gestures [OF assms(2)] by (simp add: touches_well_def presses_well_def)

lemma touches_ends [simp]: "ch_socket ch = Sock_open \<Longrightarrow> touches_well ch (ends x ch)"
  by (simp add: ends_def touches_quiet)

lemma touches_awaiting: "ch_socket ch = Sock_open \<Longrightarrow> touches_well ch (awaiting st t ch)"
  by (simp add: awaiting_def touches_quiet)

lemma touches_sending:
  assumes "ch_socket ch = Sock_open" "k ch = (c, out, nx)" "touches_well ch (c, msgs @ out, nx)"
  shows "touches_well ch (sending msgs k ch)"
  using assms by (simp add: sending_def)

lemma touches_request:
  assumes "ch_socket ch = Sock_open" "\<And>s. fold (press s) msgs (open_kind s ch) = open_kind s ch"
  shows "touches_well ch (sending msgs (awaiting st t) ch)"
  using assms by (simp add: sending_def awaiting_def touches_quiet)

lemma touches_first:
  assumes "ch_socket ch = Sock_open" "\<And>s. fold (press s) msgs (open_kind s ch) = open_kind s ch"
  shows "touches_well ch (sending_first msgs (awaiting st t) ch)"
  using assms by (simp add: sending_first_def touches_request)

lemma touches_after_wait:
  assumes "ch_socket ch = Sock_open" "\<And>s. fold (press s) msgs (open_kind s ch) = open_kind s ch"
  shows "touches_well ch (case awaiting st t ch of (ch1, _, nx) \<Rightarrow> sending msgs (\<lambda>c. (c, [], nx)) ch1)"
  using assms by (simp add: awaiting_def sending_def touches_quiet)

lemma touches_orient: "ch_socket ch = Sock_open \<Longrightarrow> touches_well ch (orient_from s orient t chrome ch)"
  by (simp add: orient_from_def touches_after_wait split: option.split)

lemma touches_posture: "ch_socket ch = Sock_open \<Longrightarrow> touches_well ch (posture_from s posture t ps ch)"
  by (simp add: posture_from_def touches_after_wait Let_def)

lemma touches_launch: "ch_socket ch = Sock_open \<Longrightarrow> touches_well ch (launch_request s build options r ch)"
  by (simp add: launch_request_def touches_request)

lemma touches_gesture:
  assumes "ch_socket ch = Sock_open" "jget (ch_gestures ch) s = None"
    and "press s m (False, False) = (k \<noteq> Pinch_open, k = Pinch_open)" "\<And>s' b. s' \<noteq> s \<Longrightarrow> press s' m b = b"
    and "gesture_of (pc (ch_fresh ch)) = (s, ch_fresh ch)"
  shows "touches_well ch (sending [m] (begin_gesture s k pc) ch)"
proof -
  have "press u m (open_kind u ch) = open_kind u (open_gesture s k ch)" for u
    using assms(2-4) by (cases "u = s"; cases k) (simp_all add: open_kind_def open_gesture_def jmap_simps)
  then show ?thesis
    using assms(1,5) by (auto simp: sending_def begin_gesture_def touches_well_def presses_well_def open_gesture_def jmap_simps split: if_splits)
qed

lemma touches_begin:
  assumes "ch_socket ch = Sock_open" "\<And>s. presses op = Some s \<Longrightarrow> jget (ch_gestures ch) s = None"
  shows "touches_well ch (begin_call op r ch)"
proof (cases op)
  case (Op_tap s p)
  have "fold (press u) [Out_touch_start s p, Out_touch_end s r p] (open_kind u ch) = open_kind u ch" for u
    using assms(2) [of s] Op_tap by (cases "u = s") (simp_all add: open_kind_def)
  with Op_tap assms(1) show ?thesis by (simp add: touches_request del: fold_simps)
next
  case (Op_swipe s a b d)
  with assms show ?thesis by (simp add: touches_gesture)
next
  case (Op_long_press s p d)
  with assms show ?thesis by (simp add: touches_gesture)
next
  case (Op_pinch s a b d)
  with assms show ?thesis by (simp add: touches_gesture)
qed (use assms(1) in \<open>simp_all add: touches_request touches_first touches_awaiting touches_launch touches_orient touches_posture
      split: option.split\<close>)

lemma touches_close:
  assumes "ch_socket ch = Sock_open" "jget (ch_gestures ch) s = Some (g, k)"
    and "press s m (k \<noteq> Pinch_open, k = Pinch_open) = (False, False)" "\<And>s' b. s' \<noteq> s \<Longrightarrow> press s' m b = b"
  shows "touches_well ch (sending [m] (awaiting st t) (ch\<lparr>ch_gestures := jdel s (ch_gestures ch)\<rparr>))"
proof -
  have "press u m (open_kind u ch) = open_kind u (ch\<lparr>ch_gestures := jdel s (ch_gestures ch)\<rparr>)" for u
    using assms(2-4) by (cases "u = s"; cases k) (simp_all add: open_kind_def delete_conv')
  then show ?thesis
    using assms(1) same_gestures [of "waitFor (awaits_of st) t (session_of st) (ch\<lparr>ch_gestures := jdel s (ch_gestures ch)\<rparr>)"
        "ch\<lparr>ch_gestures := jdel s (ch_gestures ch)\<rparr>"]
    by (auto simp: sending_def awaiting_def touches_well_def presses_well_def delete_conv' split: if_splits)
qed

lemma open_is: "is_open s g ch \<longleftrightarrow> (\<exists>k. jget (ch_gestures ch) s = Some (g, k))"
  by (auto simp: is_open_def)

lemma close_cases:
  "closeGesture s g ch = (if is_open s g ch then (True, ch\<lparr>ch_gestures := jdel s (ch_gestures ch)\<rparr>) else (False, ch))"
  by (simp add: closeGesture_def is_open_def)

lemma touches_pace:
  assumes open_socket: "ch_socket ch = Sock_open" and ok: "paced_ok ch pc"
  shows "touches_well ch (pace pc r ch)"
proof (cases pc)
  case (Pc_swipe s q g a b d i)
  show ?thesis
  proof (cases "is_open s g ch")
    case True
    then obtain k where k: "jget (ch_gestures ch) s = Some (g, k)" by (auto simp: open_is)
    with ok Pc_swipe have "k \<noteq> Pinch_open" by (simp add: paced_ok_def)
    with Pc_swipe True k open_socket touches_close [OF open_socket k, of "Out_touch_end s q b"] show ?thesis
      by (simp add: close_cases sending_def touches_quiet)
  qed (use Pc_swipe open_socket in \<open>simp add: close_cases\<close>)
next
  case (Pc_press s q g p d)
  show ?thesis
  proof (cases "is_open s g ch")
    case True
    then obtain k where k: "jget (ch_gestures ch) s = Some (g, k)" by (auto simp: open_is)
    with ok Pc_press have "k \<noteq> Pinch_open" by (simp add: paced_ok_def)
    with Pc_press True k open_socket touches_close [OF open_socket k, of "Out_touch_end s q p"] show ?thesis
      by (simp add: close_cases)
  qed (use Pc_press open_socket in \<open>simp add: close_cases\<close>)
next
  case (Pc_pinch s g a b i)
  show ?thesis
  proof (cases "is_open s g ch")
    case True
    then obtain k where k: "jget (ch_gestures ch) s = Some (g, k)" by (auto simp: open_is)
    with ok Pc_pinch have kind: "k = Pinch_open" by (simp add: paced_ok_def)
    let ?c = "ch\<lparr>ch_gestures := jdel s (ch_gestures ch)\<rparr>"
    from touches_close [OF open_socket k, of "Out_pinch_end s r" "St_ack s r" INPUT_ACK_TIMEOUT_MS] kind
    have "touches_well ch (sending [Out_pinch_end s r] (awaiting (St_ack s r) INPUT_ACK_TIMEOUT_MS) ?c)" by simp
    moreover obtain c out nx where mv: "sending [Out_pinch_end s r] (awaiting (St_ack s r) INPUT_ACK_TIMEOUT_MS) ?c = (c, out, nx)"
      by (cases "sending [Out_pinch_end s r] (awaiting (St_ack s r) INPUT_ACK_TIMEOUT_MS) ?c") auto
    ultimately have "touches_well ch (c, Out_pinch_move s m # out, nx)" for m by (simp add: touches_well_def presses_well_def)
    then have "touches_well ch (sending [Out_pinch_move s m]
        (\<lambda>c. sending [Out_pinch_end s r] (awaiting (St_ack s r) INPUT_ACK_TIMEOUT_MS) (snd (closeGesture s g c))) ch)" for m
      using touches_sending [OF open_socket, where c = c and out = out and nx = nx] mv True by (simp add: close_cases)
    moreover have "touches_well ch (sending [Out_pinch_move s m] (\<lambda>c. (c, [], Goes_on pn)) ch)" for m pn
      using open_socket by (simp add: sending_def touches_quiet)
    ultimately show ?thesis using Pc_pinch True by (cases "i < STEPS") simp_all
  qed (use Pc_pinch open_socket in simp)
qed

lemma touches_abandon:
  assumes "ch_socket ch = Sock_open" "ch_gestures ch = ch_gestures ch0"
  shows "touches_well ch0 (abandon_lease s r e ch)"
proof (cases "leaveSession s r ch")
  case (fields c out b)
  with leave_gestures [OF assms(1), of s r] same_gestures [OF assms(2)] assms(2) show ?thesis
    by (auto simp: abandon_lease_def touches_well_def presses_well_def delete_conv' split: if_splits)
qed

lemma boot_gestures: "bootReply s m ch = (c, y) \<Longrightarrow> ch_gestures c = ch_gestures ch \<and> ch_socket c = ch_socket ch"
  by (auto simp: bootReply_def split: if_splits option.splits)

lemma touches_booted:
  "ch_socket ch = Sock_open \<Longrightarrow> bootReply s m ch = (c, y) \<Longrightarrow> touches_well ch (ends x c)"
  "ch_socket ch = Sock_open \<Longrightarrow> bootReply s m ch = (c, y) \<Longrightarrow> touches_well ch (abandon_lease s' r e c)"
  using boot_gestures [of s m ch c y] by (simp_all add: ends_def touches_quiet touches_abandon)

lemma settle_session_gestures [simp]:
  "ch_gestures (settleSessionWaiters s why ch) = ch_gestures ch" "ch_socket (settleSessionWaiters s why ch) = ch_socket ch"
  by (simp_all add: settleSessionWaiters_def)

lemma touches_resume:
  assumes "ch_socket ch = Sock_open"
  shows "touches_well ch (resume st p x r ch)"
  using assms
  by (cases st)
    (auto simp: touches_launch touches_orient touches_posture touches_abandon touches_quiet [of ch ch "[]"]
      intro: touches_booted split: sum.split option.split payload.split prod.split)

subsection \<open>Gestures in progress\<close>

lemma unpaced [simp]:
  "snd (snd (awaiting st t ch)) \<noteq> Goes_on (Pacing pc)" "snd (snd (ends x ch)) \<noteq> Goes_on (Pacing pc)"
  "snd (snd (sending msgs (awaiting st t) ch)) \<noteq> Goes_on (Pacing pc)"
  "snd (snd (sending_first msgs (awaiting st t) ch)) \<noteq> Goes_on (Pacing pc)"
  "snd (snd (orient_from s orient t chrome ch)) \<noteq> Goes_on (Pacing pc)"
  "snd (snd (posture_from s posture t ps ch)) \<noteq> Goes_on (Pacing pc)"
  "snd (snd (launch_request s build options r ch)) \<noteq> Goes_on (Pacing pc)"
  by (simp_all add: awaiting_def ends_def sending_def sending_first_def orient_from_def posture_from_def launch_request_def Let_def
      split: option.split)

lemma begin_gesture_paced:
  assumes "snd (snd (sending [m] (begin_gesture s k f) ch)) = Goes_on (Pacing pc)" and of: "\<And>i. gesture_of (f i) = (s, i)"
    and kind: "\<And>i. kind_of (f i) k"
  shows "paced_ok (fst (sending [m] (begin_gesture s k f) ch)) pc"
proof (cases "ch_socket ch = Sock_open")
  case True
  with assms(1) have "pc = f (ch_fresh ch)" by (simp add: sending_def begin_gesture_def)
  with True of kind show ?thesis by (simp add: sending_def begin_gesture_def open_gesture_def paced_ok_def jmap_simps)
next
  case False
  with assms(1) show ?thesis by (simp add: sending_def)
qed

lemma begin_paced:
  assumes "snd (snd (begin_call op r ch)) = Goes_on (Pacing pc)"
  shows "paced_ok (fst (begin_call op r ch)) pc"
  using assms by (cases op) (simp_all add: begin_gesture_paced split: option.splits if_splits)

lemma resume_unpaced: "snd (snd (resume st p x r ch)) \<noteq> Goes_on (Pacing pc)"
proof
  assume "snd (snd (resume st p x r ch)) = Goes_on (Pacing pc)"
  from resume_rank [OF this] have "pacing_rank pc < stage_rank st" by simp
  moreover have "2 \<le> pacing_rank pc" by (cases pc) auto
  ultimately have "stage_rank st = 3" by (cases st) auto
  then obtain q where "st = St_lease q" by (cases st) auto
  with \<open>snd (snd (resume st p x r ch)) = Goes_on (Pacing pc)\<close> show False
    by (auto split: sum.splits option.splits if_splits)
qed

text \<open>A delay that passes either keeps the gesture's place in the channel and its identity, or leaves the gesture closed.\<close>

definition pace_goes :: "channel \<Rightarrow> pacing \<Rightarrow> moved \<Rightarrow> bool" where
  "pace_goes ch pc mv \<longleftrightarrow>
     (\<exists>pc'. snd (snd mv) = Goes_on (Pacing pc') \<and> gesture_of pc' = gesture_of pc \<and> kind_of pc' = kind_of pc
        \<and> ch_gestures (fst mv) = ch_gestures ch \<and> ch_fresh (fst mv) = ch_fresh ch)
   \<or> (\<forall>pc'. snd (snd mv) \<noteq> Goes_on (Pacing pc')) \<and> \<not> is_open (fst (gesture_of pc)) (snd (gesture_of pc)) (fst mv)"

lemma goes_closed: "\<not> is_open s g ch \<Longrightarrow> gesture_of pc = (s, g) \<Longrightarrow> pace_goes ch pc (ends x ch)"
  by (simp add: pace_goes_def ends_def)

lemma goes_last:
  "ch_socket ch = Sock_open \<Longrightarrow> gesture_of pc = (s, g)
     \<Longrightarrow> pace_goes ch pc (sending msgs (awaiting st t) (ch\<lparr>ch_gestures := jdel s (ch_gestures ch)\<rparr>))"
  by (simp add: pace_goes_def sending_def awaiting_def is_open_def delete_conv')

lemma goes_before:
  assumes "ch_socket ch = Sock_open" "pace_goes ch pc (k ch)"
  shows "pace_goes ch pc (sending msgs k ch)"
  using assms by (cases "k ch") (simp add: pace_goes_def sending_def)

lemma goes_still:
  assumes "gesture_of pc' = gesture_of pc" "kind_of pc' = kind_of pc"
  shows "pace_goes ch pc (ch, [], Goes_on (Pacing pc'))"
  using assms by (simp add: pace_goes_def)

lemma pace_goes_on:
  assumes socket: "ch_socket ch = Sock_open"
  shows "pace_goes ch pc (pace pc r ch)"
proof (cases pc)
  case (Pc_swipe s q g a b d i)
  show ?thesis
  proof (cases "is_open s g ch")
    case True
    with Pc_swipe socket show ?thesis by (cases "i < STEPS") (simp_all add: close_cases goes_before goes_still goes_last fun_eq_iff)
  qed (use Pc_swipe in \<open>simp add: close_cases goes_closed\<close>)
next
  case (Pc_press s q g p d)
  show ?thesis
  proof (cases "is_open s g ch")
    case True
    with Pc_press socket show ?thesis by (simp add: close_cases goes_last)
  qed (use Pc_press in \<open>simp add: close_cases goes_closed\<close>)
next
  case (Pc_pinch s g a b i)
  show ?thesis
  proof (cases "is_open s g ch")
    case True
    with Pc_pinch socket show ?thesis by (cases "i < STEPS") (simp_all add: close_cases goes_before goes_still goes_last fun_eq_iff)
  qed (use Pc_pinch in \<open>simp add: goes_closed\<close>)
qed

lemma pace_keeps:
  assumes "ch_socket ch = Sock_open" "paced_ok ch pc"
  shows "snd (snd (pace pc r ch)) = Goes_on (Pacing pc') \<Longrightarrow> paced_ok (fst (pace pc r ch)) pc' \<and> gesture_of pc' = gesture_of pc"
    and "jget (ch_gestures (fst (pace pc r ch))) (fst (gesture_of pc)) = Some (snd (gesture_of pc), k)
      \<Longrightarrow> \<exists>pc'. snd (snd (pace pc r ch)) = Goes_on (Pacing pc') \<and> gesture_of pc' = gesture_of pc"
proof -
  from pace_goes_on [OF assms(1), of pc r] assms(2)
  show "snd (snd (pace pc r ch)) = Goes_on (Pacing pc') \<Longrightarrow> paced_ok (fst (pace pc r ch)) pc' \<and> gesture_of pc' = gesture_of pc"
    by (auto simp: pace_goes_def paced_ok_def)
  from pace_goes_on [OF assms(1), of pc r]
  show "jget (ch_gestures (fst (pace pc r ch))) (fst (gesture_of pc)) = Some (snd (gesture_of pc), k)
      \<Longrightarrow> \<exists>pc'. snd (snd (pace pc r ch)) = Goes_on (Pacing pc') \<and> gesture_of pc' = gesture_of pc"
    by (auto simp: pace_goes_def is_open_def)
qed

lemma gestures_move:
  assumes ok: "gestures_ok cl" and mv: "touches_well (cl_channel cl) mv" "ch_fresh (cl_channel cl) \<le> ch_fresh (fst mv)"
    and wf: "jwf (cl_calls cl)"
    and paced: "\<And>pc. snd (snd mv) = Goes_on (Pacing pc) \<Longrightarrow> paced_ok (fst mv) pc"
    and own: "\<And>op' pc0 k. jget (cl_calls cl) c = Some (op', Pacing pc0)
       \<Longrightarrow> jget (ch_gestures (fst mv)) (fst (gesture_of pc0)) = Some (snd (gesture_of pc0), k)
       \<Longrightarrow> \<exists>pc'. snd (snd mv) = Goes_on (Pacing pc') \<and> gesture_of pc' = gesture_of pc0"
  shows "gestures_ok (fst (move c op mv (cl\<lparr>cl_fresh := n\<rparr>)))"
proof -
  obtain ch out nx where m: "mv = (ch, out, nx)" by (cases mv) auto
  let ?cl = "fst (move c op mv (cl\<lparr>cl_fresh := n\<rparr>))"
  have ch: "cl_channel ?cl = ch" by (cases nx) (simp_all add: m move_def)
  have calls: "jget (cl_calls ?cl) d = (if d = c then (case nx of Goes_on pn \<Rightarrow> Some (op, pn) | Ends x \<Rightarrow> None) else jget (cl_calls cl) d)" for d
    using wf by (cases nx) (auto simp: m move_def jmap_simps)
  have old: "paced_ok ch pc" if "jget (cl_calls cl) d = Some (op', Pacing pc)" for d op' pc
  proof -
    from ok that have p: "paced_ok (cl_channel cl) pc" unfolding gestures_ok_def by blast
    have "kind_of pc k" if "jget (ch_gestures ch) (fst (gesture_of pc)) = Some (snd (gesture_of pc), k)" for k
      using mv(1) that p m by (fastforce simp: touches_well_def paced_ok_def)
    with p mv(2) m show ?thesis by (simp add: paced_ok_def)
  qed
  show ?thesis
    unfolding gestures_ok_def ch
  proof (intro conjI allI impI)
    show "ch_socket ch = Sock_open" using mv(1) m by (simp add: touches_well_def)
    show "paced_ok ch pc" if "jget (cl_calls ?cl) d = Some (op', Pacing pc)" for d op' pc
    proof (cases "d = c")
      case True
      with that calls [of d] have "nx = Goes_on (Pacing pc)" by (cases nx) simp_all
      with paced m show ?thesis by simp
    next
      case False
      with that calls [of d] old show ?thesis by simp
    qed
    fix s g k assume g: "jget (ch_gestures ch) s = Some (g, k)"
    from mv(1) m have "\<forall>s g k. jget (ch_gestures ch) s = Some (g, k) \<longrightarrow> jget (ch_gestures (cl_channel cl)) s = Some (g, k)
        \<or> ch_fresh (cl_channel cl) \<le> g \<and> (\<exists>pc. nx = Goes_on (Pacing pc) \<and> gesture_of pc = (s, g))"
      unfolding touches_well_def by simp
    with g consider "jget (ch_gestures (cl_channel cl)) s = Some (g, k)"
      | pc where "nx = Goes_on (Pacing pc)" "gesture_of pc = (s, g)" by blast
    then show "owned ?cl s g"
    proof cases
      case 1
      with ok obtain d op' pc where d: "jget (cl_calls cl) d = Some (op', Pacing pc)" "gesture_of pc = (s, g)"
        unfolding gestures_ok_def owned_def by blast
      show ?thesis
      proof (cases "d = c")
        case True
        with own [of op' pc k] d g m obtain pc' where "nx = Goes_on (Pacing pc')" "gesture_of pc' = (s, g)" by auto
        then have "jget (cl_calls ?cl) c = Some (op, Pacing pc')" using calls [of c] by simp
        with \<open>gesture_of pc' = (s, g)\<close> show ?thesis unfolding owned_def by blast
      next
        case False
        with d calls [of d] show ?thesis unfolding owned_def by auto
      qed
    next
      case 2
      then have "jget (cl_calls ?cl) c = Some (op, Pacing pc)" using calls [of c] by simp
      with 2 show ?thesis unfolding owned_def by blast
    qed
  qed
qed

lemma gestures_channel:
  assumes g: "gestures_ok cl" and "ch_socket ch = Sock_open" and f: "ch_fresh (cl_channel cl) \<le> ch_fresh ch"
    and old: "\<And>s x. jget (ch_gestures ch) s = Some x \<Longrightarrow> jget (ch_gestures (cl_channel cl)) s = Some x"
  shows "gestures_ok (cl\<lparr>cl_channel := ch\<rparr>)"
proof -
  have "owned (cl\<lparr>cl_channel := ch\<rparr>) s n" if "jget (ch_gestures ch) s = Some (n, k)" for s n k
    using g old [OF that] unfolding gestures_ok_def owned_def by simp
  moreover have "paced_ok ch pc" if "jget (cl_calls cl) c = Some (op, Pacing pc)" for c op pc
  proof -
    from g that have "paced_ok (cl_channel cl) pc" unfolding gestures_ok_def by blast
    with f old show ?thesis unfolding paced_ok_def by (meson order_less_le_trans)
  qed
  ultimately show ?thesis using assms(2) unfolding gestures_ok_def by simp
qed

lemma move_wire: "wire (snd (move c op mv cl)) = fst (snd mv)"
  by (cases mv; cases "snd (snd mv)") (simp_all add: move_def)

lemma move_channel: "cl_channel (fst (move c op mv cl)) = fst mv"
  by (cases mv; cases "snd (snd mv)") (simp_all add: move_def)

definition agrees :: "client \<Rightarrow> client \<times> client_fx list \<Rightarrow> bool" where
  "agrees cl t \<longleftrightarrow> gestures_ok (fst t) \<and> presses_well (cl_channel cl) (cl_channel (fst t)) (wire (snd t))"

lemma agrees_quiet: "gestures_ok (cl\<lparr>cl_channel := ch\<rparr>) \<Longrightarrow> ch_gestures ch = ch_gestures (cl_channel cl) \<Longrightarrow> agrees cl (cl\<lparr>cl_channel := ch\<rparr>, [])"
  by (simp add: agrees_def presses_well_def open_kind_def)

lemma gestures_step:
  assumes ok: "client_ok cl" and g: "gestures_ok cl" and e: "allowed e cl"
  shows "agrees cl (client_step e cl)"
proof -
  note chok = client_okD(1) [OF ok] and wf = client_okD(2) [OF ok]
  have sock: "ch_socket (cl_channel cl) = Sock_open" using g by (simp add: gestures_ok_def)
  have moved: "agrees cl (move c op mv (cl\<lparr>cl_fresh := n\<rparr>))"
    if "gestures_ok (fst (move c op mv (cl\<lparr>cl_fresh := n\<rparr>)))" "touches_well (cl_channel cl) mv" for c op mv n
    unfolding agrees_def move_wire move_channel using that(1) conjunct1 [OF conjunct2 [OF that(2) [unfolded touches_well_def]]] by (rule conjI)
  have still: "agrees cl (cl, [])" using g by (simp add: agrees_def presses_well_def)
  show ?thesis
  proof (cases e)
    case (Asks op r)
    let ?mv = "begin_call op r (cl_channel cl)"
    have t: "touches_well (cl_channel cl) ?mv" using e Asks by (intro touches_begin [OF sock]) (auto split: option.splits)
    have "jget (cl_calls cl) (cl_fresh cl) = None" using client_okD(3) [OF ok, of "cl_fresh cl"] by (cases "jget (cl_calls cl) (cl_fresh cl)") auto
    then have "gestures_ok (fst (move (cl_fresh cl) op ?mv (cl\<lparr>cl_fresh := Suc (cl_fresh cl)\<rparr>)))"
      using proper_begin [OF chok, of op r] by (intro gestures_move [OF g t _ wf begin_paced]) (auto simp: proper_def dest: leadsD(1))
    from moved [OF this t] Asks show ?thesis by simp
  next
    case (Goes c r)
    show ?thesis
    proof (cases "\<exists>op st p x. jget (cl_calls cl) c = Some (op, Waiting st p) \<and> jget (ch_settled (cl_channel cl)) p = Some x")
      case True
      then obtain op st p x where w: "jget (cl_calls cl) c = Some (op, Waiting st p)" "jget (ch_settled (cl_channel cl)) p = Some x" by blast
      let ?mv = "resume st p x r (cl_channel cl)"
      note t = touches_resume [OF sock, of st p x r]
      have "gestures_ok (fst (move c op ?mv (cl\<lparr>cl_fresh := cl_fresh cl\<rparr>)))"
        using proper_resume [OF chok client_okD(4) [OF ok w(1)] w(2), of r] w(1) resume_unpaced
        by (intro gestures_move [OF g t _ wf]) (auto simp: proper_def dest: leadsD(1))
      from moved [OF this t] Goes w show ?thesis by simp
    next
      case False
      with still Goes show ?thesis by (auto split: option.split pending.split)
    qed
  next
    case (Delayed c r)
    show ?thesis
    proof (cases "\<exists>op pc. jget (cl_calls cl) c = Some (op, Pacing pc)")
      case True
      then obtain op pc where w: "jget (cl_calls cl) c = Some (op, Pacing pc)" by blast
      let ?mv = "pace pc r (cl_channel cl)"
      have p: "paced_ok (cl_channel cl) pc" using g w unfolding gestures_ok_def by blast
      note t = touches_pace [OF sock p, of r] and keeps = pace_keeps [OF sock p]
      have "gestures_ok (fst (move c op ?mv (cl\<lparr>cl_fresh := cl_fresh cl\<rparr>)))"
        using proper_pace [OF chok, of pc r] w keeps by (intro gestures_move [OF g t _ wf]) (fastforce simp: proper_def dest: leadsD(1))+
      from moved [OF this t] Delayed w show ?thesis by simp
    next
      case False
      with still Delayed show ?thesis by (auto split: option.split pending.split)
    qed
  next
    case (Leaves s r)
    obtain ch out b where l: "leaveSession s r (cl_channel cl) = (ch, out, b)" by (cases "leaveSession s r (cl_channel cl)") auto
    note lg = leave_gestures [OF sock, of s r, unfolded l]
    have "gestures_ok (cl\<lparr>cl_channel := ch\<rparr>)"
      using lg leadsD(1) [OF leads_leave [OF chok, of s r]] l by (intro gestures_channel [OF g]) (auto simp: delete_conv' split: if_splits)
    with lg(3) l Leaves show ?thesis by (simp add: agrees_def)
  next
    case (Comes m)
    have "gestures_ok (cl\<lparr>cl_channel := dispatch m (cl_channel cl)\<rparr>)"
      using leadsD(1) [OF leads_dispatch [OF chok]] sock by (intro gestures_channel [OF g]) simp_all
    from agrees_quiet [OF this] Comes show ?thesis by (simp add: on_channel_def)
  next
    case (Times_out p)
    have "gestures_ok (cl\<lparr>cl_channel := deadline_passes p (cl_channel cl)\<rparr>)"
      using leadsD(1) [OF leads_deadline [OF chok]] sock by (intro gestures_channel [OF g]) simp_all
    from agrees_quiet [OF this] Times_out show ?thesis by (simp add: on_channel_def)
  qed (use e in simp_all)
qed

lemma gestures_run:
  "client_ok cl \<Longrightarrow> gestures_ok cl \<Longrightarrow> one_at_a_time evs cl \<Longrightarrow>
     gestures_ok (fst (run client_step evs cl))
     \<and> presses_well (cl_channel cl) (cl_channel (fst (run client_step evs cl))) (wire (snd (run client_step evs cl)))"
proof (induction evs arbitrary: cl)
  case (Cons e evs)
  from gestures_step [OF Cons.prems(1,2)] Cons.prems(3) have a: "agrees cl (client_step e cl)" by simp
  with Cons.IH [OF client_step_ok [OF Cons.prems(1)], of e] Cons.prems(3) show ?case
    by (simp add: agrees_def presses_well_def)
qed (simp add: presses_well_def)

subsection \<open>No finger is left down\<close>

lemma new_client_gestures: "client_ok new_client" "gestures_ok new_client"
  using reached_ok [of "[]"] by (simp_all add: gestures_ok_def new_client_def new_channel_def)

lemma pressed_append: "pressed s (xs @ ys) = fold (press s) (wire ys) (pressed s xs)"
  by (simp add: pressed_def)


definition paced_swipe :: "client \<times> client_fx list" where
  "paced_swipe = run client_step [Asks (Op_swipe 5 (0, 0) (1, 0) 400) 71, Asks (Op_tap 4 (0, 0)) 72, Delayed 0 73] new_client"


end
