(* ===== verification/Boot_Gate_Lift.thy ===== *)
theory Boot_Gate_Lift
  imports Boot_Gate
begin

text \<open>
  How a fact about one Mac's entry becomes a fact about the whole gate: every operation changes the
  entries it touches through \<open>on_host\<close> or \<open>fx_entries\<close> and leaves the others alone. \<open>gate_call\<close> is
  everything the relay can do to the gate, with the time it does it at, and \<open>gate_step\<close> one such call.
\<close>

datatype 'm gate_call = Admit "'m boot_request" | Event gate_event | Tick

type_synonym 'm timed_call = "ms \<times> 'm gate_call"

fun gate_step :: "gate_timing \<Rightarrow> 'm timed_call \<Rightarrow> 'm gate \<Rightarrow> 'm gate \<times> 'm effect list" where
  "gate_step t (now, Admit req) g = admit t now req g"
| "gate_step t (now, Event ev) g = onEvent t now ev g"
| "gate_step t (now, Tick) g = tick t now g"

definition gate_run :: "gate_timing \<Rightarrow> 'm timed_call list \<Rightarrow> 'm gate \<Rightarrow> 'm gate \<times> 'm effect list" where
  "gate_run t = run (gate_step t)"

lemmas host_defs = release_def dispatchReservation_def noteHumanGrant_def takeSlot_def
  refreshWaiting_def criticalEnded_def deliverAnyway_def withdrawHeld_def Let_def

lemmas admit_defs = admit_host_def admit_again_def admit_reboot_def admit_automated_def
  admit_interactive_def newly_held_def deliverOf_def waitingOf_def reserved_by_def slot_of_def

lemmas tick_defs = tick_host_def tick_critical_def tick_slot_def tick_window_def tick_held_def

lemma new_host_simps [simp]:
  "slot new_host = None" "reservation new_host = None" "humanStreak new_host = 0"
  "lastAutomatedRefusalAt new_host = None" "agingWindowUntil new_host = None"
  "criticalUntil new_host = None" "windowLeftMs new_host = None"
  by (simp_all add: new_host_def)

lemma isCritical_simps [simp]:
  "isCritical now (h\<lparr>slot := x1\<rparr>) = isCritical now h"
  "isCritical now (h\<lparr>reservation := x2\<rparr>) = isCritical now h"
  "isCritical now (h\<lparr>humanStreak := x3\<rparr>) = isCritical now h"
  "isCritical now (h\<lparr>lastAutomatedRefusalAt := x4\<rparr>) = isCritical now h"
  "isCritical now (h\<lparr>agingWindowUntil := x5\<rparr>) = isCritical now h"
  "isCritical now (h\<lparr>windowLeftMs := x6\<rparr>) = isCritical now h"
  "\<not> isCritical now (h\<lparr>criticalUntil := None\<rparr>)"
  by (simp_all add: isCritical_def)

lemma isCritical_SomeD: "isCritical now h \<Longrightarrow> criticalUntil h \<noteq> None"
  by (auto simp: isCritical_def split: option.splits)

subsection \<open>Predicates on every Mac\<close>

definition every_host :: "(string \<Rightarrow> 'm host \<Rightarrow> bool) \<Rightarrow> 'm gate \<Rightarrow> bool" where
  "every_host P g \<longleftrightarrow> jwf g \<and> (\<forall>key h. jget g key = Some h \<longrightarrow> P key h)"

lemma every_host_Nil [simp]: "every_host P []"
  by (simp add: every_host_def)

lemma every_hostI: "jwf g \<Longrightarrow> (\<And>key h. jget g key = Some h \<Longrightarrow> P key h) \<Longrightarrow> every_host P g"
  by (simp add: every_host_def)

lemma every_hostD: "every_host P g \<Longrightarrow> jget g key = Some h \<Longrightarrow> P key h"
  by (simp add: every_host_def)

lemma every_host_hostOf: "every_host P g \<Longrightarrow> P key new_host \<Longrightarrow> P key (hostOf g key)"
  by (auto simp: every_host_def hostOf_def split: option.splits)

lemma every_host_on_host:
  assumes "every_host P g" and "P key new_host" and "\<And>h. P key h \<Longrightarrow> P key (fst (f h))"
  shows "every_host P (fst (on_host key f g))"
  using assms(1) every_host_hostOf [OF assms(1,2)] assms(3)
  by (auto simp: every_host_def on_host_def jmap_simps)

lemma every_host_on_found:
  assumes "every_host P g" and "jget g key = Some h" and "P key h \<Longrightarrow> P key (fst (f h))"
  shows "every_host P (fst (on_host key f g))"
  using assms by (auto simp: every_host_def on_host_def hostOf_def jmap_simps)

lemma every_host_fx_entries:
  assumes "every_host P g" and "\<And>key h. P key h \<Longrightarrow> P key (fst (f key h))"
  shows "every_host P (fst (fx_entries f g))"
  using assms by (auto simp: every_host_def jget_fx_entries)

lemma slotOf_Some:
  assumes "slotOf g sessionId = Some (key, h)" and "jwf g"
  shows "jget g key = Some h \<and> (\<exists>s. slot h = Some s \<and> s_session s = sessionId)"
  using find_Some_mem [OF assms(1) [unfolded slotOf_def]] assms(2)
  by (auto split: option.splits)

lemma slotOf_None:
  "slotOf g sessionId = None \<Longrightarrow> jget g key = Some h \<Longrightarrow> slot h = Some s \<Longrightarrow> s_session s \<noteq> sessionId"
  by (fastforce simp: slotOf_def find_None_iff dest: map_of_SomeD)

text \<open>
  One rule for all calls: a predicate that each private step keeps is kept by every call. The steps
  are the leaves of the gate's code.
\<close>

lemma gate_step_every_host:
  assumes inv: "every_host P g"
    and fresh: "\<And>key. P key new_host"
    and admits: "\<And>now req h. call = (now, Admit req) \<Longrightarrow> P (r_host req) h \<Longrightarrow> P (r_host req) (fst (admit_host t now req h))"
    and released: "\<And>now key h. P key h \<Longrightarrow> P key (fst (release t now key h))"
    and readied: "\<And>now key h. P key h \<Longrightarrow> P key (ready_slot now h)"
    and unslotted: "\<And>now key sid h c. call = (now, Event (Ready key sid c)) \<Longrightarrow> P key h
        \<Longrightarrow> P key (fst (ready_unslotted now key sid h))"
    and sampled: "\<And>now key cpu h. P key h \<Longrightarrow> P key (fst (sample_host t now key cpu h))"
    and pressed: "\<And>now key c h. P key h \<Longrightarrow> P key (fst (pressure_host t now key c h))"
    and withdrawn: "\<And>sid key h. P key h \<Longrightarrow> P key (fst (withdrawHeld sid h))"
    and rebound: "\<And>now key h. P key h \<Longrightarrow>
        P key (h\<lparr>slot := map_option (\<lambda>s. s\<lparr>s_reboundAt := Some now\<rparr>) (slot h)\<rparr>)"
    and ticked: "\<And>now key h. P key h \<Longrightarrow> P key (fst (tick_host t now key h))"
  shows "every_host P (fst (gate_step t call g))"
proof -
  obtain now c where call: "call = (now, c)" by (cases call)
  have relSess: "every_host P (fst (releaseSession t now sid g))" if "every_host P g" for sid and g
    using that by (auto simp: releaseSession_def split: option.splits
        intro: every_host_on_host fresh released)
  have wd: "every_host P (fst (withdrawAll sid g))" for sid
    unfolding withdrawAll_def by (rule every_host_fx_entries [OF inv]) (rule withdrawn)
  show ?thesis
  proof (cases c)
    case (Admit req)
    then show ?thesis
      using every_host_on_host [OF inv fresh] admits by (simp add: call admit_def)
  next
    case Tick
    then show ?thesis
      unfolding call by (simp add: tick_def) (rule every_host_fx_entries [OF inv], rule ticked)
  next
    case (Event ev)
    show ?thesis
    proof (cases ev)
      case (Ready key sid cold)
      show ?thesis
      proof (cases "slotOf g sid")
        case None
        then show ?thesis
          using every_host_on_host [OF inv fresh] unslotted inv
          by (simp add: call Event Ready onReady_def)
      next
        case (Some p)
        then show ?thesis
          using every_host_on_host [OF inv fresh] released readied
          by (cases p) (simp add: call Event Ready onReady_def)
      qed
    next
      case (Sample key cpu)
      then show ?thesis
        using every_host_on_host [OF inv fresh] sampled inv
        by (simp add: call Event onSample_def split: option.split)
    next
      case (Pressure key critical)
      then show ?thesis
        using every_host_on_host [OF inv fresh] pressed by (simp add: call Event)
    next
      case (Boot_error sid rid)
      show ?thesis
      proof (cases "slotOf g sid")
        case None
        then show ?thesis using inv by (simp add: call Event Boot_error onBootError_def)
      next
        case (Some p)
        then show ?thesis
          using every_host_on_host [OF inv fresh] released inv
          by (cases p) (simp add: call Event Boot_error onBootError_def)
      qed
    next
      case (Shutdown_done sid)
      then show ?thesis by (simp add: call Event fx_simps relSess wd)
    next
      case (Session_removed sid)
      then show ?thesis by (simp add: call Event fx_simps relSess wd)
    next
      case (Browser_closed sid)
      then show ?thesis by (simp add: call Event wd)
    next
      case (Rebound sid)
      show ?thesis
      proof (cases "slotOf g sid")
        case None
        then show ?thesis using inv by (simp add: call Event Rebound onRebound_def)
      next
        case (Some p)
        then show ?thesis
          using every_host_on_host [OF inv fresh] rebound
          by (cases p) (simp add: call Event Rebound onRebound_def)
      qed
    qed
  qed
qed

end
