(* ===== verification/Boot_Gate_Inv.thy ===== *)
theory Boot_Gate_Inv
  imports Boot_Gate_Lift
begin

text \<open>
  The gate's invariants: a held boot always waits for something that a deadline or an event ends, a
  slot's clocks agree with its phase, no boot is lost or answered twice, and a Mac's entry is about
  that Mac's sessions. The two system locales of the prelude are interpreted on \<open>gate_step\<close> here.
\<close>

subsection \<open>A held boot waits for something\<close>

definition slot_clocks :: "slot \<Rightarrow> bool" where
  "slot_clocks s \<longleftrightarrow> (s_phase s = Settling \<longleftrightarrow> s_readyAt s \<noteq> None)
     \<and> (s_phase s = Booting \<longrightarrow> s_samples s = [] \<and> \<not> s_droppedFirst s)"

definition host_inv :: "'m host \<Rightarrow> bool" where
  "host_inv h \<longleftrightarrow>
     (reservation h \<noteq> None \<longrightarrow> slot h \<noteq> None \<or> agingWindowUntil h \<noteq> None \<or> criticalUntil h \<noteq> None)
     \<and> (\<forall>s. slot h = Some s \<longrightarrow> slot_clocks s)"

abbreviation gate_inv :: "'m gate \<Rightarrow> bool" where
  "gate_inv \<equiv> every_host (\<lambda>_. host_inv)"

lemma host_inv_new [simp]: "host_inv new_host"
  by (simp add: host_inv_def)

lemma slot_clocks_take [simp]:
  "\<forall>s. slot (takeSlot now sid rid h) = Some s \<longrightarrow> slot_clocks s"
  by (simp add: takeSlot_def slot_clocks_def)

lemma dispatch_inv: "\<forall>s. slot h = Some s \<longrightarrow> slot_clocks s \<Longrightarrow> host_inv (fst (dispatchReservation t now h))"
  by (auto simp: dispatchReservation_def host_inv_def noteHumanGrant_def takeSlot_def slot_clocks_def
      dest: isCritical_SomeD split: option.splits)

lemma release_inv: "host_inv (fst (release t now key h))"
  using dispatch_inv [of "h\<lparr>slot := None\<rparr>" t now]
  by (auto simp: release_def Let_def host_inv_def)

lemma refresh_inv: "host_inv h \<Longrightarrow> host_inv (fst (refreshWaiting t now h))"
  by (auto simp: refreshWaiting_def host_inv_def Let_def split: option.splits)

lemma criticalEnded_inv:
  "\<forall>s. slot h = Some s \<longrightarrow> slot_clocks s \<Longrightarrow> host_inv (fst (criticalEnded t now h))"
  unfolding criticalEnded_def Let_def fst_fx_then
  by (rule refresh_inv, rule dispatch_inv) (auto split: option.splits)

lemma deliverAnyway_inv:
  "host_inv h \<Longrightarrow> host_inv (fst (deliverAnyway t now sid rid m h))"
  by (auto simp: deliverAnyway_def host_inv_def noteHumanGrant_def takeSlot_def slot_clocks_def)

lemma withdraw_inv: "host_inv h \<Longrightarrow> host_inv (fst (withdrawHeld sid h))"
  by (auto simp: withdrawHeld_def host_inv_def split: option.splits)

lemma take_sample_clocks: "slot_clocks s \<Longrightarrow> slot_clocks (fst (take_sample now cpu s))"
  by (cases "s_phase s") (auto simp: take_sample_def slot_clocks_def Let_def split: option.splits)

lemma host_inv_clocks: "host_inv h \<Longrightarrow> slot h = Some s \<Longrightarrow> slot_clocks s"
  by (simp add: host_inv_def)

lemma host_inv_set_slot: "host_inv h \<Longrightarrow> slot_clocks s \<Longrightarrow> host_inv (h\<lparr>slot := Some s\<rparr>)"
  by (simp add: host_inv_def)

lemma sample_inv: "host_inv h \<Longrightarrow> host_inv (fst (sample_host t now key cpu h))"
  by (cases "slot h") (auto simp: sample_host_def Let_def split_beta release_inv
      intro!: host_inv_set_slot take_sample_clocks intro: host_inv_clocks)

lemma pressure_inv: "host_inv h \<Longrightarrow> host_inv (fst (pressure_host t now key c h))"
proof (cases c)
  case False
  moreover assume "host_inv h"
  ultimately show ?thesis
    by (auto simp: pressure_host_def intro!: criticalEnded_inv intro: host_inv_clocks)
next
  case True
  moreover assume h: "host_inv h"
  moreover have "host_inv (h\<lparr>criticalUntil := Some x, windowLeftMs := y\<rparr>)" "host_inv (h\<lparr>criticalUntil := Some x\<rparr>)"
    for x y using h by (auto simp: host_inv_def)
  ultimately show ?thesis
    by (auto simp: pressure_host_def Let_def split_beta intro!: refresh_inv split: option.split)
qed

lemma ready_slot_inv: "host_inv h \<Longrightarrow> host_inv (ready_slot now h)"
  by (auto simp: ready_slot_def host_inv_def slot_clocks_def)

lemma ready_unslotted_inv: "host_inv h \<Longrightarrow> host_inv (fst (ready_unslotted now key sid h))"
  by (auto simp: ready_unslotted_def host_inv_def slot_clocks_def)

lemma rebound_inv:
  "host_inv h \<Longrightarrow> host_inv (h\<lparr>slot := map_option (\<lambda>s. s\<lparr>s_reboundAt := Some now\<rparr>) (slot h)\<rparr>)"
  by (auto simp: host_inv_def slot_clocks_def)

lemma admit_inv: "host_inv h \<Longrightarrow> host_inv (fst (admit_host t now req h))"
proof -
  assume h: "host_inv h"
  have "host_inv (fst (admit_interactive t now req h))"
    using h deliverAnyway_inv
    by (auto simp: admit_interactive_def host_inv_def noteHumanGrant_def takeSlot_def slot_clocks_def
        deliverAnyway_def Let_def split: option.splits dest: isCritical_SomeD)
  moreover have "host_inv (fst (admit_automated now req h))"
    using h by (auto simp: admit_automated_def host_inv_def takeSlot_def slot_clocks_def)
  moreover have "host_inv (fst (admit_reboot now req (the (slot h)) h))" if "slot_of (r_session req) h"
    using h that by (auto simp: admit_reboot_def host_inv_def slot_clocks_def)
  moreover have "host_inv (fst (admit_again t now req (the (reservation h)) h))"
    if "reserved_by (r_session req) h"
    using h that by (auto simp: admit_again_def host_inv_def Let_def reserved_by_def split: option.splits)
  ultimately show ?thesis using h by (simp add: admit_host_def)
qed

lemma tick_inv: "host_inv h \<Longrightarrow> host_inv (fst (tick_host t now key h))"
proof -
  have c: "host_inv (fst (tick_critical t now key h))" if "host_inv h" for h :: "'a host"
    using that by (auto simp: tick_critical_def split_beta split: option.split
        intro!: criticalEnded_inv intro: host_inv_clocks)
  have s: "host_inv (fst (tick_slot t now key h))" if "host_inv h" for h :: "'a host"
    using that by (auto simp: tick_slot_def split_beta release_inv split: option.split)
  have w: "host_inv (fst (tick_window t now h))" if "host_inv h" for h :: "'a host"
    using that by (auto simp: tick_window_def split: option.split
        intro!: dispatch_inv intro: host_inv_clocks)
  have n: "host_inv (h\<lparr>reservation := None\<rparr>)" if "host_inv h" for h :: "'a host"
    using that by (simp add: host_inv_def)
  have r: "host_inv (fst (tick_held t now key h))" if "host_inv h" for h :: "'a host"
    using that by (auto simp: tick_held_def split_beta split: option.split
        intro!: deliverAnyway_inv n)
  assume "host_inv h"
  then show ?thesis by (simp add: tick_host_def fst_fx_then c s w r)
qed

lemma gate_step_inv: "gate_inv g \<Longrightarrow> gate_inv (fst (gate_step t call g))"
  by (rule gate_step_every_host)
    (simp_all add: admit_inv release_inv ready_slot_inv ready_unslotted_inv sample_inv pressure_inv
      withdraw_inv rebound_inv tick_inv)

subsection \<open>No boot is lost and none is answered twice\<close>

type_synonym 'm boot = "string \<times> string \<times> 'm" \<comment> \<open>session, request, message\<close>

definition held_boot :: "'m held \<Rightarrow> 'm boot" where
  "held_boot held = (h_session held, h_request held, h_message held)"

definition kept_host :: "'m host \<Rightarrow> 'm boot multiset" where
  "kept_host h = (case reservation h of None \<Rightarrow> {#} | Some held \<Rightarrow> {#held_boot held#})"

definition kept_boots :: "'m gate \<Rightarrow> 'm boot multiset" where
  "kept_boots g = sum_list (map (\<lambda>p. kept_host (snd p)) g)"

fun answer :: "'m effect \<Rightarrow> 'm boot multiset" where
  "answer (Deliver s r m) = {#(s, r, m)#}"
| "answer (Refuse s r _ m) = {#(s, r, m)#}"
| "answer (Withdraw s r _ m) = {#(s, r, m)#}"
| "answer (Waiting _ _ _ _ _) = {#}"
| "answer (Log _ _ _) = {#}"

definition answers :: "'m effect list \<Rightarrow> 'm boot multiset" where
  "answers fx = sum_list (map answer fx)"

fun asked :: "'m timed_call \<Rightarrow> 'm boot multiset" where
  "asked (_, Admit req) = {#(r_session req, r_request req, r_message req)#}"
| "asked (_, Event _) = {#}"
| "asked (_, Tick) = {#}"

lemma answers_simps [simp]:
  "answers [] = {#}" "answers (e # fx) = answer e + answers fx" "answers (fx @ gx) = answers fx + answers gx"
  by (simp_all add: answers_def)

lemma kept_host_simps [simp]:
  "kept_host new_host = {#}"
  "kept_host (h\<lparr>slot := x1\<rparr>) = kept_host h"
  "kept_host (h\<lparr>humanStreak := x2\<rparr>) = kept_host h"
  "kept_host (h\<lparr>lastAutomatedRefusalAt := x3\<rparr>) = kept_host h"
  "kept_host (h\<lparr>agingWindowUntil := x4\<rparr>) = kept_host h"
  "kept_host (h\<lparr>criticalUntil := x5\<rparr>) = kept_host h"
  "kept_host (h\<lparr>windowLeftMs := x6\<rparr>) = kept_host h"
  "kept_host (h\<lparr>reservation := None\<rparr>) = {#}"
  "kept_host (h\<lparr>reservation := Some held\<rparr>) = {#held_boot held#}"
  "kept_host (takeSlot now sid rid h) = kept_host h"
  "kept_host (noteHumanGrant t now h) = kept_host h"
  by (simp_all add: kept_host_def takeSlot_def noteHumanGrant_def)

lemma kept_host_Some: "reservation h = Some held \<Longrightarrow> kept_host h = {#held_boot held#}"
  and kept_host_None: "reservation h = None \<Longrightarrow> kept_host h = {#}"
  by (simp_all add: kept_host_def)

lemma kept_boots_jset:
  assumes "jwf g"
  shows "kept_boots (jset key h g) + kept_host (hostOf g key) = kept_boots g + kept_host h"
proof -
  have m: "kept_boots g = (\<Sum>p\<in>#mset g. kept_host (snd p))" for g :: "'a gate"
    by (simp add: kept_boots_def flip: sum_mset_sum_list)
  show ?thesis
  proof (cases "jget g key")
    case None
    then show ?thesis
      using assms by (simp add: m mset_jset jdel_notin hostOf_def add.commute)
  next
    case (Some h0)
    then show ?thesis
      using assms by (simp add: m mset_jset mset_jdel [of g key h0] hostOf_def)
  qed
qed

text \<open>One Mac's step neither drops nor invents a boot.\<close>

definition conserves :: "'m boot multiset \<Rightarrow> 'm host \<Rightarrow> 'm host \<times> 'm effect list \<Rightarrow> bool" where
  "conserves taken h r \<longleftrightarrow> kept_host h + taken = kept_host (fst r) + answers (snd r)"

lemma kept_on_host:
  assumes "jwf g" and "conserves taken (hostOf g key) (f (hostOf g key))"
  shows "kept_boots g + taken = kept_boots (fst (on_host key f g)) + answers (snd (on_host key f g))"
proof (rule multiset_eqI)
  fix x
  let ?h = "hostOf g key"
  have "count (kept_boots (jset key (fst (f ?h)) g) + kept_host ?h) x
      = count (kept_boots g + kept_host (fst (f ?h))) x"
    by (simp only: kept_boots_jset [OF assms(1)])
  moreover have "count (kept_host ?h + taken) x = count (kept_host (fst (f ?h)) + answers (snd (f ?h))) x"
    using assms(2) by (simp only: conserves_def)
  ultimately show "count (kept_boots g + taken) x
      = count (kept_boots (fst (on_host key f g)) + answers (snd (on_host key f g))) x"
    by (simp add: on_host_def)
qed

lemma kept_on_all:
  assumes "\<And>h. conserves {#} h (f h)" and "jwf g"
  shows "kept_boots g = kept_boots (fst (on_host key f g)) + answers (snd (on_host key f g))"
  using kept_on_host [where taken = "{#}" and f = f, OF assms(2) assms(1)] by simp

lemma kept_fx_entries:
  assumes "\<And>key h. conserves {#} h (f key h)"
  shows "kept_boots g = kept_boots (fst (fx_entries f g)) + answers (snd (fx_entries f g))"
  using assms by (induction g) (auto simp: kept_boots_def conserves_def algebra_simps)

lemma conserves_then:
  "conserves {#} h (f h) \<Longrightarrow> conserves {#} (fst (f h)) (g (fst (f h))) \<Longrightarrow> conserves {#} h (fx_then f g h)"
  by (simp add: conserves_def fx_then_def)

lemma conserves_dispatch: "conserves {#} h (dispatchReservation t now h)"
  by (simp add: conserves_def dispatchReservation_def kept_host_Some held_boot_def split: option.split)

lemma conserves_release: "conserves {#} h (release t now key h)"
  using conserves_dispatch [of "h\<lparr>slot := None\<rparr>" t now]
  by (simp add: conserves_def release_def Let_def)

lemma conserves_refresh: "conserves {#} h (refreshWaiting t now h)"
  by (simp add: conserves_def refreshWaiting_def Let_def kept_host_Some waitingOf_def held_boot_def
      split: option.split)

lemma conserves_criticalEnded: "conserves {#} h (criticalEnded t now h)"
proof -
  define h' where "h' = (case agingWindowUntil h of None \<Rightarrow> h
    | Some _ \<Rightarrow> h\<lparr>agingWindowUntil := Some (now + (case windowLeftMs h of Some l \<Rightarrow> l | None \<Rightarrow> agingWindowMs t))\<rparr>)
      \<lparr>windowLeftMs := None\<rparr>"
  have "kept_host h' = kept_host h" by (simp add: h'_def split: option.split)
  moreover have "conserves {#} h' (criticalEnded t now h)"
    unfolding criticalEnded_def Let_def h'_def [symmetric]
    by (rule conserves_then) (rule conserves_dispatch conserves_refresh)+
  ultimately show ?thesis by (simp add: conserves_def)
qed

lemma conserves_anyway:
  "kept_host (fst (deliverAnyway t now sid rid m h)) = kept_host h"
  "answers (snd (deliverAnyway t now sid rid m h)) = {#(sid, rid, m)#}"
  by (simp_all add: deliverAnyway_def)

lemma reservation_anyway [simp]:
  "reservation (fst (deliverAnyway t now sid rid m h)) = reservation h"
  by (simp add: deliverAnyway_def noteHumanGrant_def takeSlot_def)

lemma conserves_withdraw: "conserves {#} h (withdrawHeld sid h)"
  by (simp add: conserves_def withdrawHeld_def kept_host_Some held_boot_def split: option.split)

lemma conserves_sample: "conserves {#} h (sample_host t now key cpu h)"
  using conserves_release [of "h\<lparr>slot := Some (fst (take_sample now cpu (the (slot h))))\<rparr>" t now key]
  by (simp add: sample_host_def Let_def split_beta conserves_def split: option.split)

lemma conserves_pressure: "conserves {#} h (pressure_host t now key c h)"
  using conserves_criticalEnded [of "h\<lparr>criticalUntil := None\<rparr>" t now]
    conserves_refresh [of "h\<lparr>criticalUntil := Some (now + 15000)\<rparr>" t now]
    conserves_refresh [of "h\<lparr>criticalUntil := Some (now + 15000),
      windowLeftMs := Some (max 0 (the (agingWindowUntil h) - now))\<rparr>" t now]
  by (simp add: pressure_host_def conserves_def Let_def split_beta split: option.split)

lemma conserves_tick: "conserves {#} h (tick_host t now key h)"
proof -
  have c: "conserves {#} h (tick_critical t now key h)" for h :: "'a host"
    using conserves_criticalEnded [of "h\<lparr>criticalUntil := None\<rparr>" t now]
    by (simp add: tick_critical_def conserves_def split_beta split: option.split)
  have s: "conserves {#} h (tick_slot t now key h)" for h :: "'a host"
    using conserves_release [of h t now key]
    by (simp add: tick_slot_def conserves_def split_beta split: option.split)
  have w: "conserves {#} h (tick_window t now h)" for h :: "'a host"
    using conserves_dispatch [of "h\<lparr>agingWindowUntil := None, humanStreak := 0\<rparr>" t now]
    by (simp add: tick_window_def conserves_def split: option.split)
  have r: "conserves {#} h (tick_held t now key h)" for h :: "'a host"
    by (simp add: tick_held_def conserves_def split_beta conserves_anyway held_boot_def
        kept_host_Some split: option.split)
  show ?thesis
    unfolding tick_host_def by (intro conserves_then c s w r)
qed

lemma conserves_interactive:
  "conserves {#(r_session req, r_request req, r_message req)#} h (admit_interactive t now req h)"
  by (cases "reservation h")
    (simp_all add: admit_interactive_def conserves_def Let_def split_beta conserves_anyway
      kept_host_Some kept_host_None held_boot_def newly_held_def waitingOf_def deliverOf_def)

lemma conserves_automated:
  "conserves {#(r_session req, r_request req, r_message req)#} h (admit_automated now req h)"
  by (simp add: admit_automated_def conserves_def deliverOf_def)

lemma conserves_admit:
  "conserves {#(r_session req, r_request req, r_message req)#} h (admit_host t now req h)"
proof -
  have "conserves {#(r_session req, r_request req, r_message req)#} h (admit_again t now req held h)"
    if "reservation h = Some held" "h_session held = r_session req" for held
    using that by (simp add: admit_again_def conserves_def Let_def kept_host_Some held_boot_def
        deliverOf_def waitingOf_def)
  moreover have "conserves {#(r_session req, r_request req, r_message req)#} h (admit_reboot now req s h)" for s
    by (simp add: admit_reboot_def conserves_def deliverOf_def)
  ultimately show ?thesis
    using conserves_interactive conserves_automated
    by (auto simp: admit_host_def conserves_def deliverOf_def reserved_by_def split: option.splits)
qed

lemma gate_step_conserves:
  assumes "gate_inv g"
  shows "kept_boots g + asked call = kept_boots (fst (gate_step t call g)) + answers (snd (gate_step t call g))"
proof -
  have wf: "jwf g" using assms by (simp add: every_host_def)
  obtain now c where call: "call = (now, c)" by (cases call)
  have wdwf: "jwf (fst (withdrawAll sid g))" for sid by (simp add: withdrawAll_def wf)
  have wd: "kept_boots g = kept_boots (fst (withdrawAll sid g)) + answers (snd (withdrawAll sid g))" for sid
    unfolding withdrawAll_def by (rule kept_fx_entries) (rule conserves_withdraw)
  have rel: "kept_boots g' = kept_boots (fst (releaseSession t now sid g')) + answers (snd (releaseSession t now sid g'))"
    if "jwf g'" for sid and g' :: "'a gate"
    using that by (auto simp: releaseSession_def split: option.split
        intro!: kept_on_all conserves_release)
  show ?thesis
  proof (cases c)
    case (Admit req)
    show ?thesis
      using kept_on_host [where f = "admit_host t now req", OF wf conserves_admit]
      by (simp add: call Admit admit_def)
  next
    case Tick
    show ?thesis
      unfolding call Tick by (simp add: tick_def) (rule kept_fx_entries, rule conserves_tick)
  next
    case (Event ev)
    have "kept_boots g = kept_boots (fst (onEvent t now ev g)) + answers (snd (onEvent t now ev g))"
    proof (cases ev)
      case (Ready key sid cold)
      have "conserves {#} h (ready_unslotted now key sid h)" for h :: "'a host"
        by (simp add: ready_unslotted_def conserves_def kept_host_def)
      moreover have "conserves {#} h (ready_slot now h, [])" for h :: "'a host"
        by (simp add: ready_slot_def conserves_def)
      ultimately show ?thesis
        by (cases "slotOf g sid")
          (auto simp: Ready onReady_def intro!: kept_on_all wf conserves_release)
    next
      case (Rebound sid)
      show ?thesis
        by (cases "slotOf g sid") (auto simp: Rebound onRebound_def conserves_def intro!: kept_on_all wf)
    next
      case (Shutdown_done sid)
      show ?thesis using wd [of sid] rel [OF wdwf [of sid], of sid]
        by (simp add: Shutdown_done fx_simps)
    next
      case (Session_removed sid)
      show ?thesis using wd [of sid] rel [OF wdwf [of sid], of sid]
        by (simp add: Session_removed fx_simps)
    qed (use wd in \<open>auto simp: onSample_def onBootError_def split: option.split
          intro!: kept_on_all wf conserves_sample conserves_pressure conserves_release\<close>)
    then show ?thesis by (simp add: call Event)
  qed
qed

interpretation gate: conserving_system "gate_step t" "\<lambda>_. True" "gate_inv" kept_boots asked answers
  for t
  by unfold_locales (simp_all add: gate_step_inv gate_step_conserves)

end
