(* ===== verification/Boot_Gate_Timer.thy ===== *)
theory Boot_Gate_Timer
  imports Boot_Gate_Inv
begin

text \<open>
  The gate's one timer. The relay reads \<open>nextDeadline\<close>, sleeps until then and calls \<open>tick\<close>. Two facts
  make that schedule exact: a tick before the deadline changes nothing, and after a tick no deadline
  is left in the past, so the timer never spins.
\<close>

lemma fold_min_le: "fold min ds (d :: int) \<le> d \<and> (\<forall>x\<in>set ds. fold min ds d \<le> x)"
proof (induction ds arbitrary: d)
  case (Cons a ds)
  from Cons.IH [of "min a d"] show ?case by auto
qed simp

lemma fold_min_mem: "fold min ds (d :: int) = d \<or> fold min ds d \<in> set ds"
proof (induction ds arbitrary: d)
  case (Cons a ds)
  from Cons.IH [of "min a d"] show ?case by (auto simp: min_def)
qed simp

definition gate_deadlines :: "gate_timing \<Rightarrow> ms \<Rightarrow> 'm gate \<Rightarrow> ms list" where
  "gate_deadlines t now g = concat (map (\<lambda>(_, h). host_deadlines t now h) g)"

lemma nextDeadline_eq:
  "nextDeadline t now g = (case gate_deadlines t now g of [] \<Rightarrow> None | d # ds \<Rightarrow> Some (fold min ds d))"
  by (simp only: nextDeadline_def gate_deadlines_def)

lemma nextDeadline_None: "nextDeadline t now g = None \<longleftrightarrow> gate_deadlines t now g = []"
  by (simp add: nextDeadline_eq split: list.split)

lemma nextDeadline_Some:
  assumes "nextDeadline t now g = Some d"
  shows "d \<in> set (gate_deadlines t now g)" and "\<And>x. x \<in> set (gate_deadlines t now g) \<Longrightarrow> d \<le> x"
proof -
  from assms obtain x xs where "gate_deadlines t now g = x # xs" and "d = fold min xs x"
    by (auto simp: nextDeadline_eq split: list.splits)
  then show "d \<in> set (gate_deadlines t now g)" and "\<And>y. y \<in> set (gate_deadlines t now g) \<Longrightarrow> d \<le> y"
    using fold_min_le [of xs x] fold_min_mem [of xs x] by auto
qed

lemma host_deadlines_iff:
  "d \<in> set (host_deadlines t now h) \<longleftrightarrow>
     (\<exists>s. slot h = Some s \<and> d \<in> set (slot_deadlines t s)) \<or> criticalUntil h = Some d
     \<or> agingWindowUntil h = Some d \<and> \<not> isCritical now h
     \<or> (\<exists>held. reservation h = Some held \<and> d = h_since held + humanWaitMs t)"
  unfolding host_deadlines_def
  by (cases "slot h"; cases "criticalUntil h"; cases "agingWindowUntil h"; cases "reservation h") auto

lemma slot_deadlines_iff:
  "d \<in> set (slot_deadlines t s) \<longleftrightarrow>
     (\<exists>r. s_phase s = Booting \<and> s_reboundAt s = Some r \<and> d = r + reboundMs t)
     \<or> s_phase s = Booting \<and> d = s_since s + bootMs t
     \<or> (\<exists>r. s_phase s = Settling \<and> s_readyAt s = Some r \<and>
          (d = r + settleCapMs t \<or> s_lastSampleAt s = None \<and> d = r + noSampleMs t))"
  unfolding slot_deadlines_def
  by (cases "s_phase s"; cases "s_reboundAt s"; cases "s_readyAt s") auto

lemma gate_deadlines_iff:
  "x \<in> set (gate_deadlines t now g) \<longleftrightarrow> (\<exists>(key, h) \<in> set g. x \<in> set (host_deadlines t now h))"
  by (auto simp: gate_deadlines_def)

subsection \<open>After a tick every deadline is ahead\<close>

definition ahead :: "gate_timing \<Rightarrow> ms \<Rightarrow> slot option \<Rightarrow> bool" where
  "ahead t now so \<longleftrightarrow> (\<forall>s. so = Some s \<longrightarrow> (\<forall>d\<in>set (slot_deadlines t s). now < d))"

definition timing_positive :: "gate_timing \<Rightarrow> bool" where
  "timing_positive t \<longleftrightarrow> 0 < bootMs t \<and> 0 < settleCapMs t \<and> 0 < noSampleMs t \<and> 0 < humanWaitMs t
     \<and> 0 < reboundMs t \<and> 0 < agingWindowMs t"

lemma ahead_None [simp]: "ahead t now None"
  by (simp add: ahead_def)

lemma ahead_take: "timing_positive t \<Longrightarrow> ahead t now (slot (takeSlot now sid rid h))"
  by (simp add: ahead_def takeSlot_def slot_deadlines_def timing_positive_def)

lemma ahead_unexpired: "slot_expired t now s = None \<Longrightarrow> ahead t now (Some s)"
  by (cases "s_phase s") (auto simp: ahead_def slot_expired_def slot_deadlines_def split: option.splits if_splits)

lemma dispatch_frame:
  "criticalUntil (fst (dispatchReservation t now h)) = criticalUntil h"
  "agingWindowUntil (fst (dispatchReservation t now h)) = agingWindowUntil h"
  "timing_positive t \<Longrightarrow> ahead t now (slot h) \<Longrightarrow> ahead t now (slot (fst (dispatchReservation t now h)))"
  using ahead_take
  by (auto simp: dispatchReservation_def noteHumanGrant_def takeSlot_def split: option.split)

lemma refresh_frame:
  "criticalUntil (fst (refreshWaiting t now h)) = criticalUntil h"
  "agingWindowUntil (fst (refreshWaiting t now h)) = agingWindowUntil h"
  "slot (fst (refreshWaiting t now h)) = slot h"
  by (auto simp: refreshWaiting_def Let_def split: option.split)

lemma release_frame:
  "criticalUntil (fst (release t now key h)) = criticalUntil h"
  "timing_positive t \<Longrightarrow> ahead t now (slot (fst (release t now key h)))"
  "timing_positive t \<Longrightarrow> agingWindowUntil (fst (release t now key h)) = agingWindowUntil h \<or>
     (\<exists>w. agingWindowUntil (fst (release t now key h)) = Some w \<and> now < w)"
  using dispatch_frame [where h = "h\<lparr>slot := None\<rparr>"]
  by (auto simp: release_def Let_def timing_positive_def)

lemma anyway_frame:
  "criticalUntil (fst (deliverAnyway t now sid rid m h)) = criticalUntil h"
  "agingWindowUntil (fst (deliverAnyway t now sid rid m h)) = agingWindowUntil h"
  "timing_positive t \<Longrightarrow> ahead t now (slot h) \<Longrightarrow> ahead t now (slot (fst (deliverAnyway t now sid rid m h)))"
  using ahead_take by (auto simp: deliverAnyway_def noteHumanGrant_def takeSlot_def)

definition fresh_critical :: "ms \<Rightarrow> 'm host \<Rightarrow> bool" where
  "fresh_critical now h \<longleftrightarrow> criticalUntil h = None \<or> isCritical now h"

lemma fresh_critical_cong:
  "criticalUntil h' = criticalUntil h \<Longrightarrow> fresh_critical now h' = fresh_critical now h"
  by (simp add: fresh_critical_def isCritical_def)

lemma tick_critical_fresh: "fresh_critical now (fst (tick_critical t now key h))"
  by (auto simp: tick_critical_def split_beta criticalEnded_def Let_def fst_fx_then refresh_frame
      dispatch_frame fresh_critical_def isCritical_def split: option.split)

lemma tick_slot_ahead:
  assumes "timing_positive t"
  shows "ahead t now (slot (fst (tick_slot t now key h)))"
    and "criticalUntil (fst (tick_slot t now key h)) = criticalUntil h"
  using assms ahead_unexpired release_frame
  by (auto simp: tick_slot_def split_beta split: option.split)

lemma tick_window_frame:
  assumes "timing_positive t" and "ahead t now (slot h)"
  shows "ahead t now (slot (fst (tick_window t now h)))"
    and "criticalUntil (fst (tick_window t now h)) = criticalUntil h"
    and "agingWindowUntil (fst (tick_window t now h)) = Some w \<Longrightarrow> \<not> isCritical now h \<Longrightarrow> now < w"
  using assms dispatch_frame [where h = "h\<lparr>agingWindowUntil := None, humanStreak := 0\<rparr>"]
  by (auto simp: tick_window_def split: option.splits if_splits)

lemma tick_held_frame:
  assumes "timing_positive t" and "ahead t now (slot h)"
  shows "ahead t now (slot (fst (tick_held t now key h)))"
    and "criticalUntil (fst (tick_held t now key h)) = criticalUntil h"
    and "agingWindowUntil (fst (tick_held t now key h)) = agingWindowUntil h"
    and "reservation (fst (tick_held t now key h)) = Some held \<Longrightarrow> now < h_since held + humanWaitMs t"
  using assms anyway_frame [where h = "h\<lparr>reservation := None\<rparr>"]
  by (auto simp: tick_held_def split_beta split: option.splits if_splits)

lemma tick_host_ahead:
  assumes t: "timing_positive t" and d: "d \<in> set (host_deadlines t now (fst (tick_host t now key h)))"
  shows "now < d"
proof -
  define h1 where "h1 = fst (tick_critical t now key h)"
  define h2 where "h2 = fst (tick_slot t now key h1)"
  define h3 where "h3 = fst (tick_window t now h2)"
  define h4 where "h4 = fst (tick_held t now key h3)"
  have "fresh_critical now h1" by (simp add: h1_def tick_critical_fresh)
  moreover have a2: "ahead t now (slot h2)" and c2: "criticalUntil h2 = criticalUntil h1"
    by (simp_all add: h2_def tick_slot_ahead t)
  moreover have a3: "ahead t now (slot h3)" and c3: "criticalUntil h3 = criticalUntil h2"
    by (simp_all add: h3_def tick_window_frame [OF t a2])
  moreover have a4: "ahead t now (slot h4)" and c4: "criticalUntil h4 = criticalUntil h3"
    and w4: "agingWindowUntil h4 = agingWindowUntil h3"
    by (simp_all add: h4_def tick_held_frame [OF t a3])
  moreover have "now < w" if "agingWindowUntil h4 = Some w" "\<not> isCritical now h4" for w
    using tick_window_frame(3) [OF t a2] that w4 c4 c3 by (simp add: h3_def isCritical_def)
  moreover have "now < h_since x + humanWaitMs t" if "reservation h4 = Some x" for x
    using tick_held_frame(4) [OF t a3] that by (simp add: h4_def)
  ultimately have "\<forall>d\<in>set (host_deadlines t now h4). now < d"
    unfolding host_deadlines_iff Ball_def
    by (auto simp: ahead_def fresh_critical_def isCritical_def split: option.splits)
  moreover have "fst (tick_host t now key h) = h4"
    by (simp add: tick_host_def fst_fx_then h1_def h2_def h3_def h4_def)
  ultimately show ?thesis using d by simp
qed

subsection \<open>Before the deadline a tick does nothing\<close>

lemma tick_host_quiet:
  assumes le: "now0 \<le> now" and early: "\<forall>d\<in>set (host_deadlines t now0 h). now < d"
  shows "tick_host t now key h = (h, [])"
proof -
  have c: "now < x" if "criticalUntil h = Some x" for x
    using early that by (simp add: host_deadlines_iff)
  then have crit: "isCritical now h = isCritical now0 h"
    using le by (auto simp: isCritical_def split: option.split)
  have w: "now < x" if "agingWindowUntil h = Some x" "\<not> isCritical now h" for x
    using early that crit by (simp add: host_deadlines_iff)
  have "slot_expired t now s = None" if "slot h = Some s" for s
  proof -
    have "now < d" if "d \<in> set (slot_deadlines t s)" for d
      using early that \<open>slot h = Some s\<close> by (auto simp: host_deadlines_iff)
    then show ?thesis
      by (fastforce simp: slot_expired_def slot_deadlines_iff split: option.split)
  qed
  then have "tick_slot t now key h = (h, [])"
    by (simp add: tick_slot_def split: option.split)
  moreover have "tick_critical t now key h = (h, [])"
    using c by (simp add: tick_critical_def split: option.split)
  moreover have "tick_window t now h = (h, [])"
    using w by (auto simp: tick_window_def not_le split: option.split)
  moreover have "tick_held t now key h = (h, [])"
  proof (cases "reservation h")
    case (Some x)
    with early have "now < h_since x + humanWaitMs t" by (simp add: host_deadlines_iff)
    with Some show ?thesis by (simp add: tick_held_def)
  qed (simp add: tick_held_def)
  ultimately show ?thesis by (simp add: tick_host_def fx_then_id)
qed

end
