(* ===== verification/Capacity.thy ===== *)
theory Capacity
  imports Wire
begin

text \<open>
  \<open>packages/relay/src/admission/capacity.ts\<close>, \<open>classifyBoot.ts\<close> and \<open>hostKey.ts\<close>: how many devices
  automation may keep up on one Mac and which idle one goes, whether a boot costs a boot, and which
  Mac a session runs on. Pure functions of what the relay hands in.
\<close>

subsection \<open>The automation cap\<close>

record capacity_device =
  c_session :: string
  c_platform :: string
  c_automated :: bool
  c_booted :: bool
  c_inUse :: bool
  c_reachable :: bool
  c_bootedAt :: ms

datatype capacity_plan = Plan_ok "string list" \<comment> \<open>the sessions to evict\<close> | Plan_refused

definition deviceWeight :: "string \<Rightarrow> int" where
  "deviceWeight platform = (if platform = ''android'' then 2 else 1)"

definition defaultCap :: "int \<Rightarrow> int" where
  "defaultCap totalMB = min 8 (max 1 (totalMB div 1024 div 2))"

text \<open>What the cap may shut down: an automation device that is up, unused and reachable.\<close>

definition evictable :: "capacity_device \<Rightarrow> bool" where
  "evictable d \<longleftrightarrow> c_booted d \<and> \<not> c_inUse d \<and> c_reachable d"

definition idleToFree :: "capacity_device list \<Rightarrow> string \<Rightarrow> string option" where
  "idleToFree devices requesterId =
     (case filter (\<lambda>d. c_automated d \<and> evictable d \<and> c_session d \<noteq> requesterId) devices of
        [] \<Rightarrow> None
      | d # ds \<Rightarrow> Some (c_session (foldl (\<lambda>a b. if c_bootedAt b < c_bootedAt a then b else a) d ds)))"

definition counted :: "capacity_device list \<Rightarrow> string \<Rightarrow> capacity_device list" where
  "counted devices requesterId = filter (\<lambda>d. c_automated d \<and> c_session d \<noteq> requesterId) devices"

definition idle_of :: "capacity_device list \<Rightarrow> string \<Rightarrow> capacity_device list" where
  "idle_of devices requesterId =
     jsort (\<lambda>a b. c_bootedAt a - c_bootedAt b) (filter evictable (counted devices requesterId))"

definition weight_sum :: "capacity_device list \<Rightarrow> int" where
  "weight_sum ds = sum_list (map (\<lambda>d. deviceWeight (c_platform d)) ds)"

fun evict_until :: "int \<Rightarrow> capacity_device list \<Rightarrow> string list \<times> int" where
  "evict_until over [] = ([], over)"
| "evict_until over (d # ds) =
     (if over \<le> 0 then ([], over)
      else (let (evict, over') = evict_until (over - deviceWeight (c_platform d)) ds
            in (c_session d # evict, over')))"

definition planCapacity :: "capacity_device list \<Rightarrow> string \<Rightarrow> string \<Rightarrow> int \<Rightarrow> capacity_plan" where
  "planCapacity devices requesterId platform cap =
     (let over = weight_sum (counted devices requesterId) + deviceWeight platform - cap
      in if over \<le> 0 then Plan_ok []
         else (let (evict, left) = evict_until over (idle_of devices requesterId)
               in if left \<le> 0 then Plan_ok evict else Plan_refused))"

lemma deviceWeight_pos: "0 < deviceWeight p"
  by (simp add: deviceWeight_def)

lemma defaultCap_bounds: "1 \<le> defaultCap m \<and> defaultCap m \<le> 8"
  by (simp add: defaultCap_def)

lemma weight_sum_simps [simp]:
  "weight_sum [] = 0" "weight_sum (d # ds) = deviceWeight (c_platform d) + weight_sum ds"
  by (simp_all add: weight_sum_def)

text \<open>The loop stops at the first moment enough has gone.\<close>

lemma evict_until_take:
  "\<exists>n \<le> length ds. evict_until over ds = (map c_session (take n ds), over - weight_sum (take n ds))
     \<and> (\<forall>k < n. 0 < over - weight_sum (take k ds))
     \<and> (over - weight_sum (take n ds) \<le> 0 \<or> n = length ds)"
proof (induction ds arbitrary: over)
  case (Cons d ds)
  show ?case
  proof (cases "over \<le> 0")
    case False
    obtain n where n: "n \<le> length ds"
      "evict_until (over - deviceWeight (c_platform d)) ds
         = (map c_session (take n ds), over - deviceWeight (c_platform d) - weight_sum (take n ds))"
      "\<forall>k < n. 0 < over - deviceWeight (c_platform d) - weight_sum (take k ds)"
      "over - deviceWeight (c_platform d) - weight_sum (take n ds) \<le> 0 \<or> n = length ds"
      using Cons.IH [of "over - deviceWeight (c_platform d)"] by blast
    have "\<forall>k < Suc n. 0 < over - weight_sum (take k (d # ds))"
    proof (intro allI impI)
      fix k assume "k < Suc n"
      with False n(3) show "0 < over - weight_sum (take k (d # ds))"
        by (cases k) (auto simp: algebra_simps)
    qed
    with False n show ?thesis
      by (intro exI [of _ "Suc n"]) (auto simp: algebra_simps)
  qed (auto intro: exI [of _ 0])
qed simp

subsection \<open>Cold or warm\<close>

datatype reset_mode = App_only | Full_erase

datatype boot_cost = Boot_cold | Boot_warm

definition classifyBoot ::
    "device_status \<Rightarrow> reset_mode option \<Rightarrow> service_tier option \<Rightarrow> device_tier option \<Rightarrow> boot_cost" where
  "classifyBoot deviceStatus resetMode asked currentTier =
     (if deviceStatus \<noteq> Booted \<or> resetMode = Some Full_erase then Boot_cold
      else (case (asked, currentTier) of
              (Some tier, Some (Tier now)) \<Rightarrow>
                if \<not> sameServiceTier now tier then Boot_cold else Boot_warm
            | _ \<Rightarrow> Boot_warm))"

subsection \<open>Which Mac\<close>

text \<open>The first of two optional strings that is present and not empty, as \<open>||\<close> takes it.\<close>

definition or_else :: "string option \<Rightarrow> string option \<Rightarrow> string option" where
  "or_else a b = (case a of Some (c # cs) \<Rightarrow> a | _ \<Rightarrow> b)"

definition hostKeyOf :: "string \<Rightarrow> string option \<Rightarrow> string option \<Rightarrow> string" where
  "hostKeyOf sid agentId agentName =
     (case or_else agentId (or_else agentName None) of Some k \<Rightarrow> k | None \<Rightarrow> ''session:'' @ sid)"

lemma hostKeyOf_nonempty: "hostKeyOf sid a n \<noteq> []"
  by (auto simp: hostKeyOf_def or_else_def split: option.splits list.splits)

lemma hostKeyOf_agent: "a \<noteq> [] \<Longrightarrow> hostKeyOf sid (Some a) n = a"
  by (cases a) (simp_all add: hostKeyOf_def or_else_def)

subsection \<open>What the cap promises\<close>

lemma idle_of_mem:
  "d \<in> set (idle_of devices rid) \<longleftrightarrow>
     d \<in> set devices \<and> c_automated d \<and> evictable d \<and> c_session d \<noteq> rid"
  by (auto simp: idle_of_def counted_def)

lemma idle_of_sorted: "sorted_wrt (\<lambda>a b. c_bootedAt a \<le> c_bootedAt b) (idle_of devices rid)"
  using sorted_jsort [OF preorder_cmp_diff [of c_bootedAt]] by (simp add: idle_of_def)

text \<open>
  The devices the cap counts, and those of them that may go: automation's own, not the requester's, and of these the ones
  that are up, used by nobody and reachable.
\<close>

definition may_evict :: "capacity_device list \<Rightarrow> string \<Rightarrow> capacity_device \<Rightarrow> bool" where
  "may_evict devices rid d \<longleftrightarrow> d \<in> set devices \<and> c_automated d \<and> c_session d \<noteq> rid \<and> c_booted d \<and> \<not> c_inUse d \<and> c_reachable d"

definition load :: "capacity_device list \<Rightarrow> string \<Rightarrow> int" where
  "load devices rid = sum_list (map (\<lambda>d. deviceWeight (c_platform d)) (filter (\<lambda>d. c_automated d \<and> c_session d \<noteq> rid) devices))"

lemma load_is: "load devices rid = weight_sum (counted devices rid)"
  by (simp add: load_def weight_sum_def counted_def)

lemma may_evict_is: "may_evict devices rid d \<longleftrightarrow> d \<in> set (idle_of devices rid)"
  by (auto simp: may_evict_def idle_of_mem evictable_def)

lemma sum_list_perm: "mset xs = mset ys \<Longrightarrow> weight_sum xs = weight_sum ys"
  unfolding weight_sum_def by (metis mset_map sum_mset_sum_list)

lemma idle_weight: "weight_sum (idle_of devices rid)
    = sum_list (map (\<lambda>d. deviceWeight (c_platform d)) (filter (may_evict devices rid) devices))"
proof -
  have "filter evictable (counted devices rid) = filter (may_evict devices rid) devices"
    unfolding counted_def filter_filter by (rule filter_cong [OF refl]) (auto simp: may_evict_def evictable_def)
  moreover have "mset (idle_of devices rid) = mset (filter evictable (counted devices rid))" by (simp add: idle_of_def)
  ultimately have "weight_sum (idle_of devices rid) = weight_sum (filter (may_evict devices rid) devices)"
    using sum_list_perm [of "idle_of devices rid" "filter evictable (counted devices rid)"] by simp
  then show ?thesis by (simp only: weight_sum_def)
qed

lemma take_older:
  assumes "d \<in> set (take n (idle_of devices rid))" "e \<in> set (idle_of devices rid)" "e \<notin> set (take n (idle_of devices rid))"
  shows "c_bootedAt d \<le> c_bootedAt e"
proof -
  have "sorted_wrt (\<lambda>a b. c_bootedAt a \<le> c_bootedAt b) (take n (idle_of devices rid) @ drop n (idle_of devices rid))"
    using idle_of_sorted [of devices rid] by simp
  moreover have "e \<in> set (drop n (idle_of devices rid))" using assms(2,3) by (metis Un_iff append_take_drop_id set_append)
  ultimately show ?thesis using assms(1) unfolding sorted_wrt_append by blast
qed

text \<open>
  C19. The cap's plan. The devices it names may all go: automation's own, up, used by nobody, reachable and never the
  requester's; each is listed no later than one booted after it, and none that may go and stays has been up longer than one
  that goes. What stays fits under the cap with the requester, it would not if the last of them stayed too, and a refusal
  means that even shutting down every device that may go would not be enough.
\<close>
theorem capacity_plan_is_least:
  "case planCapacity devices rid platform cap of
     Plan_ok evict \<Rightarrow>
       \<exists>ds. evict = map c_session ds \<and> mset ds \<subseteq># mset devices \<and> (\<forall>d \<in> set ds. may_evict devices rid d)
         \<and> sorted_wrt (\<lambda>a b. c_bootedAt a \<le> c_bootedAt b) ds
         \<and> (\<forall>d \<in> set ds. \<forall>e. may_evict devices rid e \<and> e \<notin> set ds \<longrightarrow> c_bootedAt d \<le> c_bootedAt e)
         \<and> load devices rid - weight_sum ds + deviceWeight platform \<le> cap
         \<and> (ds \<noteq> [] \<longrightarrow> cap < load devices rid - weight_sum (butlast ds) + deviceWeight platform)
   | Plan_refused \<Rightarrow>
       cap < load devices rid + deviceWeight platform
         - sum_list (map (\<lambda>d. deviceWeight (c_platform d)) (filter (may_evict devices rid) devices))"
proof -
  define over where "over = load devices rid + deviceWeight platform - cap"
  define idle where "idle = idle_of devices rid"
  obtain n where n: "n \<le> length idle"
    "evict_until over idle = (map c_session (take n idle), over - weight_sum (take n idle))"
    "\<forall>k < n. 0 < over - weight_sum (take k idle)"
    "over - weight_sum (take n idle) \<le> 0 \<or> n = length idle"
    using evict_until_take [of idle over] by blast
  have plan: "planCapacity devices rid platform cap =
      (if over \<le> 0 then Plan_ok [] else if over - weight_sum (take n idle) \<le> 0 then Plan_ok (map c_session (take n idle)) else Plan_refused)"
    using n(2) by (simp add: planCapacity_def Let_def over_def idle_def load_is)
  have gone: "\<forall>d \<in> set (take n idle). may_evict devices rid d" unfolding may_evict_is idle_def by (auto dest: in_set_takeD)
  have part: "mset (take n idle) \<subseteq># mset devices"
  proof -
    have "mset (take n idle) \<subseteq># mset (take n idle) + mset (drop n idle)" by simp
    then have "mset (take n idle) \<subseteq># mset idle" by (simp flip: mset_append)
    also have "mset idle \<subseteq># mset devices"
      by (simp add: idle_def idle_of_def counted_def)
    finally show ?thesis .
  qed
  have order: "sorted_wrt (\<lambda>a b. c_bootedAt a \<le> c_bootedAt b) (take n idle)"
    using idle_of_sorted [of devices rid] by (simp add: idle_def sorted_wrt_take)
  have oldest: "\<forall>d \<in> set (take n idle). \<forall>e. may_evict devices rid e \<and> e \<notin> set (take n idle) \<longrightarrow> c_bootedAt d \<le> c_bootedAt e"
    using take_older unfolding may_evict_is idle_def by blast
  have least: "cap < load devices rid - weight_sum (butlast (take n idle)) + deviceWeight platform" if "take n idle \<noteq> []"
  proof -
    have "n - 1 < n" using that by (cases n) simp_all
    moreover have "butlast (take n idle) = take (n - 1) idle" using n(1) by (simp add: butlast_take)
    ultimately have "0 < over - weight_sum (butlast (take n idle))" using n(3) by (simp only:)
    then show ?thesis by (simp add: over_def)
  qed
  show ?thesis
  proof (cases "over \<le> 0")
    case True
    then have "load devices rid - weight_sum [] + deviceWeight platform \<le> cap" by (simp add: over_def weight_sum_def)
    then show ?thesis unfolding plan using True by (simp only: if_True capacity_plan.case) (rule exI [of _ "[]"], simp)
  next
    case False
    show ?thesis
    proof (cases "over - weight_sum (take n idle) \<le> 0")
      case kept: True
      then have "load devices rid - weight_sum (take n idle) + deviceWeight platform \<le> cap" by (simp add: over_def)
      with part gone order oldest least have "\<exists>ds. map c_session (take n idle) = map c_session ds \<and> mset ds \<subseteq># mset devices
        \<and> (\<forall>d \<in> set ds. may_evict devices rid d) \<and> sorted_wrt (\<lambda>a b. c_bootedAt a \<le> c_bootedAt b) ds
        \<and> (\<forall>d \<in> set ds. \<forall>e. may_evict devices rid e \<and> e \<notin> set ds \<longrightarrow> c_bootedAt d \<le> c_bootedAt e)
        \<and> load devices rid - weight_sum ds + deviceWeight platform \<le> cap
        \<and> (ds \<noteq> [] \<longrightarrow> cap < load devices rid - weight_sum (butlast ds) + deviceWeight platform)"
        by (intro exI [of _ "take n idle"] conjI impI) (rule refl | assumption)+
      with False kept show ?thesis unfolding plan by (simp only: if_False if_True capacity_plan.case)
    next
      case left: False
      with n(4) have "n = length idle" by simp
      with left False show ?thesis unfolding plan by (simp add: over_def idle_def idle_weight)
    qed
  qed
qed

text \<open>Two idle devices, and one in use that is older than both: the older of the two goes.\<close>

definition demo_devices :: "capacity_device list" where
  "demo_devices =
     [\<lparr>c_session = ''new'', c_platform = ''ios'', c_automated = True, c_booted = True, c_inUse = False, c_reachable = True, c_bootedAt = 3\<rparr>,
      \<lparr>c_session = ''busy'', c_platform = ''ios'', c_automated = True, c_booted = True, c_inUse = True, c_reachable = True, c_bootedAt = 1\<rparr>,
      \<lparr>c_session = ''old'', c_platform = ''ios'', c_automated = True, c_booted = True, c_inUse = False, c_reachable = True, c_bootedAt = 2\<rparr>]"

theorem capacity_plan_is_least_witness:
  "planCapacity demo_devices ''me'' ''ios'' 3 = Plan_ok [''old'']
   \<and> (\<exists>ds. [''old''] = map c_session ds \<and> load demo_devices ''me'' - weight_sum ds + deviceWeight ''ios'' \<le> 3)"
proof -
  have plan: "planCapacity demo_devices ''me'' ''ios'' 3 = Plan_ok [''old'']" by code_simp
  obtain ds where "[''old''] = map c_session ds" "load demo_devices ''me'' - weight_sum ds + deviceWeight ''ios'' \<le> 3"
    using capacity_plan_is_least [of demo_devices "''me''" "''ios''" 3] unfolding plan capacity_plan.case by (elim exE conjE)
  with plan show ?thesis by (intro conjI exI [of _ ds])
qed

lemma foldl_oldest:
  "foldl (\<lambda>a b. if c_bootedAt b < c_bootedAt a then b else a) d ds \<in> set (d # ds)
   \<and> (\<forall>x \<in> set (d # ds). c_bootedAt (foldl (\<lambda>a b. if c_bootedAt b < c_bootedAt a then b else a) d ds) \<le> c_bootedAt x)"
proof (induction ds arbitrary: d)
  case (Cons e ds)
  from Cons.IH [of e] Cons.IH [of d] show ?case by (auto split: if_splits)
qed simp

text \<open>
  What critical memory frees is one device at most: an idle reachable automation device other
  than the requester's, and the one that has been up longest; nothing is named only if there is none.
\<close>
theorem idle_to_free_is_oldest:
  "case idleToFree devices rid of
     Some sid \<Rightarrow> \<exists>d \<in> set devices. c_session d = sid \<and> c_automated d \<and> evictable d \<and> sid \<noteq> rid
        \<and> (\<forall>e \<in> set devices. c_automated e \<longrightarrow> evictable e \<longrightarrow> c_session e \<noteq> rid \<longrightarrow> c_bootedAt d \<le> c_bootedAt e)
   | None \<Rightarrow> \<forall>e \<in> set devices. \<not> (c_automated e \<and> evictable e \<and> c_session e \<noteq> rid)"
proof (cases "filter (\<lambda>d. c_automated d \<and> evictable d \<and> c_session d \<noteq> rid) devices")
  case Nil
  then show ?thesis by (auto simp: idleToFree_def filter_empty_conv)
next
  case (Cons d ds)
  have in_iff: "x \<in> set (d # ds) \<longleftrightarrow> x \<in> set devices \<and> c_automated x \<and> evictable x \<and> c_session x \<noteq> rid" for x
    unfolding Cons [symmetric] by auto
  let ?o = "foldl (\<lambda>a b. if c_bootedAt b < c_bootedAt a then b else a) d ds"
  have "?o \<in> set (d # ds)" and "\<forall>x \<in> set (d # ds). c_bootedAt ?o \<le> c_bootedAt x"
    using foldl_oldest by blast+
  then show ?thesis
    unfolding idleToFree_def Cons list.case option.case in_iff Ball_def by blast
qed

theorem idle_to_free_is_oldest_witness:
  "\<exists>d \<in> {\<lparr>c_session = ''a'', c_platform = ''ios'', c_automated = True, c_booted = True, c_inUse = False,
      c_reachable = True, c_bootedAt = 5\<rparr>}. c_session d = ''a'' \<and> evictable d"
  using idle_to_free_is_oldest [where rid = "''b''" and devices = "[\<lparr>c_session = ''a'', c_platform = ''ios'', c_automated = True,
      c_booted = True, c_inUse = False, c_reachable = True, c_bootedAt = 5\<rparr>]"]
  by (simp add: idleToFree_def evictable_def)

text \<open>
  A boot is warm exactly when the relay last heard the device is up, it is not erased, and, where
  the asked tier and the device's are both known, they switch off the same services.
\<close>
theorem classify_boot_warm_iff:
  "classifyBoot status mode asked tier = Boot_warm \<longleftrightarrow>
     status = Booted \<and> mode \<noteq> Some Full_erase
     \<and> (\<forall>a. \<forall>b. asked = Some a \<and> tier = Some (Tier b) \<longrightarrow>
          tier_name a = tier_name b \<and> (tier_name a = Stock \<or> set (tier_keep a) = set (tier_keep b)))"
  by (auto simp: classifyBoot_def sameServiceTier_iff split: option.split device_tier.split)

theorem classify_boot_warm_iff_witness:
  "tier_name (\<lparr>tier_name = Slim, tier_keep = [''push'']\<rparr>) = tier_name (\<lparr>tier_name = Slim, tier_keep = [''push'', ''push'']\<rparr>)
   \<and> classifyBoot Booted None (Some \<lparr>tier_name = Slim, tier_keep = [''push'']\<rparr>)
       (Some (Tier \<lparr>tier_name = Slim, tier_keep = [''push'', ''push'']\<rparr>)) = Boot_warm"
  using classify_boot_warm_iff [of Booted None "Some \<lparr>tier_name = Slim, tier_keep = [''push'']\<rparr>"
      "Some (Tier \<lparr>tier_name = Slim, tier_keep = [''push'', ''push'']\<rparr>)"]
  by simp

end
