(* ===== verification/Lease.thy ===== *)
theory Lease
  imports Wire
begin

text \<open>
  \<open>packages/relay/src/admission/leaseChoice.ts\<close>: which device a lease takes, and what to say when
  none can be taken. A reading a Mac has not made is \<open>None\<close>, as the code's \<open>null\<close>; the code's
  \<open>Infinity - Infinity\<close> is \<open>NaN\<close>, which \<open>||\<close> and \<open>sort\<close> take as no difference.
\<close>

record lease_candidate =
  l_session :: string
  l_host :: string
  l_pool :: bool
  l_bootedAt :: ms
  l_refusal :: "admission_refusal option"

record lease_host =
  l_freeMB :: "rat option"
  l_cpu :: "rat option"
  l_automated :: int

datatype lease_choice =
  Lease_ok string
| Lease_refused admission_refusal "string option" \<comment> \<open>the reason, and the Mac to free a device on\<close>

definition WAIT_ORDER :: "admission_refusal list" where
  "WAIT_ORDER = [Boot_refusal Host_booting, Boot_refusal Host_at_capacity,
     Agent_resources_exhausted, Boot_refusal Host_memory_critical]"

text \<open>The sign of a difference, which is all \<open>sort\<close> and \<open>||\<close> read of it.\<close>

definition diff_sign :: "'a::linorder \<Rightarrow> 'a \<Rightarrow> int" where
  "diff_sign x y = (if x < y then -1 else if x = y then 0 else 1)"

definition hosts_free :: "(string \<times> lease_host) list \<Rightarrow> lease_candidate \<Rightarrow> rat option" where
  "hosts_free hosts c = Option.bind (jget hosts (l_host c)) l_freeMB"

definition byRoom :: "(string \<times> lease_host) list \<Rightarrow> lease_candidate \<Rightarrow> lease_candidate \<Rightarrow> int" where
  "byRoom hosts a b =
     (case (hosts_free hosts a, hosts_free hosts b) of
        (None, None) \<Rightarrow> 0
      | (None, Some _) \<Rightarrow> 1
      | (Some _, None) \<Rightarrow> -1
      | (Some ra, Some rb) \<Rightarrow> diff_sign rb ra)"

text \<open>\<open>cpu(a) - cpu(b)\<close>, where a Mac that has not reported counts as \<open>Infinity\<close>.\<close>

definition byCpu :: "(string \<times> lease_host) list \<Rightarrow> lease_candidate \<Rightarrow> lease_candidate \<Rightarrow> int" where
  "byCpu hosts a b =
     (case (Option.bind (jget hosts (l_host a)) l_cpu, Option.bind (jget hosts (l_host b)) l_cpu) of
        (None, None) \<Rightarrow> 0
      | (None, Some _) \<Rightarrow> 1
      | (Some _, None) \<Rightarrow> -1
      | (Some ca, Some cb) \<Rightarrow> diff_sign ca cb)"

definition automated_on :: "(string \<times> lease_host) list \<Rightarrow> lease_candidate \<Rightarrow> int" where
  "automated_on hosts c = (case jget hosts (l_host c) of Some h \<Rightarrow> l_automated h | None \<Rightarrow> 0)"

text \<open>JavaScript's \<open>f || g\<close> of two comparisons.\<close>

definition then_by :: "('a \<Rightarrow> 'a \<Rightarrow> int) \<Rightarrow> ('a \<Rightarrow> 'a \<Rightarrow> int) \<Rightarrow> 'a \<Rightarrow> 'a \<Rightarrow> int" where
  "then_by f g x y = (if f x y \<noteq> 0 then f x y else g x y)"

definition pool_order :: "(string \<times> lease_host) list \<Rightarrow> lease_candidate \<Rightarrow> lease_candidate \<Rightarrow> int" where
  "pool_order hosts = then_by (byRoom hosts) (\<lambda>a b. l_bootedAt a - l_bootedAt b)"

definition boot_order :: "(string \<times> lease_host) list \<Rightarrow> lease_candidate \<Rightarrow> lease_candidate \<Rightarrow> int" where
  "boot_order hosts = then_by (byRoom hosts)
     (then_by (byCpu hosts) (\<lambda>a b. automated_on hosts a - automated_on hosts b))"

text \<open>\<open>(free(b) ?? -Infinity) - (free(a) ?? -Infinity)\<close>.\<close>

definition most_free :: "(string \<times> lease_host) list \<Rightarrow> lease_candidate \<Rightarrow> lease_candidate \<Rightarrow> int" where
  "most_free hosts a b =
     (case (hosts_free hosts b, hosts_free hosts a) of
        (None, None) \<Rightarrow> 0
      | (None, Some _) \<Rightarrow> -1
      | (Some _, None) \<Rightarrow> 1
      | (Some fb, Some fa) \<Rightarrow> diff_sign fb fa)"

definition chooseLease :: "lease_candidate list \<Rightarrow> (string \<times> lease_host) list \<Rightarrow> lease_choice" where
  "chooseLease candidates hosts =
     (let available = filter (\<lambda>c. l_refusal c = None) candidates in
      if available \<noteq> [] then
        (let pool = jsort (pool_order hosts) (filter l_pool available) in
         if pool \<noteq> [] then Lease_ok (l_session (hd pool))
         else Lease_ok (l_session (hd (jsort (boot_order hosts) available))))
      else
        (let refused = filter (\<lambda>c. l_refusal c \<noteq> None) candidates;
             reason = (case find (\<lambda>r. list_ex (\<lambda>c. l_refusal c = Some r) refused) WAIT_ORDER of
                         Some r \<Rightarrow> r | None \<Rightarrow> Boot_refusal Host_booting)
         in if reason \<noteq> Boot_refusal Host_memory_critical then Lease_refused reason None
            else (case jsort (most_free hosts)
                         (filter (\<lambda>c. l_refusal c = Some (Boot_refusal Host_memory_critical)) refused) of
                    best # _ \<Rightarrow> Lease_refused reason (Some (l_host best))
                  | [] \<Rightarrow> Lease_refused reason None)))"

subsection \<open>The orders are orders\<close>

lemma diff_sign_simps [simp]:
  "diff_sign x y \<le> 0 \<longleftrightarrow> x \<le> y" "diff_sign x y = 0 \<longleftrightarrow> x = y" "diff_sign x x = 0"
  by (auto simp: diff_sign_def)

lemma diff_sign_anti: "diff_sign y x = - diff_sign x y"
  by (auto simp: diff_sign_def)

lemma byRoom_cmp: "preorder_cmp (byRoom hosts)" "byRoom hosts y x = - byRoom hosts x y"
  using diff_sign_anti
  by (auto simp: preorder_cmp_def byRoom_def split: option.splits)

lemma byCpu_cmp: "preorder_cmp (byCpu hosts)" "byCpu hosts y x = - byCpu hosts x y"
  using diff_sign_anti
  by (auto simp: preorder_cmp_def byCpu_def split: option.splits)

lemma most_free_cmp: "preorder_cmp (most_free hosts)"
  by (auto simp: preorder_cmp_def most_free_def split: option.splits)

lemma then_by_cmp:
  assumes "preorder_cmp f" "preorder_cmp g" "\<And>x y. f y x = - f x y"
  shows "preorder_cmp (then_by f g)"
  using preorder_cmp_lex [OF assms] by (simp add: then_by_def [abs_def])

lemma pool_order_cmp: "preorder_cmp (pool_order hosts)"
  unfolding pool_order_def by (intro then_by_cmp byRoom_cmp preorder_cmp_diff)

lemma boot_order_cmp: "preorder_cmp (boot_order hosts)"
  unfolding boot_order_def by (intro then_by_cmp byRoom_cmp byCpu_cmp preorder_cmp_diff)

lemma reason_cases:
  obtains "r = Boot_refusal Host_booting" | "r = Boot_refusal Host_at_capacity"
    | "r = Agent_resources_exhausted" | "r = Boot_refusal Host_memory_critical"
  by (cases r; cases "case r of Boot_refusal b \<Rightarrow> b") (auto split: admission_refusal.splits)

subsection \<open>What a lease takes\<close>

text \<open>
  C22. A lease takes a device that was not refused. One already up wins over any boot, and among the
  pool, or among the boots when there is no pool, no other goes before it: not one on a Mac with more
  memory left, then not one up longer (or on an idler Mac, or one running fewer devices).
\<close>
theorem lease_takes_the_best:
  "case chooseLease candidates hosts of
     Lease_ok sid \<Rightarrow>
       (\<exists>c \<in> set candidates. l_session c = sid \<and> l_refusal c = None
         \<and> (\<forall>d \<in> set candidates. l_refusal d = None \<longrightarrow>
              (l_pool d \<longrightarrow> l_pool c) \<and>
              (l_pool c = l_pool d \<longrightarrow> (if l_pool c then pool_order hosts c d else boot_order hosts c d) \<le> 0)))
   | Lease_refused _ _ \<Rightarrow> \<forall>c \<in> set candidates. l_refusal c \<noteq> None"
proof -
  let ?avail = "filter (\<lambda>c. l_refusal c = None) candidates"
  let ?pool = "filter l_pool ?avail"
  consider "?avail = []" | "?avail \<noteq> []" "?pool = []" | "?pool \<noteq> []" by auto
  then show ?thesis
  proof cases
    case 1
    then show ?thesis
      by (auto simp: chooseLease_def Let_def filter_empty_conv split: list.split lease_choice.split)
  next
    case 2
    let ?c = "hd (jsort (boot_order hosts) ?avail)"
    have "?c \<in> set ?avail" using 2(1) by (metis jsort_Nil_iff list.set_sel(1) set_jsort)
    moreover have "boot_order hosts ?c d \<le> 0" if "d \<in> set candidates" "l_refusal d = None" for d
      using jsort_hd_least(2) [OF boot_order_cmp, of d ?avail] that by simp
    moreover have "\<forall>d \<in> set candidates. l_refusal d = None \<longrightarrow> \<not> l_pool d"
      using 2(2) by (auto simp: filter_empty_conv)
    ultimately show ?thesis using 2 by (auto simp: chooseLease_def Let_def)
  next
    case 3
    let ?c = "hd (jsort (pool_order hosts) ?pool)"
    have "?c \<in> set ?pool" using 3 by (metis jsort_Nil_iff list.set_sel(1) set_jsort)
    moreover have "pool_order hosts ?c d \<le> 0" if "d \<in> set ?pool" for d
      using jsort_hd_least(2) [OF pool_order_cmp that] .
    ultimately have "\<exists>c \<in> set candidates. l_session c = l_session ?c \<and> l_refusal c = None \<and> l_pool c
        \<and> (\<forall>d \<in> set candidates. l_refusal d = None \<longrightarrow> l_pool d \<longrightarrow> pool_order hosts c d \<le> 0)"
      by (intro bexI [of _ ?c]) auto
    moreover have "chooseLease candidates hosts = Lease_ok (l_session ?c)"
    proof -
      have "?avail \<noteq> []" using 3 by (metis filter.simps(1))
      with 3 show ?thesis by (simp only: chooseLease_def Let_def jsort_Nil_iff simp_thms if_True)
    qed
    ultimately show ?thesis by auto
  qed
qed

theorem lease_takes_the_best_witness:
  "\<exists>c \<in> {\<lparr>l_session = ''up'', l_host = ''m2'', l_pool = True, l_bootedAt = 9, l_refusal = None\<rparr>}. l_pool c"
  using lease_takes_the_best [where hosts = "[(''m1'', \<lparr>l_freeMB = Some 4096, l_cpu = None, l_automated = 0\<rparr>)]" and
    candidates = "[\<lparr>l_session = ''cold'', l_host = ''m1'', l_pool = False, l_bootedAt = 0, l_refusal = None\<rparr>,
      \<lparr>l_session = ''up'', l_host = ''m2'', l_pool = True, l_bootedAt = 9, l_refusal = None\<rparr>]"]
  by (simp add: chooseLease_def jsort_def)

text \<open>
  A refused lease names the refusal a client is likeliest to see lift: the first reason of
  \<open>WAIT_ORDER\<close> that some candidate was refused for (\<open>host-booting\<close> when there was no candidate at
  all). A Mac to free a device on is named exactly when every candidate was refused for critical
  memory, and it is one of theirs with the most memory left.
\<close>
theorem lease_refusal_is_first_to_lift:
  assumes "chooseLease candidates hosts = Lease_refused reason mac"
  shows "(candidates = [] \<and> reason = Boot_refusal Host_booting \<or>
       (\<exists>c \<in> set candidates. l_refusal c = Some reason) \<and>
       (\<forall>r \<in> set (takeWhile (\<lambda>r. r \<noteq> reason) WAIT_ORDER). \<forall>c \<in> set candidates. l_refusal c \<noteq> Some r))
     \<and> (mac \<noteq> None \<longleftrightarrow> candidates \<noteq> [] \<and>
          (\<forall>c \<in> set candidates. l_refusal c = Some (Boot_refusal Host_memory_critical)))
     \<and> (\<forall>k. mac = Some k \<longrightarrow> (\<exists>c \<in> set candidates. l_host c = k
          \<and> (\<forall>d \<in> set candidates. most_free hosts c d \<le> 0)))"
proof -
  let ?has = "\<lambda>r. list_ex (\<lambda>c. l_refusal c = Some r) candidates"
  let ?crit = "filter (\<lambda>c. l_refusal c = Some (Boot_refusal Host_memory_critical)) candidates"
  have all: "\<forall>c \<in> set candidates. l_refusal c \<noteq> None"
    using assms by (auto simp: chooseLease_def Let_def filter_empty_conv split: if_splits)
  have some: "l_refusal c = Some r \<Longrightarrow> c \<in> set candidates \<Longrightarrow> ?has r" for c r
    by (auto simp: list_ex_iff)
  have eq: "chooseLease candidates hosts =
      (let r = (case find ?has WAIT_ORDER of Some r \<Rightarrow> r | None \<Rightarrow> Boot_refusal Host_booting)
       in if r \<noteq> Boot_refusal Host_memory_critical then Lease_refused r None
          else (case jsort (most_free hosts) ?crit of
                  best # _ \<Rightarrow> Lease_refused r (Some (l_host best)) | [] \<Rightarrow> Lease_refused r None))"
    using all by (simp add: chooseLease_def Let_def filter_id_conv [THEN iffD2] cong: filter_cong)
  show ?thesis
  proof (cases "find ?has WAIT_ORDER")
    case None
    then have "\<not> ?has q" if "q \<in> set WAIT_ORDER" for q using that by (simp only: find_None_iff) blast
    then have "\<not> ?has r" for r
      by (cases r rule: reason_cases) (simp_all add: WAIT_ORDER_def)
    with all some have "candidates = []" by (cases candidates) fastforce+
    with assms show ?thesis unfolding eq None by (auto simp: Let_def)
  next
    case (Some r)
    then have "?has r" and before: "\<forall>q \<in> set (takeWhile (\<lambda>q. q \<noteq> r) WAIT_ORDER). \<not> ?has q"
      by (auto dest: find_Some_first)
    then obtain c where c: "c \<in> set candidates" "l_refusal c = Some r"
      by (auto simp: list_ex_iff)
    have R: "reason = r" using assms unfolding eq Some by (auto simp: Let_def split: if_splits list.splits)
    show ?thesis
    proof (cases "r = Boot_refusal Host_memory_critical")
      case False
      then have "mac = None" using assms unfolding eq Some by (simp add: Let_def)
      with False c before R show ?thesis by (auto simp: list_ex_iff)
    next
      case True
      have "l_refusal d = Some r" if d: "d \<in> set candidates" for d
      proof -
        obtain q where q: "l_refusal d = Some q" using all d by auto
        with before d True show ?thesis
          by (cases q rule: reason_cases) (auto simp: WAIT_ORDER_def list_ex_iff)
      qed
      with True have crit: "?crit = candidates" and ne: "candidates \<noteq> []" using c by (auto simp: filter_id_conv)
      let ?b = "hd (jsort (most_free hosts) candidates)"
      have b: "?b \<in> set candidates" "\<And>d. d \<in> set candidates \<Longrightarrow> most_free hosts ?b d \<le> 0"
        using jsort_hd_least [OF most_free_cmp] c(1) by blast+
      have "mac = Some (l_host ?b)"
        using assms True ne unfolding eq Some crit by (auto simp: Let_def split: list.splits)
      with True c R before b crit ne show ?thesis
        by (auto simp: list_ex_iff filter_id_conv)
    qed
  qed
qed

theorem lease_refusal_is_first_to_lift_witness:
  "\<exists>c \<in> {\<lparr>l_session = ''s'', l_host = ''m1'', l_pool = False, l_bootedAt = 0,
      l_refusal = Some (Boot_refusal Host_memory_critical)\<rparr>}. l_host c = ''m1''"
  using lease_refusal_is_first_to_lift [where hosts = "[]" and mac = "Some ''m1''"
    and reason = "Boot_refusal Host_memory_critical" and
    candidates = "[\<lparr>l_session = ''s'', l_host = ''m1'', l_pool = False, l_bootedAt = 0,
      l_refusal = Some (Boot_refusal Host_memory_critical)\<rparr>]"]
  by (simp add: chooseLease_def jsort_def WAIT_ORDER_def)

end
