(* ===== verification/Socket_Index.thy ===== *)
theory Socket_Index
  imports Prelude
begin

text \<open>
  A reverse index of \<open>SessionManager\<close>: from a socket to the set of sessions it stands for, with the
  key dropped when its set empties. Three of the manager's maps have this shape, and the same code is
  written out for each. A JavaScript \<open>Set\<close> keeps insertion order, so it is a list without repetition.
\<close>

type_synonym ('k, 'v) index = "('k \<times> 'v list) list"

definition set_add :: "'v \<Rightarrow> 'v list \<Rightarrow> 'v list" where
  "set_add x xs = (if x \<in> set xs then xs else xs @ [x])"

definition members :: "('k, 'v) index \<Rightarrow> 'k \<Rightarrow> 'v list" where
  "members ix k = (case jget ix k of Some xs \<Rightarrow> xs | None \<Rightarrow> [])"

definition idx_add :: "'k \<Rightarrow> 'v \<Rightarrow> ('k, 'v) index \<Rightarrow> ('k, 'v) index" where
  "idx_add k x ix = jset k (set_add x (members ix k)) ix"

definition idx_del :: "'k \<Rightarrow> 'v \<Rightarrow> ('k, 'v) index \<Rightarrow> ('k, 'v) index" where
  "idx_del k x ix =
     (case jget ix k of
        None \<Rightarrow> ix
      | Some xs \<Rightarrow> (let left = removeAll x xs in if left = [] then jdel k ix else jset k left ix))"

definition idx_wf :: "('k, 'v) index \<Rightarrow> bool" where
  "idx_wf ix \<longleftrightarrow> jwf ix \<and> (\<forall>k xs. jget ix k = Some xs \<longrightarrow> xs \<noteq> [] \<and> distinct xs)"

subsection \<open>The interface the manager relies on\<close>

locale reverse_index =
  fixes mem :: "'i \<Rightarrow> 'k \<Rightarrow> 'v list"
    and add :: "'k \<Rightarrow> 'v \<Rightarrow> 'i \<Rightarrow> 'i"
    and del :: "'k \<Rightarrow> 'v \<Rightarrow> 'i \<Rightarrow> 'i"
    and has_key :: "'i \<Rightarrow> 'k \<Rightarrow> bool"
    and wf :: "'i \<Rightarrow> bool"
  assumes mem_add: "set (mem (add k x i) j) = (if j = k then insert x (set (mem i j)) else set (mem i j))"
    and mem_del: "wf i \<Longrightarrow> set (mem (del k x i) j) = (if j = k then set (mem i j) - {x} else set (mem i j))"
    and wf_add: "wf i \<Longrightarrow> wf (add k x i)"
    and wf_del: "wf i \<Longrightarrow> wf (del k x i)"
    and has_key_mem: "wf i \<Longrightarrow> has_key i k \<longleftrightarrow> mem i k \<noteq> []"
begin

text \<open>The index holds exactly the pairs of a relation between sessions and sockets.\<close>

definition tracks :: "'i \<Rightarrow> ('v \<Rightarrow> 'k \<Rightarrow> bool) \<Rightarrow> bool" where
  "tracks i R \<longleftrightarrow> wf i \<and> (\<forall>k x. x \<in> set (mem i k) \<longleftrightarrow> R x k)"

lemma tracks_add:
  assumes "tracks i R" and "\<And>y j. R' y j \<longleftrightarrow> (y = x \<and> j = k) \<or> R y j"
  shows "tracks (add k x i) R'"
  using assms by (auto simp: tracks_def wf_add mem_add)

lemma tracks_del:
  assumes "tracks i R" and "\<And>y j. R' y j \<longleftrightarrow> \<not> (y = x \<and> j = k) \<and> R y j"
  shows "tracks (del k x i) R'"
  using assms by (auto simp: tracks_def wf_del mem_del)

lemma tracks_same: "tracks i R \<Longrightarrow> (\<And>y j. R' y j \<longleftrightarrow> R y j) \<Longrightarrow> tracks i R'"
  by (simp add: tracks_def)

text \<open>Moving one entry, in the order the code keeps: out of the old set first, then into the new.\<close>

lemma tracks_move:
  assumes "tracks i R" and "\<And>y j. R' y j \<longleftrightarrow> (y = x \<and> j = new) \<or> \<not> (y = x \<and> j = old) \<and> R y j"
  shows "tracks (add new x (del old x i)) R'"
proof (rule tracks_add)
  show "tracks (del old x i) (\<lambda>y j. \<not> (y = x \<and> j = old) \<and> R y j)"
    using assms(1) by (rule tracks_del) blast
qed (use assms(2) in blast)

text \<open>A socket has a key exactly when some session is its: nothing is left behind for a closed one.\<close>

lemma tracks_has_key: "tracks i R \<Longrightarrow> has_key i k \<longleftrightarrow> (\<exists>x. R x k)"
  by (metis has_key_mem list.set_intros(1) neq_Nil_conv set_empty tracks_def empty_iff)

lemma tracks_mem: "tracks i R \<Longrightarrow> x \<in> set (mem i k) \<longleftrightarrow> R x k"
  by (simp add: tracks_def)

end

subsection \<open>The code's index provides it\<close>

lemma set_set_add [simp]: "set (set_add x xs) = insert x (set xs)"
  by (auto simp: set_add_def)

lemma set_add_neq [simp]: "set_add x xs \<noteq> []"
  by (auto simp: set_add_def)

lemma distinct_set_add: "distinct xs \<Longrightarrow> distinct (set_add x xs)"
  by (simp add: set_add_def)

lemma members_jset: "members (jset k xs ix) j = (if j = k then xs else members ix j)"
  by (simp add: members_def jmap_simps)

lemma members_jdel: "jwf ix \<Longrightarrow> members (jdel k ix) j = (if j = k then [] else members ix j)"
  by (simp add: members_def jm.get_del)

lemma members_del:
  "jwf ix \<Longrightarrow> members (idx_del k x ix) j = (if j = k then removeAll x (members ix j) else members ix j)"
  by (cases "jget ix k") (auto simp: idx_del_def Let_def members_jset members_jdel, auto simp: members_def)

lemma idx_wf_add: "idx_wf ix \<Longrightarrow> idx_wf (idx_add k x ix)"
  by (auto simp: idx_wf_def idx_add_def jm.wf_put jm.get_put members_def distinct_set_add
      split: option.splits if_splits)

lemma idx_wf_del: "idx_wf ix \<Longrightarrow> idx_wf (idx_del k x ix)"
  by (auto simp: idx_wf_def idx_del_def Let_def jm.wf_put jm.wf_del jm.get_put jm.get_del distinct_removeAll
      simp del: map_of_eq_Some_iff split: option.splits if_splits)

interpretation si: reverse_index members idx_add idx_del "\<lambda>ix k. jget ix k \<noteq> None" idx_wf
proof (unfold_locales, goal_cases)
  case (1 k x i j)
  then show ?case by (simp add: idx_add_def members_jset)
next
  case (2 i k x j)
  then show ?case by (simp add: idx_wf_def members_del)
next
  case (5 i k)
  then show ?case by (auto simp: idx_wf_def members_def split: option.splits)
qed (auto simp: idx_wf_add idx_wf_del)

end
