(* ===== verification/Session_Model.thy ===== *)
theory Session_Model
  imports Wire Socket_Index
begin

text \<open>
  \<open>packages/relay/src/SessionManager.ts\<close>: the sessions the relay keeps, who holds each, who watches
  it, and the indexes from a socket back to its sessions. A socket is a number; whether it is open
  and whether it answers (\<open>readyState\<close>, \<open>isAlive\<close>) is asked of functions the operations take. The
  clock (\<open>Date.now()\<close>) and the identifiers \<open>randomUUID\<close> gives are arguments. The code's indexes hold
  \<open>Session\<close> objects where the model's hold their ids. A payload the manager keeps without reading it
  (the device frame, the postures) is a number standing for it. An armed idle
  timer is the time it fires at.
\<close>

type_synonym socket = nat
type_synonym payload = nat

datatype form_factor = Phone | Tablet | Foldable

record waiting =
  w_user :: string
  w_label :: string
  w_name :: string
  w_since :: ms
  w_deadline :: ms

record ended_by =
  e_ownerUser :: string
  e_byLabel :: string
  e_byName :: string
  e_at :: ms

record boot_note =
  bn_class :: booter_class
  bn_at :: ms

type_synonym installed_build = "int \<times> string" \<comment> \<open>buildId, filePath\<close>

record pending_install =
  pi_build :: installed_build
  pi_request :: string
  pi_waiters :: "string list"

record session =
  sid_of :: string
  agentId :: "string option"
  agentName :: "string option"
  agentPlatform :: "string option"
  agentCapabilities :: "string list option"
  agentSocket :: socket
  browserSocket :: "socket option"
  owner :: "string option"
  ownerMinted :: bool
  ownerUser :: "string option"
  holderKind :: "client_kind option"
  holderLabel :: "string option"
  holderName :: "string option"
  holderStream :: bool
  gesture :: "(touch_point \<times> touch_point) option" \<comment> \<open>where it began, where it last was\<close>
  touchCancelled :: bool
  streamSocket :: "socket option"
  deviceId :: string
  deviceName :: string
  devicePlatform :: string
  deviceServiceTier :: "device_tier option"
  deviceStatus :: device_status
  readySent :: bool
  deviceOsVersion :: "string option"
  deviceFormFactor :: "form_factor option"
  chromeData :: "payload option"
  postures :: "payload option"
  deviceInfo :: "payload option"
  idleTimer :: "ms option"
  lastHolderWasAi :: bool
  lastBoot :: "boot_note option"
  lastBootPending :: "(string \<times> boot_note option) option" \<comment> \<open>requestId, prev\<close>
  lastBootExpired :: "(string \<times> booter_class) option" \<comment> \<open>requestId, booterClass\<close>
  evictingAt :: "ms option"
  idleResumeOnLeave :: bool
  installed :: "installed_build option"
  pendingInstall :: "pending_install option"
  waitingOwner :: "waiting option"
  deviceGone :: bool
  endedBy :: "ended_by option"
  bootAfterShutdown :: "bool option"
  shutdownUndo :: "(waiting \<times> ended_by option) option"

record agent_identity =
  i_agentId :: "string option"
  i_agentName :: "string option"
  i_agentPlatform :: "string option"
  i_agentCapabilities :: "string list option"

record device_report =
  r_id :: string
  r_name :: string
  r_platform :: string
  r_status :: device_status
  r_osVersion :: "string option"
  r_formFactor :: "form_factor option"
  r_serviceTier :: "device_tier option"

record manager =
  sessions :: "(string \<times> session) list"
  agentResources :: "(socket \<times> agent_resources) list"
  agentSocketIndex :: "(socket, string) index"
  streamSocketIndex :: "(socket \<times> string) list"
  browserSocketIndex :: "(socket, string) index"
  watchers :: "(string \<times> (socket \<times> string) list) list"
  watcherSocketIndex :: "(socket, string) index"
  idleTimeoutMs :: ms

definition MAX_WATCHERS_PER_SESSION :: nat where
  "MAX_WATCHERS_PER_SESSION = 4"

definition new_manager :: "ms \<Rightarrow> manager" where
  "new_manager timeout = \<lparr>sessions = [], agentResources = [], agentSocketIndex = [],
     streamSocketIndex = [], browserSocketIndex = [], watchers = [], watcherSocketIndex = [],
     idleTimeoutMs = timeout\<rparr>"

text \<open>The \<open>onWatchersEvicted\<close> callback, as the calls an operation makes of it.\<close>

type_synonym eviction = "string \<times> socket list \<times> watch_end"

text \<open>\<open>const session = this.sessions.get(id); if (!session) return; ...\<close>\<close>

definition on_session :: "string \<Rightarrow> (session \<Rightarrow> session) \<Rightarrow> manager \<Rightarrow> manager" where
  "on_session i f m =
     (case jget (sessions m) i of
        None \<Rightarrow> m
      | Some s \<Rightarrow> m\<lparr>sessions := jset i (f s) (sessions m)\<rparr>)"

subsection \<open>Made from an agent's register\<close>

definition deviceFields :: "device_report \<Rightarrow> session \<Rightarrow> session" where
  "deviceFields d s = s\<lparr>deviceName := r_name d, devicePlatform := r_platform d,
     deviceStatus := r_status d, deviceOsVersion := r_osVersion d,
     deviceFormFactor := r_formFactor d, deviceServiceTier := r_serviceTier d\<rparr>"

definition agentFields :: "agent_identity \<Rightarrow> device_report \<Rightarrow> session \<Rightarrow> session" where
  "agentFields a d s = deviceFields d (s\<lparr>agentId := i_agentId a, agentName := i_agentName a,
     agentPlatform := i_agentPlatform a, agentCapabilities := i_agentCapabilities a\<rparr>)"

definition blank_session :: "string \<Rightarrow> socket \<Rightarrow> device_report \<Rightarrow> session" where
  "blank_session i ws d = \<lparr>sid_of = i, agentId = None, agentName = None, agentPlatform = None,
     agentCapabilities = None, agentSocket = ws, browserSocket = None, owner = None,
     ownerMinted = False, ownerUser = None, holderKind = None, holderLabel = None,
     holderName = None, holderStream = True, gesture = None, touchCancelled = False,
     streamSocket = None, deviceId = r_id d, deviceName = r_name d, devicePlatform = r_platform d,
     deviceServiceTier = None, deviceStatus = r_status d, readySent = False,
     deviceOsVersion = None, deviceFormFactor = None, chromeData = None, postures = None,
     deviceInfo = None, idleTimer = None, lastHolderWasAi = False, lastBoot = None,
     lastBootPending = None, lastBootExpired = None, evictingAt = None,
     idleResumeOnLeave = False, installed = None, pendingInstall = None, waitingOwner = None, deviceGone = False,
     endedBy = None, bootAfterShutdown = None, shutdownUndo = None\<rparr>"

definition create_one :: "socket \<Rightarrow> agent_identity \<Rightarrow> string \<times> device_report \<Rightarrow> manager \<Rightarrow> manager" where
  "create_one ws a p m =
     m\<lparr>sessions := jset (fst p) (agentFields a (snd p) (blank_session (fst p) ws (snd p))) (sessions m),
       agentSocketIndex := idx_add ws (fst p) (agentSocketIndex m)\<rparr>"

text \<open>\<open>create\<close>: one session per device, under the identifiers \<open>randomUUID\<close> gave.\<close>

definition create :: "socket \<Rightarrow> (string \<times> device_report) list \<Rightarrow> agent_identity \<Rightarrow> manager \<Rightarrow> manager" where
  "create ws ds a m = fold (create_one ws a) ds m"

definition refreshDevice :: "string \<Rightarrow> device_report \<Rightarrow> manager \<Rightarrow> manager" where
  "refreshDevice i d = on_session i (\<lambda>s. s\<lparr>deviceName := r_name d, deviceFormFactor := r_formFactor d,
     deviceOsVersion := (case r_osVersion d of Some v \<Rightarrow> Some v | None \<Rightarrow> deviceOsVersion s),
     deviceGone := False\<rparr>)"

subsection \<open>Lookups\<close>

definition get :: "manager \<Rightarrow> string \<Rightarrow> session option" where
  "get m i = jget (sessions m) i"

definition all :: "manager \<Rightarrow> session list" where
  "all m = map snd (sessions m)"

definition getAllByAgentSocket :: "manager \<Rightarrow> socket \<Rightarrow> session list" where
  "getAllByAgentSocket m ws = List.map_filter (jget (sessions m)) (members (agentSocketIndex m) ws)"

definition getAgentSocketsByIdentity :: "manager \<Rightarrow> string \<Rightarrow> string option \<Rightarrow> socket list" where
  "getAgentSocketsByIdentity m identity platform =
     fold set_add (map agentSocket (filter (\<lambda>s.
       (case agentId s of Some a \<Rightarrow> Some a | None \<Rightarrow> agentName s) = Some identity
       \<and> agentPlatform s = platform) (all m))) []"

definition getAllOnHost :: "manager \<Rightarrow> string \<Rightarrow> (session \<Rightarrow> string) \<Rightarrow> session list" where
  "getAllOnHost m hostKey keyOf = filter (\<lambda>s. keyOf s = hostKey) (all m)"

definition getAllByDeviceId :: "manager \<Rightarrow> string \<Rightarrow> session list" where
  "getAllByDeviceId m d = filter (\<lambda>s. deviceId s = d) (all m)"

definition getByStreamSocket :: "manager \<Rightarrow> socket \<Rightarrow> session option" where
  "getByStreamSocket m ws = Option.bind (jget (streamSocketIndex m) ws) (jget (sessions m))"

definition getByBrowserSocket :: "manager \<Rightarrow> socket \<Rightarrow> session list" where
  "getByBrowserSocket m ws = List.map_filter (jget (sessions m)) (members (browserSocketIndex m) ws)"

definition watchersOf :: "manager \<Rightarrow> string \<Rightarrow> socket list" where
  "watchersOf m i = (case jget (watchers m) i of Some ws \<Rightarrow> jkeys ws | None \<Rightarrow> [])"

definition isWatching :: "manager \<Rightarrow> socket \<Rightarrow> string \<Rightarrow> bool" where
  "isWatching m ws i = (case jget (watchers m) i of Some w \<Rightarrow> jget w ws \<noteq> None | None \<Rightarrow> False)"

definition goneAndVacant :: "manager \<Rightarrow> session \<Rightarrow> bool" where
  "goneAndVacant m s \<longleftrightarrow> deviceGone s \<and> owner s = None \<and> browserSocket s = None \<and> idleTimer s = None
     \<and> lastBootPending s = None \<and> length (watchersOf m (sid_of s)) = 0"

subsection \<open>Watchers\<close>

definition addWatcher :: "string \<Rightarrow> socket \<Rightarrow> string \<Rightarrow> manager \<Rightarrow> manager \<times> string" where
  "addWatcher i ws key m =
     (if jget (sessions m) i = None then (m, ''not-found'')
      else (let w = (case jget (watchers m) i of Some w \<Rightarrow> w | None \<Rightarrow> []) in
        if jget w ws \<noteq> None then (m\<lparr>watchers := jset i (jset ws key w) (watchers m)\<rparr>, ''ok'')
        else if MAX_WATCHERS_PER_SESSION \<le> length w then (m, ''full'')
        else (m\<lparr>watchers := jset i (jset ws key w) (watchers m),
                watcherSocketIndex := idx_add ws i (watcherSocketIndex m)\<rparr>, ''ok'')))"

definition removeWatcher :: "string \<Rightarrow> socket \<Rightarrow> manager \<Rightarrow> manager \<times> bool" where
  "removeWatcher i ws m =
     (case jget (watchers m) i of
        None \<Rightarrow> (m, False)
      | Some w \<Rightarrow>
          if jget w ws = None then (m, False)
          else (let left = jdel ws w in
            (m\<lparr>watchers := (if left = [] then jdel i (watchers m) else jset i left (watchers m)),
               watcherSocketIndex := idx_del ws i (watcherSocketIndex m)\<rparr>, True)))"

definition drop_watcher :: "string \<Rightarrow> socket \<Rightarrow> manager \<Rightarrow> manager" where
  "drop_watcher i ws m = fst (removeWatcher i ws m)"

definition removeWatcherSocket :: "socket \<Rightarrow> manager \<Rightarrow> manager \<times> string list" where
  "removeWatcherSocket ws m =
     (let ids = members (watcherSocketIndex m) ws
      in (fold (\<lambda>i m. drop_watcher i ws m) ids m, ids))"

definition evictWatchers :: "string \<Rightarrow> watch_end \<Rightarrow> (string \<Rightarrow> bool) \<Rightarrow> manager \<Rightarrow> manager \<times> eviction list" where
  "evictWatchers i reason which m =
     (case jget (watchers m) i of
        None \<Rightarrow> (m, [])
      | Some w \<Rightarrow>
          (let evicted = map fst (filter (\<lambda>p. which (snd p)) w) in
           if evicted = [] then (m, [])
           else (fold (drop_watcher i) evicted m, [(i, evicted, reason)])))"

definition endWatches :: "string \<Rightarrow> watch_end \<Rightarrow> manager \<Rightarrow> manager \<times> eviction list" where
  "endWatches i reason m = evictWatchers i reason (\<lambda>_. True) m"

end
