(* ===== verification/Session_Ops.thy ===== *)
theory Session_Ops
  imports Session_Model
begin

text \<open>
  The operations of \<open>SessionManager\<close> that change who holds a session: joining, releasing, removing,
  the idle countdown, a device shutdown and its undo, an agent that comes back, and the stream.
\<close>

record join_owner =
  o_key :: string
  o_user :: string
  o_minted :: bool

record join_holder =
  h_kind :: "client_kind option"
  h_label :: string
  h_name :: "string option"
  h_stream :: "bool option"

datatype join_result = Join_ok | Join_not_found | Join_held_by_another

subsection \<open>Joining\<close>

text \<open>Someone else holds the session, on a socket that is open and answering.\<close>

definition occupied :: "(socket \<Rightarrow> bool) \<Rightarrow> (socket \<Rightarrow> bool) \<Rightarrow> string \<Rightarrow> session \<Rightarrow> bool" where
  "occupied isOpen isAlive key s \<longleftrightarrow>
     (case browserSocket s of
        None \<Rightarrow> False
      | Some ws \<Rightarrow> owner s \<noteq> None \<and> owner s \<noteq> Some key \<and> isOpen ws \<and> isAlive ws)"

definition gone_for :: "join_owner \<Rightarrow> session \<Rightarrow> bool" where
  "gone_for o' s \<longleftrightarrow> deviceGone s \<and> owner s \<noteq> Some (o_key o')
     \<and> map_option w_user (waitingOwner s) \<noteq> Some (o_user o')"

definition stop_countdown :: "client_kind option \<Rightarrow> session \<Rightarrow> session" where
  "stop_countdown kind s = s\<lparr>
     idleResumeOnLeave := (if idleTimer s \<noteq> None then isAiClientKind kind
                           else if \<not> isAiClientKind kind then False else idleResumeOnLeave s),
     idleTimer := None\<rparr>"

definition unindexBrowser :: "session \<Rightarrow> manager \<Rightarrow> manager" where
  "unindexBrowser s m =
     (case browserSocket s of
        None \<Rightarrow> m
      | Some ws \<Rightarrow> m\<lparr>browserSocketIndex := idx_del ws (sid_of s) (browserSocketIndex m)\<rparr>)"

definition bind_holder :: "socket \<Rightarrow> join_owner \<Rightarrow> join_holder \<Rightarrow> session \<Rightarrow> session" where
  "bind_holder ws o' h s = s\<lparr>browserSocket := Some ws, owner := Some (o_key o'),
     ownerMinted := o_minted o', ownerUser := Some (o_user o'), holderKind := h_kind h,
     holderLabel := Some (h_label h),
     holderName := Some (case h_name h of Some n \<Rightarrow> n | None \<Rightarrow> h_label h),
     holderStream := (h_stream h \<noteq> Some False), gesture := None, touchCancelled := False\<rparr>"

text \<open>A person taking the device ends the wait and, if it was not theirs, tells who waited.\<close>

definition ended_notice :: "ms \<Rightarrow> waiting option \<Rightarrow> string \<Rightarrow> string \<Rightarrow> string \<Rightarrow> ended_by option \<Rightarrow> ended_by option" where
  "ended_notice now waited user label nm old =
     (case waited of
        Some w \<Rightarrow> if w_user w \<noteq> user
          then Some \<lparr>e_ownerUser = w_user w, e_byLabel = label, e_byName = nm, e_at = now\<rparr> else old
      | None \<Rightarrow> old)"

definition end_wait :: "ms \<Rightarrow> join_owner \<Rightarrow> join_holder \<Rightarrow> session \<Rightarrow> session" where
  "end_wait now o' h s =
     (if isAiClientKind (h_kind h) then s
      else (let ended = ended_notice now (waitingOwner s) (o_user o') (h_label h)
                          (case h_name h of Some n \<Rightarrow> n | None \<Rightarrow> h_label h) (endedBy s)
            in s\<lparr>endedBy := (if map_option e_ownerUser ended = Some (o_user o') then None else ended),
                 waitingOwner := None\<rparr>))"

definition join :: "ms \<Rightarrow> (socket \<Rightarrow> bool) \<Rightarrow> (socket \<Rightarrow> bool) \<Rightarrow> string \<Rightarrow> socket \<Rightarrow> join_owner \<Rightarrow> join_holder
    \<Rightarrow> manager \<Rightarrow> manager \<times> join_result \<times> eviction list" where
  "join now isOpen isAlive i ws o' h m =
     (case jget (sessions m) i of
        None \<Rightarrow> (m, Join_not_found, [])
      | Some s \<Rightarrow>
          if gone_for o' s then (m, Join_not_found, [])
          else if occupied isOpen isAlive (o_key o') s then (m, Join_held_by_another, [])
          else (let m1 = unindexBrowser s (on_session i (stop_countdown (h_kind h)) m);
                    m2 = on_session i (\<lambda>s. end_wait now o' h (bind_holder ws o' h s)) m1;
                    (m3, told) = evictWatchers i Holder_changed
                      (\<lambda>admitted. admitted \<noteq> o_key o' \<or> \<not> isAiClientKind (h_kind h)) m2
                in (m3\<lparr>browserSocketIndex := idx_add ws i (browserSocketIndex m3)\<rparr>, Join_ok, told)))"

subsection \<open>Removing and releasing\<close>

definition remove :: "string \<Rightarrow> manager \<Rightarrow> manager \<times> eviction list" where
  "remove i m =
     (case jget (sessions m) i of
        None \<Rightarrow> (m, [])
      | Some s \<Rightarrow>
          (let (m1, told) = evictWatchers i Session_ended (\<lambda>_. True) m;
               m2 = (case streamSocket s of
                       Some ws \<Rightarrow> m1\<lparr>streamSocketIndex := jdel ws (streamSocketIndex m1)\<rparr> | None \<Rightarrow> m1);
               m3 = unindexBrowser s m2
           in (m3\<lparr>agentSocketIndex := idx_del (agentSocket s) i (agentSocketIndex m3),
                  sessions := jdel i (sessions m3)\<rparr>, told)))"

definition leaving_person :: "session \<Rightarrow> (string \<times> string \<times> string) option" where
  "leaving_person s =
     (case (owner s, ownerUser s) of
        (Some _, Some user) \<Rightarrow>
          if isAiClientKind (holderKind s) then None
          else (let label = (case holderLabel s of Some l \<Rightarrow> l | None \<Rightarrow> user)
                in Some (user, label, case holderName s of Some n \<Rightarrow> n | None \<Rightarrow> label))
      | _ \<Rightarrow> None)"

definition clear_holder :: "session \<Rightarrow> session" where
  "clear_holder s = s\<lparr>owner := None, ownerMinted := False, ownerUser := None, holderKind := None,
     holderLabel := None, holderName := None, holderStream := True, gesture := None,
     touchCancelled := False, idleTimer := None\<rparr>"

definition note_holder_kind :: "session \<Rightarrow> session" where
  "note_holder_kind s =
     (if owner s = None then s
      else s\<lparr>lastHolderWasAi := isAiClientKind (holderKind s) \<and> (\<not> idleResumeOnLeave s \<or> lastHolderWasAi s)\<rparr>)"

definition start_countdown :: "ms \<Rightarrow> ms \<Rightarrow> (string \<times> string \<times> string) option \<Rightarrow> session \<Rightarrow> session" where
  "start_countdown now timeout person s = s\<lparr>idleTimer := Some (now + timeout),
     waitingOwner :=
       (case person of
          Some (user, label, nm) \<Rightarrow>
            Some \<lparr>w_user = user, w_label = label, w_name = nm, w_since = now, w_deadline = now + timeout\<rparr>
        | None \<Rightarrow>
            (case waitingOwner s of
               Some w \<Rightarrow> if \<not> lastHolderWasAi s
                 then Some (w\<lparr>w_since := now, w_deadline := now + timeout\<rparr>) else None
             | None \<Rightarrow> None))\<rparr>"

text \<open>What \<open>clearBrowser\<close> does to the session; \<open>countdown\<close> is whether it was given \<open>onTimeout\<close>.\<close>

definition release_session :: "ms \<Rightarrow> ms \<Rightarrow> bool \<Rightarrow> session \<Rightarrow> session" where
  "release_session now timeout countdown s =
     (let s1 = note_holder_kind (s\<lparr>browserSocket := None\<rparr>);
          person = leaving_person s1;
          s2 = clear_holder s1
      in if countdown then start_countdown now timeout person s2 else s2)"

definition clearBrowser :: "ms \<Rightarrow> string \<Rightarrow> bool \<Rightarrow> manager \<Rightarrow> manager" where
  "clearBrowser now i countdown m =
     (case jget (sessions m) i of
        None \<Rightarrow> m
      | Some s \<Rightarrow> on_session i (release_session now (idleTimeoutMs m) countdown) (unindexBrowser s m))"

text \<open>The timer's callback, before it calls \<open>onTimeout\<close>.\<close>

definition idle_fires :: "ms \<Rightarrow> string \<Rightarrow> manager \<Rightarrow> manager" where
  "idle_fires now i m =
     (case Option.bind (jget (sessions m) i) idleTimer of
        Some t \<Rightarrow> if t \<le> now then on_session i (\<lambda>s. s\<lparr>idleTimer := None, waitingOwner := None\<rparr>) m else m
      | None \<Rightarrow> m)"

text \<open>
  How \<open>RelayServer\<close> releases: \<open>session:leave\<close> starts the countdown only if one was borrowed, a closed
  socket always starts it, and both spend \<open>idleResumeOnLeave\<close>.
\<close>

definition spend_resume :: "string \<Rightarrow> manager \<Rightarrow> manager" where
  "spend_resume i = on_session i (\<lambda>s. s\<lparr>idleResumeOnLeave := False\<rparr>)"

definition leave_session :: "ms \<Rightarrow> string \<Rightarrow> manager \<Rightarrow> manager \<times> eviction list" where
  "leave_session now i m =
     (let resume = (case jget (sessions m) i of Some s \<Rightarrow> idleResumeOnLeave s | None \<Rightarrow> False)
      in endWatches i Session_ended (spend_resume i (clearBrowser now i resume m)))"

definition socket_closed :: "ms \<Rightarrow> socket \<Rightarrow> manager \<Rightarrow> manager" where
  "socket_closed now ws m =
     fold (\<lambda>s m. spend_resume (sid_of s) (clearBrowser now (sid_of s) True m)) (getByBrowserSocket m ws) m"

text \<open>\<open>RelayServer.handleWatchStart\<close>, up to what it tells the new watcher.\<close>

datatype watch_start_result =
  Watch_started | Watch_not_permitted | Watch_session_not_found | Watch_not_watchable | Watchers_full

definition watch_start :: "bool \<Rightarrow> string \<Rightarrow> socket \<Rightarrow> string \<Rightarrow> manager \<Rightarrow> manager \<times> watch_start_result" where
  "watch_start mayWatch asker ws i m =
     (if \<not> mayWatch then (m, Watch_not_permitted)
      else case jget (sessions m) i of
        None \<Rightarrow> (m, Watch_session_not_found)
      | Some s \<Rightarrow>
          (case owner s of
             None \<Rightarrow> (m, Watch_not_watchable)
           | Some key \<Rightarrow>
               if \<not> isAiClientKind (holderKind s) \<or> key = asker then (m, Watch_not_watchable)
               else if snd (addWatcher i ws key m) = ''full'' then (m, Watchers_full)
               else (fst (addWatcher i ws key m), Watch_started)))"

subsection \<open>Shutdowns\<close>

definition note_shutdown :: "ms \<Rightarrow> string \<Rightarrow> string \<Rightarrow> string \<Rightarrow> session \<Rightarrow> session" where
  "note_shutdown now user label nm s =
     (let s1 = s\<lparr>bootAfterShutdown := Some False, shutdownUndo := None\<rparr> in
      case waitingOwner s1 of
        None \<Rightarrow> s1
      | Some w \<Rightarrow> s1\<lparr>shutdownUndo := Some (w, endedBy s1),
          endedBy := ended_notice now (Some w) user label nm (endedBy s1), waitingOwner := None\<rparr>)"

definition noteShutdown :: "ms \<Rightarrow> string \<Rightarrow> string \<Rightarrow> string \<Rightarrow> string \<Rightarrow> manager \<Rightarrow> manager" where
  "noteShutdown now i user label nm = on_session i (note_shutdown now user label nm)"

definition undo_shutdown :: "session \<Rightarrow> session" where
  "undo_shutdown s =
     (let untouched = (bootAfterShutdown s = Some False \<and> idleTimer s \<noteq> None);
          s1 = s\<lparr>shutdownUndo := None, bootAfterShutdown := None\<rparr>
      in case shutdownUndo s of
           None \<Rightarrow> s1
         | Some (w, e) \<Rightarrow> if \<not> untouched \<or> waitingOwner s1 \<noteq> None then s1
             else s1\<lparr>waitingOwner := Some w, endedBy := e\<rparr>)"

definition undoShutdown :: "string \<Rightarrow> manager \<Rightarrow> manager" where
  "undoShutdown i = on_session i undo_shutdown"

definition noteShutdownSent :: "string \<Rightarrow> manager \<Rightarrow> manager" where
  "noteShutdownSent i = on_session i (\<lambda>s. s\<lparr>bootAfterShutdown := Some False\<rparr>)"

definition noteBootSent :: "string \<Rightarrow> manager \<Rightarrow> manager" where
  "noteBootSent i = on_session i (\<lambda>s. if bootAfterShutdown s = Some False
     then s\<lparr>bootAfterShutdown := Some True\<rparr> else s)"

definition settle_shutdown :: "session \<Rightarrow> session" where
  "settle_shutdown s =
     (let s1 = s\<lparr>bootAfterShutdown := None\<rparr>
      in if bootAfterShutdown s = Some True then s1 else s1\<lparr>idleTimer := None, waitingOwner := None\<rparr>)"

definition settleShutdown :: "string \<Rightarrow> manager \<Rightarrow> manager" where
  "settleShutdown i = on_session i settle_shutdown"

subsection \<open>The stream, the agent and what is cached of the device\<close>

definition setStreamSocket :: "string \<Rightarrow> socket \<Rightarrow> manager \<Rightarrow> manager" where
  "setStreamSocket i ws m =
     (case jget (sessions m) i of
        None \<Rightarrow> m
      | Some s \<Rightarrow>
          (let m1 = (case streamSocket s of
                       Some old \<Rightarrow> m\<lparr>streamSocketIndex := jdel old (streamSocketIndex m)\<rparr> | None \<Rightarrow> m);
               m2 = on_session i (\<lambda>s. s\<lparr>streamSocket := Some ws\<rparr>) m1
           in m2\<lparr>streamSocketIndex := jset ws i (streamSocketIndex m2)\<rparr>))"

definition clearStreamSocket :: "string \<Rightarrow> manager \<Rightarrow> manager" where
  "clearStreamSocket i m =
     (case Option.bind (jget (sessions m) i) streamSocket of
        None \<Rightarrow> m
      | Some ws \<Rightarrow> on_session i (\<lambda>s. s\<lparr>streamSocket := None, readySent := False\<rparr>)
          (m\<lparr>streamSocketIndex := jdel ws (streamSocketIndex m)\<rparr>))"

definition rebind :: "string \<Rightarrow> socket \<Rightarrow> device_report \<Rightarrow> agent_identity \<Rightarrow> manager \<Rightarrow> manager" where
  "rebind i ws d a m =
     (case jget (sessions m) i of
        None \<Rightarrow> m
      | Some s \<Rightarrow>
          (let old = agentSocket s;
               m1 = m\<lparr>agentSocketIndex := idx_del old i (agentSocketIndex m)\<rparr>;
               m2 = on_session i (\<lambda>s. s\<lparr>agentSocket := ws\<rparr>) m1;
               m3 = m2\<lparr>agentSocketIndex := idx_add ws i (agentSocketIndex m2)\<rparr>;
               m4 = clearStreamSocket i m3;
               m5 = on_session i (\<lambda>s. (agentFields a d (s\<lparr>readySent := False, chromeData := None,
                      postures := None, deviceInfo := None\<rparr>))\<lparr>deviceGone := False\<rparr>) m4
           in m5\<lparr>agentResources := jdel old (agentResources m5)\<rparr>))"

definition setResources :: "socket \<Rightarrow> agent_resources \<Rightarrow> manager \<Rightarrow> manager" where
  "setResources ws r m = m\<lparr>agentResources := jset ws r (agentResources m)\<rparr>"

definition getResources :: "manager \<Rightarrow> socket \<Rightarrow> agent_resources option" where
  "getResources m ws = jget (agentResources m) ws"

definition removeResources :: "socket \<Rightarrow> manager \<Rightarrow> manager" where
  "removeResources ws m = m\<lparr>agentResources := jdel ws (agentResources m)\<rparr>"

definition clearDeviceCache :: "string \<Rightarrow> manager \<Rightarrow> manager" where
  "clearDeviceCache i = on_session i (\<lambda>s. s\<lparr>chromeData := None, postures := None, deviceInfo := None,
     deviceStatus := Shutdown, readySent := False\<rparr>)"

definition setChromeData :: "string \<Rightarrow> payload \<Rightarrow> manager \<Rightarrow> manager" where
  "setChromeData i p = on_session i (\<lambda>s. s\<lparr>chromeData := Some p\<rparr>)"

definition setPostures :: "string \<Rightarrow> payload \<Rightarrow> manager \<Rightarrow> manager" where
  "setPostures i p = on_session i (\<lambda>s. s\<lparr>postures := Some p\<rparr>)"

definition setDeviceInfo :: "string \<Rightarrow> payload \<Rightarrow> manager \<Rightarrow> manager" where
  "setDeviceInfo i p = on_session i (\<lambda>s. s\<lparr>deviceInfo := Some p\<rparr>)"

definition setReadySent :: "string \<Rightarrow> bool \<Rightarrow> manager \<Rightarrow> manager" where
  "setReadySent i b = on_session i (\<lambda>s. s\<lparr>readySent := b\<rparr>)"

definition setDeviceServiceTier :: "string \<Rightarrow> device_tier option \<Rightarrow> manager \<Rightarrow> manager" where
  "setDeviceServiceTier i t = on_session i (\<lambda>s. s\<lparr>deviceServiceTier := t\<rparr>)"

definition updateDeviceStatus :: "string \<Rightarrow> device_status \<Rightarrow> manager \<Rightarrow> manager" where
  "updateDeviceStatus i st = on_session i (\<lambda>s. s\<lparr>deviceStatus := st\<rparr>)"

text \<open>\<open>agent:devices\<close> no longer lists the device (\<open>RelayServer\<close> marks it).\<close>

definition device_left :: "string \<Rightarrow> manager \<Rightarrow> manager" where
  "device_left i = on_session i (\<lambda>s. s\<lparr>deviceGone := True\<rparr>)"

subsection \<open>The listing\<close>

record wait_notice =
  wn_user :: string
  wn_name :: string
  wn_aiHolding :: bool
  wn_remainingMs :: "ms option"
  wn_yours :: bool
  wn_buildId :: "int option"

record ownership_fields =
  of_waiting :: "wait_notice option"
  of_resumable :: bool
  of_releasedAgoMs :: "ms option"
  of_heldBySelf :: bool
  of_endedBy :: "(string \<times> string \<times> ms) option" \<comment> \<open>by, name, at\<close>

definition live_holder :: "(socket \<Rightarrow> bool) \<Rightarrow> (socket \<Rightarrow> bool) \<Rightarrow> session \<Rightarrow> bool" where
  "live_holder isOpen isAlive s \<longleftrightarrow> owner s \<noteq> None
     \<and> (case browserSocket s of Some ws \<Rightarrow> isOpen ws \<and> isAlive ws | None \<Rightarrow> False)"

definition ownership :: "(socket \<Rightarrow> bool) \<Rightarrow> (socket \<Rightarrow> bool) \<Rightarrow> ms \<Rightarrow> string \<Rightarrow> string option \<Rightarrow> ms \<Rightarrow> session
    \<Rightarrow> ownership_fields" where
  "ownership isOpen isAlive timeout asker askerUser now s =
     (let live = live_holder isOpen isAlive s;
          mine = (\<lambda>user. askerUser = Some user)
      in \<lparr>of_waiting = map_option (\<lambda>w. \<lparr>wn_user = w_label w, wn_name = w_name w, wn_aiHolding = live,
              wn_remainingMs = (if live then None else Some (max 0 (w_deadline w - now))),
              wn_yours = mine (w_user w),
              wn_buildId = (if mine (w_user w) then map_option fst (installed s) else None)\<rparr>) (waitingOwner s),
          of_resumable = (case waitingOwner s of Some w \<Rightarrow> \<not> live \<and> mine (w_user w) | None \<Rightarrow> False),
          of_releasedAgoMs = (case waitingOwner s of
              Some w \<Rightarrow> if \<not> live \<and> mine (w_user w) then Some (now - w_since w) else None | None \<Rightarrow> None),
          of_heldBySelf = (live \<and> askerUser \<noteq> None \<and> \<not> isAiClientKind (holderKind s)
              \<and> owner s \<noteq> Some asker \<and> ownerUser s = askerUser),
          of_endedBy = (case endedBy s of
              Some e \<Rightarrow> if mine (e_ownerUser e) \<and> now - e_at e < timeout
                then Some (e_byLabel e, e_byName e, e_at e) else None
            | None \<Rightarrow> None)\<rparr>)"

definition liveAiHolder :: "(socket \<Rightarrow> bool) \<Rightarrow> (socket \<Rightarrow> bool) \<Rightarrow> session \<Rightarrow> bool" where
  "liveAiHolder isOpen isAlive s \<longleftrightarrow> isAiClientKind (holderKind s) \<and> owner s \<noteq> None
     \<and> (case browserSocket s of Some ws \<Rightarrow> isOpen ws \<and> isAlive ws | None \<Rightarrow> False)"

record device_summary =
  d_id :: string
  d_name :: string
  d_platform :: string
  d_status :: device_status
  d_osVersion :: "string option"
  d_formFactor :: "form_factor option"
  d_serviceTier :: "device_tier option"
  d_sessionId :: string
  d_holder :: "(client_kind option \<times> string) option"
  d_ownership :: ownership_fields
  d_busy :: bool

record 'a session_info =
  si_agentName :: "string option"
  si_agentKey :: "string option"
  si_platform :: "string option"
  si_resources :: "agent_resources option"
  si_capabilities :: "string list"
  si_admission :: 'a
  si_devices :: "device_summary list"

definition summarise :: "(socket \<Rightarrow> bool) \<Rightarrow> (socket \<Rightarrow> bool) \<Rightarrow> ms \<Rightarrow> string \<Rightarrow> string option \<Rightarrow> ms \<Rightarrow> session
    \<Rightarrow> device_summary" where
  "summarise isOpen isAlive timeout asker askerUser now s =
     \<lparr>d_id = deviceId s, d_name = deviceName s, d_platform = devicePlatform s, d_status = deviceStatus s,
      d_osVersion = deviceOsVersion s, d_formFactor = deviceFormFactor s,
      d_serviceTier = deviceServiceTier s, d_sessionId = sid_of s,
      d_holder = (if liveAiHolder isOpen isAlive s
        then Some (holderKind s, case holderLabel s of Some l \<Rightarrow> l | None \<Rightarrow> ''unknown'') else None),
      d_ownership = ownership isOpen isAlive timeout asker askerUser now s,
      d_busy = (owner s \<noteq> None \<and> owner s \<noteq> Some asker
        \<and> (case browserSocket s of Some ws \<Rightarrow> isOpen ws \<and> isAlive ws | None \<Rightarrow> False))\<rparr>"

definition listed :: "(socket \<Rightarrow> bool) \<Rightarrow> session \<Rightarrow> bool" where
  "listed isOpen s \<longleftrightarrow> isOpen (agentSocket s) \<and> \<not> deviceGone s"

definition group_push :: "session \<Rightarrow> (socket \<times> session list) list \<Rightarrow> (socket \<times> session list) list" where
  "group_push s g = jset (agentSocket s) ((case jget g (agentSocket s) of Some xs \<Rightarrow> xs | None \<Rightarrow> []) @ [s]) g"

definition agent_groups :: "(socket \<Rightarrow> bool) \<Rightarrow> manager \<Rightarrow> (socket \<times> session list) list" where
  "agent_groups isOpen m = fold group_push (filter (listed isOpen) (all m)) []"

text \<open>\<open>a || b\<close> of two optional strings, where the empty string is falsy; \<open>undefined\<close> when neither counts.\<close>

definition agent_key :: "session \<Rightarrow> string option" where
  "agent_key s =
     (case agentId s of
        Some (c # cs) \<Rightarrow> Some (c # cs)
      | _ \<Rightarrow> (case agentName s of Some (c # cs) \<Rightarrow> Some (c # cs) | _ \<Rightarrow> None))"

definition list_group :: "(socket \<Rightarrow> bool) \<Rightarrow> (socket \<Rightarrow> bool) \<Rightarrow> (session list \<Rightarrow> 'a) \<Rightarrow> string \<Rightarrow> string option \<Rightarrow> ms
    \<Rightarrow> manager \<Rightarrow> session list \<Rightarrow> 'a session_info" where
  "list_group isOpen isAlive admissionOf asker askerUser now m g =
     \<lparr>si_agentName = agentName (hd g), si_agentKey = agent_key (hd g), si_platform = agentPlatform (hd g),
      si_resources = jget (agentResources m) (agentSocket (hd g)),
      si_capabilities = (case agentCapabilities (hd g) of Some cs \<Rightarrow> cs | None \<Rightarrow> []),
      si_admission = admissionOf g,
      si_devices = map (summarise isOpen isAlive (idleTimeoutMs m) asker askerUser now) g\<rparr>"

definition list_sessions :: "(socket \<Rightarrow> bool) \<Rightarrow> (socket \<Rightarrow> bool) \<Rightarrow> (session list \<Rightarrow> 'a) \<Rightarrow> string \<Rightarrow> string option \<Rightarrow> ms
    \<Rightarrow> manager \<Rightarrow> 'a session_info list" where
  "list_sessions isOpen isAlive admissionOf asker askerUser now m =
     map (list_group isOpen isAlive admissionOf asker askerUser now m) (map snd (agent_groups isOpen m))"

end
