(* ===== verification/Session_Inv.thy ===== *)
theory Session_Inv
  imports Session_Ops
begin

text \<open>
  What \<open>SessionManager\<close> keeps true: every index agrees with the sessions, a session is held exactly
  when it has a browser socket, a countdown never runs under a holder, and a watch belongs to the AI
  client it was admitted under.
\<close>

declare map_of_eq_Some_iff [simp del]

subsection \<open>The invariant\<close>

definition session_ok :: "session \<Rightarrow> bool" where
  "session_ok s \<longleftrightarrow> (owner s = None \<longleftrightarrow> browserSocket s = None)
     \<and> (owner s = None \<longrightarrow> ownerUser s = None \<and> holderKind s = None)
     \<and> (owner s \<noteq> None \<longrightarrow> idleTimer s = None)
     \<and> (waitingOwner s \<noteq> None \<longrightarrow> idleTimer s \<noteq> None \<or> isAiClientKind (holderKind s) \<and> idleResumeOnLeave s)"

definition holds :: "manager \<Rightarrow> string \<Rightarrow> socket \<Rightarrow> bool" where
  "holds m i ws \<longleftrightarrow> (\<exists>s. jget (sessions m) i = Some s \<and> browserSocket s = Some ws)"

definition served_by :: "manager \<Rightarrow> string \<Rightarrow> socket \<Rightarrow> bool" where
  "served_by m i ws \<longleftrightarrow> (\<exists>s. jget (sessions m) i = Some s \<and> agentSocket s = ws)"

definition watch_key :: "manager \<Rightarrow> string \<Rightarrow> socket \<Rightarrow> string option" where
  "watch_key m i ws = Option.bind (jget (watchers m) i) (\<lambda>w. jget w ws)"

definition sessions_ok :: "manager \<Rightarrow> bool" where
  "sessions_ok m \<longleftrightarrow> jwf (sessions m)
     \<and> (\<forall>i s. jget (sessions m) i = Some s \<longrightarrow> sid_of s = i \<and> session_ok s)"

definition watchers_wf :: "manager \<Rightarrow> bool" where
  "watchers_wf m \<longleftrightarrow> jwf (watchers m)
     \<and> (\<forall>i w. jget (watchers m) i = Some w \<longrightarrow> jwf w \<and> w \<noteq> [] \<and> length w \<le> MAX_WATCHERS_PER_SESSION)
     \<and> si.tracks (watcherSocketIndex m) (\<lambda>i ws. watch_key m i ws \<noteq> None)"

definition watches_admitted :: "manager \<Rightarrow> bool" where
  "watches_admitted m \<longleftrightarrow> (\<forall>i ws k. watch_key m i ws = Some k \<longrightarrow>
     (\<exists>s. jget (sessions m) i = Some s \<and> (owner s = None \<or> owner s = Some k \<and> isAiClientKind (holderKind s))))"

definition stream_ok :: "manager \<Rightarrow> bool" where
  "stream_ok m \<longleftrightarrow> jwf (streamSocketIndex m)
     \<and> (\<forall>ws i. jget (streamSocketIndex m) ws = Some i \<longrightarrow>
          (\<exists>s. jget (sessions m) i = Some s \<and> streamSocket s = Some ws))"

definition manager_inv :: "manager \<Rightarrow> bool" where
  "manager_inv m \<longleftrightarrow> sessions_ok m \<and> watchers_wf m \<and> watches_admitted m \<and> stream_ok m
     \<and> si.tracks (browserSocketIndex m) (holds m) \<and> si.tracks (agentSocketIndex m) (served_by m)"

named_theorems inv_parts "the parts of the manager's invariant"

lemma manager_invD:
  assumes "manager_inv m"
  shows "sessions_ok m" "watchers_wf m" "watches_admitted m" "stream_ok m"
    "si.tracks (browserSocketIndex m) (holds m)" "si.tracks (agentSocketIndex m) (served_by m)"
  using assms by (simp_all add: manager_inv_def)

lemma inv_session:
  "manager_inv m \<Longrightarrow> jget (sessions m) i = Some s \<Longrightarrow> sid_of s = i \<and> session_ok s"
  by (simp add: manager_inv_def sessions_ok_def)

lemma inv_jwf: "manager_inv m \<Longrightarrow> jwf (sessions m)"
  by (simp add: manager_inv_def sessions_ok_def)

lemma new_manager_inv: "manager_inv (new_manager t)"
  by (simp add: manager_inv_def new_manager_def sessions_ok_def watchers_wf_def watches_admitted_def
      stream_ok_def si.tracks_def idx_wf_def members_def holds_def served_by_def watch_key_def)

subsection \<open>Replacing one session\<close>

text \<open>
  An operation that ends with session \<open>i\<close> replaced by \<open>s'\<close> keeps the invariant if the new session is
  well formed and each index follows what changed of it.
\<close>

lemma holds_update:
  "sessions m' = jset i s' (sessions m) \<Longrightarrow>
     holds m' j ws = (if j = i then browserSocket s' = Some ws else holds m j ws)"
  by (simp add: holds_def jm.get_put)

lemma served_by_update:
  "sessions m' = jset i s' (sessions m) \<Longrightarrow>
     served_by m' j ws = (if j = i then agentSocket s' = ws else served_by m j ws)"
  by (simp add: served_by_def jm.get_put)

lemma inv_replace:
  assumes "manager_inv m" and "sessions m' = jset i s' (sessions m)"
    and "sid_of s' = i" "session_ok s'"
    and "watchers_wf m'" and "watches_admitted m'" and "stream_ok m'"
    and "si.tracks (browserSocketIndex m') (\<lambda>j ws. if j = i then browserSocket s' = Some ws else holds m j ws)"
    and "si.tracks (agentSocketIndex m') (\<lambda>j ws. if j = i then agentSocket s' = ws else served_by m j ws)"
  shows "manager_inv m'"
proof -
  have "sessions_ok m'"
    using assms(1-4) by (simp add: manager_inv_def sessions_ok_def jm.get_put jm.wf_put)
  moreover have "si.tracks (browserSocketIndex m') (holds m')"
    by (rule si.tracks_same [OF assms(8)]) (simp add: holds_update [OF assms(2)])
  moreover have "si.tracks (agentSocketIndex m') (served_by m')"
    by (rule si.tracks_same [OF assms(9)]) (simp add: served_by_update [OF assms(2)])
  ultimately show ?thesis using assms(5-7) by (simp add: manager_inv_def)
qed

text \<open>A change that leaves the sockets, the owner and its kind alone.\<close>

definition keeps_ties :: "session \<Rightarrow> session \<Rightarrow> bool" where
  "keeps_ties s s' \<longleftrightarrow> sid_of s' = sid_of s \<and> browserSocket s' = browserSocket s
     \<and> agentSocket s' = agentSocket s \<and> streamSocket s' = streamSocket s \<and> owner s' = owner s
     \<and> holderKind s' = holderKind s"

lemma watch_key_sessions [simp]:
  "watch_key (m\<lparr>sessions := x\<rparr>) = watch_key m"
  "watch_key (m\<lparr>streamSocketIndex := y\<rparr>) = watch_key m"
  "watch_key (m\<lparr>browserSocketIndex := z\<rparr>) = watch_key m"
  "watch_key (m\<lparr>agentSocketIndex := z\<rparr>) = watch_key m"
  "watch_key (m\<lparr>agentResources := v\<rparr>) = watch_key m"
  by (simp_all add: watch_key_def fun_eq_iff)

lemma watches_admitted_mono:
  assumes "watches_admitted m"
    and "\<And>j ws k. watch_key m' j ws = Some k \<Longrightarrow> watch_key m j ws = Some k"
    and "\<And>j s. jget (sessions m) j = Some s \<Longrightarrow> (\<exists>s'. jget (sessions m') j = Some s'
      \<and> (owner s' = None \<or> owner s' = owner s \<and> holderKind s' = holderKind s))"
  shows "watches_admitted m'"
  unfolding watches_admitted_def
proof (intro allI impI)
  fix j ws k assume "watch_key m' j ws = Some k"
  then have "watch_key m j ws = Some k" by (rule assms(2))
  then obtain s where s: "jget (sessions m) j = Some s"
    "owner s = None \<or> owner s = Some k \<and> isAiClientKind (holderKind s)"
    using assms(1) unfolding watches_admitted_def by blast
  from assms(3) [OF s(1)] obtain s' where "jget (sessions m') j = Some s'"
    "owner s' = None \<or> owner s' = owner s \<and> holderKind s' = holderKind s" by blast
  with s(2) show "\<exists>s'. jget (sessions m') j = Some s' \<and> (owner s' = None \<or> owner s' = Some k \<and> isAiClientKind (holderKind s'))"
    by auto
qed

lemma watchers_wf_cong:
  "watchers m' = watchers m \<Longrightarrow> watcherSocketIndex m' = watcherSocketIndex m \<Longrightarrow> watchers_wf m' = watchers_wf m"
  by (simp add: watchers_wf_def watch_key_def)

lemma on_session_simps [simp]:
  "watchers (on_session i f m) = watchers m"
  "watcherSocketIndex (on_session i f m) = watcherSocketIndex m"
  "streamSocketIndex (on_session i f m) = streamSocketIndex m"
  "browserSocketIndex (on_session i f m) = browserSocketIndex m"
  "agentSocketIndex (on_session i f m) = agentSocketIndex m"
  "agentResources (on_session i f m) = agentResources m"
  "idleTimeoutMs (on_session i f m) = idleTimeoutMs m"
  by (simp_all add: on_session_def split: option.split)

lemma jget_on_session:
  "jget (sessions (on_session i f m)) j = (if j = i then map_option f (jget (sessions m) i) else jget (sessions m) j)"
  by (simp add: on_session_def jm.get_put split: option.split)

lemma on_session_inv:
  assumes "manager_inv m"
    and "\<And>s. jget (sessions m) i = Some s \<Longrightarrow> session_ok s \<Longrightarrow> keeps_ties s (f s) \<and> session_ok (f s)"
  shows "manager_inv (on_session i f m)"
proof (cases "jget (sessions m) i")
  case None
  then show ?thesis using assms(1) by (simp add: on_session_def)
next
  case (Some s)
  note ok = inv_session [OF assms(1) Some]
  with assms(2) [OF Some] have s: "keeps_ties s (f s)" "session_ok (f s)" by blast+
  note parts = manager_invD [OF assms(1)]
  show ?thesis
  proof (rule inv_replace [OF assms(1)])
    show "sessions (on_session i f m) = jset i (f s) (sessions m)"
      using Some by (simp add: on_session_def)
    show "sid_of (f s) = i" "session_ok (f s)" using s ok by (simp_all add: keeps_ties_def)
    show "watchers_wf (on_session i f m)" using parts(2) watchers_wf_cong [of "on_session i f m" m] by simp
    show "watches_admitted (on_session i f m)"
    proof (rule watches_admitted_mono [OF parts(3)])
      fix j t assume "jget (sessions m) j = Some t"
      with Some s(1) show "\<exists>s'. jget (sessions (on_session i f m)) j = Some s'
          \<and> (owner s' = None \<or> owner s' = owner t \<and> holderKind s' = holderKind t)"
        by (cases "j = i") (simp_all add: jget_on_session keeps_ties_def)
    qed (simp add: watch_key_def)
    show "stream_ok (on_session i f m)"
      using parts(4) Some s(1)
      by (fastforce simp: stream_ok_def jget_on_session keeps_ties_def)
    show "si.tracks (browserSocketIndex (on_session i f m)) (\<lambda>j ws. if j = i then browserSocket (f s) = Some ws else holds m j ws)"
      unfolding on_session_simps
      by (rule si.tracks_same [OF parts(5)]) (use Some s(1) in \<open>auto simp: holds_def keeps_ties_def\<close>)
    show "si.tracks (agentSocketIndex (on_session i f m)) (\<lambda>j ws. if j = i then agentSocket (f s) = ws else served_by m j ws)"
      unfolding on_session_simps
      by (rule si.tracks_same [OF parts(6)]) (use Some s(1) in \<open>auto simp: served_by_def keeps_ties_def\<close>)
  qed
qed

lemma plain_write_inv:
  assumes "manager_inv m"
    and "\<And>s. keeps_ties s (f s) \<and> ownerUser (f s) = ownerUser s \<and> idleTimer (f s) = idleTimer s
      \<and> waitingOwner (f s) = waitingOwner s \<and> idleResumeOnLeave (f s) = idleResumeOnLeave s"
  shows "manager_inv (on_session i f m)"
proof (rule on_session_inv [OF assms(1)])
  fix s assume "session_ok s"
  with assms(2) [of s] show "keeps_ties s (f s) \<and> session_ok (f s)"
    unfolding session_ok_def keeps_ties_def by metis
qed

subsection \<open>Watchers\<close>

lemma jget_watch_key: "jget (watchers m) i = Some w \<Longrightarrow> watch_key m i ws = jget w ws"
  by (simp add: watch_key_def)

definition same_sessions :: "manager \<Rightarrow> manager \<Rightarrow> bool" where
  "same_sessions m m' \<longleftrightarrow> sessions m' = sessions m \<and> agentResources m' = agentResources m
     \<and> agentSocketIndex m' = agentSocketIndex m \<and> streamSocketIndex m' = streamSocketIndex m
     \<and> browserSocketIndex m' = browserSocketIndex m \<and> idleTimeoutMs m' = idleTimeoutMs m"

lemma same_sessions_trans: "same_sessions a b \<Longrightarrow> same_sessions b c \<Longrightarrow> same_sessions a c"
  by (simp add: same_sessions_def)

lemma same_sessions_refl [simp]: "same_sessions a a"
  by (simp add: same_sessions_def)

lemma watches_inv:
  assumes "manager_inv m" "same_sessions m m'" "watchers_wf m'" "watches_admitted m'"
  shows "manager_inv m'"
  using assms
  by (simp add: manager_inv_def same_sessions_def sessions_ok_def stream_ok_def holds_def [abs_def] served_by_def [abs_def])

lemma drop_watcher_key:
  assumes "watchers_wf m"
  shows "watch_key (drop_watcher i ws m) j v = (if j = i \<and> v = ws then None else watch_key m j v)"
proof (cases "jget (watchers m) i")
  case None
  then show ?thesis by (simp add: drop_watcher_def removeWatcher_def watch_key_def)
next
  case (Some w)
  then have w: "jwf (watchers m)" "jwf w" using assms by (auto simp: watchers_wf_def)
  have nil: "map_of w v = None" if "jdel ws w = []" "v \<noteq> ws" for v
    using jm.get_del [OF w(2), of ws] that by (metis fun_upd_other map_of.simps(1))
  show ?thesis using Some w nil
    by (auto simp: drop_watcher_def removeWatcher_def watch_key_def Let_def jm.get_put jm.get_del
         split: option.split)
qed

lemma drop_watcher_wf:
  assumes "watchers_wf m"
  shows "watchers_wf (drop_watcher i ws m)"
proof (cases "watch_key m i ws")
  case None
  then have "drop_watcher i ws m = m"
    by (auto simp: drop_watcher_def removeWatcher_def watch_key_def split: option.splits)
  then show ?thesis using assms by simp
next
  case (Some k)
  then obtain w where w: "jget (watchers m) i = Some w" "jget w ws = Some k"
    by (auto simp: watch_key_def  split: bind_splits)
  with assms have wf: "jwf (watchers m)" "jwf w" "length w \<le> MAX_WATCHERS_PER_SESSION"
    by (auto simp: watchers_wf_def)
  have len: "length (jdel ws w) \<le> length w" by (rule length_delete_le)
  have index: "watcherSocketIndex (drop_watcher i ws m) = idx_del ws i (watcherSocketIndex m)"
    using w by (simp add: drop_watcher_def removeWatcher_def Let_def)
  have rows: "watchers (drop_watcher i ws m) =
      (if jdel ws w = [] then jdel i (watchers m) else jset i (jdel ws w) (watchers m))"
    using w by (simp add: drop_watcher_def removeWatcher_def Let_def)
  have "si.tracks (watcherSocketIndex (drop_watcher i ws m)) (\<lambda>i' v. watch_key (drop_watcher i ws m) i' v \<noteq> None)"
    unfolding index
    by (rule si.tracks_del [where R = "\<lambda>i v. watch_key m i v \<noteq> None"])
      (use assms in \<open>auto simp: watchers_wf_def drop_watcher_key\<close>)
  moreover have "jwf (watchers (drop_watcher i ws m))"
    using wf(1) by (simp add: rows jm.wf_put jm.wf_del)
  moreover have "jwf v \<and> v \<noteq> [] \<and> length v \<le> MAX_WATCHERS_PER_SESSION"
    if "jget (watchers (drop_watcher i ws m)) j = Some v" for j v
    using that wf len assms
    by (auto simp: rows jm.get_put jm.get_del jm.wf_del watchers_wf_def  split: if_splits)
  ultimately show ?thesis by (simp add: watchers_wf_def)
qed

lemma drop_watcher_same: "same_sessions m (drop_watcher i ws m)"
  by (simp add: same_sessions_def drop_watcher_def removeWatcher_def Let_def split: option.split)

lemma fold_drop_watcher:
  "watchers_wf m \<Longrightarrow> watchers_wf (fold (drop_watcher i) evs m)
     \<and> same_sessions m (fold (drop_watcher i) evs m)
     \<and> watch_key (fold (drop_watcher i) evs m) j v = (if j = i \<and> v \<in> set evs then None else watch_key m j v)"
proof (induction evs arbitrary: m)
  case (Cons e evs)
  have "watchers_wf (drop_watcher i e m)" using Cons.prems by (rule drop_watcher_wf)
  from Cons.IH [OF this] show ?case
    using Cons.prems drop_watcher_same [of m i e] same_sessions_trans
    by (auto simp: drop_watcher_key)
qed simp

lemma evictWatchers_spec:
  assumes "watchers_wf m"
  shows "watchers_wf (fst (evictWatchers i reason which m))"
    and "same_sessions m (fst (evictWatchers i reason which m))"
    and "watch_key (fst (evictWatchers i reason which m)) j v =
      (if j = i \<and> (\<exists>k. watch_key m i v = Some k \<and> which k) then None else watch_key m j v)"
proof -
  let ?m = "fst (evictWatchers i reason which m)"
  have "watchers_wf ?m \<and> same_sessions m ?m
    \<and> watch_key ?m j v = (if j = i \<and> (\<exists>k. watch_key m i v = Some k \<and> which k) then None else watch_key m j v)"
  proof (cases "jget (watchers m) i")
    case None
    then show ?thesis using assms by (simp add: evictWatchers_def watch_key_def)
  next
    case (Some w)
    let ?evs = "map fst (filter (\<lambda>p. which (snd p)) w)"
    have w: "jwf w" using assms Some by (auto simp: watchers_wf_def)
    have mem: "v \<in> set ?evs \<longleftrightarrow> (\<exists>k. watch_key m i v = Some k \<and> which k)" for v
      by (force simp: jget_watch_key [OF Some] map_of_eq_Some_iff [OF w])
    have m': "?m = fold (drop_watcher i) ?evs m"
      using Some by (simp add: evictWatchers_def Let_def)
    show ?thesis unfolding m' mem [symmetric] by (rule fold_drop_watcher [OF assms])
  qed
  then show "watchers_wf ?m" "same_sessions m ?m"
    "watch_key ?m j v = (if j = i \<and> (\<exists>k. watch_key m i v = Some k \<and> which k) then None else watch_key m j v)"
    by blast+
qed

lemma evictWatchers_inv: "manager_inv m \<Longrightarrow> manager_inv (fst (evictWatchers i reason which m))"
proof (rule watches_inv)
  assume m: "manager_inv m"
  note spec = evictWatchers_spec [OF manager_invD(2) [OF m]]
  show "watchers_wf (fst (evictWatchers i reason which m))" "same_sessions m (fst (evictWatchers i reason which m))"
    by (rule spec)+
  show "watches_admitted (fst (evictWatchers i reason which m))"
    by (rule watches_admitted_mono [OF manager_invD(3) [OF m]])
      (use spec(2) [of i reason which] in \<open>auto simp: spec(3) same_sessions_def split: if_splits\<close>)
qed

lemma drop_watcher_inv:
  assumes "manager_inv m"
  shows "manager_inv (drop_watcher i ws m)"
  using assms drop_watcher_same [of m i ws] drop_watcher_wf [OF manager_invD(2) [OF assms]]
  by (rule watches_inv)
    (rule watches_admitted_mono [OF manager_invD(3) [OF assms]],
      use drop_watcher_same [of m i ws] in
        \<open>auto simp: same_sessions_def drop_watcher_key [OF manager_invD(2) [OF assms]] split: if_splits\<close>)

lemma fold_inv: "manager_inv m \<Longrightarrow> (\<And>x m. x \<in> set xs \<Longrightarrow> manager_inv m \<Longrightarrow> manager_inv (f x m)) \<Longrightarrow> manager_inv (fold f xs m)"
  by (induction xs arbitrary: m) auto

lemma removeWatcherSocket_inv: "manager_inv m \<Longrightarrow> manager_inv (fst (removeWatcherSocket ws m))"
  by (simp add: removeWatcherSocket_def Let_def fold_inv drop_watcher_inv)

lemma addWatcher_inv:
  assumes "manager_inv m" and "jget (sessions m) i = Some s"
    and "owner s = Some key" "isAiClientKind (holderKind s)"
  shows "manager_inv (fst (addWatcher i ws key m))"
proof -
  define w where "w = (case jget (watchers m) i of Some w \<Rightarrow> w | None \<Rightarrow> [])"
  let ?m = "fst (addWatcher i ws key m)"
  note parts = manager_invD [OF assms(1)]
  have wf: "jwf (watchers m)" "jwf w" "length w \<le> MAX_WATCHERS_PER_SESSION"
    "si.tracks (watcherSocketIndex m) (\<lambda>i ws. watch_key m i ws \<noteq> None)"
    using parts(2) by (auto simp: w_def watchers_wf_def split: option.splits)
  have key_w: "watch_key m i v = jget w v" for v
    by (simp add: watch_key_def w_def split: option.split)
  have len: "length (jset ws key w) = (if jget w ws = None then Suc (length w) else length w)"
    using jm.size_put [OF wf(2), of ws key] by simp
  have ne: "jset ws key w \<noteq> []" using len by (cases "jset ws key w") (auto split: if_splits)
  have rest: "j \<noteq> i \<Longrightarrow> jget (watchers m) j = Some v \<Longrightarrow> jwf v \<and> v \<noteq> [] \<and> length v \<le> MAX_WATCHERS_PER_SESSION" for j v
    using parts(2) by (simp add: watchers_wf_def)
  consider "?m = m" | "watchers ?m = jset i (jset ws key w) (watchers m)"
      "watcherSocketIndex ?m = (if jget w ws = None then idx_add ws i (watcherSocketIndex m) else watcherSocketIndex m)"
      "jget w ws \<noteq> None \<or> length w < MAX_WATCHERS_PER_SESSION" "same_sessions m ?m"
  proof -
    have eq: "?m = (if jget w ws \<noteq> None then m\<lparr>watchers := jset i (jset ws key w) (watchers m)\<rparr>
        else if MAX_WATCHERS_PER_SESSION \<le> length w then m
        else m\<lparr>watchers := jset i (jset ws key w) (watchers m),
               watcherSocketIndex := idx_add ws i (watcherSocketIndex m)\<rparr>)"
      using assms(2) by (simp add: addWatcher_def Let_def flip: w_def)
    consider "jget w ws \<noteq> None" | "jget w ws = None" "MAX_WATCHERS_PER_SESSION \<le> length w"
      | "jget w ws = None" "length w < MAX_WATCHERS_PER_SESSION" by linarith
    then show ?thesis
    proof cases
      case 1
      then show ?thesis by (intro that(2)) (auto simp: eq same_sessions_def)
    next
      case 2
      then show ?thesis by (intro that(1)) (simp add: eq)
    next
      case 3
      then show ?thesis by (intro that(2)) (simp_all add: eq same_sessions_def)
    qed
  qed
  then show ?thesis
  proof cases
    case 2
    have key: "watch_key ?m j v = (if j = i \<and> v = ws then Some key else watch_key m j v)" for j v
      using key_w by (auto simp: watch_key_def 2(1) jm.get_put)
    have track: "si.tracks (watcherSocketIndex ?m) (\<lambda>i ws. watch_key ?m i ws \<noteq> None)"
    proof (cases "jget w ws")
      case None
      then show ?thesis using wf(4) by (auto simp: 2(2) key intro: si.tracks_add)
    next
      case (Some k)
      then show ?thesis using wf(4) by (auto simp: 2(2) key key_w intro!: si.tracks_same [OF wf(4)])
    qed
    have "watchers_wf ?m"
      unfolding watchers_wf_def 2(1)
    proof (intro conjI allI impI)
      show "jwf (jset i (jset ws key w) (watchers m))" using wf(1) by (rule jm.wf_put)
      show "si.tracks (watcherSocketIndex ?m) (\<lambda>i ws. watch_key ?m i ws \<noteq> None)" by (rule track)
    qed (use wf ne len rest 2(3) in \<open>auto simp: jm.get_put jm.wf_put split: if_splits\<close>)
    moreover have "watches_admitted ?m"
      unfolding watches_admitted_def
    proof (intro allI impI)
      fix j v k assume "watch_key ?m j v = Some k"
      then show "\<exists>s. jget (sessions ?m) j = Some s \<and> (owner s = None \<or> owner s = Some k \<and> isAiClientKind (holderKind s))"
        using parts(3) 2(4) assms(2-4) by (cases "j = i \<and> v = ws")
          (auto simp: key same_sessions_def watches_admitted_def split: if_splits)
    qed
    ultimately show ?thesis by (intro watches_inv [OF assms(1) 2(4)])
  qed (simp add: assms(1))
qed

subsection \<open>Sessions made and removed\<close>

lemma tracks_removed:
  assumes "si.tracks ix R" and "\<And>j k. R' j k \<longleftrightarrow> j \<noteq> i \<and> R j k" and "\<And>k. R i k \<Longrightarrow> k = ws"
  shows "si.tracks (idx_del ws i ix) R'"
  using assms(1) by (rule si.tracks_del) (use assms(2,3) in blast)

lemma create_one_inv:
  assumes "manager_inv m" and "jget (sessions m) (fst p) = None"
  shows "manager_inv (create_one ws a p m)"
proof -
  let ?i = "fst p" and ?m = "create_one ws a p m"
  let ?s = "agentFields a (snd p) (blank_session ?i ws (snd p))"
  note parts = manager_invD [OF assms(1)]
  have s: "sid_of ?s = ?i" "session_ok ?s" "browserSocket ?s = None" "agentSocket ?s = ws"
    by (simp_all add: agentFields_def deviceFields_def blank_session_def session_ok_def)
  show ?thesis
  proof (rule inv_replace [OF assms(1) _ s(1,2)])
    show "sessions ?m = jset ?i ?s (sessions m)" by (simp add: create_one_def)
    show "watchers_wf ?m" using parts(2) watchers_wf_cong [of ?m m] by (simp add: create_one_def)
    show "watches_admitted ?m"
      by (rule watches_admitted_mono [OF parts(3)])
        (use assms(2) in \<open>auto simp: create_one_def jm.get_put watch_key_def split: if_splits\<close>)
    show "stream_ok ?m" using parts(4) assms(2) by (fastforce simp: stream_ok_def create_one_def jm.get_put)
    show "si.tracks (browserSocketIndex ?m) (\<lambda>j ws. if j = ?i then browserSocket ?s = Some ws else holds m j ws)"
    proof -
      have "browserSocketIndex ?m = browserSocketIndex m" by (simp add: create_one_def)
      then show ?thesis using si.tracks_same [OF parts(5)] assms(2) s(3) by (simp add: holds_def)
    qed
    show "si.tracks (agentSocketIndex ?m) (\<lambda>j ws. if j = ?i then agentSocket ?s = ws else served_by m j ws)"
      using assms(2) s by (auto simp: create_one_def served_by_def intro!: si.tracks_add [OF parts(6)])
  qed
qed

lemma create_inv:
  assumes "manager_inv m" and "distinct (map fst ds)" and "\<And>i. i \<in> fst ` set ds \<Longrightarrow> jget (sessions m) i = None"
  shows "manager_inv (create ws ds a m)"
  using assms
proof (induction ds arbitrary: m)
  case (Cons p ds)
  have "manager_inv (create_one ws a p m)" using Cons.prems by (intro create_one_inv) auto
  moreover have "jget (sessions (create_one ws a p m)) i = None" if "i \<in> fst ` set ds" for i
    using Cons.prems that by (cases "i = fst p") (auto simp: create_one_def jm.get_put)
  ultimately show ?case using Cons.IH [of "create_one ws a p m"] Cons.prems(2) by (simp add: create_def)
qed (simp add: create_def)

text \<open>Removing a session drops it from every index it was in.\<close>

lemma stream_index_at_session:
  assumes "stream_ok m" "jget (sessions m) i = Some s"
  shows "jget (streamSocketIndex m) ws = Some i \<Longrightarrow> streamSocket s = Some ws"
  using assms by (fastforce simp: stream_ok_def)

lemma remove_inv:
  assumes "manager_inv m"
  shows "manager_inv (fst (remove i m))"
proof (cases "jget (sessions m) i")
  case None
  then show ?thesis using assms by (simp add: remove_def)
next
  case (Some s)
  define m1 where "m1 = fst (evictWatchers i Session_ended (\<lambda>_. True) m)"
  let ?m = "fst (remove i m)"
  have inv1: "manager_inv m1" unfolding m1_def by (rule evictWatchers_inv [OF assms])
  note spec = evictWatchers_spec [OF manager_invD(2) [OF assms], of i Session_ended "\<lambda>_. True", folded m1_def]
  note parts = manager_invD [OF inv1]
  have same: "sessions m1 = sessions m" using spec(2) by (simp add: same_sessions_def)
  have sid: "sid_of s = i" using inv_session [OF assms Some] by simp
  have gone: "watch_key m1 i ws = None" for ws by (auto simp: spec(3))
  have eqs: "sessions ?m = jdel i (sessions m1)" "watchers ?m = watchers m1"
    "watcherSocketIndex ?m = watcherSocketIndex m1"
    "agentSocketIndex ?m = idx_del (agentSocket s) i (agentSocketIndex m1)"
    "streamSocketIndex ?m = (case streamSocket s of Some ws \<Rightarrow> jdel ws (streamSocketIndex m1) | None \<Rightarrow> streamSocketIndex m1)"
    "browserSocketIndex ?m = (case browserSocket s of Some ws \<Rightarrow> idx_del ws i (browserSocketIndex m1) | None \<Rightarrow> browserSocketIndex m1)"
    using Some sid
    by (auto simp: remove_def Let_def unindexBrowser_def split_beta simp flip: m1_def split: option.split)
  have get: "jget (sessions ?m) j = (if j = i then None else jget (sessions m) j)" for j
    using inv_jwf [OF inv1] by (simp add: eqs(1) jm.get_del same)
  have key: "watch_key ?m = watch_key m1" by (simp add: watch_key_def [abs_def] eqs(2))
  have "sessions_ok ?m"
    using parts(1) inv_jwf [OF inv1] by (simp add: sessions_ok_def eqs(1) jm.get_del jm.wf_del)
  moreover have "watchers_wf ?m" using parts(2) watchers_wf_cong [OF eqs(2,3)] by simp
  moreover have "watches_admitted ?m"
    unfolding watches_admitted_def
  proof (intro allI impI)
    fix j ws k assume "watch_key ?m j ws = Some k"
    then have "watch_key m1 j ws = Some k" "j \<noteq> i" using gone by (auto simp: key)
    with parts(3) show "\<exists>s. jget (sessions ?m) j = Some s \<and> (owner s = None \<or> owner s = Some k \<and> isAiClientKind (holderKind s))"
      by (simp add: watches_admitted_def get same)
  qed
  moreover have "stream_ok ?m"
  proof -
    have wf: "jwf (streamSocketIndex m1)" using parts(4) by (simp add: stream_ok_def)
    have "jget (streamSocketIndex ?m) ws = Some j \<Longrightarrow> jget (streamSocketIndex m1) ws = Some j \<and> j \<noteq> i" for ws j
      using stream_index_at_session [OF parts(4), of i s ws] Some wf
      by (auto simp: eqs(5) same jm.get_del split: option.splits if_splits)
    moreover have "jwf (streamSocketIndex ?m)" using wf by (simp add: eqs(5) jm.wf_del split: option.split)
    moreover have "jget (streamSocketIndex m1) ws = Some j \<Longrightarrow> \<exists>t. jget (sessions m) j = Some t \<and> streamSocket t = Some ws" for ws j
      using parts(4) by (simp add: stream_ok_def same)
    ultimately show ?thesis by (simp add: stream_ok_def get)
  qed
  moreover have "si.tracks (browserSocketIndex ?m) (holds ?m)"
  proof (cases "browserSocket s")
    case None
    then show ?thesis unfolding eqs(6) using Some same
      by (auto intro!: si.tracks_same [OF parts(5)] simp: holds_def get split: if_splits)
  next
    case (Some ws)
    then show ?thesis unfolding eqs(6) using \<open>jget (sessions m) i = Some s\<close> same
      by (auto intro!: tracks_removed [OF parts(5)] simp: holds_def get split: if_splits)
  qed
  moreover have "si.tracks (agentSocketIndex ?m) (served_by ?m)"
    unfolding eqs(4) using Some same
    by (auto intro!: tracks_removed [OF parts(6)] simp: served_by_def get split: if_splits)
  ultimately show ?thesis by (simp add: manager_inv_def)
qed

subsection \<open>Holding and letting go\<close>

lemma unindex_same [simp]:
  "sessions (unindexBrowser s m) = sessions m" "watchers (unindexBrowser s m) = watchers m"
  "watcherSocketIndex (unindexBrowser s m) = watcherSocketIndex m"
  "streamSocketIndex (unindexBrowser s m) = streamSocketIndex m"
  "agentSocketIndex (unindexBrowser s m) = agentSocketIndex m"
  "idleTimeoutMs (unindexBrowser s m) = idleTimeoutMs m"
  "agentResources (unindexBrowser s m) = agentResources m"
  by (simp_all add: unindexBrowser_def split: option.split)

text \<open>A release that leaves nobody's wait without a countdown behind it.\<close>

lemma release_session_ok:
  assumes "session_ok s" and "countdown \<or> owner s \<noteq> None \<and> \<not> idleResumeOnLeave s"
  shows "session_ok (release_session now t countdown s)"
  using assms
  by (auto simp: release_session_def session_ok_def Let_def note_holder_kind_def clear_holder_def
      start_countdown_def leaving_person_def split: option.splits)

lemma release_session_ties [simp]:
  "sid_of (release_session now t c s) = sid_of s" "agentSocket (release_session now t c s) = agentSocket s"
  "streamSocket (release_session now t c s) = streamSocket s" "owner (release_session now t c s) = None"
  "browserSocket (release_session now t c s) = None"
  by (simp_all add: release_session_def Let_def note_holder_kind_def clear_holder_def start_countdown_def)

lemma sessions_on_session:
  "jget (sessions m) i = Some s \<Longrightarrow> sessions (on_session i f m) = jset i (f s) (sessions m)"
  by (simp add: on_session_def)

lemma clearBrowser_inv:
  assumes "manager_inv m"
    and "\<And>s. jget (sessions m) i = Some s \<Longrightarrow> countdown \<or> owner s \<noteq> None \<and> \<not> idleResumeOnLeave s"
  shows "manager_inv (clearBrowser now i countdown m)"
proof (cases "jget (sessions m) i")
  case None
  then show ?thesis using assms(1) by (simp add: clearBrowser_def)
next
  case (Some s)
  let ?s = "release_session now (idleTimeoutMs m) countdown s" and ?m = "clearBrowser now i countdown m"
  note parts = manager_invD [OF assms(1)] and ok = inv_session [OF assms(1) Some]
  have m': "?m = on_session i (release_session now (idleTimeoutMs m) countdown) (unindexBrowser s m)"
    by (simp add: clearBrowser_def Some)
  have ses: "sessions ?m = jset i ?s (sessions m)"
    unfolding m' by (subst sessions_on_session) (simp_all add: Some)
  have get: "jget (sessions ?m) j = (if j = i then Some ?s else jget (sessions m) j)" for j
    by (simp add: ses jm.get_put)
  have key: "watch_key ?m = watch_key m" by (simp add: watch_key_def [abs_def] m')
  have stream: "streamSocketIndex ?m = streamSocketIndex m" by (simp add: m')
  show ?thesis
  proof (rule inv_replace [OF assms(1) ses])
    show "sid_of ?s = i" using ok by simp
    show "session_ok ?s" using ok assms(2) [OF Some] by (intro release_session_ok) auto
    show "watchers_wf ?m" using parts(2) watchers_wf_cong [of ?m m] by (simp add: m')
    show "watches_admitted ?m"
      by (rule watches_admitted_mono [OF parts(3)])
        (auto simp: get key)
    show "stream_ok ?m"
      using parts(4) Some by (fastforce simp: stream_ok_def get stream)
    show "si.tracks (agentSocketIndex ?m) (\<lambda>j ws. if j = i then agentSocket ?s = ws else served_by m j ws)"
      using Some by (auto intro!: si.tracks_same [OF parts(6)] simp: m' served_by_def)
    show "si.tracks (browserSocketIndex ?m) (\<lambda>j ws. if j = i then browserSocket ?s = Some ws else holds m j ws)"
    proof (cases "browserSocket s")
      case None
      then show ?thesis using Some
        by (auto intro!: si.tracks_same [OF parts(5)] simp: m' unindexBrowser_def holds_def)
    next
      case (Some ws)
      then show ?thesis using \<open>jget (sessions m) i = Some s\<close> ok
        by (auto intro!: tracks_removed [OF parts(5)] simp: m' unindexBrowser_def holds_def)
    qed
  qed
qed

lemma join_session_ok:
  assumes "session_ok s"
  shows "session_ok (end_wait now o' h (bind_holder ws o' h (stop_countdown (h_kind h) s)))"
  using assms
  by (auto simp: session_ok_def end_wait_def bind_holder_def stop_countdown_def Let_def)

lemma join_session_ties [simp]:
  "sid_of (end_wait now o' h (bind_holder ws o' h (stop_countdown k s))) = sid_of s"
  "agentSocket (end_wait now o' h (bind_holder ws o' h (stop_countdown k s))) = agentSocket s"
  "streamSocket (end_wait now o' h (bind_holder ws o' h (stop_countdown k s))) = streamSocket s"
  "browserSocket (end_wait now o' h (bind_holder ws o' h (stop_countdown k s))) = Some ws"
  "owner (end_wait now o' h (bind_holder ws o' h (stop_countdown k s))) = Some (o_key o')"
  "holderKind (end_wait now o' h (bind_holder ws o' h (stop_countdown k s))) = h_kind h"
  by (simp_all add: end_wait_def bind_holder_def stop_countdown_def Let_def)

text \<open>What a join that goes through leaves, as one replaced session.\<close>

lemma join_ok_state:
  fixes now :: ms and h :: join_holder and ws :: socket and o' :: join_owner
  assumes "manager_inv m" "jget (sessions m) i = Some s"
    and "\<not> gone_for o' s" "\<not> occupied isOpen isAlive (o_key o') s"
  defines "s' \<equiv> end_wait now o' h (bind_holder ws o' h (stop_countdown (h_kind h) s))"
  defines "m' \<equiv> fst (join now isOpen isAlive i ws o' h m)"
  shows "sessions m' = jset i s' (sessions m)"
    and "agentSocketIndex m' = agentSocketIndex m" "streamSocketIndex m' = streamSocketIndex m"
    and "browserSocketIndex m' = idx_add ws i (browserSocketIndex (unindexBrowser s m))"
    and "watchers_wf m'"
    and "watch_key m' j v = (if j = i \<and> (\<exists>k. watch_key m i v = Some k \<and> (k \<noteq> o_key o' \<or> \<not> isAiClientKind (h_kind h)))
           then None else watch_key m j v)"
    and "fst (snd (join now isOpen isAlive i ws o' h m)) = Join_ok"
proof -
  let ?which = "\<lambda>k. k \<noteq> o_key o' \<or> \<not> isAiClientKind (h_kind h)"
  define m1 where "m1 = unindexBrowser s (on_session i (stop_countdown (h_kind h)) m)"
  define m2 where "m2 = on_session i (\<lambda>s. end_wait now o' h (bind_holder ws o' h s)) m1"
  define m3 where "m3 = fst (evictWatchers i Holder_changed ?which m2)"
  have m': "m' = m3\<lparr>browserSocketIndex := idx_add ws i (browserSocketIndex m3)\<rparr>"
    and "fst (snd (join now isOpen isAlive i ws o' h m)) = Join_ok"
    unfolding m'_def m3_def m2_def m1_def join_def
    using assms(2-4) by (simp_all add: Let_def split_beta)
  then show "fst (snd (join now isOpen isAlive i ws o' h m)) = Join_ok" by simp
  have ses1: "sessions m1 = jset i (stop_countdown (h_kind h) s) (sessions m)"
    unfolding m1_def using assms(2) by (simp add: sessions_on_session)
  have ses2: "sessions m2 = jset i s' (sessions m)"
    unfolding m2_def using ses1
    by (simp add: sessions_on_session jm.get_put s'_def)
  have wf2: "watchers_wf m2"
    using manager_invD(2) [OF assms(1)] watchers_wf_cong [of m2 m] by (simp add: m2_def m1_def)
  have key2: "watch_key m2 = watch_key m" by (simp add: watch_key_def [abs_def] m2_def m1_def)
  note spec = evictWatchers_spec [OF wf2, of i Holder_changed ?which, folded m3_def]
  have idx: "agentSocketIndex m2 = agentSocketIndex m" "streamSocketIndex m2 = streamSocketIndex m"
    "browserSocketIndex m2 = browserSocketIndex (unindexBrowser s m)"
    by (simp_all add: m2_def m1_def unindexBrowser_def split: option.split)
  show "sessions m' = jset i s' (sessions m)" "agentSocketIndex m' = agentSocketIndex m"
    "streamSocketIndex m' = streamSocketIndex m"
    "browserSocketIndex m' = idx_add ws i (browserSocketIndex (unindexBrowser s m))"
    using spec(2) ses2 idx by (simp_all add: m' same_sessions_def)
  show "watchers_wf m'" using spec(1) watchers_wf_cong [of m' m3] by (simp add: m')
  show "watch_key m' j v = (if j = i \<and> (\<exists>k. watch_key m i v = Some k \<and> ?which k) then None else watch_key m j v)"
    using spec(3) [of j v] unfolding m' key2 watch_key_sessions .
qed

lemma join_inv:
  assumes "manager_inv m"
  shows "manager_inv (fst (join now isOpen isAlive i ws o' h m))"
proof (cases "jget (sessions m) i")
  case None
  then show ?thesis using assms by (simp add: join_def)
next
  case (Some s)
  show ?thesis
  proof (cases "gone_for o' s \<or> occupied isOpen isAlive (o_key o') s")
    case True
    then show ?thesis using assms Some by (auto simp: join_def)
  next
    case False
    let ?m = "fst (join now isOpen isAlive i ws o' h m)"
    let ?s = "end_wait now o' h (bind_holder ws o' h (stop_countdown (h_kind h) s))"
    note st = join_ok_state [OF assms Some, of o' isOpen isAlive, where now = now and h = h and ws = ws]
    note parts = manager_invD [OF assms] and ok = inv_session [OF assms Some]
    have ses: "sessions ?m = jset i ?s (sessions m)" using False by (intro st) auto
    have wk: "watch_key ?m j v = (if j = i \<and> (\<exists>k. watch_key m i v = Some k \<and> (k \<noteq> o_key o' \<or> \<not> isAiClientKind (h_kind h)))
           then None else watch_key m j v)" for j v
      using False by (intro st) auto
    show ?thesis
    proof (rule inv_replace [OF assms ses])
      show "sid_of ?s = i" "session_ok ?s" using ok by (simp_all add: join_session_ok)
      show "watchers_wf ?m" using False by (intro st) auto
      show "watches_admitted ?m"
        unfolding watches_admitted_def
      proof (intro allI impI)
        fix j v k assume k: "watch_key ?m j v = Some k"
        then have old: "watch_key m j v = Some k" and new: "j = i \<Longrightarrow> k = o_key o' \<and> isAiClientKind (h_kind h)"
          by (auto simp: wk split: if_splits)
        from old parts(3) obtain t where "jget (sessions m) j = Some t"
          "owner t = None \<or> owner t = Some k \<and> isAiClientKind (holderKind t)"
          unfolding watches_admitted_def by blast
        with new show "\<exists>s. jget (sessions ?m) j = Some s \<and> (owner s = None \<or> owner s = Some k \<and> isAiClientKind (holderKind s))"
          by (simp add: ses jm.get_put)
      qed
      have "streamSocketIndex ?m = streamSocketIndex m" using False by (intro st) auto
      then show "stream_ok ?m" using parts(4) Some by (fastforce simp: stream_ok_def ses jm.get_put)
      have "agentSocketIndex ?m = agentSocketIndex m" using False by (intro st) auto
      then show "si.tracks (agentSocketIndex ?m) (\<lambda>j ws. if j = i then agentSocket ?s = ws else served_by m j ws)"
        using Some by (auto intro!: si.tracks_same [OF parts(6)] simp: served_by_def)
      have b: "browserSocketIndex ?m = idx_add ws i (browserSocketIndex (unindexBrowser s m))"
        using False by (intro st) auto
      show "si.tracks (browserSocketIndex ?m) (\<lambda>j v. if j = i then browserSocket ?s = Some v else holds m j v)"
      proof (cases "browserSocket s")
        case None
        then show ?thesis unfolding b using Some
          by (auto intro!: si.tracks_add [OF parts(5)] simp: unindexBrowser_def holds_def split: if_splits)
      next
        case (Some old)
        then show ?thesis unfolding b using \<open>jget (sessions m) i = Some s\<close> ok
          by (auto intro!: si.tracks_move [OF parts(5)] simp: unindexBrowser_def holds_def split: if_splits)
      qed
    qed
  qed
qed

subsection \<open>The stream and the agent\<close>

lemma stream_change_inv:
  assumes "manager_inv m" "jget (sessions m) i = Some s"
    and "sessions m' = jset i s' (sessions m)" "keeps_ties s (s'\<lparr>streamSocket := streamSocket s\<rparr>)" "session_ok s'"
    and "watchers m' = watchers m" "watcherSocketIndex m' = watcherSocketIndex m"
    and "browserSocketIndex m' = browserSocketIndex m" "agentSocketIndex m' = agentSocketIndex m"
    and "stream_ok m'"
  shows "manager_inv m'"
proof (rule inv_replace [OF assms(1,3)])
  note parts = manager_invD [OF assms(1)] and ok = inv_session [OF assms(1,2)]
  show "sid_of s' = i" using ok assms(4) by (simp add: keeps_ties_def)
  show "watchers_wf m'" using parts(2) watchers_wf_cong [OF assms(6,7)] by simp
  show "watches_admitted m'"
    by (rule watches_admitted_mono [OF parts(3)])
      (use assms(2,4) in \<open>auto simp: assms(3) jm.get_put watch_key_def assms(6) keeps_ties_def split: if_splits\<close>)
  show "si.tracks (browserSocketIndex m') (\<lambda>j ws. if j = i then browserSocket s' = Some ws else holds m j ws)"
    unfolding assms(8) using assms(2,4) by (auto intro!: si.tracks_same [OF parts(5)] simp: holds_def keeps_ties_def)
  show "si.tracks (agentSocketIndex m') (\<lambda>j ws. if j = i then agentSocket s' = ws else served_by m j ws)"
    unfolding assms(9) using assms(2,4) by (auto intro!: si.tracks_same [OF parts(6)] simp: served_by_def keeps_ties_def)
qed (rule assms(5,10))+

lemma session_ok_stream [simp]:
  "session_ok (s\<lparr>streamSocket := x\<rparr>) = session_ok s" "session_ok (s\<lparr>readySent := b\<rparr>) = session_ok s"
  "session_ok (s\<lparr>agentSocket := a\<rparr>) = session_ok s"
  by (simp_all add: session_ok_def)

lemma clearStreamSocket_inv:
  assumes "manager_inv m"
  shows "manager_inv (clearStreamSocket i m)"
proof (cases "Option.bind (jget (sessions m) i) streamSocket")
  case None
  then show ?thesis using assms by (simp add: clearStreamSocket_def)
next
  case (Some ws)
  then obtain s where s: "jget (sessions m) i = Some s" "streamSocket s = Some ws"
    by (auto simp: bind_eq_Some_conv)
  let ?m = "clearStreamSocket i m" and ?s = "s\<lparr>streamSocket := None, readySent := False\<rparr>"
  note parts = manager_invD [OF assms] and ok = inv_session [OF assms s(1)]
  have eq: "sessions ?m = jset i ?s (sessions m)" "streamSocketIndex ?m = jdel ws (streamSocketIndex m)"
    using s by (simp_all add: clearStreamSocket_def on_session_def)
  have wf: "jwf (streamSocketIndex m)" using parts(4) by (simp add: stream_ok_def)
  have "jwf (streamSocketIndex ?m)" using wf by (simp add: eq(2) jm.wf_del)
  moreover have "\<exists>t. jget (sessions ?m) j = Some t \<and> streamSocket t = Some v"
    if "jget (streamSocketIndex ?m) v = Some j" for v j
  proof -
    from that wf have v: "jget (streamSocketIndex m) v = Some j" "v \<noteq> ws"
      by (auto simp: eq(2) jm.get_del split: if_splits)
    then have "j \<noteq> i" using stream_index_at_session [OF parts(4) s(1), of v] s(2) by auto
    with v parts(4) show ?thesis by (simp add: stream_ok_def eq(1) jm.get_put)
  qed
  ultimately have "stream_ok ?m" by (simp add: stream_ok_def)
  then show ?thesis
    by (intro stream_change_inv [OF assms s(1) eq(1)])
      (use s ok in \<open>auto simp: keeps_ties_def clearStreamSocket_def\<close>)
qed

lemma setStreamSocket_inv:
  assumes "manager_inv m"
  shows "manager_inv (setStreamSocket i ws m)"
proof (cases "jget (sessions m) i")
  case None
  then show ?thesis using assms by (simp add: setStreamSocket_def)
next
  case (Some s)
  let ?m = "setStreamSocket i ws m" and ?s = "s\<lparr>streamSocket := Some ws\<rparr>"
  note parts = manager_invD [OF assms] and ok = inv_session [OF assms Some]
  have wf: "jwf (streamSocketIndex m)" using parts(4) by (simp add: stream_ok_def)
  let ?ix = "case streamSocket s of Some old \<Rightarrow> jdel old (streamSocketIndex m) | None \<Rightarrow> streamSocketIndex m"
  have eq: "sessions ?m = jset i ?s (sessions m)" "streamSocketIndex ?m = jset ws i ?ix"
    using Some by (simp_all add: setStreamSocket_def Let_def on_session_def split: option.split)
  have old: "jget ?ix v = Some j \<Longrightarrow> jget (streamSocketIndex m) v = Some j \<and> j \<noteq> i" for v j
    using stream_index_at_session [OF parts(4) Some, of v] wf
    by (auto simp: jm.get_del split: option.splits if_splits)
  have "jwf (streamSocketIndex ?m)" using wf by (simp add: eq(2) jm.wf_put jm.wf_del split: option.split)
  moreover have "\<exists>t. jget (sessions ?m) j = Some t \<and> streamSocket t = Some v"
    if "jget (streamSocketIndex ?m) v = Some j" for v j
  proof (cases "v = ws")
    case True
    with that have "j = i" by (simp add: eq(2) jm.get_put)
    with True show ?thesis unfolding eq(1) by (simp add: jm.get_put)
  next
    case False
    with that old [of v j] have "jget (streamSocketIndex m) v = Some j" "j \<noteq> i" by (auto simp: eq(2) jm.get_put)
    with parts(4) show ?thesis by (simp add: stream_ok_def eq(1) jm.get_put)
  qed
  ultimately have "stream_ok ?m" by (simp add: stream_ok_def)
  then show ?thesis
    by (intro stream_change_inv [OF assms Some eq(1)])
      (use Some ok in \<open>auto simp: keeps_ties_def setStreamSocket_def Let_def split: option.split\<close>)
qed

text \<open>The move from the old agent socket to the new one, before anything else of \<open>rebind\<close>.\<close>

lemma move_agent_inv:
  assumes "manager_inv m" "jget (sessions m) i = Some s"
    and "sessions m' = jset i (s\<lparr>agentSocket := ws\<rparr>) (sessions m)"
    and "agentSocketIndex m' = idx_add ws i (idx_del (agentSocket s) i (agentSocketIndex m))"
    and "watchers m' = watchers m" "watcherSocketIndex m' = watcherSocketIndex m"
    and "browserSocketIndex m' = browserSocketIndex m" "streamSocketIndex m' = streamSocketIndex m"
  shows "manager_inv m'"
proof (rule inv_replace [OF assms(1,3)])
  note parts = manager_invD [OF assms(1)] and ok = inv_session [OF assms(1,2)]
  show "sid_of (s\<lparr>agentSocket := ws\<rparr>) = i" "session_ok (s\<lparr>agentSocket := ws\<rparr>)" using ok by simp_all
  show "watchers_wf m'" using parts(2) watchers_wf_cong [OF assms(5,6)] by simp
  show "watches_admitted m'"
    by (rule watches_admitted_mono [OF parts(3)])
      (use assms(2) in \<open>auto simp: assms(3) jm.get_put watch_key_def assms(5) split: if_splits\<close>)
  show "stream_ok m'"
    using parts(4) assms(2) by (fastforce simp: stream_ok_def assms(3,8) jm.get_put)
  show "si.tracks (browserSocketIndex m') (\<lambda>j v. if j = i then browserSocket (s\<lparr>agentSocket := ws\<rparr>) = Some v else holds m j v)"
    unfolding assms(7) using assms(2) by (auto intro!: si.tracks_same [OF parts(5)] simp: holds_def)
  show "si.tracks (agentSocketIndex m') (\<lambda>j v. if j = i then agentSocket (s\<lparr>agentSocket := ws\<rparr>) = v else served_by m j v)"
    unfolding assms(4)
    by (rule si.tracks_move [OF parts(6)]) (use assms(2) in \<open>auto simp: served_by_def\<close>)
qed

lemma resources_inv: "manager_inv m \<Longrightarrow> manager_inv (m\<lparr>agentResources := r\<rparr>)"
  by (simp add: manager_inv_def sessions_ok_def watchers_wf_def watches_admitted_def stream_ok_def
      holds_def [abs_def] served_by_def [abs_def])

lemma rebind_inv:
  assumes "manager_inv m"
  shows "manager_inv (rebind i ws d a m)"
proof (cases "jget (sessions m) i")
  case None
  then show ?thesis using assms by (simp add: rebind_def)
next
  case (Some s)
  define m1 where "m1 = m\<lparr>agentSocketIndex := idx_del (agentSocket s) i (agentSocketIndex m)\<rparr>"
  define m2 where "m2 = on_session i (\<lambda>s. s\<lparr>agentSocket := ws\<rparr>) m1"
  define m3 where "m3 = m2\<lparr>agentSocketIndex := idx_add ws i (agentSocketIndex m2)\<rparr>"
  have "manager_inv m3"
    by (rule move_agent_inv [OF assms Some])
      (simp_all add: m3_def m2_def m1_def sessions_on_session Some)
  then have "manager_inv (clearStreamSocket i m3)" by (rule clearStreamSocket_inv)
  then have "manager_inv (on_session i (\<lambda>s. (agentFields a d (s\<lparr>readySent := False, chromeData := None,
      postures := None, deviceInfo := None\<rparr>))\<lparr>deviceGone := False\<rparr>) (clearStreamSocket i m3))"
    by (rule plain_write_inv) (simp add: keeps_ties_def agentFields_def deviceFields_def)
  from resources_inv [OF this] show ?thesis
    by (simp add: rebind_def Some Let_def m3_def m2_def m1_def)
qed

subsection \<open>Releases as the server makes them\<close>

lemma released_session:
  assumes "manager_inv m" "jget (sessions m) i = Some s"
  shows "jget (sessions (clearBrowser now i c m)) i = Some (release_session now (idleTimeoutMs m) c s)"
  using assms by (simp add: clearBrowser_def jget_on_session)

lemma spend_after_release:
  assumes "session_ok (release_session now t c s)"
  shows "session_ok (release_session now t c s\<lparr>idleResumeOnLeave := False\<rparr>)"
proof -
  have "holderKind (release_session now t c s) = None"
    by (simp add: release_session_def Let_def clear_holder_def start_countdown_def)
  then show ?thesis using assms by (auto simp: session_ok_def)
qed

lemma session_release_inv:
  assumes "manager_inv m"
    and "\<And>s. jget (sessions m) i = Some s \<Longrightarrow> c \<or> owner s \<noteq> None \<and> \<not> idleResumeOnLeave s"
  shows "manager_inv (spend_resume i (clearBrowser now i c m))"
  unfolding spend_resume_def
proof (rule on_session_inv [OF clearBrowser_inv [OF assms]])
  fix s assume s: "jget (sessions (clearBrowser now i c m)) i = Some s" "session_ok s"
  then obtain s0 where "jget (sessions m) i = Some s0"
    by (cases "jget (sessions m) i") (auto simp: clearBrowser_def)
  with s(1) released_session [OF assms(1)] have "s = release_session now (idleTimeoutMs m) c s0" by simp
  with s(2) spend_after_release
  show "keeps_ties s (s\<lparr>idleResumeOnLeave := False\<rparr>) \<and> session_ok (s\<lparr>idleResumeOnLeave := False\<rparr>)"
    by (auto simp: keeps_ties_def)
qed

lemma leave_session_inv:
  assumes "manager_inv m" and "\<And>s. jget (sessions m) i = Some s \<Longrightarrow> owner s \<noteq> None"
  shows "manager_inv (fst (leave_session now i m))"
  unfolding leave_session_def Let_def endWatches_def
  by (intro evictWatchers_inv session_release_inv assms(1)) (use assms(2) in \<open>auto split: option.splits\<close>)

lemma socket_closed_inv: "manager_inv m \<Longrightarrow> manager_inv (socket_closed now ws m)"
  unfolding socket_closed_def by (rule fold_inv) (auto intro: session_release_inv)

lemma idle_fires_inv: "manager_inv m \<Longrightarrow> manager_inv (idle_fires now i m)"
  unfolding idle_fires_def
  by (auto split: option.split intro!: on_session_inv simp: keeps_ties_def session_ok_def)

lemma shutdown_steps_ok:
  assumes "session_ok s"
  shows "session_ok (note_shutdown now user label nm s)" "session_ok (undo_shutdown s)" "session_ok (settle_shutdown s)"
  using assms
  by (auto simp: session_ok_def note_shutdown_def undo_shutdown_def settle_shutdown_def Let_def split: option.split prod.split)

lemma shutdown_steps_ties:
  "keeps_ties s (note_shutdown now user label nm s)" "keeps_ties s (undo_shutdown s)" "keeps_ties s (settle_shutdown s)"
  by (auto simp: keeps_ties_def note_shutdown_def undo_shutdown_def settle_shutdown_def Let_def split: option.split prod.split)

text \<open>Writes to fields that tie a session to nothing.\<close>

lemma field_writes_inv:
  assumes "manager_inv m"
  shows "manager_inv (refreshDevice i d m)" "manager_inv (noteShutdownSent i m)" "manager_inv (noteBootSent i m)"
    "manager_inv (clearDeviceCache i m)" "manager_inv (setChromeData i p m)" "manager_inv (setPostures i p m)"
    "manager_inv (setDeviceInfo i p m)" "manager_inv (setReadySent i b m)" "manager_inv (setDeviceServiceTier i t m)"
    "manager_inv (updateDeviceStatus i st m)" "manager_inv (device_left i m)"
  unfolding refreshDevice_def noteShutdownSent_def noteBootSent_def clearDeviceCache_def setChromeData_def
    setPostures_def setDeviceInfo_def setReadySent_def setDeviceServiceTier_def updateDeviceStatus_def
    device_left_def
  by (rule plain_write_inv [OF assms], simp add: keeps_ties_def)+

lemma shutdown_inv:
  assumes "manager_inv m"
  shows "manager_inv (noteShutdown now i user label nm m)" "manager_inv (undoShutdown i m)" "manager_inv (settleShutdown i m)"
  unfolding noteShutdown_def undoShutdown_def settleShutdown_def
  by (rule on_session_inv [OF assms], simp add: shutdown_steps_ok shutdown_steps_ties)+

subsection \<open>Every run\<close>

text \<open>
  One step of the manager: any of its operations, called the way \<open>RelayServer\<close> calls it. A session is
  left only by a client that owns it, a watcher is admitted by \<open>handleWatchStart\<close>, and the
  identifiers of new sessions are fresh, as \<open>randomUUID\<close>'s are.
\<close>

inductive session_step :: "manager \<Rightarrow> manager \<Rightarrow> bool" where
  step_create: "distinct (map fst ds) \<Longrightarrow> \<forall>i \<in> fst ` set ds. jget (sessions m) i = None
    \<Longrightarrow> session_step m (create ws ds a m)"
| step_refresh: "session_step m (refreshDevice i d m)"
| step_join: "session_step m (fst (join now isOpen isAlive i ws o' h m))"
| step_remove: "session_step m (fst (remove i m))"
| step_leave: "jget (sessions m) i = Some s \<Longrightarrow> owner s \<noteq> None \<Longrightarrow> session_step m (fst (leave_session now i m))"
| step_socket_closed: "session_step m (socket_closed now ws m)"
| step_idle: "session_step m (idle_fires now i m)"
| step_note_shutdown: "session_step m (noteShutdown now i user label nm m)"
| step_undo_shutdown: "session_step m (undoShutdown i m)"
| step_shutdown_sent: "session_step m (noteShutdownSent i m)"
| step_boot_sent: "session_step m (noteBootSent i m)"
| step_settle_shutdown: "session_step m (settleShutdown i m)"
| step_rebind: "session_step m (rebind i ws d a m)"
| step_watch: "session_step m (fst (watch_start may asker ws i m))"
| step_unwatch: "session_step m (fst (removeWatcher i ws m))"
| step_unwatch_socket: "session_step m (fst (removeWatcherSocket ws m))"
| step_end_watches: "session_step m (fst (endWatches i reason m))"
| step_stream: "session_step m (setStreamSocket i ws m)"
| step_stream_gone: "session_step m (clearStreamSocket i m)"
| step_cache: "session_step m (clearDeviceCache i m)"
| step_chrome: "session_step m (setChromeData i p m)"
| step_postures: "session_step m (setPostures i p m)"
| step_info: "session_step m (setDeviceInfo i p m)"
| step_ready: "session_step m (setReadySent i b m)"
| step_tier: "session_step m (setDeviceServiceTier i t m)"
| step_status: "session_step m (updateDeviceStatus i st m)"
| step_device_left: "session_step m (device_left i m)"
| step_resources: "session_step m (setResources ws r m)"
| step_no_resources: "session_step m (removeResources ws m)"

lemma watch_start_inv: "manager_inv m \<Longrightarrow> manager_inv (fst (watch_start may asker ws i m))"
  by (auto simp: watch_start_def addWatcher_inv split: option.split)

lemma session_step_inv:
  assumes "session_step m m'" and "manager_inv m"
  shows "manager_inv m'"
  using assms
proof (induction rule: session_step.induct)
  case (step_unwatch m i ws)
  then show ?case using drop_watcher_inv by (simp add: drop_watcher_def)
next
  case (step_resources m ws r)
  then show ?case by (simp add: setResources_def resources_inv)
next
  case (step_no_resources m ws)
  then show ?case by (simp add: removeResources_def resources_inv)
qed (auto intro: create_inv join_inv remove_inv leave_session_inv socket_closed_inv idle_fires_inv
    field_writes_inv shutdown_inv rebind_inv watch_start_inv removeWatcherSocket_inv setStreamSocket_inv
    clearStreamSocket_inv evictWatchers_inv simp: endWatches_def)

interpretation sessions_run: relation_system session_step manager_inv
  by unfold_locales (rule session_step_inv)

end
