(* ===== verification/Session_Props.thy ===== *)
theory Session_Props
  imports Session_Inv
begin

text \<open>
  What \<open>SessionManager\<close> promises, over every run of the relay: its indexes agree with its sessions, a
  closing socket lets every session go, nobody watches a person, and \<open>busy\<close> means what a join finds.
\<close>

declare map_of_eq_Some_iff [simp del]

subsection \<open>Every run\<close>

definition reached :: "manager \<Rightarrow> bool" where
  "reached m \<longleftrightarrow> (\<exists>t. session_step\<^sup>*\<^sup>* (new_manager t) m)"

lemma reached_inv: "reached m \<Longrightarrow> manager_inv m"
  using sessions_run.reach_inv new_manager_inv by (auto simp: reached_def)

lemma reached_step: "reached m \<Longrightarrow> session_step m m' \<Longrightarrow> reached m'"
  unfolding reached_def by (meson rtranclp.rtrancl_into_rtrancl)

lemma reached_new: "reached (new_manager t)"
  unfolding reached_def by blast

text \<open>A run to check the theorems on: an agent with two devices, and an MCP client on the first.\<close>

definition demo_report :: device_report where
  "demo_report = \<lparr>r_id = ''udid'', r_name = ''iPhone'', r_platform = ''ios'', r_status = Booted,
     r_osVersion = None, r_formFactor = None, r_serviceTier = None\<rparr>"

definition demo_agent :: agent_identity where
  "demo_agent = \<lparr>i_agentId = Some ''mac'', i_agentName = Some ''host'', i_agentPlatform = Some ''ios'',
     i_agentCapabilities = None\<rparr>"

definition demo_owner :: join_owner where
  "demo_owner = \<lparr>o_key = ''u:mcp'', o_user = ''u'', o_minted = False\<rparr>"

definition demo_holder :: join_holder where
  "demo_holder = \<lparr>h_kind = Some Mcp, h_label = ''u'', h_name = None, h_stream = None\<rparr>"

definition demo_made :: manager where
  "demo_made = create 1 [(''a'', demo_report), (''b'', demo_report)] demo_agent (new_manager 300000)"

definition demo_joined :: manager where
  "demo_joined = fst (join 10 (\<lambda>_. True) (\<lambda>_. True) ''a'' 2 demo_owner demo_holder demo_made)"

definition demo_watched :: manager where
  "demo_watched = fst (watch_start True ''v:tab'' 3 ''a'' demo_joined)"

lemma demo_reached: "reached demo_made" "reached demo_joined" "reached demo_watched"
proof -
  show made: "reached demo_made"
    unfolding demo_made_def
    by (rule reached_step [OF reached_new step_create]) (auto simp: new_manager_def)
  show joined: "reached demo_joined"
    unfolding demo_joined_def by (rule reached_step [OF made step_join])
  show "reached demo_watched"
    unfolding demo_watched_def by (rule reached_step [OF joined step_watch])
qed

lemmas demo_eval = demo_made_def demo_joined_def demo_watched_def demo_report_def demo_agent_def
  demo_owner_def demo_holder_def create_def create_one_def new_manager_def agentFields_def
  deviceFields_def blank_session_def join_def gone_for_def occupied_def unindexBrowser_def
  on_session_def stop_countdown_def bind_holder_def end_wait_def evictWatchers_def idx_add_def
  members_def set_add_def watch_start_def addWatcher_def MAX_WATCHERS_PER_SESSION_def

lemma demo_session:
  "\<exists>s. jget (sessions demo_watched) ''a'' = Some s \<and> owner s = Some ''u:mcp'' \<and> browserSocket s = Some 2
     \<and> agentSocket s = 1 \<and> deviceGone s = False \<and> streamSocket s = None"
  "watchersOf demo_watched ''a'' = [3]"
  "idleTimeoutMs demo_watched = 300000"
  by (simp_all add: demo_eval watchersOf_def)

subsection \<open>Properties\<close>

lemma mem_map_filter: "y \<in> set (List.map_filter f xs) \<longleftrightarrow> (\<exists>x \<in> set xs. f x = Some y)"
  by (induction xs) (auto simp: List.map_filter_simps split: option.split)

lemma mem_getByBrowserSocket:
  assumes "manager_inv m"
  shows "s \<in> set (getByBrowserSocket m ws) \<longleftrightarrow> (\<exists>i. jget (sessions m) i = Some s \<and> browserSocket s = Some ws)"
proof -
  have "i \<in> set (members (browserSocketIndex m) ws) \<longleftrightarrow> holds m i ws" for i
    using manager_invD(5) [OF assms] by (simp add: si.tracks_mem)
  then show ?thesis
    by (auto simp: getByBrowserSocket_def mem_map_filter holds_def)
qed

lemma mem_getAllByAgentSocket:
  assumes "manager_inv m"
  shows "s \<in> set (getAllByAgentSocket m ws) \<longleftrightarrow> (\<exists>i. jget (sessions m) i = Some s \<and> agentSocket s = ws)"
proof -
  have "i \<in> set (members (agentSocketIndex m) ws) \<longleftrightarrow> served_by m i ws" for i
    using manager_invD(6) [OF assms] by (simp add: si.tracks_mem)
  then show ?thesis
    by (auto simp: getAllByAgentSocket_def mem_map_filter served_by_def)
qed





subsection \<open>A closing socket\<close>

lemma jget_release:
  "jget (sessions (spend_resume i (clearBrowser now i c m))) j =
     (if j = i then map_option (\<lambda>s. release_session now (idleTimeoutMs m) c s\<lparr>idleResumeOnLeave := False\<rparr>) (jget (sessions m) i)
      else jget (sessions m) j)"
  by (cases "jget (sessions m) i") (auto simp: spend_resume_def clearBrowser_def jget_on_session)

lemma timeout_release [simp]: "idleTimeoutMs (spend_resume i (clearBrowser now i c m)) = idleTimeoutMs m"
  by (simp add: spend_resume_def clearBrowser_def split: option.split)

lemma fold_release:
  "distinct (map sid_of xs) \<Longrightarrow>
     jget (sessions (fold (\<lambda>s m. spend_resume (sid_of s) (clearBrowser now (sid_of s) True m)) xs m)) j =
       (if j \<in> sid_of ` set xs
        then map_option (\<lambda>s. release_session now (idleTimeoutMs m) True s\<lparr>idleResumeOnLeave := False\<rparr>) (jget (sessions m) j)
        else jget (sessions m) j)"
  by (induction xs arbitrary: m) (auto simp: jget_release)

lemma distinct_getByBrowserSocket:
  assumes "manager_inv m"
  shows "distinct (map sid_of (getByBrowserSocket m ws))"
proof -
  have "sid_of s = i" if "jget (sessions m) i = Some s" for s i
    using inv_session [OF assms that] by simp
  then have "map sid_of (List.map_filter (jget (sessions m)) is) = filter (\<lambda>i. jget (sessions m) i \<noteq> None) is" for "is"
    by (induction "is") (auto simp: List.map_filter_simps split: option.split)
  moreover have "distinct (members (browserSocketIndex m) ws)"
    using manager_invD(5) [OF assms] by (auto simp: si.tracks_def idx_wf_def members_def split: option.split)
  ultimately show ?thesis by (simp add: getByBrowserSocket_def)
qed

text \<open>
  C23. When a browser socket closes, every session it held is released and starts its own countdown
  (#507: not only the last one it joined), and no other session changes.
\<close>
theorem closed_socket_releases_all:
  assumes "reached m" and "get m i = Some s"
  shows "\<exists>s'. get (socket_closed now ws m) i = Some s'
    \<and> (if browserSocket s = Some ws
       then owner s' = None \<and> browserSocket s' = None \<and> idleTimer s' = Some (now + idleTimeoutMs m) \<and> \<not> idleResumeOnLeave s'
       else s' = s)"
proof -
  note inv = reached_inv [OF assms(1)]
  have sid: "sid_of t = j" if "jget (sessions m) j = Some t" for t j
    using inv_session [OF inv that] by simp
  have "i \<in> sid_of ` set (getByBrowserSocket m ws) \<longleftrightarrow> browserSocket s = Some ws"
    using assms(2) sid by (force simp: mem_getByBrowserSocket [OF inv] get_def)
  then have "get (socket_closed now ws m) i = Some (if browserSocket s = Some ws
      then release_session now (idleTimeoutMs m) True s\<lparr>idleResumeOnLeave := False\<rparr> else s)"
    using assms(2) by (simp add: get_def socket_closed_def fold_release [OF distinct_getByBrowserSocket [OF inv]])
  moreover have "idleTimer (release_session now (idleTimeoutMs m) True s) = Some (now + idleTimeoutMs m)"
    by (simp add: release_session_def Let_def start_countdown_def)
  ultimately show ?thesis by auto
qed

theorem closed_socket_releases_all_witness:
  "\<exists>s'. get (socket_closed 20 2 demo_watched) ''a'' = Some s' \<and> idleTimer s' = Some 300020"
  using closed_socket_releases_all [OF demo_reached(3), of "''a''" _ 20 2] demo_session(1,3)
  by (auto simp: get_def split: if_splits)

subsection \<open>Watching\<close>

text \<open>
  C24. Over every run a session has at most four watchers, and each watches an existing session that
  nobody holds at the moment or that is held by the very AI client the watch was admitted under: a
  person's session is never watched, and a new holder never inherits a watcher.
\<close>
theorem watchers_follow_the_ai_holder:
  assumes "reached m"
  shows "length (watchersOf m i) \<le> MAX_WATCHERS_PER_SESSION
    \<and> (\<forall>ws. isWatching m ws i \<longrightarrow> (\<exists>s k. get m i = Some s \<and> watch_key m i ws = Some k
         \<and> (owner s = None \<or> owner s = Some k \<and> isAiClientKind (holderKind s))))"
proof -
  note parts = manager_invD [OF reached_inv [OF assms]]
  have "length (watchersOf m i) \<le> MAX_WATCHERS_PER_SESSION"
    using parts(2) by (auto simp: watchersOf_def watchers_wf_def split: option.split)
  moreover have "isWatching m ws i \<Longrightarrow> \<exists>k. watch_key m i ws = Some k" for ws
    by (auto simp: isWatching_def watch_key_def split: option.splits)
  ultimately show ?thesis using parts(3) unfolding watches_admitted_def get_def by blast
qed

theorem watchers_follow_the_ai_holder_witness:
  "isWatching demo_watched 3 ''a'' \<and> (\<exists>s. get demo_watched ''a'' = Some s \<and> owner s = Some ''u:mcp'' \<and> isAiClientKind (holderKind s))"
proof -
  have "isWatching demo_watched 3 ''a''" by (simp add: demo_eval isWatching_def)
  then show ?thesis
    using watchers_follow_the_ai_holder [OF demo_reached(3), of "''a''"] demo_session(1) by (fastforce simp: get_def)
qed

subsection \<open>Joining\<close>

lemma not_occupied_own: "owner s = Some key \<Longrightarrow> \<not> occupied isOpen isAlive key s"
  by (simp add: occupied_def split: option.split)

text \<open>
 What the picker shows as \<open>busy\<close> is what a join would find: a device in the listing is busy for a
  client exactly when that client's join would be refused as held by another.
\<close>
theorem busy_means_join_refused:
  assumes "reached m" and "get m i = Some s" and "listed isOpen s"
  shows "d_busy (summarise isOpen isAlive timeout (o_key o') askerUser now s) \<longleftrightarrow>
    fst (snd (join now isOpen isAlive i ws o' h m)) = Join_held_by_another"
proof -
  have "\<not> gone_for o' s" using assms(3) by (simp add: listed_def gone_for_def)
  moreover have "d_busy (summarise isOpen isAlive timeout (o_key o') askerUser now s) \<longleftrightarrow> occupied isOpen isAlive (o_key o') s"
    by (auto simp: summarise_def occupied_def split: option.split)
  ultimately show ?thesis using assms(2)
    by (simp add: join_def get_def Let_def split_beta)
qed

theorem busy_means_join_refused_witness:
  "fst (snd (join 20 (\<lambda>_. True) (\<lambda>_. True) ''a'' 9 \<lparr>o_key = ''w:tab'', o_user = ''w'', o_minted = False\<rparr>
     \<lparr>h_kind = None, h_label = ''w'', h_name = None, h_stream = None\<rparr> demo_watched)) = Join_held_by_another"
proof -
  obtain s where s: "get demo_watched ''a'' = Some s" "owner s = Some ''u:mcp''" "browserSocket s = Some 2" "\<not> deviceGone s"
    using demo_session(1) by (auto simp: get_def)
  then have "listed (\<lambda>_. True) s"
    "d_busy (summarise (\<lambda>_. True) (\<lambda>_. True) 0 (o_key \<lparr>o_key = ''w:tab'', o_user = ''w'', o_minted = False\<rparr>) None 20 s)"
    by (simp_all add: listed_def summarise_def)
  with busy_means_join_refused [OF demo_reached(3) s(1), of "\<lambda>_. True" "\<lambda>_. True" 0] show ?thesis by blast
qed

text \<open>
  A join either changes nothing or takes the session: the joining client is its owner on the new
  socket, no countdown runs, the socket's set has it and the old socket's does not, and of the watchers
  exactly those of this very AI client stay. The client that already owns it is never refused.
\<close>
theorem join_takes_the_session:
  assumes "reached m" and "get m i = Some s"
  shows "(owner s = Some (o_key o') \<longrightarrow> fst (snd (join now isOpen isAlive i ws o' h m)) = Join_ok)
    \<and> (if fst (snd (join now isOpen isAlive i ws o' h m)) = Join_ok
       then \<exists>s'. get (fst (join now isOpen isAlive i ws o' h m)) i = Some s'
          \<and> owner s' = Some (o_key o') \<and> browserSocket s' = Some ws \<and> holderKind s' = h_kind h \<and> idleTimer s' = None
          \<and> (\<forall>v. s' \<in> set (getByBrowserSocket (fst (join now isOpen isAlive i ws o' h m)) v) \<longleftrightarrow> v = ws)
          \<and> (\<forall>v. isWatching (fst (join now isOpen isAlive i ws o' h m)) v i \<longleftrightarrow>
               watch_key m i v = Some (o_key o') \<and> isAiClientKind (h_kind h))
       else fst (join now isOpen isAlive i ws o' h m) = m)"
proof -
  let ?j = "join now isOpen isAlive i ws o' h m"
  have s: "jget (sessions m) i = Some s" using assms(2) by (simp add: get_def)
  note inv = reached_inv [OF assms(1)]
  show ?thesis
  proof (cases "gone_for o' s \<or> occupied isOpen isAlive (o_key o') s")
    case True
    then have "fst ?j = m" "fst (snd ?j) \<noteq> Join_ok" using s by (auto simp: join_def)
    moreover have "owner s \<noteq> Some (o_key o')"
      using True not_occupied_own by (auto simp: gone_for_def)
    ultimately show ?thesis by simp
  next
    case False
    let ?s = "end_wait now o' h (bind_holder ws o' h (stop_countdown (h_kind h) s))"
    note st = join_ok_state [OF inv s, of o' isOpen isAlive, where now = now and h = h and ws = ws]
    have ok: "fst (snd ?j) = Join_ok" and ses: "sessions (fst ?j) = jset i ?s (sessions m)"
      using False by (auto intro: st)
    have wk: "watch_key (fst ?j) i v = (if (\<exists>k. watch_key m i v = Some k \<and> (k \<noteq> o_key o' \<or> \<not> isAiClientKind (h_kind h)))
           then None else watch_key m i v)" for v
      using False by (simp add: st(6))
    have inv': "manager_inv (fst ?j)" by (rule join_inv [OF inv])
    have get: "get (fst ?j) i = Some ?s" by (simp add: get_def ses jm.get_put)
    have "?s \<in> set (getByBrowserSocket (fst ?j) v) \<longleftrightarrow> v = ws" for v
      unfolding mem_getByBrowserSocket [OF inv'] using get by (auto simp: get_def)
    moreover have "isWatching (fst ?j) v i \<longleftrightarrow> watch_key (fst ?j) i v \<noteq> None" for v
      by (auto simp: isWatching_def watch_key_def split: option.split)
    moreover have "idleTimer ?s = None" by (simp add: end_wait_def bind_holder_def stop_countdown_def Let_def)
    ultimately show ?thesis using ok get by (auto simp: wk split: if_splits)
  qed
qed

theorem join_takes_the_session_witness:
  "fst (snd (join 20 (\<lambda>_. True) (\<lambda>_. True) ''a'' 9 demo_owner demo_holder demo_watched)) = Join_ok"
proof -
  obtain s where s: "get demo_watched ''a'' = Some s" "owner s = Some (o_key demo_owner)"
    using demo_session(1) by (auto simp: get_def demo_owner_def)
  from join_takes_the_session [OF demo_reached(3) s(1), THEN conjunct1, of demo_owner] s(2)
  show ?thesis by blast
qed

text \<open>
  Removing a session leaves nothing of it: it is gone from every index, and its watchers, all of
  them, are told once that the session ended.
\<close>
theorem removed_session_leaves_nothing:
  assumes "reached m" and "get m i = Some s"
  shows "get (fst (remove i m)) i = None
    \<and> (\<forall>ws. i \<notin> set (members (browserSocketIndex (fst (remove i m))) ws)
         \<and> i \<notin> set (members (agentSocketIndex (fst (remove i m))) ws)
         \<and> i \<notin> set (members (watcherSocketIndex (fst (remove i m))) ws)
         \<and> jget (streamSocketIndex (fst (remove i m))) ws \<noteq> Some i)
    \<and> watchersOf (fst (remove i m)) i = []
    \<and> snd (remove i m) = (if watchersOf m i = [] then [] else [(i, watchersOf m i, Session_ended)])"
proof -
  let ?m = "fst (remove i m)"
  note inv = reached_inv [OF assms(1)]
  have inv': "manager_inv ?m" by (rule remove_inv [OF inv])
  note parts = manager_invD [OF inv']
  have s: "jget (sessions m) i = Some s" using assms(2) by (simp add: get_def)
  have gone: "jget (sessions ?m) i = None"
  proof -
    have "sessions ?m = jdel i (sessions m)"
      using evictWatchers_spec(2) [OF manager_invD(2) [OF inv], of i Session_ended "\<lambda>_. True"] s
      by (auto simp: remove_def Let_def split_beta unindexBrowser_def same_sessions_def split: option.split)
    then show ?thesis using inv_jwf [OF inv] by (simp add: jm.get_del)
  qed
  have nw: "watch_key ?m i ws = None" for ws
    using parts(3) gone unfolding watches_admitted_def by (metis not_Some_eq option.distinct(1))
  have "i \<notin> set (members (browserSocketIndex ?m) ws)" "i \<notin> set (members (agentSocketIndex ?m) ws)"
    "i \<notin> set (members (watcherSocketIndex ?m) ws)" "jget (streamSocketIndex ?m) ws \<noteq> Some i" for ws
  proof -
    show "jget (streamSocketIndex ?m) ws \<noteq> Some i" using parts(4) gone unfolding stream_ok_def by (metis option.distinct(1))
  qed (use gone parts nw in \<open>auto simp: si.tracks_mem holds_def served_by_def watchers_wf_def\<close>)
  moreover have "watchersOf ?m i = []"
  proof (cases "jget (watchers ?m) i")
    case (Some w)
    then have "w \<noteq> []" using parts(2) by (simp add: watchers_wf_def)
    then obtain p w' where "w = p # w'" by (cases w) auto
    with Some nw [of "fst p"] show ?thesis by (simp add: watch_key_def)
  qed (simp add: watchersOf_def)
  moreover have "snd (remove i m) = (if watchersOf m i = [] then [] else [(i, watchersOf m i, Session_ended)])"
    using s by (simp add: remove_def Let_def split_beta evictWatchers_def watchersOf_def split: option.split)
  ultimately show ?thesis using gone by (simp add: get_def)
qed

theorem removed_session_leaves_nothing_witness:
  "get (fst (remove ''a'' demo_watched)) ''a'' = None \<and> snd (remove ''a'' demo_watched) = [(''a'', [3], Session_ended)]"
  using removed_session_leaves_nothing [OF demo_reached(3), of "''a''"] demo_session(1,2)
  by (auto simp: get_def)

text \<open>
  A shutdown that failed takes nothing from the person waited for: if the agent reports the error
  while the countdown still runs, the wait and the notice are back exactly as they were. One that
  succeeded ends both the wait and the countdown.
\<close>
theorem failed_shutdown_restores_the_wait:
  assumes "get m i = Some s" and "idleTimer s \<noteq> None"
  shows "\<exists>u d. get (undoShutdown i (noteShutdown now i user label nm m)) i = Some u
    \<and> waitingOwner u = waitingOwner s \<and> idleTimer u = idleTimer s
    \<and> (waitingOwner s \<noteq> None \<longrightarrow> endedBy u = endedBy s)
    \<and> get (settleShutdown i (noteShutdown now i user label nm m)) i = Some d
    \<and> waitingOwner d = None \<and> idleTimer d = None"
  using assms
  by (auto simp: get_def undoShutdown_def noteShutdown_def settleShutdown_def jget_on_session
      note_shutdown_def undo_shutdown_def settle_shutdown_def Let_def split: option.split)

theorem failed_shutdown_restores_the_wait_witness:
  "\<exists>u. get (undoShutdown ''a'' (noteShutdown 30 ''a'' ''x'' ''x'' ''x'' (socket_closed 20 2 demo_watched))) ''a'' = Some u
     \<and> idleTimer u = Some 300020"
proof -
  obtain s' where "get (socket_closed 20 2 demo_watched) ''a'' = Some s'" "idleTimer s' = Some 300020"
    using fold_release [OF distinct_getByBrowserSocket [OF reached_inv [OF demo_reached(3)], of 2], of 20 demo_watched "''a''"]
      demo_session(1,3) mem_getByBrowserSocket [OF reached_inv [OF demo_reached(3)], of _ 2]
      inv_session [OF reached_inv [OF demo_reached(3)], of "''a''"]
    by (force simp: get_def socket_closed_def release_session_def Let_def start_countdown_def image_iff split: if_splits)
  then show ?thesis
    using failed_shutdown_restores_the_wait [where m = "socket_closed 20 2 demo_watched" and i = "''a''" and s = s'
      and now = 30 and user = "''x''" and label = "''x''" and nm = "''x''"] by auto
qed

end
