(* ===== verification/Rate_Limit.thy ===== *)
theory Rate_Limit
  imports Wire
begin

text \<open>
  \<open>packages/relay/src/middleware/rateLimit.ts\<close>: the login limiter. Failures are counted per key in
  an insertion-ordered map, the lock doubles with each failure past \<open>maxAttempts\<close>, and the map is
  bounded by dropping what has expired and then the least recently failed. \<open>2 ** over\<close> is exact here;
  the code's double reaches \<open>Infinity\<close> only far above \<open>maxDelayMs\<close>, which caps it.
\<close>

record attempt =
  failures :: nat
  lockedUntil :: ms
  expiresAt :: ms

record limiter_options =
  maxAttempts :: nat
  baseDelayMs :: ms
  maxDelayMs :: ms
  retentionMs :: ms
  maxEntries :: nat

definition default_options :: limiter_options where
  "default_options = \<lparr>maxAttempts = 5, baseDelayMs = 1000, maxDelayMs = 15 * 60 * 1000,
     retentionMs = 15 * 60 * 1000, maxEntries = 10000\<rparr>"

type_synonym store = "(string \<times> attempt) list"

record decision =
  allowed :: bool
  retryAfterMs :: ms

definition check :: "string \<Rightarrow> ms \<Rightarrow> store \<Rightarrow> store \<times> decision" where
  "check key now st =
     (case jget st key of
        None \<Rightarrow> (st, \<lparr>allowed = True, retryAfterMs = 0\<rparr>)
      | Some a \<Rightarrow>
          if expiresAt a \<le> now then (jdel key st, \<lparr>allowed = True, retryAfterMs = 0\<rparr>)
          else if lockedUntil a > now then (st, \<lparr>allowed = False, retryAfterMs = lockedUntil a - now\<rparr>)
          else (st, \<lparr>allowed = True, retryAfterMs = 0\<rparr>))"

text \<open>\<open>while (store.size > maxEntries)\<close>: the oldest entry is the first of the map.\<close>

fun drop_oldest :: "nat \<Rightarrow> store \<Rightarrow> store" where
  "drop_oldest n [] = []"
| "drop_oldest n (p # st) = (if n < length (p # st) then drop_oldest n st else p # st)"

definition evictIfNeeded :: "limiter_options \<Rightarrow> ms \<Rightarrow> store \<Rightarrow> store" where
  "evictIfNeeded opt now st =
     (if length st \<le> maxEntries opt then st
      else drop_oldest (maxEntries opt) (filter (\<lambda>p. \<not> expiresAt (snd p) \<le> now) st))"

definition failed_once :: "limiter_options \<Rightarrow> ms \<Rightarrow> attempt \<Rightarrow> attempt" where
  "failed_once opt now a0 =
     (let a = a0\<lparr>failures := failures a0 + 1\<rparr>;
          b = (if maxAttempts opt \<le> failures a
               then a\<lparr>lockedUntil := now + min (baseDelayMs opt * 2 ^ (failures a - maxAttempts opt)) (maxDelayMs opt)\<rparr>
               else a)
      in b\<lparr>expiresAt := now + retentionMs opt\<rparr>)"

definition recordFailure :: "limiter_options \<Rightarrow> string \<Rightarrow> ms \<Rightarrow> store \<Rightarrow> store" where
  "recordFailure opt key now st =
     (let a = failed_once opt now
                (case jget st key of Some a \<Rightarrow> a | None \<Rightarrow> \<lparr>failures = 0, lockedUntil = 0, expiresAt = 0\<rparr>)
      in evictIfNeeded opt now (jset key a (jdel key st)))"

definition reset :: "string \<Rightarrow> store \<Rightarrow> store" where
  "reset key st = jdel key st"

subsection \<open>The size\<close>

lemma drop_oldest_drop: "drop_oldest n st = drop (length st - n) st"
  by (induction st) (auto simp: Suc_diff_le)

lemma length_evictIfNeeded: "length (evictIfNeeded opt now st) \<le> maxEntries opt"
  by (simp add: evictIfNeeded_def drop_oldest_drop) arith

lemma jwf_drop: "jwf st \<Longrightarrow> jwf (drop n st)"
  by (metis append_take_drop_id distinct_append map_append)

lemma jwf_filter: "jwf st \<Longrightarrow> jwf (filter P st)"
  by (induction st) auto

lemma jwf_evict: "jwf st \<Longrightarrow> jwf (evictIfNeeded opt now st)"
  by (simp add: evictIfNeeded_def drop_oldest_drop jwf_drop jwf_filter)

lemma jwf_recordFailure: "jwf st \<Longrightarrow> jwf (recordFailure opt key now st)"
  by (simp add: recordFailure_def Let_def jwf_evict jm.wf_put jm.wf_del)

lemma jset_fresh: "jget st k = None \<Longrightarrow> jset k v st = st @ [(k, v)]"
  by (induction st) (auto split: if_splits)

lemma recorded_last:
  assumes "jwf st"
  shows "jset key a (jdel key st) = jdel key st @ [(key, a)]"
  using assms by (intro jset_fresh) (simp add: jm.get_del)

text \<open>Evicting never drops the entry at the end of the map while there is room for one and it has not expired.\<close>

lemma evict_keeps_last:
  assumes "0 < maxEntries opt" "now < expiresAt a"
  shows "\<exists>pre. evictIfNeeded opt now (st @ [(key, a)]) = pre @ [(key, a)]"
proof (cases "length (st @ [(key, a)]) \<le> maxEntries opt")
  case False
  have "drop n (xs @ [x]) = drop n xs @ [x]" if "n \<le> length xs" for n and xs :: store and x using that by simp
  then show ?thesis using False assms by (auto simp: evictIfNeeded_def drop_oldest_drop)
qed (simp add: evictIfNeeded_def)

lemma map_of_last: "k \<notin> fst ` set pre \<Longrightarrow> map_of (pre @ [(k, v)]) k = Some v"
  by (induction pre) auto

lemma recordFailure_get:
  assumes "jwf st" "0 < maxEntries opt" "0 < retentionMs opt"
  shows "jget (recordFailure opt key now st) key = Some (failed_once opt now
     (case jget st key of Some a \<Rightarrow> a | None \<Rightarrow> \<lparr>failures = 0, lockedUntil = 0, expiresAt = 0\<rparr>))"
proof -
  let ?a = "failed_once opt now (case jget st key of Some a \<Rightarrow> a | None \<Rightarrow> \<lparr>failures = 0, lockedUntil = 0, expiresAt = 0\<rparr>)"
  have "now < expiresAt ?a" using assms(3) by (simp add: failed_once_def Let_def)
  then obtain pre where pre: "recordFailure opt key now st = pre @ [(key, ?a)]"
    using evict_keeps_last [OF assms(2), of now ?a "jdel key st" key]
    by (auto simp: recordFailure_def Let_def recorded_last [OF assms(1)])
  moreover have "jwf (recordFailure opt key now st)" by (rule jwf_recordFailure [OF assms(1)])
  ultimately have "key \<notin> fst ` set pre" by simp
  then show ?thesis unfolding pre by (rule map_of_last)
qed

text \<open>Without an eviction the other keys are untouched.\<close>

lemma recordFailure_other:
  assumes "jwf st" "length (jset key a (jdel key st)) \<le> maxEntries opt" "k \<noteq> key"
  shows "jget (recordFailure opt key now st) k = jget st k"
proof -
  have "length (jset key b (jdel key st)) \<le> maxEntries opt" for b
    using assms(2) by (simp add: recorded_last [OF assms(1)])
  then show ?thesis using assms(1,3) by (simp add: recordFailure_def Let_def evictIfNeeded_def jm.get_put jm.get_del)
qed

subsection \<open>What a client meets\<close>

definition record_all :: "limiter_options \<Rightarrow> (string \<times> ms) list \<Rightarrow> store \<Rightarrow> store" where
  "record_all opt evs st = fold (\<lambda>(k, t). recordFailure opt k t) evs st"

definition delay_after :: "limiter_options \<Rightarrow> nat \<Rightarrow> ms" where
  "delay_after opt n = min (baseDelayMs opt * 2 ^ (n - maxAttempts opt)) (maxDelayMs opt)"

text \<open>The failures of one key, in order.\<close>

definition times_of :: "string \<Rightarrow> (string \<times> ms) list \<Rightarrow> ms list" where
  "times_of key evs = map snd (filter (\<lambda>p. fst p = key) evs)"

lemma times_of_append [simp]: "times_of key (evs @ [p]) = times_of key evs @ (if fst p = key then [snd p] else [])"
  by (simp add: times_of_def)

lemma record_all_snoc: "record_all opt (evs @ [p]) st = recordFailure opt (fst p) (snd p) (record_all opt evs st)"
  by (simp add: record_all_def split_beta)

lemma record_all_state:
  assumes "0 < maxEntries opt" "0 < retentionMs opt" "0 < maxAttempts opt"
    and "card (fst ` set evs) \<le> maxEntries opt"
  shows "jwf (record_all opt evs []) \<and> set (jkeys (record_all opt evs [])) = fst ` set evs
    \<and> (\<forall>key. let ts = times_of key evs; n = length ts in
         case jget (record_all opt evs []) key of
           None \<Rightarrow> n = 0
         | Some a \<Rightarrow> n \<noteq> 0 \<and> failures a = n \<and> expiresAt a = last ts + retentionMs opt
              \<and> (maxAttempts opt \<le> n \<longrightarrow> lockedUntil a = last ts + delay_after opt n)
              \<and> (n < maxAttempts opt \<longrightarrow> lockedUntil a = 0))"
  using assms(4)
proof (induction evs rule: rev_induct)
  case Nil
  then show ?case by (simp add: record_all_def times_of_def)
next
  case (snoc p evs)
  let ?st = "record_all opt evs []"
  obtain k t where p: "p = (k, t)" by force
  have "card (fst ` set evs) \<le> card (fst ` set (evs @ [p]))" by (intro card_mono) auto
  with snoc.prems have le: "card (fst ` set evs) \<le> maxEntries opt" by simp
  note IH = snoc.IH [OF this]
  have wf: "jwf ?st" using IH by simp
  have new: "record_all opt (evs @ [p]) [] = recordFailure opt k t ?st" by (simp add: record_all_snoc p)
  have keys: "set (jkeys (jset k a (jdel k ?st))) = insert k (fst ` set evs)" for a
    using IH wf by (auto simp: recorded_last [OF wf] jkeys_del)
  have len: "length (jset k a (jdel k ?st)) \<le> maxEntries opt" for a
  proof -
    have "length (jset k a (jdel k ?st)) = card (set (jkeys (jset k a (jdel k ?st))))"
      using wf by (metis distinct_card jm.wf_del jm.wf_put length_map)
    also have "\<dots> \<le> maxEntries opt" unfolding keys using snoc.prems by (simp add: p)
    finally show ?thesis .
  qed
  have nw: "recordFailure opt k t ?st = jset k (failed_once opt t
      (case jget ?st k of Some a \<Rightarrow> a | None \<Rightarrow> \<lparr>failures = 0, lockedUntil = 0, expiresAt = 0\<rparr>)) (jdel k ?st)"
    using len by (simp add: recordFailure_def Let_def evictIfNeeded_def)
  show ?case
  proof (intro conjI allI)
    show "jwf (record_all opt (evs @ [p]) [])" unfolding new by (rule jwf_recordFailure [OF wf])
    show "set (jkeys (record_all opt (evs @ [p]) [])) = fst ` set (evs @ [p])"
      unfolding new nw keys by (simp add: p)
    fix key
    let ?goal = "\<lambda>st es. let ts = times_of key es; n = length ts in
         case jget st key of
           None \<Rightarrow> n = 0
         | Some a \<Rightarrow> n \<noteq> 0 \<and> failures a = n \<and> expiresAt a = last ts + retentionMs opt
              \<and> (maxAttempts opt \<le> n \<longrightarrow> lockedUntil a = last ts + delay_after opt n)
              \<and> (n < maxAttempts opt \<longrightarrow> lockedUntil a = 0)"
    have old: "?goal ?st evs" using IH by blast
    show "?goal (record_all opt (evs @ [p]) []) (evs @ [p])"
    proof (cases "key = k")
      case False
      then show ?thesis using old recordFailure_other [OF wf len, of key]
        by (simp add: new [unfolded p] p Let_def)
    next
      case True
      have "jget (recordFailure opt k t ?st) k = Some (failed_once opt t
          (case jget ?st k of Some a \<Rightarrow> a | None \<Rightarrow> \<lparr>failures = 0, lockedUntil = 0, expiresAt = 0\<rparr>))"
        by (rule recordFailure_get [OF wf assms(1,2)])
      with True old assms(3) show ?thesis
        by (auto simp: new [unfolded p] p Let_def failed_once_def delay_after_def split: option.splits)
    qed
  qed
qed

text \<open>
  C25. The limiter is a function of a key's own failures: while no more keys have failed than the map
  holds, a client is refused exactly when it has failed at least \<open>maxAttempts\<close> times, the entry has
  not been forgotten, and the delay after its last failure, which doubles with each one up to
  \<open>maxDelayMs\<close>, has not passed. What other keys do does not matter.
\<close>
theorem login_lock_is_exact:
  assumes "0 < maxEntries opt" "0 < retentionMs opt" "0 < maxAttempts opt"
    and "card (fst ` set evs) \<le> maxEntries opt" and "0 \<le> now"
  shows "let ts = times_of key evs; n = length ts in
    allowed (snd (check key now (record_all opt evs []))) \<longleftrightarrow>
      \<not> (maxAttempts opt \<le> n \<and> now < last ts + retentionMs opt \<and> now < last ts + delay_after opt n)"
  using record_all_state [OF assms(1-4)] assms(3,5)
  by (auto simp: Let_def check_def not_le split: option.split dest!: spec [of _ key])

theorem login_lock_is_exact_witness:
  "\<not> allowed (snd (check ''a'' 1500 (record_all (default_options\<lparr>maxAttempts := 2\<rparr>) [(''a'', 0), (''b'', 5), (''a'', 1000)] [])))
   \<and> allowed (snd (check ''a'' 2000 (record_all (default_options\<lparr>maxAttempts := 2\<rparr>) [(''a'', 0), (''b'', 5), (''a'', 1000)] [])))"
  using login_lock_is_exact [of "default_options\<lparr>maxAttempts := 2\<rparr>" "[(''a'', 0), (''b'', 5), (''a'', 1000)]" 1500 "''a''"]
    login_lock_is_exact [of "default_options\<lparr>maxAttempts := 2\<rparr>" "[(''a'', 0), (''b'', 5), (''a'', 1000)]" 2000 "''a''"]
  by (simp add: default_options_def times_of_def Let_def delay_after_def card_insert_if)

text \<open>
  The map never outgrows its bound, whatever keys an attacker makes up, and the key that just
  failed is never the one evicted: its count went up by one and its lock is set.
\<close>
theorem limiter_is_bounded:
  assumes "0 < maxEntries opt" "0 < retentionMs opt" "jwf st"
  shows "length (recordFailure opt key now st) \<le> maxEntries opt
    \<and> (\<exists>a. jget (recordFailure opt key now st) key = Some a
        \<and> failures a = (case jget st key of Some b \<Rightarrow> failures b | None \<Rightarrow> 0) + 1
        \<and> expiresAt a = now + retentionMs opt
        \<and> (maxAttempts opt \<le> failures a \<longrightarrow> lockedUntil a = now + delay_after opt (failures a)))"
  using length_evictIfNeeded recordFailure_get [OF assms(3,1,2)]
  by (auto simp: recordFailure_def Let_def failed_once_def delay_after_def split: option.split)

theorem limiter_is_bounded_witness:
  "length (recordFailure (default_options\<lparr>maxEntries := 1\<rparr>) ''b'' 9 [(''a'', \<lparr>failures = 3, lockedUntil = 0, expiresAt = 99\<rparr>)]) \<le> 1"
  using limiter_is_bounded [of "default_options\<lparr>maxEntries := 1\<rparr>" "[(''a'', \<lparr>failures = 3, lockedUntil = 0, expiresAt = 99\<rparr>)]" "''b''" 9]
  by (simp add: default_options_def)

end
