(* ===== verification/Client_Address.thy ===== *)
theory Client_Address
  imports Js_String
begin

text \<open>
  \<open>packages/relay/src/lib/clientAddress.ts\<close>: whose connection this is, and whether it is the relay's
  own host. An HTTP request is a record of what is read of it; the set of requests marked as coming
  from the tunnel (a \<open>WeakSet\<close>) is a list of request numbers.
\<close>

definition normalize :: "string \<Rightarrow> string" where
  "normalize addr =
     (let a = takeWhile (\<lambda>c. c \<noteq> CHR ''%'') (trim addr)
      in if starts_with ''::ffff:'' (lower a) \<and> CHR ''.'' \<in> set a then drop 7 a else a)"

definition isLoopback :: "string \<Rightarrow> bool" where
  "isLoopback addr \<longleftrightarrow> normalize addr = ''::1'' \<or> starts_with ''127.'' (normalize addr)"

definition parseTrustedProxies :: "string option \<Rightarrow> string list" where
  "parseTrustedProxies raw =
     (case raw of
        None \<Rightarrow> []
      | Some r \<Rightarrow> if r = [] then [] else filter (\<lambda>s. s \<noteq> []) (map normalize (split_on (CHR '','') r)))"

record address_input =
  socketAddr :: string
  forwardedFor :: "string option"
  trustedProxies :: "string list"
  viaTunnel :: bool

record resolved =
  addr :: string
  isLocal :: bool

definition hops :: "string \<Rightarrow> string list" where
  "hops xff = filter (\<lambda>s. s \<noteq> []) (map (\<lambda>s. normalize (trim s)) (split_on (CHR '','') xff))"

definition resolveByAddress :: "address_input \<Rightarrow> resolved" where
  "resolveByAddress inp =
     (let socket = normalize (socketAddr inp);
          fromTrustedProxy = socket \<in> set (trustedProxies inp);
          xff = trim (case forwardedFor inp of Some s \<Rightarrow> s | None \<Rightarrow> [])
      in if fromTrustedProxy \<and> xff \<noteq> [] then
           (case dropWhile (\<lambda>h. h \<in> set (trustedProxies inp)) (rev (hops xff)) of
              [] \<Rightarrow> \<lparr>addr = socket, isLocal = False\<rparr>
            | h # _ \<Rightarrow> \<lparr>addr = h, isLocal = isLoopback h\<rparr>)
         else \<lparr>addr = socket, isLocal = isLoopback socket\<rparr>)"

definition resolveClientAddress :: "address_input \<Rightarrow> resolved" where
  "resolveClientAddress inp =
     (if viaTunnel inp then \<lparr>addr = addr (resolveByAddress inp), isLocal = False\<rparr> else resolveByAddress inp)"

datatype header = One string | Many "string list"

definition PROXY_ONLY_HEADERS :: "string list" where
  "PROXY_ONLY_HEADERS = [''forwarded'', ''x-real-ip'', ''x-forwarded-proto'', ''x-forwarded-host'', ''via'']"

definition proxiedWithoutForwardedFor :: "string \<Rightarrow> (string \<times> header) list \<Rightarrow> string list \<Rightarrow> string option" where
  "proxiedWithoutForwardedFor socket headers proxies =
     (if normalize socket \<notin> set proxies then None
      else if trim (case jget headers ''x-forwarded-for'' of
                      Some (Many vs) \<Rightarrow> concat vs | Some (One v) \<Rightarrow> v | None \<Rightarrow> []) \<noteq> [] then None
      else find (\<lambda>h. jget headers h \<noteq> None) PROXY_ONLY_HEADERS)"

record request =
  req_id :: nat
  req_headers :: "(string \<times> header) list"
  req_remote :: "string option"

definition markTunnelIngress :: "request \<Rightarrow> nat list \<Rightarrow> nat list" where
  "markTunnelIngress req marked = (if req_id req \<in> set marked then marked else req_id req # marked)"

definition isTunnelIngress :: "nat list \<Rightarrow> request \<Rightarrow> bool" where
  "isTunnelIngress marked req \<longleftrightarrow> req_id req \<in> set marked"

text \<open>\<open>xff[0]\<close> of an empty array is \<open>undefined\<close>.\<close>

definition resolveRequestClient :: "nat list \<Rightarrow> request \<Rightarrow> string list \<Rightarrow> resolved" where
  "resolveRequestClient marked req proxies = resolveClientAddress
     \<lparr>socketAddr = (case req_remote req of Some a \<Rightarrow> a | None \<Rightarrow> []),
      forwardedFor = (case jget (req_headers req) ''x-forwarded-for'' of
        Some (Many (v # _)) \<Rightarrow> Some v | Some (Many []) \<Rightarrow> None | Some (One v) \<Rightarrow> Some v | None \<Rightarrow> None),
      trustedProxies = proxies,
      viaTunnel = isTunnelIngress marked req\<rparr>"

subsection \<open>The chain of hops\<close>

lemma not_space_comma: "\<not> js_space (CHR '','')"
  by (simp add: js_space_def)

lemma hops_cons: "js_space x \<Longrightarrow> hops (x # s) = hops s"
  using not_space_comma by (cases "split_on (CHR '','') s") (auto simp: hops_def trim_cons)

lemma hops_snoc:
  assumes "js_space x"
  shows "hops (s @ [x]) = hops s"
proof -
  let ?sp = "split_on (CHR '','') s"
  have "split_on (CHR '','') (s @ [x]) = butlast ?sp @ [last ?sp @ [x]]"
    using assms not_space_comma by (intro split_on_snoc) auto
  moreover have "map f ?sp = map f (butlast ?sp) @ [f (last ?sp)]" for f :: "string \<Rightarrow> string"
    by (metis append_butlast_last_id list.simps(8,9) map_append split_on_ne)
  ultimately show ?thesis using assms by (simp add: hops_def trim_snoc)
qed

lemma hops_trim: "hops (trim s) = hops s"
  by (rule trim_invariant) (simp_all add: hops_cons hops_snoc)

lemma hops_append: "hops (a @ CHR '','' # b) = hops a @ hops b"
  by (simp add: hops_def split_on_append)

lemma hops_trim_Nil: "trim s = [] \<Longrightarrow> hops s = []"
proof -
  assume "trim s = []"
  then have "hops s = hops []" using hops_trim [of s] by simp
  also have "hops [] = []" by code_simp
  finally show ?thesis .
qed

lemma dropWhile_append_some: "\<exists>x \<in> set xs. \<not> P x \<Longrightarrow> dropWhile P (xs @ ys) = dropWhile P xs @ ys"
  by (induction xs) auto

text \<open>
  C26. A client cannot choose its address: whatever it writes into \<open>X-Forwarded-For\<close> stands to the left
  of what the proxies append, and once one of those hops is not a listed proxy, nothing to its left is
  read, so the resolved address and locality are the same as without it.
\<close>
theorem forged_hops_are_ignored:
  assumes "\<exists>h \<in> set (hops appended). h \<notin> set (trustedProxies inp)"
  shows "resolveClientAddress (inp\<lparr>forwardedFor := Some (forged @ CHR '','' # appended)\<rparr>)
    = resolveClientAddress (inp\<lparr>forwardedFor := Some appended\<rparr>)"
proof -
  let ?P = "\<lambda>h. h \<in> set (trustedProxies inp)"
  have ne: "hops appended \<noteq> []" using assms by auto
  have "trim (forged @ CHR '','' # appended) \<noteq> []" "trim appended \<noteq> []"
    using hops_trim_Nil [of appended] hops_trim_Nil [of "forged @ CHR '','' # appended"] ne
    by (auto simp: hops_append)
  moreover have "dropWhile ?P (rev (hops appended) @ rev (hops forged)) = dropWhile ?P (rev (hops appended)) @ rev (hops forged)"
    using assms by (intro dropWhile_append_some) auto
  moreover have "dropWhile ?P (rev (hops appended)) \<noteq> []"
    using assms by (auto simp: dropWhile_eq_Nil_conv)
  ultimately show ?thesis
    by (simp add: resolveClientAddress_def resolveByAddress_def Let_def hops_trim hops_append split: list.split)
      (auto simp: neq_Nil_conv)
qed

theorem forged_hops_are_ignored_witness:
  "addr (resolveClientAddress \<lparr>socketAddr = ''127.0.0.1'', forwardedFor = Some ''127.0.0.1,203.0.113.9'',
     trustedProxies = [''127.0.0.1''], viaTunnel = False\<rparr>) = ''203.0.113.9''"
proof -
  have h: "hops ''203.0.113.9'' = [''203.0.113.9'']" by code_simp
  have "resolveClientAddress \<lparr>socketAddr = ''127.0.0.1'', forwardedFor = Some ''203.0.113.9'',
     trustedProxies = [''127.0.0.1''], viaTunnel = False\<rparr> = \<lparr>addr = ''203.0.113.9'', isLocal = False\<rparr>"
    by code_simp
  then show ?thesis
    using forged_hops_are_ignored [of "''203.0.113.9''"
      "\<lparr>socketAddr = ''127.0.0.1'', forwardedFor = None, trustedProxies = [''127.0.0.1''], viaTunnel = False\<rparr>" "''127.0.0.1''"]
    by (simp add: h)
qed

text \<open>
  Only the relay's own host is local: a connection through the tunnel never is, and any other is
  only if the address it resolves to is a loopback one, which is the socket's own unless a listed proxy
  vouched for it. What an unlisted sender puts into the header changes nothing.
\<close>
theorem locality_is_earned:
  "(isLocal (resolveClientAddress inp) \<longrightarrow>
      \<not> viaTunnel inp \<and> isLoopback (addr (resolveClientAddress inp))
      \<and> (addr (resolveClientAddress inp) = normalize (socketAddr inp) \<or> normalize (socketAddr inp) \<in> set (trustedProxies inp)))
   \<and> (normalize (socketAddr inp) \<notin> set (trustedProxies inp) \<longrightarrow>
      resolveClientAddress (inp\<lparr>forwardedFor := anything\<rparr>) = resolveClientAddress (inp\<lparr>forwardedFor := None\<rparr>))"
  by (auto simp: resolveClientAddress_def resolveByAddress_def Let_def split: list.split list.split_asm if_splits)

theorem locality_is_earned_witness:
  "\<not> isLocal (resolveClientAddress \<lparr>socketAddr = ''127.0.0.1'', forwardedFor = None, trustedProxies = [], viaTunnel = True\<rparr>)"
  using locality_is_earned [of "\<lparr>socketAddr = ''127.0.0.1'', forwardedFor = None, trustedProxies = [], viaTunnel = True\<rparr>" None]
  by auto

end
