(* ===== verification/Connection_Auth.thy ===== *)
theory Connection_Auth
  imports Prelude
begin

text \<open>
  \<open>packages/relay/src/lib/connectionAuth.ts\<close>: what a new socket may become, from where it came and
  what it presented, and whether an open one would still be accepted.
\<close>

definition AGENT_SCOPE :: string where "AGENT_SCOPE = ''agent''"
definition VIEW_SCOPE :: string where "VIEW_SCOPE = ''view''"
definition ADMIN_ROLE :: string where "ADMIN_ROLE = ''Admin''"

datatype close_reason = Ws_reject | Ws_scope | Ws_agent_owner | Ws_token_gone

record auth_input =
  a_isLocal :: bool
  a_hasCookieAuth :: bool
  a_patScopes :: "string list option"
  a_patOwnerRole :: "string option"

datatype connection_decision =
  Reject close_reason
| Accept_browser
| Accept_first_message (mayBrowse: bool) (mayRegisterAgent: bool)

definition has_scope :: "string \<Rightarrow> string list option \<Rightarrow> bool" where
  "has_scope sc scopes \<longleftrightarrow> (case scopes of Some xs \<Rightarrow> sc \<in> set xs | None \<Rightarrow> False)"

definition classifyConnection :: "auth_input \<Rightarrow> connection_decision" where
  "classifyConnection a =
     (if a_isLocal a then
        (if a_hasCookieAuth a then Accept_browser else Accept_first_message True True)
      else
        (let canView = has_scope VIEW_SCOPE (a_patScopes a) in
         if has_scope AGENT_SCOPE (a_patScopes a) then
           (if a_patOwnerRole a = Some ADMIN_ROLE then Accept_first_message canView True
            else if canView then Accept_browser
            else Reject Ws_agent_owner)
         else if a_hasCookieAuth a then Accept_browser
         else if canView then Accept_browser
         else if a_patScopes a \<noteq> None then Reject Ws_scope
         else Reject Ws_reject))"

datatype principal =
  Cookie (p_user: int) (jwtExp: "int option") (pwv: string)
| Pat (p_user: int) (patId: int)

datatype auth_change = Change_all int | Change_token int int | Change_sessions int

definition isAffectedBy :: "principal \<Rightarrow> auth_change \<Rightarrow> bool" where
  "isAffectedBy p change =
     (case change of
        Change_all u \<Rightarrow> p_user p = u
      | Change_token u pid \<Rightarrow> p_user p = u \<and> (case p of Pat _ i \<Rightarrow> i = pid | _ \<Rightarrow> False)
      | Change_sessions u \<Rightarrow> p_user p = u \<and> (case p of Cookie _ _ _ \<Rightarrow> True | _ \<Rightarrow> False))"

datatype socket_role = Role_agent | Role_browser | Role_stream

record current_credential =
  userPasswordVersion :: "string option"
  cred_pat :: "(string list \<times> string) option" \<comment> \<open>scopes and the owner's role\<close>

definition revalidatePrincipal ::
    "principal \<Rightarrow> socket_role option \<Rightarrow> current_credential \<Rightarrow> int \<Rightarrow> close_reason option" where
  "revalidatePrincipal p role current nowSeconds =
     (case p of
        Cookie _ e v \<Rightarrow>
          if userPasswordVersion current \<noteq> Some v then Some Ws_reject
          else (case e of Some t \<Rightarrow> if t \<le> nowSeconds then Some Ws_reject else None | None \<Rightarrow> None)
      | Pat _ _ \<Rightarrow>
          (case cred_pat current of
             None \<Rightarrow> Some Ws_token_gone
           | Some (scopes, ownerRole) \<Rightarrow>
               if role = Some Role_agent \<or> role = Some Role_stream then
                 (if AGENT_SCOPE \<in> set scopes \<and> ownerRole = ADMIN_ROLE then None else Some Ws_agent_owner)
               else if role = Some Role_browser then
                 (if VIEW_SCOPE \<in> set scopes then None else Some Ws_scope)
               else (case classifyConnection \<lparr>a_isLocal = False, a_hasCookieAuth = False,
                            a_patScopes = Some scopes, a_patOwnerRole = Some ownerRole\<rparr> of
                       Reject r \<Rightarrow> Some r | _ \<Rightarrow> None)))"

text \<open>What a decision lets the socket become.\<close>

definition may_become :: "connection_decision \<Rightarrow> socket_role option \<Rightarrow> bool" where
  "may_become d role =
     (case d of
        Reject _ \<Rightarrow> False
      | Accept_browser \<Rightarrow> role = Some Role_browser \<or> role = None
      | Accept_first_message browse register \<Rightarrow>
          (case role of
             None \<Rightarrow> True
           | Some Role_browser \<Rightarrow> browse
           | Some _ \<Rightarrow> register))"

text \<open>
  A remote socket without credentials is refused; it may browse only with a sign-in or a token with
  \<open>view\<close>, and may register an agent only with a token that has \<open>agent\<close> and whose owner is an Admin.
  A socket on the relay's host needs neither.
\<close>
theorem remote_roles_need_credentials:
  "(\<not> a_isLocal a \<longrightarrow> (may_become (classifyConnection a) (Some Role_browser) \<longrightarrow>
        a_hasCookieAuth a \<or> has_scope VIEW_SCOPE (a_patScopes a)))
   \<and> (\<not> a_isLocal a \<longrightarrow> (may_become (classifyConnection a) (Some Role_agent) \<longleftrightarrow>
        has_scope AGENT_SCOPE (a_patScopes a) \<and> a_patOwnerRole a = Some ADMIN_ROLE))
   \<and> (\<not> a_isLocal a \<longrightarrow> \<not> a_hasCookieAuth a \<longrightarrow> a_patScopes a = None \<longrightarrow> classifyConnection a = Reject Ws_reject)
   \<and> (a_isLocal a \<longrightarrow> may_become (classifyConnection a) (Some Role_browser))"
  by (auto simp: classifyConnection_def may_become_def Let_def has_scope_def split: option.splits)

theorem remote_roles_need_credentials_witness:
  "classifyConnection \<lparr>a_isLocal = False, a_hasCookieAuth = False, a_patScopes = None, a_patOwnerRole = None\<rparr> = Reject Ws_reject"
  using remote_roles_need_credentials [of "\<lparr>a_isLocal = False, a_hasCookieAuth = False, a_patScopes = None, a_patOwnerRole = None\<rparr>"]
  by simp

text \<open>
  C27. An open token socket is kept exactly as long as a fresh handshake with the credential as it is now
  would still let it be what it has become; a cookie socket exactly while its user's password version is
  the one it signed in with and its JWT has not expired.
\<close>
theorem revalidation_is_a_fresh_handshake:
  "(revalidatePrincipal (Pat u i) role current now = None \<longleftrightarrow>
      (\<exists>scopes ownerRole. cred_pat current = Some (scopes, ownerRole)
        \<and> may_become (classifyConnection \<lparr>a_isLocal = False, a_hasCookieAuth = False,
             a_patScopes = Some scopes, a_patOwnerRole = Some ownerRole\<rparr>) role))
   \<and> (revalidatePrincipal (Cookie u e v) role current now = None \<longleftrightarrow>
      userPasswordVersion current = Some v \<and> (\<forall>t. e = Some t \<longrightarrow> now < t))"
proof
  show "revalidatePrincipal (Cookie u e v) role current now = None \<longleftrightarrow>
      userPasswordVersion current = Some v \<and> (\<forall>t. e = Some t \<longrightarrow> now < t)"
    by (auto simp: revalidatePrincipal_def not_le split: option.splits if_splits)
  have "revalidatePrincipal (Pat u i) role current now = None \<longleftrightarrow>
        may_become (classifyConnection \<lparr>a_isLocal = False, a_hasCookieAuth = False,
             a_patScopes = Some scopes, a_patOwnerRole = Some ownerRole\<rparr>) role"
    if "cred_pat current = Some (scopes, ownerRole)" for scopes ownerRole
  proof (cases role)
    case None
    then show ?thesis using that
      by (simp add: revalidatePrincipal_def may_become_def split: connection_decision.split)
  next
    case (Some r)
    then show ?thesis using that
      by (cases r) (simp_all add: revalidatePrincipal_def may_become_def classifyConnection_def has_scope_def Let_def)
  qed
  then show "revalidatePrincipal (Pat u i) role current now = None \<longleftrightarrow>
      (\<exists>scopes ownerRole. cred_pat current = Some (scopes, ownerRole)
        \<and> may_become (classifyConnection \<lparr>a_isLocal = False, a_hasCookieAuth = False,
             a_patScopes = Some scopes, a_patOwnerRole = Some ownerRole\<rparr>) role)"
    by (cases "cred_pat current") (auto simp: revalidatePrincipal_def)
qed

theorem revalidation_is_a_fresh_handshake_witness:
  "revalidatePrincipal (Pat 1 2) (Some Role_agent) \<lparr>userPasswordVersion = None, cred_pat = Some ([''agent''], ''Viewer'')\<rparr> 0 \<noteq> None
   \<and> revalidatePrincipal (Cookie 1 (Some 50) ''v1'') None \<lparr>userPasswordVersion = Some ''v1'', cred_pat = None\<rparr> 20 = None"
  using revalidation_is_a_fresh_handshake [of 1 2 "Some Role_agent" "\<lparr>userPasswordVersion = None, cred_pat = Some ([''agent''], ''Viewer'')\<rparr>" 0]
    revalidation_is_a_fresh_handshake [of 1 2 None "\<lparr>userPasswordVersion = Some ''v1'', cred_pat = None\<rparr>" 20 "Some 50" "''v1''"]
  by (auto simp: may_become_def classifyConnection_def has_scope_def AGENT_SCOPE_def VIEW_SCOPE_def ADMIN_ROLE_def)

end
