(* ===== verification/Relay_Lib.thy ===== *)
theory Relay_Lib
  imports Wire
begin

text \<open>
  Two small stateful helpers of the relay: the single-use download tickets of
  \<open>packages/relay/src/lib/buildTickets.ts\<close> and the trailing-edge requester of
  \<open>trailingRequester.ts\<close>. The ticket \<open>crypto.randomBytes\<close> gives is an argument.
\<close>

subsection \<open>Build tickets\<close>

record build_ticket =
  t_buildId :: int
  t_filePath :: string
  t_expiresAt :: ms

definition TICKET_TTL_MS :: ms where
  "TICKET_TTL_MS = 180000"

type_synonym ticket_store = "(string \<times> build_ticket) list"

datatype redeemed = Redeemed build_ticket | Ticket_unknown | Ticket_expired

definition sweep :: "ms \<Rightarrow> ticket_store \<Rightarrow> ticket_store" where
  "sweep now st = filter (\<lambda>p. \<not> t_expiresAt (snd p) \<le> now) st"

definition mint :: "string \<Rightarrow> int \<Rightarrow> string \<Rightarrow> ms \<Rightarrow> ticket_store \<Rightarrow> ticket_store" where
  "mint ticket b path now st =
     jset ticket \<lparr>t_buildId = b, t_filePath = path, t_expiresAt = now + TICKET_TTL_MS\<rparr> (sweep now st)"

definition redeem :: "string \<Rightarrow> ms \<Rightarrow> ticket_store \<Rightarrow> ticket_store \<times> redeemed" where
  "redeem ticket now st =
     (case jget st ticket of
        None \<Rightarrow> (st, Ticket_unknown)
      | Some found \<Rightarrow> (jdel ticket st, if t_expiresAt found \<le> now then Ticket_expired else Redeemed found))"

datatype ticket_event =
  Mint string int string ms
| Redeem string ms

datatype ticket_answer = Answer string redeemed

fun ticket_step :: "ticket_event \<Rightarrow> ticket_store \<Rightarrow> ticket_store \<times> ticket_answer list" where
  "ticket_step (Mint k b path now) st = (mint k b path now st, [])"
| "ticket_step (Redeem k now) st = (fst (redeem k now st), [Answer k (snd (redeem k now st))])"

fun minted :: "ticket_event list \<Rightarrow> string list" where
  "minted [] = []"
| "minted (Mint k b path now # es) = k # minted es"
| "minted (Redeem k now # es) = minted es"

fun granted :: "string \<Rightarrow> ticket_answer list \<Rightarrow> build_ticket list" where
  "granted k [] = []"
| "granted k (Answer j r # os) = (case r of Redeemed t \<Rightarrow> if j = k then t # granted k os else granted k os | _ \<Rightarrow> granted k os)"

lemma granted_append [simp]: "granted k (xs @ ys) = granted k xs @ granted k ys"
  by (induction k xs rule: granted.induct) (auto split: redeemed.split)

lemma jkeys_sweep: "set (jkeys (sweep now st)) \<subseteq> set (jkeys st)"
  by (auto simp: sweep_def)

lemma jwf_sweep: "jwf st \<Longrightarrow> jwf (sweep now st)"
  by (induction st) (auto simp: sweep_def)

lemma jget_sweep: "jwf st \<Longrightarrow> jget (sweep now st) k = (case jget st k of Some t \<Rightarrow> if t_expiresAt t \<le> now then None else Some t | None \<Rightarrow> None)"
  by (induction st) (auto simp: sweep_def map_of_eq_None_iff split: option.split)

lemma ticket_step_wf: "jwf st \<Longrightarrow> jwf (fst (ticket_step e st))"
  by (cases e) (auto simp: mint_def redeem_def jm.wf_put jm.wf_del jwf_sweep split: option.split)

lemma ticket_step_key:
  assumes "jwf st" "jget (fst (ticket_step e st)) k = Some t"
  shows "jget st k = Some t \<or> (\<exists>b path now. e = Mint k b path now \<and> t = \<lparr>t_buildId = b, t_filePath = path, t_expiresAt = now + TICKET_TTL_MS\<rparr>)"
  using assms
  by (cases e) (auto simp: mint_def redeem_def jm.get_put jm.get_del jget_sweep
      simp del: map_of_eq_Some_iff split: option.splits if_splits)

lemma granted_step:
  assumes "granted k (snd (ticket_step e st)) \<noteq> []"
  shows "\<exists>now t. e = Redeem k now \<and> jget st k = Some t \<and> now < t_expiresAt t \<and> granted k (snd (ticket_step e st)) = [t]"
  using assms by (cases e) (auto simp: redeem_def split: option.splits if_splits redeemed.splits)

lemma redeem_consumes: "jwf st \<Longrightarrow> jget (fst (ticket_step (Redeem k now) st)) k = None"
  by (auto simp: redeem_def jm.get_del split: option.split)

lemma granted_at_most_once:
  assumes "jwf st" "distinct (minted es)" "set (minted es) \<inter> set (jkeys st) = {}"
  shows "length (granted k (snd (run ticket_step es st))) \<le> (if jget st k \<noteq> None \<or> k \<in> set (minted es) then 1 else 0)"
  using assms
proof (induction es arbitrary: st)
  case (Cons e es)
  let ?st = "fst (ticket_step e st)"
  have wf: "jwf ?st" using Cons.prems(1) by (rule ticket_step_wf)
  have dist: "distinct (minted es)" using Cons.prems(2) by (cases e) auto
  have keys: "set (jkeys ?st) \<subseteq> set (jkeys st) \<union> (case e of Mint j _ _ _ \<Rightarrow> {j} | _ \<Rightarrow> {})"
  proof (cases e)
    case (Mint j b path now)
    then show ?thesis using jkeys_sweep [of now st] by (auto simp: mint_def dom_update)
  next
    case (Redeem j now)
    have "set (jkeys (jdel j st)) \<subseteq> set (jkeys st)" by (auto simp: jkeys_del)
    with Redeem show ?thesis by (auto simp: redeem_def split: option.split)
  qed
  have disj: "set (minted es) \<inter> set (jkeys ?st) = {}"
  proof -
    have "set (minted es) \<inter> (set (jkeys st) \<union> (case e of Mint j _ _ _ \<Rightarrow> {j} | _ \<Rightarrow> {})) = {}"
      using Cons.prems(2,3) by (cases e) auto
    with keys show ?thesis by blast
  qed
  note IH = Cons.IH [OF wf dist disj]
  show ?case
  proof (cases "granted k (snd (ticket_step e st)) = []")
    case True
    have "jget st k \<noteq> None \<or> k \<in> set (minted (e # es))" if "jget ?st k \<noteq> None \<or> k \<in> set (minted es)"
      using that ticket_step_key [OF Cons.prems(1), of e k] by (cases e) auto
    with IH True show ?thesis by (auto split: if_splits)
  next
    case False
    then obtain now t where e: "e = Redeem k now" and t: "jget st k = Some t"
      and one: "granted k (snd (ticket_step e st)) = [t]"
      using granted_step by blast
    then have "k \<in> set (jkeys st)" using jm.keys_get [OF Cons.prems(1)] by simp
    with Cons.prems(3) e have "k \<notin> set (minted es)" by auto
    moreover have "jget ?st k = None" using redeem_consumes [OF Cons.prems(1)] e by simp
    ultimately have "granted k (snd (run ticket_step es ?st)) = []" using IH by simp
    with one t show ?thesis by simp
  qed
qed simp

lemma granted_was_minted:
  assumes "jwf st" "t \<in> set (granted k (snd (run ticket_step es st)))"
  shows "jget st k = Some t \<or> (\<exists>b path now. Mint k b path now \<in> set es
    \<and> t = \<lparr>t_buildId = b, t_filePath = path, t_expiresAt = now + TICKET_TTL_MS\<rparr>)"
  using assms
proof (induction es arbitrary: st)
  case (Cons e es)
  let ?st = "fst (ticket_step e st)"
  consider "t \<in> set (granted k (snd (ticket_step e st)))" | "t \<in> set (granted k (snd (run ticket_step es ?st)))"
    using Cons.prems(2) by auto
  then show ?case
  proof cases
    case 1
    then have "granted k (snd (ticket_step e st)) \<noteq> []" by auto
    with 1 show ?thesis using granted_step [of k e st] by auto
  next
    case 2
    from Cons.IH [OF ticket_step_wf [OF Cons.prems(1)] this] show ?thesis
      using ticket_step_key [OF Cons.prems(1), of e k t] by auto
  qed
qed simp

text \<open>
  C28. A download ticket works once: over any run in which the random tickets are distinct, a ticket is
  honoured at most one time, and only as the very build and file it was minted for.
\<close>
theorem ticket_works_once:
  assumes "distinct (minted es)"
  shows "length (granted k (snd (run ticket_step es []))) \<le> 1
    \<and> (\<forall>t \<in> set (granted k (snd (run ticket_step es []))). \<exists>b path now. Mint k b path now \<in> set es
        \<and> t = \<lparr>t_buildId = b, t_filePath = path, t_expiresAt = now + TICKET_TTL_MS\<rparr>)"
  using granted_at_most_once [of "[]" es k] granted_was_minted [of "[]" _ k es] assms
  by (auto split: if_splits)

theorem ticket_works_once_witness:
  "length (granted ''k'' (snd (run ticket_step [Mint ''k'' 7 ''/b.zip'' 0, Redeem ''k'' 5, Redeem ''k'' 6] []))) \<le> 1
   \<and> granted ''k'' (snd (run ticket_step [Mint ''k'' 7 ''/b.zip'' 0, Redeem ''k'' 5, Redeem ''k'' 6] [])) \<noteq> []"
  using ticket_works_once [of "[Mint ''k'' 7 ''/b.zip'' 0, Redeem ''k'' 5, Redeem ''k'' 6]" "''k''"]
  by (simp add: mint_def sweep_def redeem_def TICKET_TTL_MS_def)

text \<open>A live ticket is never lost: a sweep drops only what has expired.\<close>

lemma sweep_keeps_live:
  "jwf st \<Longrightarrow> jget st k = Some t \<Longrightarrow> now < t_expiresAt t \<Longrightarrow> jget (sweep now st) k = Some t"
  by (simp add: jget_sweep del: map_of_eq_Some_iff)

subsection \<open>The trailing requester\<close>

record requester =
  lastAt :: "ms option"
  pending :: "ms option" \<comment> \<open>when the scheduled timer is due\<close>

definition new_requester :: requester where
  "new_requester = \<lparr>lastAt = None, pending = None\<rparr>"

datatype requester_event = Call ms | Timer_runs ms | Dispose

datatype fire = Fire ms

definition fireNow :: "ms \<Rightarrow> requester \<Rightarrow> requester \<times> fire list" where
  "fireNow now r = (r\<lparr>lastAt := Some now\<rparr>, [Fire now])"

definition request :: "ms \<Rightarrow> ms \<Rightarrow> requester \<Rightarrow> requester \<times> fire list" where
  "request windowMs now r =
     (case lastAt r of
        None \<Rightarrow> fireNow now r
      | Some l \<Rightarrow>
          (let wait = windowMs - (now - l) in
           if wait \<le> 0 then fireNow now (r\<lparr>pending := None\<rparr>)
           else if pending r \<noteq> None then (r, [])
           else (r\<lparr>pending := Some (now + wait)\<rparr>, [])))"

definition timer_runs :: "ms \<Rightarrow> requester \<Rightarrow> requester \<times> fire list" where
  "timer_runs now r =
     (case pending r of
        None \<Rightarrow> (r, [])
      | Some due \<Rightarrow> if due \<le> now then fireNow now (r\<lparr>pending := None\<rparr>) else (r, []))"

definition dispose :: "requester \<Rightarrow> requester" where
  "dispose r = r\<lparr>pending := None\<rparr>"

fun requester_step :: "ms \<Rightarrow> requester_event \<Rightarrow> requester \<Rightarrow> requester \<times> fire list" where
  "requester_step w (Call now) r = request w now r"
| "requester_step w (Timer_runs now) r = timer_runs now r"
| "requester_step w Dispose r = (dispose r, [])"

definition requester_inv :: "ms \<Rightarrow> requester \<Rightarrow> bool" where
  "requester_inv w r \<longleftrightarrow> (\<forall>due. pending r = Some due \<longrightarrow> (\<exists>l. lastAt r = Some l \<and> due = l + w))"

lemma requester_step_inv: "requester_inv w r \<Longrightarrow> requester_inv w (fst (requester_step w e r))"
  by (cases e) (auto simp: requester_inv_def request_def timer_runs_def dispose_def fireNow_def Let_def split: option.splits)

interpretation requesters: step_system "requester_step w" "\<lambda>_. True" "requester_inv w"
  for w
  by unfold_locales (simp add: requester_step_inv)

fun spaced :: "ms \<Rightarrow> ms option \<Rightarrow> fire list \<Rightarrow> bool" where
  "spaced w prev [] = True"
| "spaced w prev (Fire t # fs) = ((case prev of Some p \<Rightarrow> p + w \<le> t | None \<Rightarrow> True) \<and> spaced w (Some t) fs)"

lemma requester_step_fires:
  assumes "requester_inv w r"
  shows "snd (requester_step w e r) = [] \<and> lastAt (fst (requester_step w e r)) = lastAt r
    \<or> (\<exists>t. snd (requester_step w e r) = [Fire t] \<and> lastAt (fst (requester_step w e r)) = Some t
         \<and> (\<forall>p. lastAt r = Some p \<longrightarrow> p + w \<le> t))"
  using assms
  by (cases e) (auto simp: requester_inv_def request_def timer_runs_def dispose_def fireNow_def Let_def split: option.splits)

lemma run_spaced: "requester_inv w r \<Longrightarrow> spaced w (lastAt r) (snd (run (requester_step w) es r))"
proof (induction es arbitrary: r)
  case (Cons e es)
  let ?r = "fst (requester_step w e r)"
  have IH: "spaced w (lastAt ?r) (snd (run (requester_step w) es ?r))"
    using Cons.IH requester_step_inv [OF Cons.prems] by blast
  from requester_step_fires [OF Cons.prems, of e] show ?case
  proof
    assume "snd (requester_step w e r) = [] \<and> lastAt ?r = lastAt r"
    with IH show ?thesis by simp
  next
    assume "\<exists>t. snd (requester_step w e r) = [Fire t] \<and> lastAt ?r = Some t \<and> (\<forall>p. lastAt r = Some p \<longrightarrow> p + w \<le> t)"
    with IH show ?thesis by (auto split: option.split)
  qed
qed simp

text \<open>
  Over any run of calls and timers the requests are at least a window apart, and no call is lost:
  right after one, either it was answered at that moment or a timer is due within the window, and that
  timer fires.
\<close>
theorem requests_are_spaced_and_kept:
  assumes "0 < w"
  shows "spaced w None (snd (run (requester_step w) es new_requester))
    \<and> (let r = fst (run (requester_step w) es new_requester); r' = fst (requester_step w (Call now) r) in
        snd (requester_step w (Call now) r) = [Fire now]
        \<or> (\<exists>due l. pending r' = Some due \<and> lastAt r = Some l \<and> due = l + w \<and> (l \<le> now \<longrightarrow> due \<le> now + w)
             \<and> (\<forall>t \<ge> due. snd (requester_step w (Timer_runs t) r') = [Fire t])))"
proof -
  have "requester_inv w new_requester" by (simp add: requester_inv_def new_requester_def)
  then have inv: "requester_inv w (fst (run (requester_step w) es new_requester))"
    using requesters.run_inv by (simp add: list_all_iff)
  have "lastAt new_requester = None" by (simp add: new_requester_def)
  with run_spaced [OF \<open>requester_inv w new_requester\<close>, of es] inv show ?thesis
    by (auto simp: Let_def requester_inv_def request_def timer_runs_def fireNow_def split: option.splits)
qed

theorem requests_are_spaced_and_kept_witness:
  "spaced 100 None (snd (run (requester_step 100) [Call 0, Call 10, Call 20, Timer_runs 100, Call 150] new_requester))
   \<and> snd (run (requester_step 100) [Call 0, Call 10, Call 20, Timer_runs 100, Call 150] new_requester) = [Fire 0, Fire 100]"
  using requests_are_spaced_and_kept [of 100 "[Call 0, Call 10, Call 20, Timer_runs 100, Call 150]" 0]
  by (simp add: new_requester_def request_def timer_runs_def fireNow_def)

end
