(* ===== verification/Envelope.thy ===== *)
theory Envelope
  imports Prelude "HOL-Library.Word"
begin

unbundle bit_operations_syntax

text \<open>
  The 22-byte frame header: written by \<open>packages/agent-core/src/utils/envelope.ts\<close>, stamped by the
  relay (\<open>patchRelayedAt\<close>), read by the relay and, independently, by
  \<open>packages/dashboard/lib/envelope.ts\<close>. A buffer is a list of bytes. \<open>writeBigUInt64BE\<close> throws outside
  64 bits, so writing returns an option; a number read back through \<open>Number\<close> is an integer, exact in
  the code below \<open>2 ^ 53\<close>.
\<close>

type_synonym byte = "8 word"

definition HEADER_SIZE :: nat where "HEADER_SIZE = 22"

definition CODEC_JPEG :: nat where "CODEC_JPEG = 0"
definition CODEC_H264 :: nat where "CODEC_H264 = 1"
definition CODEC_AUDIO :: nat where "CODEC_AUDIO = 2"

definition FLAG_H264 :: byte where "FLAG_H264 = 0x01"
definition FLAG_KEYFRAME :: byte where "FLAG_KEYFRAME = 0x02"
definition FLAG_AUDIO :: byte where "FLAG_AUDIO = 0x04"

record envelope_flags =
  e_codec :: nat
  e_keyframe :: bool

definition hasEnvelope :: "byte list \<Rightarrow> bool" where
  "hasEnvelope frame \<longleftrightarrow> HEADER_SIZE \<le> length frame \<and> frame ! 0 = 0x54 \<and> frame ! 1 = 0x46
     \<and> frame ! 2 = 0x46 \<and> frame ! 3 = 0x45"

text \<open>Big-endian, \<open>n\<close> bytes.\<close>

fun be_bytes :: "nat \<Rightarrow> nat \<Rightarrow> byte list" where
  "be_bytes 0 v = []"
| "be_bytes (Suc n) v = be_bytes n (v div 256) @ [of_nat (v mod 256)]"

definition be_value :: "byte list \<Rightarrow> nat" where
  "be_value bs = foldl (\<lambda>v b. v * 256 + unat b) 0 bs"

definition write_u64 :: "int \<Rightarrow> byte list option" where
  "write_u64 v = (if 0 \<le> v \<and> v < 2 ^ 64 then Some (be_bytes 8 (nat v)) else None)"

definition writeEnvelopeHeader :: "byte list \<Rightarrow> int \<Rightarrow> nat option \<Rightarrow> bool \<Rightarrow> byte list option" where
  "writeEnvelopeHeader payload capturedAt codec keyframe =
     (let isH264 = (codec = Some CODEC_H264);
          isAudio = (codec = Some CODEC_AUDIO);
          flags = (if isAudio then FLAG_AUDIO else 0) OR (if isH264 then FLAG_H264 else 0)
            OR (if isH264 \<and> keyframe then FLAG_KEYFRAME else 0)
      in map_option (\<lambda>ts. [0x54, 0x46, 0x46, 0x45, 1, flags] @ ts @ be_bytes 8 0 @ payload) (write_u64 capturedAt))"

definition readEnvelopeFlags :: "byte list \<Rightarrow> envelope_flags" where
  "readEnvelopeFlags frame =
     (let flags = frame ! 5 in
      if flags AND FLAG_AUDIO \<noteq> 0 then \<lparr>e_codec = CODEC_AUDIO, e_keyframe = False\<rparr>
      else (let codec = (if flags AND FLAG_H264 \<noteq> 0 then CODEC_H264 else CODEC_JPEG)
            in \<lparr>e_codec = codec, e_keyframe = (codec = CODEC_H264 \<and> flags AND FLAG_KEYFRAME \<noteq> 0)\<rparr>))"

definition patchRelayedAt :: "byte list \<Rightarrow> int \<Rightarrow> byte list option" where
  "patchRelayedAt frame relayedAt =
     map_option (\<lambda>ts. take 14 frame @ ts @ drop 22 frame) (write_u64 relayedAt)"

subsection \<open>The dashboard's reader\<close>

record envelope_header =
  capturedAt :: nat
  relayedAt :: nat
  h_codec :: nat
  h_keyframe :: bool

definition SUPPORTED_VERSION :: byte where "SUPPORTED_VERSION = 1"

definition MAGIC :: "byte list" where "MAGIC = [0x54, 0x46, 0x46, 0x45]"

definition parseEnvelopeHeader :: "byte list \<Rightarrow> envelope_header option" where
  "parseEnvelopeHeader frame =
     (if length frame < HEADER_SIZE then None
      else if take (length MAGIC) frame \<noteq> MAGIC then None
      else if frame ! 4 \<noteq> SUPPORTED_VERSION then None
      else (let flags = frame ! 5;
                codec = (if flags AND FLAG_AUDIO \<noteq> 0 then CODEC_AUDIO
                         else if flags AND FLAG_H264 \<noteq> 0 then CODEC_H264 else CODEC_JPEG)
            in Some \<lparr>capturedAt = be_value (take 8 (drop 6 frame)), relayedAt = be_value (take 8 (drop 14 frame)),
                 h_codec = codec, h_keyframe = (codec = CODEC_H264 \<and> flags AND FLAG_KEYFRAME \<noteq> 0)\<rparr>))"

subsection \<open>Bytes\<close>

lemma length_be_bytes [simp]: "length (be_bytes n v) = n"
  by (induction n arbitrary: v) auto

lemma be_value_snoc: "be_value (bs @ [b]) = be_value bs * 256 + unat b"
  by (simp add: be_value_def)

lemma be_value_bytes: "v < 256 ^ n \<Longrightarrow> be_value (be_bytes n v) = v"
proof (induction n arbitrary: v)
  case (Suc n)
  have "v div 256 < 256 ^ n" using Suc.prems by (simp add: less_mult_imp_div_less mult.commute)
  moreover have "unat (of_nat (v mod 256) :: byte) = v mod 256"
    by (simp add: unat_of_nat)
  ultimately show ?case using Suc.IH by (simp add: be_value_snoc)
qed (simp add: be_value_def)

lemma flag_bits [simp]:
  "(FLAG_AUDIO OR 0) AND FLAG_AUDIO = FLAG_AUDIO"
  by (simp add: FLAG_AUDIO_def)

lemmas flag_defs = FLAG_AUDIO_def FLAG_H264_def FLAG_KEYFRAME_def
lemmas codec_defs = CODEC_JPEG_def CODEC_H264_def CODEC_AUDIO_def

lemma written_frame:
  assumes "writeEnvelopeHeader payload t codec key = Some frame"
  obtains flags where "frame = [0x54, 0x46, 0x46, 0x45, 1, flags] @ be_bytes 8 (nat t) @ be_bytes 8 0 @ payload"
    and "flags = (if codec = Some CODEC_AUDIO then FLAG_AUDIO
       else if codec = Some CODEC_H264 then (if key then 0x03 else 0x01) else 0)"
    and "0 \<le> t" "t < 2 ^ 64"
  using assms
  by (auto simp: writeEnvelopeHeader_def write_u64_def Let_def flag_defs codec_defs split: if_splits)

text \<open>
  What the agent writes is what the viewer reads after the relay has stamped it: the stamped frame
  still has its envelope, the two readers agree on codec and keyframe, and the viewer gets back both
  times, the codec asked for, a keyframe mark only on H.264, and the payload byte for byte.
\<close>
theorem envelope_reaches_the_viewer:
  assumes "writeEnvelopeHeader payload t codec key = Some frame" and "patchRelayedAt frame r = Some stamped"
    and "codec \<in> {None, Some CODEC_JPEG, Some CODEC_H264, Some CODEC_AUDIO}"
  shows "hasEnvelope stamped \<and> drop HEADER_SIZE stamped = payload
    \<and> parseEnvelopeHeader stamped = Some \<lparr>capturedAt = nat t, relayedAt = nat r,
        h_codec = e_codec (readEnvelopeFlags stamped), h_keyframe = e_keyframe (readEnvelopeFlags stamped)\<rparr>
    \<and> e_codec (readEnvelopeFlags stamped) = (case codec of Some c \<Rightarrow> c | None \<Rightarrow> CODEC_JPEG)
    \<and> (e_keyframe (readEnvelopeFlags stamped) \<longleftrightarrow> codec = Some CODEC_H264 \<and> key)"
proof -
  obtain flags where f: "frame = [0x54, 0x46, 0x46, 0x45, 1, flags] @ be_bytes 8 (nat t) @ be_bytes 8 0 @ payload"
    and fl: "flags = (if codec = Some CODEC_AUDIO then FLAG_AUDIO
       else if codec = Some CODEC_H264 then (if key then 0x03 else 0x01) else 0)"
    and t: "0 \<le> t" "t < 2 ^ 64"
    by (rule written_frame [OF assms(1)])
  have r: "0 \<le> r" "r < 2 ^ 64" and s0: "stamped = take 14 frame @ be_bytes 8 (nat r) @ drop 22 frame"
    using assms(2) by (auto simp: patchRelayedAt_def write_u64_def split: if_splits)
  have s: "stamped = [0x54, 0x46, 0x46, 0x45, 1, flags] @ be_bytes 8 (nat t) @ be_bytes 8 (nat r) @ payload"
    unfolding s0 f by simp
  have v: "be_value (be_bytes 8 (nat x)) = nat x" if "0 \<le> x" "x < 2 ^ 64" for x
    by (rule be_value_bytes) (use that in \<open>simp add: nat_less_iff\<close>)
  have flag: "stamped ! 5 = flags" by (simp add: s)
  have times: "take 8 (drop 6 stamped) = be_bytes 8 (nat t)" "take 8 (drop 14 stamped) = be_bytes 8 (nat r)"
    by (simp_all add: s)
  have codec: "readEnvelopeFlags stamped =
      \<lparr>e_codec = (case codec of Some c \<Rightarrow> c | None \<Rightarrow> CODEC_JPEG), e_keyframe = (codec = Some CODEC_H264 \<and> key)\<rparr>"
    using assms(3) by (auto simp: readEnvelopeFlags_def flag fl flag_defs codec_defs Let_def)
  moreover have "parseEnvelopeHeader stamped = Some \<lparr>capturedAt = nat t, relayedAt = nat r,
        h_codec = e_codec (readEnvelopeFlags stamped), h_keyframe = e_keyframe (readEnvelopeFlags stamped)\<rparr>"
  proof -
    have codec_ne: "CODEC_AUDIO \<noteq> CODEC_H264" by (simp add: codec_defs)
    have "length stamped \<ge> HEADER_SIZE" "take (length MAGIC) stamped = MAGIC" "stamped ! 4 = SUPPORTED_VERSION"
      by (simp_all add: s HEADER_SIZE_def MAGIC_def SUPPORTED_VERSION_def)
    then show ?thesis
      using v [OF t] v [OF r] codec_ne
      by (simp add: parseEnvelopeHeader_def readEnvelopeFlags_def times Let_def)
  qed
  ultimately show ?thesis by (simp add: hasEnvelope_def HEADER_SIZE_def s)
qed

theorem envelope_reaches_the_viewer_witness:
  "\<exists>frame stamped. writeEnvelopeHeader [7, 8] 1000 (Some CODEC_H264) True = Some frame
     \<and> patchRelayedAt frame 1500 = Some stamped \<and> drop HEADER_SIZE stamped = [7, 8] \<and> e_keyframe (readEnvelopeFlags stamped)"
proof -
  obtain frame where f: "writeEnvelopeHeader [7, 8] 1000 (Some CODEC_H264) True = Some frame"
    by (simp add: writeEnvelopeHeader_def write_u64_def Let_def)
  obtain stamped where s: "patchRelayedAt frame 1500 = Some stamped"
    by (simp add: patchRelayedAt_def write_u64_def)
  from envelope_reaches_the_viewer [OF f s] f s show ?thesis by auto
qed

end
