(* ===== verification/Frames.thy ===== *)
theory Frames
  imports Envelope Session_Ops
begin

text \<open>
  How a frame gets from the agent's stream to the viewers: the senders of
  \<open>packages/agent-core/src/utils/stream.ts\<close>, which drop frames when a socket is full, and the binary
  branch of \<open>RelayServer\<close>'s message handler, which sends a frame to the holder and the watchers of the
  stream's session. A socket is what the senders read of it: whether it is open, and how many bytes
  wait in it.
\<close>

record sock =
  is_open :: bool
  bufferedAmount :: nat

datatype send_event = Sent | Dropped | Want_keyframe

definition DEFAULT_BACKPRESSURE_BYTES :: nat where "DEFAULT_BACKPRESSURE_BYTES = 1048576"
definition AUDIO_BUFFER_CEILING_BYTES :: nat where "AUDIO_BUFFER_CEILING_BYTES = 65536"

definition sendBinaryWithBackpressure :: "sock \<Rightarrow> nat \<Rightarrow> bool \<times> send_event list" where
  "sendBinaryWithBackpressure ws threshold =
     (if \<not> is_open ws then (False, [])
      else if threshold \<le> bufferedAmount ws then (False, [Dropped])
      else (True, [Sent]))"

definition sendAudioYieldingToVideo :: "sock \<Rightarrow> nat \<Rightarrow> bool \<times> send_event list" where
  "sendAudioYieldingToVideo ws limit =
     (if \<not> is_open ws then (False, [])
      else if limit < bufferedAmount ws then (False, [Dropped])
      else (True, [Sent]))"

text \<open>\<open>createKeyframeAwareSender\<close>: its state is the one flag \<open>dropping\<close>.\<close>

definition keyframe_send :: "sock \<Rightarrow> nat \<Rightarrow> bool \<Rightarrow> bool \<Rightarrow> bool \<times> bool \<times> send_event list" where
  "keyframe_send ws threshold isKeyframe dropping =
     (if \<not> is_open ws then (dropping, False, [])
      else (let full = (threshold \<le> bufferedAmount ws) in
        if dropping then
          (if isKeyframe \<and> \<not> full then (False, True, [Sent])
           else (True, False, Dropped # (if \<not> full then [Want_keyframe] else [])))
        else if full then (True, False, [Dropped])
        else (False, True, [Sent])))"

text \<open>\<open>createRateLimitedDropWarn\<close>: the last warning's time and the drops since; a warning says how many.\<close>

record drop_warn =
  lastWarnAt :: ms
  dropCount :: nat

definition drop_warn_call :: "ms \<Rightarrow> ms \<Rightarrow> drop_warn \<Rightarrow> drop_warn \<times> nat list" where
  "drop_warn_call intervalMs now d =
     (let n = dropCount d + 1 in
      if intervalMs \<le> now - lastWarnAt d then (\<lparr>lastWarnAt = now, dropCount = 0\<rparr>, [n])
      else (d\<lparr>dropCount := n\<rparr>, []))"

subsection \<open>The reference chain\<close>

text \<open>A stream of frames, each with the socket as it was then and whether it is a keyframe.\<close>

fun send_all :: "nat \<Rightarrow> bool \<Rightarrow> (sock \<times> bool) list \<Rightarrow> bool list" where
  "send_all t dropping [] = []"
| "send_all t dropping ((ws, k) # fs) =
     (let r = keyframe_send ws t k dropping in fst (snd r) # send_all t (fst r) fs)"

text \<open>What a decoder needs: a frame it gets is a keyframe or follows one it got.\<close>

fun chain_ok :: "bool \<Rightarrow> bool list \<Rightarrow> bool list \<Rightarrow> bool" where
  "chain_ok prev [] [] = True"
| "chain_ok prev (k # ks) (s # ss) = ((s \<longrightarrow> k \<or> prev) \<and> chain_ok s ks ss)"
| "chain_ok prev _ _ = False"

lemma chain_ok_send_all:
  assumes "\<forall>p \<in> set fs. is_open (fst p)"
  shows "chain_ok (\<not> dropping) (map snd fs) (send_all t dropping fs)"
  using assms
proof (induction fs arbitrary: dropping)
  case (Cons p fs)
  obtain ws k where p: "p = (ws, k)" by force
  have "fst (keyframe_send ws t k dropping) \<longleftrightarrow> \<not> fst (snd (keyframe_send ws t k dropping))"
    using Cons.prems by (simp add: keyframe_send_def Let_def p)
  with Cons.IH [of "fst (keyframe_send ws t k dropping)"] Cons.prems show ?case
    by (auto simp: p Let_def keyframe_send_def)
qed simp

text \<open>
 The sender keeps the H.264 reference chain: to an open socket, every frame it sends is a keyframe
  or comes right after a frame it sent, so a decoder never gets a P-frame whose reference was dropped.
  For independent frames it is exactly the plain sender, and it asks for a keyframe only while dropping
  into a socket that has room.
\<close>
theorem sender_keeps_the_chain:
  assumes "\<forall>p \<in> set fs. is_open (fst p)"
  shows "chain_ok True (map snd fs) (send_all t False fs)
    \<and> ((\<forall>p \<in> set fs. snd p) \<longrightarrow> send_all t False fs = map (\<lambda>p. fst (sendBinaryWithBackpressure (fst p) t)) fs)
    \<and> (\<forall>ws k d. Want_keyframe \<in> set (snd (snd (keyframe_send ws t k d))) \<longrightarrow> d \<and> \<not> k \<and> bufferedAmount ws < t)"
proof (intro conjI)
  show "chain_ok True (map snd fs) (send_all t False fs)" using chain_ok_send_all [OF assms, of False] by simp
  have "(\<forall>p \<in> set fs. snd p) \<longrightarrow> send_all t d fs = map (\<lambda>p. fst (sendBinaryWithBackpressure (fst p) t)) fs" for d
    by (induction fs arbitrary: d) (auto simp: keyframe_send_def sendBinaryWithBackpressure_def Let_def)
  then show "(\<forall>p \<in> set fs. snd p) \<longrightarrow> send_all t False fs = map (\<lambda>p. fst (sendBinaryWithBackpressure (fst p) t)) fs" .
  show "\<forall>ws k d. Want_keyframe \<in> set (snd (snd (keyframe_send ws t k d))) \<longrightarrow> d \<and> \<not> k \<and> bufferedAmount ws < t"
    by (auto simp: keyframe_send_def Let_def split: if_splits)
qed

theorem sender_keeps_the_chain_witness:
  "send_all 10 False [(\<lparr>is_open = True, bufferedAmount = 0\<rparr>, True), (\<lparr>is_open = True, bufferedAmount = 10\<rparr>, False),
     (\<lparr>is_open = True, bufferedAmount = 0\<rparr>, False), (\<lparr>is_open = True, bufferedAmount = 0\<rparr>, True)] = [True, False, False, True]
   \<and> chain_ok True [True, False, False, True] [True, False, False, True]"
  using sender_keeps_the_chain [of "[(\<lparr>is_open = True, bufferedAmount = 0\<rparr>, True), (\<lparr>is_open = True, bufferedAmount = 10\<rparr>, False),
     (\<lparr>is_open = True, bufferedAmount = 0\<rparr>, False), (\<lparr>is_open = True, bufferedAmount = 0\<rparr>, True)]" 10]
  by (simp add: keyframe_send_def)

text \<open>Every drop is warned about or still counted.\<close>

lemma drop_warn_conserves:
  "dropCount d + 1 = dropCount (fst (drop_warn_call i now d)) + sum_list (snd (drop_warn_call i now d))"
  by (simp add: drop_warn_call_def Let_def)

subsection \<open>The relay's routing\<close>

text \<open>
  The senders the relay keeps: one \<open>dropping\<close> flag per session for its holder, and one per watcher
  socket and session.
\<close>

record frame_state =
  droppers :: "(string \<times> bool) list"
  watcherDroppers :: "(socket \<times> (string \<times> bool) list) list"

datatype delivery =
  Deliver socket "byte list"
| Drop_for socket
| Request_idr string \<comment> \<open>through the session's throttled requester\<close>

definition deliveries :: "socket \<Rightarrow> byte list \<Rightarrow> send_event list \<Rightarrow> delivery list \<Rightarrow> delivery list" where
  "deliveries ws frame evs idr =
     concat (map (\<lambda>e. case e of Sent \<Rightarrow> [Deliver ws frame] | Dropped \<Rightarrow> [Drop_for ws] | Want_keyframe \<Rightarrow> idr) evs)"

definition watcher_dropping :: "frame_state \<Rightarrow> socket \<Rightarrow> string \<Rightarrow> bool" where
  "watcher_dropping st ws i =
     (case jget (watcherDroppers st) ws of Some by \<Rightarrow> (case jget by i of Some d \<Rightarrow> d | None \<Rightarrow> False) | None \<Rightarrow> False)"

definition set_watcher_dropping :: "socket \<Rightarrow> string \<Rightarrow> bool \<Rightarrow> frame_state \<Rightarrow> frame_state" where
  "set_watcher_dropping ws i d st =
     st\<lparr>watcherDroppers := jset ws (jset i d (case jget (watcherDroppers st) ws of Some by \<Rightarrow> by | None \<Rightarrow> [])) (watcherDroppers st)\<rparr>"

definition send_holder ::
    "nat \<Rightarrow> (socket \<Rightarrow> sock) \<Rightarrow> string \<Rightarrow> socket option \<Rightarrow> byte list \<Rightarrow> bool \<Rightarrow> frame_state \<Rightarrow> frame_state \<times> delivery list" where
  "send_holder thr view i holder frame isKeyframe st =
     (case holder of
        None \<Rightarrow> (st, [])
      | Some h \<Rightarrow>
          (let d = (case jget (droppers st) i of Some d \<Rightarrow> d | None \<Rightarrow> False);
               r = keyframe_send (view h) thr isKeyframe d
           in (st\<lparr>droppers := jset i (fst r) (droppers st)\<rparr>, deliveries h frame (snd (snd r)) [Request_idr i])))"

fun send_watchers ::
    "nat \<Rightarrow> (socket \<Rightarrow> sock) \<Rightarrow> string \<Rightarrow> socket list \<Rightarrow> byte list \<Rightarrow> bool \<Rightarrow> frame_state \<Rightarrow> frame_state \<times> delivery list" where
  "send_watchers thr view i [] frame isKeyframe st = (st, [])"
| "send_watchers thr view i (w # ws) frame isKeyframe st =
     (let r = keyframe_send (view w) thr isKeyframe (watcher_dropping st w i);
          (st', out) = send_watchers thr view i ws frame isKeyframe (set_watcher_dropping w i (fst r) st)
      in (st', deliveries w frame (snd (snd r)) [] @ out))"

text \<open>\<open>patchRelayedAt\<close> does not throw here: \<open>Date.now()\<close> is far below \<open>2 ^ 64\<close>.\<close>

definition stamp :: "byte list \<Rightarrow> ms \<Rightarrow> byte list" where
  "stamp frame now = (case patchRelayedAt frame now of Some f \<Rightarrow> f | None \<Rightarrow> frame)"

definition route_frame ::
    "ms \<Rightarrow> nat \<Rightarrow> (socket \<Rightarrow> sock) \<Rightarrow> manager \<Rightarrow> socket \<Rightarrow> byte list \<Rightarrow> frame_state \<Rightarrow> frame_state \<times> delivery list" where
  "route_frame now thr view m ws frame st =
     (case getByStreamSocket m ws of
        None \<Rightarrow> (st, [])
      | Some s \<Rightarrow>
          (let watching = watchersOf m (sid_of s);
               holder = (if holderStream s then browserSocket s else None)
           in if holder = None \<and> watching = [] then (st, [])
           else if hasEnvelope frame \<and> e_codec (readEnvelopeFlags frame) = CODEC_AUDIO then
             (case holder of
                None \<Rightarrow> (st, [])
              | Some h \<Rightarrow> (st, deliveries h (stamp frame now) (snd (sendAudioYieldingToVideo (view h) AUDIO_BUFFER_CEILING_BYTES)) []))
           else
             (let stamped = (if hasEnvelope frame then stamp frame now else frame);
                  isKeyframe = (if hasEnvelope frame
                    then e_codec (readEnvelopeFlags stamped) = CODEC_JPEG \<or> e_keyframe (readEnvelopeFlags stamped) else True);
                  (st1, out1) = send_holder thr view (sid_of s) holder stamped isKeyframe st;
                  (st2, out2) = send_watchers thr view (sid_of s) watching stamped isKeyframe st1
              in (st2, out1 @ out2))))"

fun recipients :: "delivery list \<Rightarrow> socket set" where
  "recipients [] = {}"
| "recipients (Deliver ws f # ds) = insert ws (recipients ds)"
| "recipients (_ # ds) = recipients ds"

lemma recipients_append [simp]: "recipients (a @ b) = recipients a \<union> recipients b"
  by (induction a rule: recipients.induct) auto

lemma deliveries_recipients: "recipients idr = {} \<Longrightarrow> recipients (deliveries ws f evs idr) \<subseteq> {ws}"
  by (induction evs) (auto simp: deliveries_def split: send_event.splits)

lemma deliveries_idr: "Request_idr i \<in> set (deliveries ws f evs []) \<Longrightarrow> False"
  by (induction evs) (auto simp: deliveries_def split: send_event.splits)

lemma send_watchers_recipients:
  "recipients (snd (send_watchers t v i ws f k st)) \<subseteq> set ws \<and> Request_idr j \<notin> set (snd (send_watchers t v i ws f k st))"
proof (induction ws arbitrary: st)
  case (Cons w ws)
  let ?r = "keyframe_send (v w) t k (watcher_dropping st w i)"
  from Cons.IH [of "set_watcher_dropping w i (fst ?r) st"] deliveries_recipients [of "[]" w f "snd (snd ?r)"] deliveries_idr
  show ?case by (fastforce simp: Let_def split_beta)
qed simp

lemma send_holder_recipients:
  "recipients (snd (send_holder t v i h f k st)) \<subseteq> set_option h"
  using deliveries_recipients [of "[Request_idr i]"]
  by (auto simp: send_holder_def Let_def split: option.splits)

lemma send_holder_idr:
  "Request_idr j \<in> set (snd (send_holder t v i h f k st)) \<Longrightarrow> j = i \<and> h \<noteq> None \<and> \<not> k"
  by (auto simp: send_holder_def Let_def deliveries_def keyframe_send_def split: option.splits send_event.splits if_splits)

text \<open>
  C29. A stream's frame goes to the holder of that stream's session, unless it said it reads no stream,
  and to the session's watchers, and to nobody else; audio goes to the holder only; and only the holder's
  own backpressure ever asks the encoder for a keyframe, never a slow watcher.
\<close>
theorem frames_reach_only_the_session:
  "(case getByStreamSocket m ws of
      None \<Rightarrow> snd (route_frame now thr view m ws frame st) = []
    | Some s \<Rightarrow>
        recipients (snd (route_frame now thr view m ws frame st)) \<subseteq>
          (if holderStream s then set_option (browserSocket s) else {}) \<union> set (watchersOf m (sid_of s))
      \<and> (hasEnvelope frame \<and> e_codec (readEnvelopeFlags frame) = CODEC_AUDIO \<longrightarrow>
          recipients (snd (route_frame now thr view m ws frame st)) \<subseteq>
            (if holderStream s then set_option (browserSocket s) else {}))
      \<and> (\<forall>j. Request_idr j \<in> set (snd (route_frame now thr view m ws frame st)) \<longrightarrow>
          j = sid_of s \<and> holderStream s \<and> browserSocket s \<noteq> None))"
proof (cases "getByStreamSocket m ws")
  case None
  then show ?thesis by (simp add: route_frame_def)
next
  case (Some s)
  let ?h = "if holderStream s then browserSocket s else None"
  let ?w = "watchersOf m (sid_of s)"
  have audio: "recipients (deliveries h f (snd (sendAudioYieldingToVideo v l)) []) \<subseteq> {h}"
    "Request_idr j \<notin> set (deliveries h f (snd (sendAudioYieldingToVideo v l)) [])" for h f v l j
    using deliveries_recipients [of "[]"] deliveries_idr by auto
  have video: "recipients (snd (send_holder t v i ?h f k st) @ snd (send_watchers t v i ?w f k st')) \<subseteq> set_option ?h \<union> set ?w"
    "Request_idr j \<in> set (snd (send_holder t v i ?h f k st) @ snd (send_watchers t v i ?w f k st')) \<Longrightarrow> j = i \<and> ?h \<noteq> None"
    for t v i f k st st' j
    using send_holder_recipients [of t v i ?h f k st] send_watchers_recipients [of t v i ?w f k st'] send_holder_idr [of j t v i ?h f k st]
    by auto
  show ?thesis
  proof (cases "?h = None \<and> ?w = []")
    case True
    then show ?thesis using Some by (simp add: route_frame_def Let_def)
  next
    case False
    show ?thesis
    proof (cases "hasEnvelope frame \<and> e_codec (readEnvelopeFlags frame) = CODEC_AUDIO")
      case True
      then show ?thesis using Some False audio(2)
        by (cases ?h) (auto simp: route_frame_def Let_def split: if_splits dest!: subsetD [OF audio(1)])
    next
      case F: False
      obtain f k where "snd (route_frame now thr view m ws frame st) =
          snd (send_holder thr view (sid_of s) ?h f k st) @
          snd (send_watchers thr view (sid_of s) ?w f k (fst (send_holder thr view (sid_of s) ?h f k st)))"
        using Some False F by (simp add: route_frame_def Let_def split_beta)
      then have eq: "snd (route_frame now thr view m ws frame st) =
          snd (send_holder thr view (sid_of s) ?h f k st) @
          snd (send_watchers thr view (sid_of s) ?w f k (fst (send_holder thr view (sid_of s) ?h f k st)))" .
      note reach = video(1) [of thr view "sid_of s" f k st "fst (send_holder thr view (sid_of s) ?h f k st)"]
      note idr = video(2) [of _ thr view "sid_of s" f k st "fst (send_holder thr view (sid_of s) ?h f k st)"]
      show ?thesis
        unfolding Some option.case eq
      proof (intro conjI allI impI)
        show "recipients (snd (send_holder thr view (sid_of s) ?h f k st) @
            snd (send_watchers thr view (sid_of s) ?w f k (fst (send_holder thr view (sid_of s) ?h f k st))))
          \<subseteq> (if holderStream s then set_option (browserSocket s) else {}) \<union> set ?w"
          using reach by (cases "holderStream s") simp_all
      qed (use F idr in \<open>auto split: if_splits\<close>)
    qed
  qed
qed

definition demo_stream :: manager where
  "demo_stream = (new_manager 1000)\<lparr>sessions := [(''a'', (blank_session ''a'' 1 \<lparr>r_id = ''u'', r_name = ''n'', r_platform = ''ios'',
     r_status = Booted, r_osVersion = None, r_formFactor = None, r_serviceTier = None\<rparr>)
     \<lparr>browserSocket := Some 2, owner := Some ''k'', streamSocket := Some 5\<rparr>)],
     streamSocketIndex := [(5, ''a'')], watchers := [(''a'', [(3, ''k'')])]\<rparr>"

theorem frames_reach_only_the_session_witness:
  "recipients (snd (route_frame 0 10 (\<lambda>_. \<lparr>is_open = True, bufferedAmount = 0\<rparr>) demo_stream 5 [1, 2]
     \<lparr>droppers = [], watcherDroppers = []\<rparr>)) \<subseteq> {2, 3}"
proof -
  obtain s where s: "getByStreamSocket demo_stream 5 = Some s" "holderStream s" "browserSocket s = Some 2" "sid_of s = ''a''"
    by (simp add: demo_stream_def getByStreamSocket_def new_manager_def blank_session_def)
  have "watchersOf demo_stream ''a'' = [3]" by (simp add: demo_stream_def watchersOf_def)
  with frames_reach_only_the_session [where m = demo_stream and ws = 5 and now = 0 and thr = 10
      and view = "\<lambda>_. \<lparr>is_open = True, bufferedAmount = 0\<rparr>" and frame = "[1, 2]"
      and st = "\<lparr>droppers = [], watcherDroppers = []\<rparr>"] s
  show ?thesis by auto
qed

end
