(* ===== verification/Sps.thy ===== *)
theory Sps
  imports Js_String "HOL-Library.Word" "HOL-Library.State_Monad"
begin

unbundle bit_operations_syntax

text \<open>
  \<open>packages/agent-core/src/utils/sps.ts\<close> (and its browser mirror
  \<open>packages/dashboard/lib/decoders/parseSpsVui.ts\<close>): reading an H.264 sequence parameter set bit by
  bit, and rewriting it so that decoders do not hold frames back. \<open>BitReader\<close> is a state monad over the
  bit position, reading from a function from positions to bits that is \<open>False\<close> past the end. A number
  is an integer; the 32-bit shifts of \<open>ue\<close> are written out on words.
\<close>

type_synonym byte = "8 word"
type_synonym bits = "nat \<Rightarrow> bool"
type_synonym 'a reader = "bits \<Rightarrow> (nat, 'a) state"

subsection \<open>The bit reader\<close>

definition bits_of :: "byte list \<Rightarrow> bits" where
  "bits_of bytes pos = (if length bytes \<le> pos div 8 then False else bit (bytes ! (pos div 8)) (7 - pos mod 8))"

definition r_bit :: "bool reader" where
  "r_bit b = State (\<lambda>pos. (b pos, Suc pos))"

fun r_bits :: "nat \<Rightarrow> int reader" where
  "r_bits 0 b = State_Monad.return 0"
| "r_bits (Suc n) b = do { v \<leftarrow> r_bits n b; x \<leftarrow> r_bit b; State_Monad.return (2 * v + of_bool x) }"

text \<open>The zeros before the first one, at most \<open>n\<close> of them; the bit that ends the count is read.\<close>

fun r_zeros :: "nat \<Rightarrow> nat reader" where
  "r_zeros 0 b = do { x \<leftarrow> r_bit b; State_Monad.return 0 }"
| "r_zeros (Suc n) b =
     do { x \<leftarrow> r_bit b;
          if x then State_Monad.return 0 else do { z \<leftarrow> r_zeros n b; State_Monad.return (Suc z) } }"

text \<open>\<open>1 << zeros\<close>: the shift count is taken modulo 32 and the result is signed.\<close>

definition js_shl1 :: "nat \<Rightarrow> int" where
  "js_shl1 n = sint (push_bit (n mod 32) 1 :: 32 word)"

definition r_ue :: "int reader" where
  "r_ue b = do { zeros \<leftarrow> r_zeros 32 b;
                 if zeros = 0 then State_Monad.return 0
                 else do { v \<leftarrow> r_bits zeros b; State_Monad.return (js_shl1 zeros - 1 + v) } }"

definition r_se :: "int reader" where
  "r_se b = do { k \<leftarrow> r_ue b; State_Monad.return (if odd k then (k + 1) div 2 else - ((k + 1) div 2)) }"

text \<open>\<open>for (i = 0; i < n; i++) action\<close>.\<close>

fun r_times :: "nat \<Rightarrow> 'a reader \<Rightarrow> unit reader" where
  "r_times 0 f b = State_Monad.return ()"
| "r_times (Suc n) f b = do { f b; r_times n f b }"

definition r_when :: "bool \<Rightarrow> 'a reader \<Rightarrow> unit reader" where
  "r_when c f b = (if c then do { f b; State_Monad.return () } else State_Monad.return ())"

subsection \<open>The parameter set\<close>

definition HIGH_PROFILES :: "int set" where
  "HIGH_PROFILES = {100, 110, 122, 244, 44, 83, 86, 118, 128, 138, 139, 134, 135}"

definition skipHrd :: "unit reader" where
  "skipHrd b = do {
     n \<leftarrow> r_ue b;
     r_bits 4 b; r_bits 4 b;
     r_times (nat (n + 1)) (\<lambda>b. do { r_ue b; r_ue b; r_bit b }) b;
     r_bits 5 b; r_bits 5 b; r_bits 5 b; r_bits 5 b;
     State_Monad.return () }"

text \<open>The language's \<open>%\<close>, whose sign is the dividend's.\<close>

definition js_rem :: "int \<Rightarrow> int \<Rightarrow> int" where
  "js_rem a m = (if 0 \<le> a then a mod m else - ((- a) mod m))"

fun r_scaling :: "nat \<Rightarrow> int \<Rightarrow> int \<Rightarrow> unit reader" where
  "r_scaling 0 lastScale nextScale b = State_Monad.return ()"
| "r_scaling (Suc n) lastScale nextScale b =
     do { next \<leftarrow> (if nextScale \<noteq> 0
                   then do { d \<leftarrow> r_se b; State_Monad.return (js_rem (lastScale + d + 256) 256) }
                   else State_Monad.return nextScale);
          r_scaling n (if next = 0 then lastScale else next) next b }"

fun r_scaling_lists :: "nat \<Rightarrow> nat \<Rightarrow> unit reader" where
  "r_scaling_lists i 0 b = State_Monad.return ()"
| "r_scaling_lists i (Suc n) b =
     do { present \<leftarrow> r_bit b;
          r_when present (r_scaling (if i < 6 then 16 else 64) 8 8) b;
          r_scaling_lists (Suc i) n b }"

definition r_high_profile :: "unit reader" where
  "r_high_profile b = do {
     chromaFormatIdc \<leftarrow> r_ue b;
     r_when (chromaFormatIdc = 3) r_bit b;
     r_ue b; r_ue b;
     r_bit b;
     matrix \<leftarrow> r_bit b;
     r_when matrix (r_scaling_lists 0 (if chromaFormatIdc \<noteq> 3 then 8 else 12)) b }"

definition r_pic_order :: "unit reader" where
  "r_pic_order b = do {
     picOrderCntType \<leftarrow> r_ue b;
     if picOrderCntType = 0 then do { r_ue b; State_Monad.return () }
     else if picOrderCntType = 1 then do {
       r_bit b;
       r_se b; r_se b;
       n \<leftarrow> r_ue b;
       r_times (nat n) r_se b }
     else State_Monad.return () }"

record sps_base =
  profileIdc :: int
  levelIdc :: int
  numRefFrames :: int

definition r_base :: "sps_base reader" where
  "r_base b = do {
     profile \<leftarrow> r_bits 8 b;
     r_bits 8 b;
     level \<leftarrow> r_bits 8 b;
     r_ue b;
     r_when (profile \<in> HIGH_PROFILES) r_high_profile b;
     r_ue b;
     r_pic_order b;
     refs \<leftarrow> r_ue b;
     r_bit b;
     r_ue b;
     r_ue b;
     frameMbsOnly \<leftarrow> r_bit b;
     r_when (\<not> frameMbsOnly) r_bit b;
     r_bit b;
     crop \<leftarrow> r_bit b;
     r_when crop (\<lambda>b. do { r_ue b; r_ue b; r_ue b; r_ue b }) b;
     State_Monad.return \<lparr>profileIdc = profile, levelIdc = level, numRefFrames = refs\<rparr> }"

definition r_vui_prefix :: "unit reader" where
  "r_vui_prefix b = do {
     aspect \<leftarrow> r_bit b;
     r_when aspect (\<lambda>b. do { idc \<leftarrow> r_bits 8 b; r_when (idc = 255) (\<lambda>b. do { r_bits 16 b; r_bits 16 b }) b }) b;
     overscan \<leftarrow> r_bit b;
     r_when overscan r_bit b;
     video \<leftarrow> r_bit b;
     r_when video (\<lambda>b. do { r_bits 3 b; r_bit b; colour \<leftarrow> r_bit b;
                             r_when colour (\<lambda>b. do { r_bits 8 b; r_bits 8 b; r_bits 8 b }) b }) b;
     chroma \<leftarrow> r_bit b;
     r_when chroma (\<lambda>b. do { r_ue b; r_ue b }) b;
     timing \<leftarrow> r_bit b;
     r_when timing (\<lambda>b. do { r_bits 32 b; r_bits 32 b; r_bit b }) b;
     nalHrd \<leftarrow> r_bit b;
     r_when nalHrd skipHrd b;
     vclHrd \<leftarrow> r_bit b;
     r_when vclHrd skipHrd b;
     r_when (nalHrd \<or> vclHrd) r_bit b;
     r_bit b;
     State_Monad.return () }"

record sps_walk =
  w_base :: sps_base
  w_vuiPresent :: bool
  w_restriction :: bool
  w_reorder :: "int option"
  w_decBuffering :: "int option"
  w_flagPos :: "nat option" \<comment> \<open>\<open>restrictionFlagPos\<close>, \<open>None\<close> for -1\<close>

definition walkSps :: "sps_walk reader" where
  "walkSps b = do {
     base \<leftarrow> r_base b;
     vui \<leftarrow> r_bit b;
     if \<not> vui then State_Monad.return \<lparr>w_base = base, w_vuiPresent = False, w_restriction = False,
        w_reorder = None, w_decBuffering = None, w_flagPos = None\<rparr>
     else do {
       r_vui_prefix b;
       pos \<leftarrow> State_Monad.get;
       restriction \<leftarrow> r_bit b;
       if \<not> restriction then State_Monad.return \<lparr>w_base = base, w_vuiPresent = True, w_restriction = False,
          w_reorder = None, w_decBuffering = None, w_flagPos = Some pos\<rparr>
       else do {
         r_bit b;
         r_ue b; r_ue b; r_ue b; r_ue b;
         reorder \<leftarrow> r_ue b;
         dec \<leftarrow> r_ue b;
         State_Monad.return \<lparr>w_base = base, w_vuiPresent = True, w_restriction = True,
            w_reorder = Some reorder, w_decBuffering = Some dec, w_flagPos = Some pos\<rparr> } } }"

subsection \<open>Bytes\<close>

fun to_rbsp :: "nat \<Rightarrow> byte list \<Rightarrow> byte list" where
  "to_rbsp zeros [] = []"
| "to_rbsp zeros (b # bs) =
     (if 2 \<le> zeros \<and> b = 3 then to_rbsp 0 bs
      else b # to_rbsp (if b = 0 then zeros + 1 else 0) bs)"

definition toRbsp :: "byte list \<Rightarrow> byte list" where
  "toRbsp nal = to_rbsp 0 (drop 1 nal)"

fun add_emulation :: "nat \<Rightarrow> byte list \<Rightarrow> byte list" where
  "add_emulation zeros [] = []"
| "add_emulation zeros (b # bs) =
     (if 2 \<le> zeros \<and> b \<le> 3 then 3 # b # add_emulation (if b = 0 then 1 else 0) bs
      else b # add_emulation (if b = 0 then zeros + 1 else 0) bs)"

definition addEmulation :: "byte list \<Rightarrow> byte list" where
  "addEmulation rbsp = add_emulation 0 rbsp"

fun log2_floor :: "nat \<Rightarrow> nat" where
  "log2_floor n = (if n < 2 then 0 else Suc (log2_floor (n div 2)))"

declare log2_floor.simps [simp del]

text \<open>\<open>BitWriter.ue\<close>. \<open>(code >> i) & 1\<close> is on 32 bits, with the shift count modulo 32.\<close>

definition ue_bits :: "int \<Rightarrow> bool list" where
  "ue_bits val =
     (let code = val + 1 in
      if code \<le> 0 then []
      else (let len = log2_floor (nat code) in
        replicate len False @ map (\<lambda>i. bit (word_of_int code :: 32 word) (i mod 32)) (rev [0..<Suc len])))"

definition byte_of :: "bool list \<Rightarrow> byte" where
  "byte_of bs = foldl (\<lambda>b j. push_bit 1 b OR (if j < length bs \<and> bs ! j then 1 else 0)) 0 [0..<8]"

fun to_bytes :: "bool list \<Rightarrow> byte list" where
  "to_bytes [] = []"
| "to_bytes (x # xs) = byte_of (take 8 (x # xs)) # to_bytes (drop 8 (x # xs))"

record sps_vui_info =
  i_profileIdc :: int
  i_levelIdc :: int
  i_vuiPresent :: bool
  i_restriction :: bool
  i_maxNumReorderFrames :: "int option"
  i_maxDecFrameBuffering :: "int option"

definition parseSpsVui :: "byte list \<Rightarrow> sps_vui_info" where
  "parseSpsVui spsNal =
     (let w = fst (run_state (walkSps (bits_of (toRbsp spsNal))) 0)
      in \<lparr>i_profileIdc = profileIdc (w_base w), i_levelIdc = levelIdc (w_base w),
          i_vuiPresent = w_vuiPresent w, i_restriction = w_restriction w,
          i_maxNumReorderFrames = w_reorder w, i_maxDecFrameBuffering = w_decBuffering w\<rparr>)"

definition rewritten_bits :: "bits \<Rightarrow> nat \<Rightarrow> int \<Rightarrow> bool list" where
  "rewritten_bits b pos refs =
     map b [0..<pos] @ [True, True] @ ue_bits 0 @ ue_bits 0 @ ue_bits 0 @ ue_bits 0 @ ue_bits 0 @ ue_bits refs @ [True]"

definition rewriteSpsLowLatency :: "byte list \<Rightarrow> byte list option" where
  "rewriteSpsLowLatency spsNal =
     (let rbsp = toRbsp spsNal;
          walk = fst (run_state (walkSps (bits_of rbsp)) 0)
      in case w_flagPos walk of
           None \<Rightarrow> None
         | Some pos \<Rightarrow>
             if \<not> w_vuiPresent walk \<or> w_restriction walk then None
             else Some ((case spsNal of [] \<Rightarrow> 0 | h # _ \<Rightarrow> h)
               # addEmulation (to_bytes (rewritten_bits (bits_of rbsp) pos (numRefFrames (w_base walk))))))"

subsection \<open>Frames\<close>

definition sc4 :: "byte list \<Rightarrow> bool" where "sc4 bs \<longleftrightarrow> take 4 bs = [0, 0, 0, 1]"
definition sc3 :: "byte list \<Rightarrow> bool" where "sc3 bs \<longleftrightarrow> take 3 bs = [0, 0, 1]"

definition emit :: "byte list option \<Rightarrow> byte list list" where
  "emit cur = (case cur of Some n \<Rightarrow> [n] | None \<Rightarrow> [])"

text \<open>The scan of \<open>splitNalUnits\<close>: the unit begun (\<open>start \<ge> 0\<close>) and the bytes from \<open>p\<close> on.\<close>

function split_nals :: "byte list option \<Rightarrow> byte list \<Rightarrow> byte list list" where
  "split_nals cur rest =
     (if length rest < 3 then emit (map_option (\<lambda>n. n @ rest) cur)
      else if sc4 rest then emit cur @ split_nals (Some []) (drop 4 rest)
      else if sc3 rest then emit cur @ split_nals (Some []) (drop 3 rest)
      else split_nals (map_option (\<lambda>n. n @ [hd rest]) cur) (tl rest))"
  by pat_completeness auto
termination by (relation "measure (\<lambda>(cur, rest). length rest)") auto

definition splitNalUnits :: "byte list \<Rightarrow> byte list list" where
  "splitNalUnits buf = split_nals None buf"

definition START_CODE :: "byte list" where "START_CODE = [0, 0, 0, 1]"

definition is_sps :: "byte list \<Rightarrow> bool" where
  "is_sps nal \<longleftrightarrow> (case nal of [] \<Rightarrow> False | h # _ \<Rightarrow> h AND 0x1f = 7)"

definition rewrite_nal :: "byte list \<Rightarrow> byte list option" where
  "rewrite_nal nal = (if is_sps nal then rewriteSpsLowLatency nal else None)"

definition rewriteLowLatencySpsInFrame :: "byte list \<Rightarrow> byte list" where
  "rewriteLowLatencySpsInFrame frame =
     (let nals = splitNalUnits frame in
      if list_ex (\<lambda>n. rewrite_nal n \<noteq> None) nals
      then concat (map (\<lambda>n. START_CODE @ (case rewrite_nal n of Some r \<Rightarrow> r | None \<Rightarrow> n)) nals)
      else frame)"

end
