(* ===== verification/Sps_Props.thy ===== *)
theory Sps_Props
  imports Sps
begin

unbundle bit_operations_syntax

text \<open>
  What the rewrite of a parameter set does: the rewritten set parses to the same profile, level and
  reference count, now declares no reordering, and inside a frame nothing but the parameter set changes.
\<close>

subsection \<open>A reader depends only on what it has read\<close>

definition reads_local :: "'a reader \<Rightarrow> bool" where
  "reads_local f \<longleftrightarrow> (\<forall>b p. p \<le> snd (run_state (f b) p))
     \<and> (\<forall>b b' p. (\<forall>i < snd (run_state (f b) p). b i = b' i) \<longrightarrow> run_state (f b') p = run_state (f b) p)"

named_theorems local_intros "readers that depend only on what they have read"

lemma reads_localD:
  assumes "reads_local f" "\<forall>i < snd (run_state (f b) p). b i = b' i"
  shows "run_state (f b') p = run_state (f b) p"
  using assms unfolding reads_local_def by blast

lemma local_return [local_intros]: "reads_local (\<lambda>b. State_Monad.return x)"
  by (simp add: reads_local_def)

lemma local_bind [local_intros]:
  assumes f: "reads_local f" and g: "\<And>x. reads_local (g x)"
  shows "reads_local (\<lambda>b. State_Monad.bind (f b) (\<lambda>x. g x b))"
  unfolding reads_local_def
proof (intro conjI allI impI)
  fix b p
  obtain x q where q: "run_state (f b) p = (x, q)" by force
  then have "p \<le> q" using f unfolding reads_local_def by (metis snd_conv)
  also have "q \<le> snd (run_state (g x b) q)" using g unfolding reads_local_def by blast
  finally show "p \<le> snd (run_state (State_Monad.bind (f b) (\<lambda>x. g x b)) p)" by (simp add: q)
next
  fix b b' p
  assume eq: "\<forall>i < snd (run_state (State_Monad.bind (f b) (\<lambda>x. g x b)) p). b i = b' i"
  obtain x q where q: "run_state (f b) p = (x, q)" by force
  have "q \<le> snd (run_state (g x b) q)" using g unfolding reads_local_def by blast
  with eq q have "\<forall>i < snd (run_state (f b) p). b i = b' i" by simp
  from reads_localD [OF f this] have "run_state (f b') p = (x, q)" using q by simp
  moreover from eq q have "\<forall>i < snd (run_state (g x b) q). b i = b' i" by simp
  from reads_localD [OF g this] have "run_state (g x b') q = run_state (g x b) q" .
  ultimately show "run_state (State_Monad.bind (f b') (\<lambda>x. g x b')) p = run_state (State_Monad.bind (f b) (\<lambda>x. g x b)) p"
    by (simp add: q)
qed

lemma local_if [local_intros]: "reads_local f \<Longrightarrow> reads_local g \<Longrightarrow> reads_local (\<lambda>b. if c then f b else g b)"
  by (cases c) simp_all

lemma local_bit [local_intros]: "reads_local r_bit"
  by (simp add: reads_local_def r_bit_def)

lemma local_bits [local_intros]: "reads_local (r_bits n)"
proof (induction n)
  case (Suc n)
  show ?case unfolding r_bits.simps(2) [abs_def] by (intro local_intros Suc)
qed (simp only: r_bits.simps(1) [abs_def] local_return)

lemma local_zeros [local_intros]: "reads_local (r_zeros n)"
proof (induction n)
  case 0
  show ?case unfolding r_zeros.simps(1) [abs_def] by (intro local_intros)
next
  case (Suc n)
  show ?case unfolding r_zeros.simps(2) [abs_def] by (intro local_intros Suc)
qed

lemma local_ue [local_intros]: "reads_local r_ue"
  unfolding r_ue_def [abs_def] by (intro local_intros)

lemma local_se [local_intros]: "reads_local r_se"
  unfolding r_se_def [abs_def] by (intro local_intros)

lemma local_times [local_intros]: "reads_local f \<Longrightarrow> reads_local (r_times n f)"
proof (induction n)
  case (Suc n)
  show ?case unfolding r_times.simps(2) [abs_def] by (intro local_intros Suc)
qed (simp only: r_times.simps(1) [abs_def] local_return)

lemma local_when [local_intros]: "reads_local f \<Longrightarrow> reads_local (r_when c f)"
  unfolding r_when_def [abs_def] by (intro local_intros)

lemma local_scaling [local_intros]: "reads_local (r_scaling n l x)"
proof (induction n arbitrary: l x)
  case (Suc n)
  show ?case unfolding r_scaling.simps(2) [abs_def] by (intro local_intros Suc)
qed (simp only: r_scaling.simps(1) [abs_def] local_return)

lemma local_scaling_lists [local_intros]: "reads_local (r_scaling_lists i n)"
proof (induction n arbitrary: i)
  case (Suc n)
  show ?case unfolding r_scaling_lists.simps(2) [abs_def] by (intro local_intros Suc)
qed (simp only: r_scaling_lists.simps(1) [abs_def] local_return)

lemma local_hrd [local_intros]: "reads_local skipHrd"
  unfolding skipHrd_def [abs_def] by (intro local_intros)

lemma local_high [local_intros]: "reads_local r_high_profile"
  unfolding r_high_profile_def [abs_def] by (intro local_intros)

lemma local_pic_order [local_intros]: "reads_local r_pic_order"
  unfolding r_pic_order_def [abs_def] by (intro local_intros)

lemma local_base: "reads_local r_base"
  unfolding r_base_def [abs_def] by (intro local_intros)

lemma local_vui_prefix: "reads_local r_vui_prefix"
  unfolding r_vui_prefix_def [abs_def] by (intro local_intros)

subsection \<open>Reading back what was written\<close>

definition found_at :: "bits \<Rightarrow> nat \<Rightarrow> bool list \<Rightarrow> bool" where
  "found_at b p xs \<longleftrightarrow> (\<forall>i < length xs. b (p + i) = xs ! i)"

lemma all_less_add: "(\<forall>i < m + n. P i) \<longleftrightarrow> (\<forall>i < m. P i) \<and> (\<forall>i < n. P (m + i))" for m n :: nat
proof (intro iffI)
  assume a: "(\<forall>i < m. P i) \<and> (\<forall>i < n. P (m + i))"
  show "\<forall>i < m + n. P i"
  proof (intro allI impI)
    fix i assume "i < m + n"
    with a conjunct2 [OF a, rule_format, of "i - m"] show "P i" by (cases "i < m") auto
  qed
qed auto

lemma found_at_append: "found_at b p (xs @ ys) \<longleftrightarrow> found_at b p xs \<and> found_at b (p + length xs) ys"
  by (simp add: found_at_def all_less_add nth_append add.assoc)

lemma found_at_Cons: "found_at b p (x # xs) \<longleftrightarrow> b p = x \<and> found_at b (Suc p) xs"
  using found_at_append [of b p "[x]" xs] by (simp add: found_at_def)

lemma found_at_Nil [simp]: "found_at b p []"
  by (simp add: found_at_def)

lemma run_r_bit [simp]: "run_state (r_bit b) p = (b p, Suc p)"
  by (simp add: r_bit_def)

definition bits_value :: "bool list \<Rightarrow> int" where
  "bits_value xs = foldl (\<lambda>v x. 2 * v + of_bool x) 0 xs"

lemma r_bits_found: "found_at b p xs \<Longrightarrow> run_state (r_bits (length xs) b) p = (bits_value xs, p + length xs)"
proof (induction xs rule: rev_induct)
  case (snoc x xs)
  then show ?case by (simp add: found_at_append found_at_Cons bits_value_def)
qed (simp add: bits_value_def)

lemma r_zeros_found:
  "found_at b p (replicate n False @ [True]) \<Longrightarrow> n \<le> m \<Longrightarrow> run_state (r_zeros m b) p = (n, p + n + 1)"
proof (induction n arbitrary: m p)
  case 0
  then show ?case by (cases m) (simp_all add: found_at_Cons)
next
  case (Suc n)
  then obtain k where "m = Suc k" by (cases m) auto
  with Suc show ?case by (simp add: found_at_Cons)
qed

lemma foldl_bits: "foldl (\<lambda>v x. 2 * v + of_bool x) a xs = a * 2 ^ length xs + bits_value xs"
proof (induction xs arbitrary: a)
  case (Cons x xs)
  from Cons.IH [of "2 * a + of_bool x"] Cons.IH [of "of_bool x"] show ?case
    by (simp add: bits_value_def algebra_simps)
qed (simp add: bits_value_def)

lemma bits_value_Cons: "bits_value (x # xs) = of_bool x * 2 ^ length xs + bits_value xs"
  using foldl_bits [of "of_bool x" xs] by (simp add: bits_value_def)

lemma bits_value_code: "n \<le> 32 \<Longrightarrow> bits_value (map (\<lambda>i. bit (word_of_int code :: 32 word) (i mod 32)) (rev [0..<n])) = take_bit n code"
proof (induction n)
  case (Suc n)
  then show ?case
    by (simp add: bits_value_Cons take_bit_Suc_from_most bit_word_of_int_iff mult.commute)
qed (simp add: bits_value_def)

lemma log2_floor_bounds: "0 < n \<Longrightarrow> 2 ^ log2_floor n \<le> n \<and> n < 2 ^ (log2_floor n + 1)"
proof (induction n rule: log2_floor.induct)
  case (1 n)
  show ?case
  proof (cases "n < 2")
    case False
    then have "2 ^ log2_floor (n div 2) \<le> n div 2 \<and> n div 2 < 2 ^ (log2_floor (n div 2) + 1)"
      using "1.IH" by simp
    moreover have "log2_floor n = Suc (log2_floor (n div 2))" using False by (subst log2_floor.simps) simp
    ultimately show ?thesis by auto
  next
    case True
    then have "log2_floor n = 0" by (subst log2_floor.simps) simp
    with True "1.prems" show ?thesis by simp
  qed
qed

lemma log2_floor_less: "0 < n \<Longrightarrow> n < 2 ^ k \<Longrightarrow> log2_floor n < k"
  using log2_floor_bounds [of n] by (meson le_less_trans power_less_imp_less_exp one_less_numeral_iff semiring_norm(76))

lemma js_shl1_small: "n \<le> 30 \<Longrightarrow> js_shl1 n = 2 ^ n"
proof -
  have "\<forall>n \<in> set [0..<31]. js_shl1 n = 2 ^ n" by code_simp
  then show "n \<le> 30 \<Longrightarrow> js_shl1 n = 2 ^ n" by simp
qed

lemma r_ue_found:
  assumes "found_at b p (ue_bits v)" and "0 \<le> v" "v < 2 ^ 31 - 1"
  shows "run_state (r_ue b) p = (v, p + length (ue_bits v))"
proof -
  let ?code = "v + 1" and ?len = "log2_floor (nat (v + 1))"
  let ?low = "map (\<lambda>i. bit (word_of_int ?code :: 32 word) (i mod 32)) (rev [0..<?len])"
  have pos: "0 < nat ?code" using assms(2) by simp
  have "nat ?code < nat (2 ^ 31)" using assms(2,3) by (subst nat_less_eq_zless) auto
  then have "nat ?code < 2 ^ 31" by simp
  then have len: "?len \<le> 30" using log2_floor_less [OF pos, of 31] by simp
  have "2 ^ ?len \<le> nat ?code" "nat ?code < 2 ^ (?len + 1)" using log2_floor_bounds [OF pos] by auto
  then have range: "2 ^ ?len \<le> ?code" "?code < 2 ^ (?len + 1)"
    using assms(2) by (simp_all add: nat_le_iff le_nat_iff nat_less_iff)
  have low: "take_bit ?len ?code = ?code - 2 ^ ?len"
  proof -
    have "take_bit ?len ?code = take_bit ?len (?code - 2 ^ ?len)"
      by (simp add: take_bit_eq_mod mod_diff_right_eq [symmetric])
    also have "\<dots> = ?code - 2 ^ ?len" using range by (intro take_bit_int_eq_self) auto
    finally show ?thesis .
  qed
  have "take_bit (Suc ?len) ?code = ?code" using range assms(2) by (intro take_bit_int_eq_self) auto
  then have "bit ?code ?len"
    using low unfolding take_bit_Suc_from_most by (cases "bit ?code ?len") auto
  then have top: "bit (word_of_int ?code :: 32 word) (?len mod 32)"
    using len unfolding bit_word_of_int_iff by simp
  have ue: "ue_bits v = (replicate ?len False @ [True]) @ ?low"
    using assms(2) top by (simp add: ue_bits_def Let_def)
  have z: "run_state (r_zeros 32 b) p = (?len, p + ?len + 1)"
    by (rule r_zeros_found) (use assms(1) len in \<open>simp_all add: ue found_at_append found_at_Cons\<close>)
  show ?thesis
  proof (cases "?len = 0")
    case True
    then have "?code < 2" using range(2) by simp
    then have "v = 0" using assms(2) by simp
    moreover have "length (ue_bits v) = 1" using True by (simp add: ue)
    ultimately show ?thesis using True z by (simp add: r_ue_def)
  next
    case False
    have "found_at b (p + ?len + 1) ?low" using assms(1) by (simp add: ue found_at_append found_at_Cons)
    from r_bits_found [OF this] have "run_state (r_bits ?len b) (p + ?len + 1) = (take_bit ?len ?code, p + ?len + 1 + ?len)"
      using len by (simp only: bits_value_code length_map length_rev length_upt diff_zero le_trans [OF len])
    with z False show ?thesis by (simp add: r_ue_def ue low js_shl1_small len)
  qed
qed

subsection \<open>Bytes and emulation prevention\<close>

lemma upt8: "[0..<8] = [0, 1, 2, 3, 4, 5, 6, 7]"
  by code_simp

lemma byte_of_bit:
  assumes "j < 8"
  shows "bit (byte_of bs) (7 - j) \<longleftrightarrow> j < length bs \<and> bs ! j"
proof -
  consider "j = 0" | "j = 1" | "j = 2" | "j = 3" | "j = 4" | "j = 5" | "j = 6" | "j = 7"
    using assms by linarith
  then show ?thesis
    by cases (simp_all add: byte_of_def upt8 bit_or_iff bit_push_bit_iff bit_1_iff)
qed

lemma bits_of_Cons: "bits_of (b # bytes) i = (if i < 8 then bit b (7 - i) else bits_of bytes (i - 8))"
  by (cases "i < 8") (simp_all add: bits_of_def div_eq_0_iff le_div_geq le_mod_geq)

lemma bits_of_to_bytes: "bits_of (to_bytes xs) i \<longleftrightarrow> i < length xs \<and> xs ! i"
proof (induction xs arbitrary: i rule: to_bytes.induct)
  case (2 x xs)
  let ?ys = "x # xs"
  show ?case
  proof (cases "i < 8")
    case True
    then have "bits_of (to_bytes ?ys) i \<longleftrightarrow> i < length (take 8 ?ys) \<and> take 8 ?ys ! i"
      by (simp only: to_bytes.simps bits_of_Cons if_True byte_of_bit)
    moreover have "take 8 ?ys ! i = ?ys ! i" using True by (rule nth_take)
    moreover have "i < length (take 8 ?ys) \<longleftrightarrow> i < length ?ys" using True by (simp only: length_take) linarith
    ultimately show ?thesis by blast
  next
    case False
    have "bits_of (to_bytes ?ys) i = bits_of (to_bytes (drop 8 ?ys)) (i - 8)"
      using False by (simp add: bits_of_Cons del: drop.simps)
    also have "\<dots> \<longleftrightarrow> i - 8 < length (drop 8 ?ys) \<and> drop 8 ?ys ! (i - 8)" by (rule "2.IH")
    also have "\<dots> \<longleftrightarrow> i < length ?ys \<and> ?ys ! i"
      using False by (auto simp: less_diff_conv2 simp del: drop.simps)
    finally show ?thesis .
  qed
qed (simp add: bits_of_def)

lemma found_at_to_bytes: "found_at (bits_of (to_bytes xs)) 0 xs"
  by (simp add: found_at_def bits_of_to_bytes)

text \<open>Emulation prevention is undone exactly.\<close>

lemma to_rbsp_add_emulation: "to_rbsp z (add_emulation z xs) = xs"
  by (induction z xs rule: add_emulation.induct) auto

lemma toRbsp_addEmulation: "toRbsp (h # addEmulation xs) = xs"
  by (simp add: toRbsp_def addEmulation_def to_rbsp_add_emulation)

subsection \<open>The rewritten set\<close>

lemma walk_parts:
  assumes "walk = fst (run_state (walkSps b) 0)" and "w_flagPos walk = Some pos" and "\<not> w_restriction walk"
  obtains p where "run_state (r_base b) 0 = (w_base walk, p)" "b p" "run_state (r_vui_prefix b) (Suc p) = ((), pos)"
    "\<not> b pos" "w_vuiPresent walk"
proof -
  obtain base p where base: "run_state (r_base b) 0 = (base, p)" by force
  obtain q where pre: "run_state (r_vui_prefix b) (Suc p) = ((), q)"
    by (metis (full_types) old.unit.exhaust surj_pair)
  have "b p" using assms base by (cases "b p") (simp_all add: walkSps_def)
  moreover have "\<not> b q" using assms base pre \<open>b p\<close> by (cases "b q") (simp_all add: walkSps_def split_beta)
  ultimately have "walk = \<lparr>w_base = base, w_vuiPresent = True, w_restriction = False, w_reorder = None, w_decBuffering = None, w_flagPos = Some q\<rparr>"
    using assms(1) base pre by (simp add: walkSps_def)
  with assms(2) base pre \<open>b p\<close> \<open>\<not> b q\<close> show ?thesis by (intro that) simp_all
qed

lemma ue_bits_0: "ue_bits 0 = [True]"
  by code_simp

lemma r_ue_True: "b p \<Longrightarrow> run_state (r_ue b) p = (0, Suc p)"
  using r_ue_found [of b p 0] by (simp add: ue_bits_0 found_at_Cons)

lemma walk_rewritten:
  assumes "run_state (r_base b) 0 = (base, p)" "b p" "run_state (r_vui_prefix b) (Suc p) = ((), pos)"
    and "0 \<le> refs" "refs < 2 ^ 31 - 1"
    and "found_at b' 0 (rewritten_bits b pos refs)"
  shows "fst (run_state (walkSps b') 0) = \<lparr>w_base = base, w_vuiPresent = True, w_restriction = True,
     w_reorder = Some 0, w_decBuffering = Some refs, w_flagPos = Some pos\<rparr>"
proof -
  have mono: "p < pos"
  proof -
    have "Suc p \<le> snd (run_state (r_vui_prefix b) (Suc p))" using local_vui_prefix unfolding reads_local_def by blast
    then show ?thesis using assms(3) by simp
  qed
  have same: "b i = b' i" if "i < pos" for i
    using assms(6) that by (auto simp: rewritten_bits_def found_at_append) (auto simp: found_at_def)
  have base: "run_state (r_base b') 0 = (base, p)"
    using reads_localD [OF local_base, of b 0 b'] assms(1) mono same by simp
  have pre: "run_state (r_vui_prefix b') (Suc p) = ((), pos)"
    using reads_localD [OF local_vui_prefix, of b "Suc p" b'] assms(3) same by simp
  have vui: "b' p" using assms(2) same mono by simp
  have rest: "b' pos" "b' (Suc pos)" "b' (pos + 2)" "b' (pos + 3)" "b' (pos + 4)" "b' (pos + 5)" "b' (pos + 6)"
    and refs: "found_at b' (pos + 7) (ue_bits refs)"
    using assms(6) by (simp_all add: rewritten_bits_def found_at_append found_at_Cons ue_bits_0 numeral_eq_Suc)
  from rest have "run_state (r_ue b') (pos + 2) = (0, pos + 3)" "run_state (r_ue b') (pos + 3) = (0, pos + 4)"
    "run_state (r_ue b') (pos + 4) = (0, pos + 5)" "run_state (r_ue b') (pos + 5) = (0, pos + 6)"
    "run_state (r_ue b') (pos + 6) = (0, pos + 7)"
    by (simp_all add: r_ue_True)
  moreover have "run_state (r_ue b') (pos + 7) = (refs, pos + 7 + length (ue_bits refs))"
    by (rule r_ue_found [OF refs assms(4,5)])
  ultimately show ?thesis
    using rest(1) by (simp add: walkSps_def base vui pre flip: add_2_eq_Suc')
qed

text \<open>
  C30. When the rewrite takes a parameter set on, the result keeps the NAL header and parses to the same
  profile, level and reference count, now declaring that no frame is reordered (a decoder emits each one
  at once) and that it buffers as many as there are references; rewriting it again does nothing.
\<close>
theorem rewritten_sps_has_no_reorder:
  assumes "rewriteSpsLowLatency nal = Some out"
    and "refs = numRefFrames (w_base (fst (run_state (walkSps (bits_of (toRbsp nal))) 0)))"
    and "0 \<le> refs" "refs < 2 ^ 31 - 1"
  shows "take 1 out = take 1 (nal @ [0])
    \<and> parseSpsVui out = \<lparr>i_profileIdc = i_profileIdc (parseSpsVui nal), i_levelIdc = i_levelIdc (parseSpsVui nal),
        i_vuiPresent = True, i_restriction = True, i_maxNumReorderFrames = Some 0, i_maxDecFrameBuffering = Some refs\<rparr>
    \<and> rewriteSpsLowLatency out = None"
proof -
  let ?b = "bits_of (toRbsp nal)"
  define walk where "walk = fst (run_state (walkSps ?b) 0)"
  obtain pos where pos: "w_flagPos walk = Some pos" "\<not> w_restriction walk"
    and out: "out = (case nal of [] \<Rightarrow> 0 | h # _ \<Rightarrow> h) # addEmulation (to_bytes (rewritten_bits ?b pos refs))"
    using assms(1,2) by (auto simp: rewriteSpsLowLatency_def Let_def walk_def [symmetric] split: option.splits if_splits)
  obtain p where parts: "run_state (r_base ?b) 0 = (w_base walk, p)" "?b p"
    "run_state (r_vui_prefix ?b) (Suc p) = ((), pos)" "\<not> ?b pos" "w_vuiPresent walk"
    by (rule walk_parts [OF walk_def pos])
  have rbsp: "toRbsp out = to_bytes (rewritten_bits ?b pos refs)"
    unfolding out by (rule toRbsp_addEmulation)
  have w: "fst (run_state (walkSps (bits_of (toRbsp out))) 0) = \<lparr>w_base = w_base walk, w_vuiPresent = True, w_restriction = True,
     w_reorder = Some 0, w_decBuffering = Some refs, w_flagPos = Some pos\<rparr>"
    unfolding rbsp
    by (rule walk_rewritten [OF parts(1-3) assms(3,4) found_at_to_bytes])
  have "take 1 out = take 1 (nal @ [0])" by (cases nal) (simp_all add: out)
  then show ?thesis
    by (simp add: parseSpsVui_def rewriteSpsLowLatency_def w Let_def walk_def)
qed

text \<open>A baseline set with one reference frame and a VUI that declares no restriction.\<close>

definition demo_sps :: "byte list" where
  "demo_sps = [0x67, 0x42, 0x00, 0x1e, 0xda, 0x7a, 0x00, 0x80]"

theorem rewritten_sps_has_no_reorder_witness:
  "\<exists>out. rewriteSpsLowLatency demo_sps = Some out \<and> i_maxNumReorderFrames (parseSpsVui out) = Some 0
     \<and> i_maxDecFrameBuffering (parseSpsVui out) = Some 1"
proof -
  have "rewriteSpsLowLatency demo_sps \<noteq> None" by code_simp
  then obtain out where out: "rewriteSpsLowLatency demo_sps = Some out" by auto
  have "1 = numRefFrames (w_base (fst (run_state (walkSps (bits_of (toRbsp demo_sps))) 0)))" by code_simp
  from rewritten_sps_has_no_reorder [OF out this] out show ?thesis by simp
qed

subsection \<open>Inside a frame\<close>

text \<open>A unit without a start code in it.\<close>

definition clean :: "byte list \<Rightarrow> bool" where
  "clean n \<longleftrightarrow> (\<forall>k. \<not> sc3 (drop k n))"

lemma clean_Cons: "clean (x # n) \<longleftrightarrow> \<not> sc3 (x # n) \<and> clean n"
proof
  assume c: "clean (x # n)"
  have "\<not> sc3 (drop k n)" for k using c [unfolded clean_def, rule_format, of "Suc k"] by simp
  then show "\<not> sc3 (x # n) \<and> clean n" using c [unfolded clean_def, rule_format, of 0] by (simp add: clean_def)
next
  assume c: "\<not> sc3 (x # n) \<and> clean n"
  then have "\<not> sc3 (drop k (x # n))" for k by (cases k) (auto simp: clean_def)
  then show "clean (x # n)" by (simp add: clean_def)
qed

lemma clean_Nil [simp]: "clean []"
  by (simp add: clean_def sc3_def)

lemma sc3_Cons3: "sc3 (a # b # c # n) \<longleftrightarrow> a = 0 \<and> b = 0 \<and> c = 1"
  by (simp add: sc3_def)

lemma sc3_short: "length n < 3 \<Longrightarrow> \<not> sc3 n"
  unfolding sc3_def by (metis length_take list.size(3,4) min_less_iff_conj nat_less_le One_nat_def Suc_1 add_2_eq_Suc' eval_nat_numeral(3) add.commute plus_1_eq_Suc)

declare split_nals.simps [simp del]

lemma no_code_before_start:
  assumes "clean (x # n)"
  shows "\<not> sc3 (x # n @ START_CODE @ rest)" "\<not> sc4 (x # n @ START_CODE @ rest)"
proof -
  have c3: "\<not> sc3 (x # n)" "\<not> sc3 n" using assms by (auto simp: clean_Cons) (metis clean_def drop0)
  show "\<not> sc3 (x # n @ START_CODE @ rest)"
  proof (cases n)
    case (Cons a n')
    then show ?thesis using c3(1) by (cases n') (simp_all add: sc3_def START_CODE_def)
  qed (simp add: sc3_def START_CODE_def)
  show "\<not> sc4 (x # n @ START_CODE @ rest)"
  proof (cases n)
    case (Cons a n')
    show ?thesis
    proof (cases n')
      case c: (Cons d n'')
      then show ?thesis using c3(2) Cons by (cases n'') (auto simp: sc3_def sc4_def START_CODE_def)
    qed (simp add: Cons sc4_def START_CODE_def)
  qed (simp add: sc4_def START_CODE_def)
qed

lemma split_to_start_code:
  "clean n \<Longrightarrow> split_nals (Some acc) (n @ START_CODE @ rest) = (acc @ n) # split_nals (Some []) rest"
proof (induction n arbitrary: acc)
  case Nil
  have "sc4 (START_CODE @ rest)" "drop 4 (START_CODE @ rest) = rest" "\<not> length (START_CODE @ rest) < 3"
    by (simp_all add: sc4_def START_CODE_def)
  then show ?case by (subst split_nals.simps) (simp add: emit_def del: append_Cons)
next
  case (Cons x n)
  have "clean n" using Cons.prems by (simp add: clean_Cons)
  have "\<not> length ((x # n) @ START_CODE @ rest) < 3" by (simp add: START_CODE_def)
  with no_code_before_start [OF Cons.prems, of rest] Cons.IH [OF \<open>clean n\<close>, of "acc @ [x]"]
  show ?case by (subst split_nals.simps) simp
qed

lemma split_to_end: "clean n \<Longrightarrow> split_nals (Some acc) n = [acc @ n]"
proof (induction n arbitrary: acc)
  case Nil
  then show ?case by (subst split_nals.simps) (simp add: emit_def)
next
  case (Cons x n)
  show ?case
  proof (cases "length (x # n) < 3")
    case True
    then show ?thesis by (subst split_nals.simps) (simp add: emit_def)
  next
    case False
    have "\<not> sc3 (x # n)" "clean n" using Cons.prems by (simp_all add: clean_Cons)
    moreover have "\<not> sc4 (x # n)"
    proof
      assume "sc4 (x # n)"
      then have "sc3 (drop 1 (x # n))" by (simp add: sc4_def sc3_def)
      with \<open>clean n\<close> show False by (simp add: clean_def) (metis drop0)
    qed
    ultimately show ?thesis using False Cons.IH [of "acc @ [x]"] by (subst split_nals.simps) simp
  qed
qed

lemma split_joined:
  assumes "\<forall>n \<in> set ns. clean n"
  shows "split_nals None (concat (map (\<lambda>n. START_CODE @ n) ns)) = ns"
proof -
  have tail: "split_nals (Some []) (n @ concat (map (\<lambda>n. START_CODE @ n) ns)) = n # ns"
    if "clean n" "\<forall>n \<in> set ns. clean n" for n ns
    using that
  proof (induction ns arbitrary: n)
    case Nil
    then show ?case using split_to_end [of n "[]"] by simp
  next
    case (Cons m ns)
    then show ?case using split_to_start_code [of n "[]" "m @ concat (map (\<lambda>n. START_CODE @ n) ns)"] by simp
  qed
  show ?thesis
  proof (cases ns)
    case Nil
    then show ?thesis by (subst split_nals.simps) (simp add: emit_def)
  next
    case (Cons n ms)
    have "sc4 (START_CODE @ r)" "drop 4 (START_CODE @ r) = r" "\<not> length (START_CODE @ r) < 3" for r
      by (simp_all add: sc4_def START_CODE_def)
    then have "split_nals None (START_CODE @ r) = split_nals (Some []) r" for r
      by (subst split_nals.simps) (simp add: emit_def)
    then show ?thesis using tail assms Cons by simp
  qed
qed

text \<open>What the scan has put into a unit holds no start code, so neither do the units it gives.\<close>

lemma clean_appendD:
  assumes "\<forall>k < length acc. \<not> sc3 (drop k (acc @ rest))"
  shows "clean acc"
  unfolding clean_def
proof
  fix k
  show "\<not> sc3 (drop k acc)"
  proof
    assume s: "sc3 (drop k acc)"
    then have "length (take 3 (drop k acc)) = 3" by (simp add: sc3_def)
    then have "3 \<le> length (drop k acc)" by simp
    then have "k < length acc" "take 3 (drop k (acc @ rest)) = take 3 (drop k acc)" by auto
    with s assms show False by (auto simp: sc3_def)
  qed
qed

lemma clean_append_short:
  assumes "\<forall>k < length acc. \<not> sc3 (drop k (acc @ rest))" and "length rest < 3"
  shows "clean (acc @ rest)"
  unfolding clean_def
proof
  fix k
  show "\<not> sc3 (drop k (acc @ rest))"
    using assms by (cases "k < length acc") (auto intro!: sc3_short)
qed

lemma split_clean:
  assumes "case cur of Some acc \<Rightarrow> \<forall>k < length acc. \<not> sc3 (drop k (acc @ rest)) | None \<Rightarrow> True"
  shows "\<forall>n \<in> set (split_nals cur rest). clean n"
  using assms
proof (induction cur rest rule: split_nals.induct)
  case (1 cur rest)
  have emitted: "\<forall>n \<in> set (emit cur). clean n"
    using "1.prems" clean_appendD by (auto simp: emit_def split: option.splits)
  consider "length rest < 3" | "\<not> length rest < 3" "sc4 rest" | "\<not> length rest < 3" "\<not> sc4 rest" "sc3 rest"
    | "\<not> length rest < 3" "\<not> sc4 rest" "\<not> sc3 rest" by blast
  then show ?case
  proof cases
    case 1
    then show ?thesis using "1.prems" clean_append_short
      by (subst split_nals.simps) (auto simp: emit_def split: option.splits)
  next
    case 2
    then show ?thesis using emitted "1.IH"(1) by (subst split_nals.simps) auto
  next
    case 3
    then show ?thesis using emitted "1.IH"(2) by (subst split_nals.simps) auto
  next
    case 4
    then obtain x r where r: "rest = x # r" by (cases rest) auto
    have "case map_option (\<lambda>n. n @ [hd rest]) cur of Some acc \<Rightarrow> \<forall>k < length acc. \<not> sc3 (drop k (acc @ tl rest)) | None \<Rightarrow> True"
      using "1.prems" 4 r by (auto simp: less_Suc_eq split: option.splits)
    from "1.IH"(3) [OF 4 this] show ?thesis using 4 by (subst split_nals.simps) simp
  qed
qed

lemma clean_nonzero: "x \<noteq> 0 \<Longrightarrow> clean (x # n) \<longleftrightarrow> clean n"
  by (simp add: clean_Cons sc3_def)

lemma clean_zeros: "x \<noteq> 0 \<Longrightarrow> x \<noteq> 1 \<Longrightarrow> clean (0 # 0 # x # n) \<longleftrightarrow> clean n"
  by (auto simp: clean_Cons sc3_def)

lemma replicate2: "replicate 2 x = [x, x]"
  by (simp add: numeral_2_eq_2)

lemma add_emulation_clean: "clean (replicate (min z 2) 0 @ add_emulation z xs)"
proof (induction z xs rule: add_emulation.induct)
  case (1 z)
  have "clean (replicate k 0)" for k
  proof (induction k)
    case (Suc k)
    have "1 \<notin> set (take 3 (replicate (Suc k) (0::byte)))" by (auto dest: in_set_takeD)
    then have "\<not> sc3 (replicate (Suc k) 0)" unfolding sc3_def by (metis list.set_intros(1,2))
    with Suc show ?case by (simp add: clean_Cons)
  qed simp
  then show ?case by simp
next
  case (2 z b bs)
  consider "2 \<le> z" "b \<le> 3" | "2 \<le> z" "\<not> b \<le> 3" | "z = 1" | "z = 0" by linarith
  then show ?case
  proof cases
    case 1
    then have "clean (replicate (min (if b = 0 then 1 else 0) 2) 0 @ add_emulation (if b = 0 then 1 else 0) bs)"
      using "2.IH"(1) by simp
    then have "clean (b # add_emulation (if b = 0 then 1 else 0) bs)"
      by (cases "b = 0") (simp_all add: clean_nonzero)
    then show ?thesis using 1 by (simp add: replicate2 clean_zeros)
  next
    case c: 2
    then have "b \<noteq> 0" "b \<noteq> 1" by auto
    with c "2.IH"(2) show ?thesis by (simp add: replicate2 clean_zeros)
  next
    case 3
    with "2.IH"(2) show ?thesis by (auto simp: numeral_2_eq_2 clean_Cons sc3_def)
  next
    case 4
    with "2.IH"(2) show ?thesis by (auto simp: clean_Cons sc3_def)
  qed
qed

lemma rewritten_clean:
  assumes "rewrite_nal n = Some r"
  shows "clean r"
proof -
  obtain h t where n: "n = h # t" "h AND 0x1f = 7"
    using assms by (cases n) (auto simp: rewrite_nal_def is_sps_def split: if_splits)
  then have "h \<noteq> 0" by auto
  obtain xs where "r = h # addEmulation xs"
    using assms n by (auto simp: rewrite_nal_def rewriteSpsLowLatency_def Let_def split: if_splits option.splits)
  with \<open>h \<noteq> 0\<close> add_emulation_clean [of 0 xs] show ?thesis
    by (auto simp: addEmulation_def clean_Cons sc3_def)
qed

text \<open>
  In a frame only the parameter set changes: the result splits into the same NAL units in the same
  order, each as it was but for the rewritten sets; and a frame with nothing to rewrite (every P-frame)
  is returned as it is.
\<close>
theorem frame_rewrite_touches_only_the_sps:
  "(if list_ex (\<lambda>n. rewrite_nal n \<noteq> None) (splitNalUnits frame)
    then splitNalUnits (rewriteLowLatencySpsInFrame frame)
        = map (\<lambda>n. case rewrite_nal n of Some r \<Rightarrow> r | None \<Rightarrow> n) (splitNalUnits frame)
    else rewriteLowLatencySpsInFrame frame = frame)"
proof (cases "list_ex (\<lambda>n. rewrite_nal n \<noteq> None) (splitNalUnits frame)")
  case True
  let ?new = "map (\<lambda>n. case rewrite_nal n of Some r \<Rightarrow> r | None \<Rightarrow> n) (splitNalUnits frame)"
  have "\<forall>n \<in> set (splitNalUnits frame). clean n"
    unfolding splitNalUnits_def by (rule split_clean) simp
  then have "\<forall>n \<in> set ?new. clean n" using rewritten_clean by (auto split: option.split)
  from split_joined [OF this] show ?thesis using True
    by (simp add: rewriteLowLatencySpsInFrame_def splitNalUnits_def Let_def o_def)
next
  case False
  then show ?thesis by (simp add: rewriteLowLatencySpsInFrame_def Let_def)
qed

end
