(* ===== verification/Flow_Engine.thy ===== *)
theory Flow_Engine
  imports Flow_Poll
begin

text \<open>
  Running a flow (\<open>packages/flow-runner/src/engine.ts\<close>): waiting for the first screen after a launch, the
  geometry of a pinch, one step, the refusal of a button the device lacks, and the run itself. The
  marks \<open>onStep\<close> is told are effects among the driver's calls. The fuel is one read of the screen for each
  polling step; \<open>FLOW_FUEL\<close> is enough for every flow.
\<close>

subsection \<open>The first screen after a launch\<close>

definition SETTLE_MS :: ms where "SETTLE_MS = 1000"
definition SETTLE_CAP_MS :: ms where "SETTLE_CAP_MS = 3 * SETTLE_MS"

type_synonym screen_shape = "(string \<times> string \<times> string) list"

definition screenShape :: "ui_element list \<Rightarrow> screen_shape" where
  "screenShape tree = map (\<lambda>e. (el_role e, el_label e, (case el_identifier e of Some i \<Rightarrow> i | None \<Rightarrow> []))) tree"

definition screen_delay :: "ms \<Rightarrow> ms \<Rightarrow> ms \<Rightarrow> ms \<Rightarrow> ms" where
  "screen_delay pollMs started now settleBy = min (max 0 (pollMs - (now - started))) (settleBy - now)"

fun screen_loop ::
  "nat \<Rightarrow> 'w flow_host \<Rightarrow> ms \<Rightarrow> ms \<Rightarrow> screen_shape option \<Rightarrow> ms \<Rightarrow> ms \<Rightarrow> 'w \<Rightarrow> ('w \<times> driver_fx list) option" where
  "screen_loop 0 H deadline pollMs shape shapeSince settleBy w = None"
| "screen_loop (Suc n) H deadline pollMs shape shapeSince settleBy w =
     (case queryOrRetry H deadline w of (w1, q) \<Rightarrow>
       (let now = clk H w1;
            again = (\<lambda>shape shapeSince settleBy.
              if settleBy \<le> now then Some (w1, [Read q])
              else map_option (\<lambda>(w', tr). (w', Read q # tr))
                (screen_loop n H deadline pollMs shape shapeSince settleBy
                  (sleep H (screen_delay pollMs (clk H w) now settleBy) w1)))
        in case q of
             Thrown e \<Rightarrow> Some (w1, [Read q])
           | Blip e aborted \<Rightarrow> again shape shapeSince settleBy
           | Got tree \<Rightarrow>
               (let settleBy' = (if shape = None then min deadline (now + SETTLE_CAP_MS) else settleBy);
                    next = screenShape tree
                in if shape \<noteq> Some next then again (Some next) now settleBy'
                   else if SETTLE_MS \<le> now - shapeSince then Some (w1, [Read q])
                   else again shape shapeSince settleBy')))"

definition waitForScreen :: "nat \<Rightarrow> 'w flow_host \<Rightarrow> ms \<Rightarrow> ms \<Rightarrow> 'w \<Rightarrow> ('w \<times> driver_fx list) option" where
  "waitForScreen n H timeoutMs pollMs w =
     screen_loop n H (clk H w + timeoutMs) pollMs None 0 (clk H w + timeoutMs) w"

lemma screen_loop_returns:
  assumes "clock_ok H" and "1 \<le> pollMs"
  shows "nat (d - clk H w) < n \<Longrightarrow> settleBy \<le> d \<Longrightarrow> screen_loop n H d pollMs shape since settleBy w \<noteq> None"
proof (induction n arbitrary: shape since settleBy w)
  case (Suc n)
  obtain w1 q where q: "queryOrRetry H d w = (w1, q)" by fastforce
  have le: "clk H w \<le> clk H w1" using queryOrRetry_clk [OF assms(1) q] .
  have again: "screen_loop n H d pollMs shape' since' by'
      (sleep H (screen_delay pollMs (clk H w) (clk H w1) by') w1) \<noteq> None"
    if "\<not> by' \<le> clk H w1" "by' \<le> d" for shape' since' by'
  proof (rule Suc.IH [OF _ that(2)])
    let ?m = "screen_delay pollMs (clk H w) (clk H w1) by'"
    have "clk H w + 1 \<le> clk H (sleep H ?m w1)"
    proof (cases "1 \<le> ?m")
      case True
      with clock_okD(4) [OF assms(1), of ?m w1] le show ?thesis by simp
    next
      case False
      with that assms(2) have "clk H w + 1 \<le> clk H w1" by (simp add: screen_delay_def)
      with clock_okD(3) [OF assms(1), of w1 ?m] show ?thesis by simp
    qed
    with Suc.prems(1) that le show "nat (d - clk H (sleep H ?m w1)) < n" by linarith
  qed
  show ?case
    using again Suc.prems(2)
    by (cases q) (simp_all add: q Let_def)
qed simp

lemma screen_loop_quiet: "screen_loop n H d pollMs shape since settleBy w = Some (w', tr) \<Longrightarrow> acted tr = []"
proof (induction n arbitrary: shape since settleBy w tr)
  case (Suc n)
  then show ?case
    by (auto simp: Let_def split: prod.splits query_outcome.splits if_splits)
qed simp

subsection \<open>A pinch\<close>

definition PINCH_EDGE :: rat where "PINCH_EDGE = 2 / 100"
definition PINCH_WIDE_HALF :: rat where "PINCH_WIDE_HALF = 3 / 10"
definition PINCH_NARROW_HALF :: rat where "PINCH_NARROW_HALF = 2 / 100"

definition round4 :: "rat \<Rightarrow> rat" where
  "round4 n = of_int (js_round (n * 10000)) / 10000"

definition fingers_at :: "bool \<Rightarrow> point \<Rightarrow> rat \<Rightarrow> fingers" where
  "fingers_at alongX c half =
     (if alongX then ((round4 (fst c - half), snd c), (round4 (fst c + half), snd c))
      else ((fst c, round4 (snd c - half)), (fst c, round4 (snd c + half))))"

definition pinchFingers :: "point \<Rightarrow> rat \<Rightarrow> (fingers \<times> fingers) option" where
  "pinchFingers center scale =
     (let roomX = min (fst center - PINCH_EDGE) (1 - PINCH_EDGE - fst center);
          roomY = min (snd center - PINCH_EDGE) (1 - PINCH_EDGE - snd center);
          alongX = (roomY \<le> roomX);
          wide = min PINCH_WIDE_HALF (if alongX then roomX else roomY);
          narrow = wide / max scale (1 / scale)
      in if narrow < PINCH_NARROW_HALF then None
         else if 1 < scale then Some (fingers_at alongX center narrow, fingers_at alongX center wide)
         else Some (fingers_at alongX center wide, fingers_at alongX center narrow))"

subsection \<open>One step\<close>

definition and_then ::
  "('w, 'a) outcome \<Rightarrow> ('a \<Rightarrow> 'w \<Rightarrow> ('w, 'b) outcome) \<Rightarrow> ('w, 'b) outcome" where
  "and_then x f =
     (case x of
        None \<Rightarrow> None
      | Some (w, tr, Inl e) \<Rightarrow> Some (w, tr, Inl e)
      | Some (w, tr, Inr v) \<Rightarrow> map_option (\<lambda>(w', tr', r). (w', tr @ tr', r)) (f v w))"

definition call :: "'w flow_host \<Rightarrow> action \<Rightarrow> 'w \<Rightarrow> ('w, launch_applied option) outcome" where
  "call H a w = (case perform H a w of (w', fx, r) \<Rightarrow> Some (w', [fx], r))"

text \<open>A call that resolves to nothing.\<close>

definition call_void :: "'w flow_host \<Rightarrow> action \<Rightarrow> 'w \<Rightarrow> ('w, launch_applied option) outcome" where
  "call_void H a w = and_then (call H a w) (\<lambda>_ w. Some (w, [], Inr None))"

definition fails :: "string \<Rightarrow> 'w \<Rightarrow> ('w, 'a) outcome" where
  "fails msg w = Some (w, [], Inl (new_error Step_failure msg))"

definition center_of :: "ui_element \<Rightarrow> point" where
  "center_of el = (round4 (fr_x (el_frame el) + fr_width (el_frame el) / 2),
                   round4 (fr_y (el_frame el) + fr_height (el_frame el) / 2))"

definition resolved_void :: "unit \<Rightarrow> 'w \<Rightarrow> ('w, launch_applied option) outcome" where
  "resolved_void u w = Some (w, [], Inr None)"

definition pinch_at :: "'w flow_host \<Rightarrow> rat \<Rightarrow> rat \<Rightarrow> point \<Rightarrow> 'w \<Rightarrow> ('w, launch_applied option) outcome" where
  "pinch_at H scale durationMs center w =
     (case pinchFingers center scale of
        None \<Rightarrow> fails (''the pinch center ['' @ num_text (host_texts H) (fst center) @ '', '' @ num_text (host_texts H) (snd center)
           @ ''] is too close to the edge of the screen to fit two fingers changing their spacing x''
           @ num_text (host_texts H) scale @ '' -- pinch on a point further in'') w
      | Some (start, fin) \<Rightarrow> call_void H (Do_pinch start fin durationMs) w)"

definition launch :: "nat \<Rightarrow> 'w flow_host \<Rightarrow> launch_options option \<Rightarrow> ms \<Rightarrow> ms \<Rightarrow> 'w \<Rightarrow> ('w, launch_applied option) outcome" where
  "launch n H options timeoutMs pollMs w =
     and_then (call H (Do_launch options) w)
       (\<lambda>applied w. map_option (\<lambda>(w', tr). (w', tr, Inr applied)) (waitForScreen n H timeoutMs pollMs w))"

fun executeStep ::
  "nat \<Rightarrow> 'w flow_host \<Rightarrow> string option \<Rightarrow> ms \<Rightarrow> ms \<Rightarrow> step \<Rightarrow> 'w \<Rightarrow> ('w, launch_applied option) outcome" where
  "executeStep n H flowAppId timeoutMs pollMs (Clear_state stepAppId) w =
     (case (case stepAppId of Some a \<Rightarrow> Some a | None \<Rightarrow> flowAppId) of
        Some (c # cs) \<Rightarrow> call_void H (Do_clear_state (c # cs)) w
      | _ \<Rightarrow> fails (''clearState has no app id -- set it on the step or as the flow-level '' @ quoted ''appId'') w)"
| "executeStep n H flowAppId timeoutMs pollMs (Launch_app options) w = launch n H options timeoutMs pollMs w"
| "executeStep n H flowAppId timeoutMs pollMs (Tap_on sel) w =
     and_then (resolveOne n H sel timeoutMs pollMs w)
       (\<lambda>el. call_void H (Do_tap (fst (center_of el)) (snd (center_of el))))"
| "executeStep n H flowAppId timeoutMs pollMs (Input_text text) w = call_void H (Do_input_text text) w"
| "executeStep n H flowAppId timeoutMs pollMs (Press_key code modifiers) w =
     call_void H (Do_press_key code modifiers) w"
| "executeStep n H flowAppId timeoutMs pollMs (Swipe p q durationMs) w = call_void H (Do_swipe p q durationMs) w"
| "executeStep n H flowAppId timeoutMs pollMs (Scroll d until) w =
     (case until of
        Some sel \<Rightarrow> and_then (scrollUntil n H d sel timeoutMs pollMs w) resolved_void
      | None \<Rightarrow> (case SCROLL_GESTURES d of (p, q) \<Rightarrow> call_void H (Do_swipe p q 300) w))"
| "executeStep n H flowAppId timeoutMs pollMs (Open_url url) w = call_void H (Do_open_url url) w"
| "executeStep n H flowAppId timeoutMs pollMs (Assert_visible sel) w =
     and_then (waitVisible n H sel timeoutMs pollMs w) resolved_void"
| "executeStep n H flowAppId timeoutMs pollMs (Assert_not_visible sel) w =
     and_then (waitNotVisible n H sel timeoutMs pollMs w) resolved_void"
| "executeStep n H flowAppId timeoutMs pollMs (Press_button name) w = call_void H (Do_press_button name) w"
| "executeStep n H flowAppId timeoutMs pollMs (Long_press_on sel durationMs) w =
     and_then (resolveOne n H sel timeoutMs pollMs w)
       (\<lambda>el. call_void H (Do_long_press (fst (center_of el)) (snd (center_of el)) durationMs))"
| "executeStep n H flowAppId timeoutMs pollMs (Pinch on scale durationMs) w =
     (case on of
        On_point p \<Rightarrow> pinch_at H scale durationMs p w
      | On_selector sel \<Rightarrow>
          and_then (resolveOne n H sel timeoutMs pollMs w) (\<lambda>el. pinch_at H scale durationMs (center_of el)))"
| "executeStep n H flowAppId timeoutMs pollMs (Set_orientation ori) w =
     call_void H (Do_set_orientation ori timeoutMs) w"
| "executeStep n H flowAppId timeoutMs pollMs (Set_posture p) w = call_void H (Do_set_posture p timeoutMs) w"

end
