(* ===== verification/Flow_Run.thy ===== *)
theory Flow_Run
  imports Flow_Engine
begin

text \<open>
  A whole flow (\<open>runFlow\<close>, \<open>refuseButtons\<close> and \<open>refusedFlow\<close> of \<open>packages/flow-runner/src/engine.ts\<close>, with
  \<open>unavailableButtonMessage\<close> of \<open>platformCheck.ts\<close>) and the properties of the runner. The dash in a
  message is written in ASCII.
\<close>

datatype step_status = Passed | Failed | Skipped

record step_result =
  st_index :: nat
  st_name :: string
  st_status :: step_status
  st_durationMs :: ms
  st_message :: "string option"

datatype failure_kind = Kind_environment | Kind_product

record flow_result =
  r_name :: string
  r_file :: "string option"
  r_passed :: bool
  r_steps :: "step_result list"
  r_durationMs :: ms
  r_failureMessage :: "string option"
  r_failureScreenshot :: "nat list option"
  r_lastScreenshot :: "nat list option"
  r_failureKind :: "failure_kind option"
  r_failedBeforeRun :: bool
  r_deviceLacks :: bool

record engine_options =
  eo_defaultTimeoutMs :: "jnum option"
  eo_pollIntervalMs :: "ms option"
  eo_captureLastScreen :: bool
  eo_platform :: "string option"

definition FAILURE_SCREENSHOT_TIMEOUT_MS :: ms where "FAILURE_SCREENSHOT_TIMEOUT_MS = 10000"
definition LAST_SCREEN_TIMEOUT_MS :: ms where "LAST_SCREEN_TIMEOUT_MS = 5000"

definition captureScreenshot :: "'w flow_host \<Rightarrow> ms \<Rightarrow> 'w \<Rightarrow> 'w \<times> nat list option" where
  "captureScreenshot H timeoutMs w =
     (case shoot H timeoutMs w of (w', Shot b) \<Rightarrow> (w', Some b) | (w', _) \<Rightarrow> (w', None))"

subsection \<open>Refusals before the first step\<close>

definition refused_step :: "texts \<Rightarrow> nat \<Rightarrow> string \<Rightarrow> nat \<Rightarrow> step \<Rightarrow> step_result" where
  "refused_step T index message i s =
     (if i = index
      then \<lparr>st_index = i, st_name = describeStep T s, st_status = Failed, st_durationMs = 0, st_message = Some message\<rparr>
      else \<lparr>st_index = i, st_name = describeStep T s, st_status = Skipped, st_durationMs = 0, st_message = None\<rparr>)"

definition refusedFlow :: "texts \<Rightarrow> flow \<Rightarrow> nat \<Rightarrow> string \<Rightarrow> bool \<Rightarrow> flow_result" where
  "refusedFlow T fl index message beforeRun =
     \<lparr>r_name = fl_name fl, r_file = fl_file fl, r_passed = False,
      r_steps = map (\<lambda>(i, s). refused_step T index message i s) (List.enumerate 0 (fl_steps fl)),
      r_durationMs = 0,
      r_failureMessage = Some (describeStep T (fl_steps fl ! index) @ '': '' @ message),
      r_failureScreenshot = None, r_lastScreenshot = None,
      r_failureKind = Some Kind_environment, r_failedBeforeRun = beforeRun, r_deviceLacks = False\<rparr>"

definition PLATFORM_NAMES :: "string \<Rightarrow> string option" where
  "PLATFORM_NAMES = [''ios'' \<mapsto> ''iOS'', ''android'' \<mapsto> ''Android'']"

definition unavailableButtonMessage :: "unavailable_button \<Rightarrow> string \<Rightarrow> string" where
  "unavailableButtonMessage problem platform =
     (let place = (case PLATFORM_NAMES platform of Some n \<Rightarrow> n | None \<Rightarrow> platform) in
      if ub_byDevice problem
      then ''this device has no '' @ quoted (ub_name problem)
        @ '' button it can press -- run the flow on a device that has one, or tag it and leave this one out''
      else place @ '' has no '' @ quoted (ub_name problem) @ '' button, so this flow cannot run on '' @ place
        @ '' -- press the app's own control with a selector instead, or tag the flow and run it only where the button exists'')"

text \<open>The first press that could not be checked without the device's chrome.\<close>

fun unchecked_press :: "string \<Rightarrow> nat \<Rightarrow> step list \<Rightarrow> nat" where
  "unchecked_press platform i [] = i"
| "unchecked_press platform i (s # steps) =
     (case s of
        Press_button name \<Rightarrow>
          if buttonAvailability platform name None = Unknown_button then i
          else unchecked_press platform (Suc i) steps
      | _ \<Rightarrow> unchecked_press platform (Suc i) steps)"

definition verdict_result :: "texts \<Rightarrow> flow \<Rightarrow> string \<Rightarrow> button_verdict \<Rightarrow> flow_result option" where
  "verdict_result T fl platform v =
     (case v of
        Refused b \<Rightarrow> Some (refusedFlow T fl (ub_index b) (unavailableButtonMessage b platform) True)
      | _ \<Rightarrow> None)"

definition refuseButtons ::
  "'w flow_host \<Rightarrow> flow \<Rightarrow> string \<Rightarrow> ms \<Rightarrow> 'w \<Rightarrow> 'w \<times> driver_fx list \<times> flow_result option" where
  "refuseButtons H fl platform timeoutMs w =
     (let T = host_texts H; index = unchecked_press platform 0 (fl_steps fl) in
      case unavailableButton (fl_steps fl) platform None of
        Needs_chrome \<Rightarrow>
          (case chrome_of H of
             None \<Rightarrow> (w, [], None)
           | Some ask \<Rightarrow>
               (case ask timeoutMs w of
                  (w', Inl e) \<Rightarrow> (w', [Asked_chrome], Some (refusedFlow T fl index
                     (''whether the device can press this could not be checked: '' @ err_message e) False))
                | (w', Inr None) \<Rightarrow> (w', [Asked_chrome], Some (refusedFlow T fl index
                     (''the device did not report its buttons within '' @ num_text T (of_int timeoutMs / 1000)
                      @ ''s, so whether it can press this cannot be checked'') False))
                | (w', Inr (Some chrome)) \<Rightarrow> (w', [Asked_chrome],
                     verdict_result T fl platform (unavailableButton (fl_steps fl) platform (Some chrome)))))
      | v \<Rightarrow> (w, [], verdict_result T fl platform v))"

subsection \<open>The run\<close>

text \<open>What the loop over the steps has gathered.\<close>

record run_state =
  rs_steps :: "step_result list"
  rs_failureMessage :: "string option"
  rs_failureKind :: "failure_kind option"
  rs_deviceLacks :: bool
  rs_failureScreenshot :: "nat list option"

definition run_start :: run_state where
  "run_start = \<lparr>rs_steps = [], rs_failureMessage = None, rs_failureKind = None, rs_deviceLacks = False,
                rs_failureScreenshot = None\<rparr>"

definition skip_step :: "texts \<Rightarrow> nat \<Rightarrow> step \<Rightarrow> run_state \<Rightarrow> run_state" where
  "skip_step T index s rs = rs\<lparr>rs_steps := rs_steps rs @
     [\<lparr>st_index = index, st_name = describeStep T s, st_status = Skipped, st_durationMs = 0, st_message = None\<rparr>]\<rparr>"

definition passed_name :: "texts \<Rightarrow> step \<Rightarrow> launch_applied option \<Rightarrow> string" where
  "passed_name T s applied =
     (case s of
        Launch_app options \<Rightarrow> if applied \<noteq> None then describeLaunch T options applied else describeStep T s
      | _ \<Rightarrow> describeStep T s)"

definition pass_step :: "nat \<Rightarrow> string \<Rightarrow> ms \<Rightarrow> run_state \<Rightarrow> run_state" where
  "pass_step index name durationMs rs = rs\<lparr>rs_steps := rs_steps rs @
     [\<lparr>st_index = index, st_name = name, st_status = Passed, st_durationMs = durationMs, st_message = None\<rparr>]\<rparr>"

definition fail_step :: "nat \<Rightarrow> string \<Rightarrow> ms \<Rightarrow> flow_error \<Rightarrow> nat list option \<Rightarrow> run_state \<Rightarrow> run_state" where
  "fail_step index name durationMs e shot rs = rs\<lparr>
     rs_failureMessage := Some (name @ '': '' @ err_message e),
     rs_failureKind := (if rs_failureKind rs = None
        then Some (if isEnvironmentStepFailure e then Kind_environment else Kind_product)
        else rs_failureKind rs),
     rs_deviceLacks := (rs_deviceLacks rs \<or> err_class e = Device_lacks),
     rs_failureScreenshot := shot,
     rs_steps := rs_steps rs @
       [\<lparr>st_index = index, st_name = name, st_status = Failed, st_durationMs = durationMs,
         st_message = Some (err_message e)\<rparr>]\<rparr>"

definition run_step ::
  "nat \<Rightarrow> 'w flow_host \<Rightarrow> flow \<Rightarrow> ms \<Rightarrow> ms \<Rightarrow> nat \<Rightarrow> step \<Rightarrow> run_state \<Rightarrow> 'w \<Rightarrow> ('w \<times> driver_fx list \<times> run_state) option" where
  "run_step n H fl timeoutMs pollMs index s rs w =
     (let T = host_texts H; started = describeStep T s in
      case executeStep n H (fl_appId fl) timeoutMs pollMs s w of
        None \<Rightarrow> None
      | Some (w1, tr, Inr applied) \<Rightarrow>
          (let name = passed_name T s applied in
           Some (w1, Mark_start index started (activityLabel T s) # tr @ [Mark_end index name True],
                 pass_step index name (clk H w1 - clk H w) rs))
      | Some (w1, tr, Inl e) \<Rightarrow>
          (case captureScreenshot H FAILURE_SCREENSHOT_TIMEOUT_MS w1 of
             (w2, shot) \<Rightarrow>
               Some (w2, Mark_start index started (activityLabel T s) # tr @ [Mark_end index started False, Took_shot],
                     fail_step index started (clk H w1 - clk H w) e shot rs)))"

fun run_steps ::
  "nat \<Rightarrow> 'w flow_host \<Rightarrow> flow \<Rightarrow> ms \<Rightarrow> ms \<Rightarrow> nat \<Rightarrow> step list \<Rightarrow> run_state \<Rightarrow> 'w \<Rightarrow> ('w \<times> driver_fx list \<times> run_state) option" where
  "run_steps n H fl timeoutMs pollMs index [] rs w = Some (w, [], rs)"
| "run_steps n H fl timeoutMs pollMs index (s # steps) rs w =
     (if rs_failureMessage rs \<noteq> None
      then run_steps n H fl timeoutMs pollMs (Suc index) steps (skip_step (host_texts H) index s rs) w
      else (case run_step n H fl timeoutMs pollMs index s rs w of
              None \<Rightarrow> None
            | Some (w', tr, rs') \<Rightarrow>
                map_option (\<lambda>(w'', tr', rs''). (w'', tr @ tr', rs''))
                  (run_steps n H fl timeoutMs pollMs (Suc index) steps rs' w')))"

definition run_from ::
  "nat \<Rightarrow> 'w flow_host \<Rightarrow> flow \<Rightarrow> bool \<Rightarrow> ms \<Rightarrow> ms \<Rightarrow> 'w \<Rightarrow> ('w, flow_result) outcome" where
  "run_from n H fl captureLast timeoutMs pollMs w =
     (case run_steps n H fl timeoutMs pollMs 0 (fl_steps fl) run_start w of
        None \<Rightarrow> None
      | Some (w1, tr, rs) \<Rightarrow>
          (let passed = (rs_failureMessage rs = None);
               (w2, last, fx) = (if passed \<and> captureLast
                 then (case captureScreenshot H LAST_SCREEN_TIMEOUT_MS w1 of (w2, shot) \<Rightarrow> (w2, shot, [Took_shot]))
                 else (w1, None, []))
           in Some (w2, tr @ fx, Inr
                \<lparr>r_name = fl_name fl, r_file = fl_file fl, r_passed = passed, r_steps = rs_steps rs,
                 r_durationMs = clk H w1 - clk H w, r_failureMessage = rs_failureMessage rs,
                 r_failureScreenshot = rs_failureScreenshot rs, r_lastScreenshot = last,
                 r_failureKind = rs_failureKind rs, r_failedBeforeRun = False,
                 r_deviceLacks = rs_deviceLacks rs\<rparr>)))"

definition runFlow :: "nat \<Rightarrow> 'w flow_host \<Rightarrow> flow \<Rightarrow> engine_options \<Rightarrow> 'w \<Rightarrow> ('w, flow_result) outcome" where
  "runFlow n H fl options w =
     (case normalizeTimeoutMs (host_texts H)
             (case eo_defaultTimeoutMs options of Some t \<Rightarrow> t | None \<Rightarrow> Num (of_int DEFAULT_TIMEOUT_MS))
             ''default timeout'' of
        Inl e \<Rightarrow> Some (w, [], Inl e)
      | Inr timeoutMs \<Rightarrow>
          (let pollMs = (case eo_pollIntervalMs options of Some p \<Rightarrow> p | None \<Rightarrow> DEFAULT_POLL_INTERVAL_MS);
               (w1, tr, refused) = (case eo_platform options of
                  Some platform \<Rightarrow> refuseButtons H fl platform timeoutMs w
                | None \<Rightarrow> (w, [], None))
           in case refused of
                Some r \<Rightarrow> Some (w1, tr, Inr r)
              | None \<Rightarrow> map_option (\<lambda>(w2, tr', r). (w2, tr @ tr', r))
                          (run_from n H fl (eo_captureLastScreen options) timeoutMs pollMs w1)))"

text \<open>One read of the screen for each millisecond the longest timer can wait, and one more.\<close>

definition FLOW_FUEL :: nat where
  "FLOW_FUEL = nat MAX_TIMER_MS + 1"

subsection \<open>What a step does\<close>

lemma and_then_Some:
  "and_then x f = Some (w', tr, r) \<longleftrightarrow>
     (\<exists>e. x = Some (w', tr, Inl e) \<and> r = Inl e)
     \<or> (\<exists>w1 tr1 v tr2. x = Some (w1, tr1, Inr v) \<and> f v w1 = Some (w', tr2, r) \<and> tr = tr1 @ tr2)"
  by (auto simp: and_then_def split: option.splits sum.splits)

lemma and_then_returns:
  "x \<noteq> None \<Longrightarrow> (\<And>w tr v. x = Some (w, tr, Inr v) \<Longrightarrow> f v w \<noteq> None) \<Longrightarrow> and_then x f \<noteq> None"
  by (auto simp: and_then_def split: option.splits sum.splits)

lemma and_then_None:
  "and_then x f = None \<longleftrightarrow> x = None \<or> (\<exists>w tr v. x = Some (w, tr, Inr v) \<and> f v w = None)"
  by (auto simp: and_then_def split: option.splits sum.splits)

lemma call_Some: "call H a w \<noteq> None" "call_void H a w \<noteq> None"
  by (auto simp: call_def call_void_def and_then_def split: prod.splits option.splits sum.splits)

lemma call_fx: "call H a w = Some (w', tr, r) \<Longrightarrow>
    screens tr = [] \<and> acted tr = [a] \<and> (\<forall>e. r = Inl e \<longrightarrow> driver_threw e tr)"
  by (auto simp: call_def perform_def driver_threw_def split: prod.splits sum.splits)

lemma call_void_fx: "call_void H a w = Some (w', tr, r) \<Longrightarrow>
    screens tr = [] \<and> acted tr = [a] \<and> (\<forall>e. r = Inl e \<longrightarrow> driver_threw e tr)"
  using call_fx by (fastforce simp: call_void_def and_then_Some)

lemma resolved_void_Some: "resolved_void u v \<noteq> None"
  by (simp add: resolved_void_def)

lemma pinch_at_Some: "pinch_at H scale d c w \<noteq> None"
  by (auto simp: pinch_at_def fails_def call_Some simp del: not_None_eq split: option.splits prod.splits)

lemma waits_return:
  assumes "clock_ok H" and "1 \<le> pollMs" and "nat MAX_TIMER_MS < n"
  shows "resolveOne n H sel t pollMs w \<noteq> None"
    and "waitVisible n H sel t pollMs w \<noteq> None"
    and "waitNotVisible n H sel t pollMs w \<noteq> None"
    and "scrollUntil n H d sel t pollMs w \<noteq> None"
proof -
  have fuel: "nat (clk H w + waitMs - clk H w) < n" if "selector_wait T sel u = Inr waitMs" for T u waitMs
  proof -
    have "waitMs \<le> MAX_TIMER_MS" using normalizeTimeoutMs_bounds [OF that [unfolded selector_wait_def]] by simp
    then have "nat waitMs \<le> nat MAX_TIMER_MS" by (rule nat_mono)
    with assms(3) show ?thesis by simp
  qed
  note ret = poll_loop_returns [OF assms(1,2) fuel]
  note not_None_eq [iff del]
  show "resolveOne n H sel t pollMs w \<noteq> None"
    unfolding resolveOne_def by (auto split: sum.split intro!: ret)
  show "waitVisible n H sel t pollMs w \<noteq> None"
    unfolding waitVisible_def by (auto split: sum.split intro!: ret)
  show "waitNotVisible n H sel t pollMs w \<noteq> None"
    unfolding waitNotVisible_def by (auto split: sum.split intro!: ret)
  show "scrollUntil n H d sel t pollMs w \<noteq> None"
    unfolding scrollUntil_def by (auto split: sum.split prod.split intro!: ret)
qed

lemma launch_returns:
  assumes "clock_ok H" and "1 \<le> pollMs" and "nat MAX_TIMER_MS < n" and "t \<le> MAX_TIMER_MS"
  shows "launch n H options t pollMs w \<noteq> None"
proof -
  have "waitForScreen n H t pollMs u \<noteq> None" for u
    unfolding waitForScreen_def
    by (rule screen_loop_returns [OF assms(1,2)]) (use assms(3,4) in auto)
  then show ?thesis
    unfolding launch_def by (intro and_then_returns call_Some) simp
qed

lemma executeStep_returns:
  assumes "clock_ok H" and "1 \<le> pollMs" and "nat MAX_TIMER_MS < n" and "t \<le> MAX_TIMER_MS"
  shows "executeStep n H app t pollMs s w \<noteq> None"
proof -
  note [simp] = call_Some pinch_at_Some resolved_void_Some
  note not_None_eq [iff del]
  note w = waits_return [OF assms(1-3)] launch_returns [OF assms]
  show ?thesis
  proof (cases s)
    case (Clear_state a)
    then show ?thesis by (auto simp: fails_def split: option.splits list.splits)
  next
    case (Scroll d until)
    then show ?thesis
      using w(4) by (cases until) (auto simp: and_then_None split: prod.splits)
  next
    case (Pinch on scale durationMs)
    then show ?thesis using w(1) by (cases on) (auto simp: and_then_None)
  qed (use w in \<open>auto simp: and_then_None\<close>)
qed

text \<open>The four waits act on nothing but the swipes of a scroll, and what they blame.\<close>

definition blamed :: "flow_error \<Rightarrow> driver_fx list \<Rightarrow> bool" where
  "blamed e tr \<longleftrightarrow> (isEnvironmentStepFailure e \<longrightarrow> driver_threw e tr \<or> screens tr = [])"

lemma new_error_env [simp]: "isEnvironmentStepFailure (new_error c m) \<longleftrightarrow> c = Environment \<or> c = Device_lacks"
  by (simp add: isEnvironmentStepFailure_def new_error_def)

lemma poll_loop_blamed:
  assumes "poll_loop n H pollMs d base nudge judge s l False w = Some (w', tr, Inl e)"
    and "\<And>s t s' e. judge s t = (s', Some (Inl e)) \<Longrightarrow> \<not> isEnvironmentStepFailure e"
  shows "blamed e tr"
proof -
  have "\<not> isEnvironmentStepFailure (deadlineError base l' True)" for l'
    by (simp add: deadlineError_def)
  then show ?thesis
    using poll_loop_error [OF assms(1)] assms(2) unfolding blamed_def by (metis (full_types))
qed

lemma judges_blame:
  "judge_one T sel t = Some (Inl e) \<Longrightarrow> \<not> isEnvironmentStepFailure e"
  "judge_visible sel t = Some (Inl e) \<Longrightarrow> \<not> isEnvironmentStepFailure e"
  "judge_gone sel t = Some (Inl e) \<Longrightarrow> \<not> isEnvironmentStepFailure e"
  "judge_scroll T d sel s t = (s', Some (Inl e)) \<Longrightarrow> \<not> isEnvironmentStepFailure e"
  by (auto simp: judge_one_def judge_visible_def judge_gone_def judge_scroll_def ambiguous_def scroll_end_def Let_def
      split: if_splits)

lemma waits_blame:
  "resolveOne n H sel t pollMs w = Some (w', tr, Inl e) \<Longrightarrow> blamed e tr"
  "waitVisible n H sel t pollMs w = Some (w', tr, Inl e) \<Longrightarrow> blamed e tr"
  "waitNotVisible n H sel t pollMs w = Some (w', tr, Inl e) \<Longrightarrow> blamed e tr"
  "scrollUntil n H d sel t pollMs w = Some (w', tr, Inl e) \<Longrightarrow> blamed e tr"
  unfolding resolveOne_def waitVisible_def waitNotVisible_def scrollUntil_def
  by (auto split: sum.splits prod.splits elim!: poll_loop_blamed simp: blamed_def [of _ "[]"] dest: judges_blame)

lemma resolveOne_hit:
  assumes "resolveOne n H sel t pollMs w = Some (w', tr, Inr el)"
  shows "acted tr = [] \<and> (\<exists>ts tree. screens tr = ts @ [tree] \<and> matchSelector tree sel = [el]
     \<and> (\<forall>u \<in> set ts. matchSelector u sel = []))"
proof -
  obtain waitMs where p: "poll_loop n H pollMs (clk H w + waitMs) (miss_text (host_texts H) sel waitMs) None
          (\<lambda>s tree. (s, judge_one (host_texts H) sel tree)) () None False w = Some (w', tr, Inr el)"
    using assms by (auto simp: resolveOne_def split: sum.splits)
  have "matchSelector t sel = [el]" if "judge_one T sel t = Some (Inr el)" for T t
    using that by (auto simp: judge_one_def Let_def length_Suc_conv split: if_splits)
  moreover have "matchSelector t sel = []" if "judge_one T sel t = None" for T t
    using that by (cases "matchSelector t sel") (auto simp: judge_one_def Let_def split: if_splits)
  ultimately show ?thesis
    using poll_loop_value [OF p] poll_loop_quiet [OF p] by (metis (no_types, lifting))
qed

lemma waitVisible_hit:
  assumes "waitVisible n H sel t pollMs w = Some (w', tr, Inr u)"
  shows "acted tr = [] \<and> (\<exists>ts tree. screens tr = ts @ [tree] \<and> matchSelector tree sel \<noteq> [])"
proof -
  obtain waitMs where p: "poll_loop n H pollMs (clk H w + waitMs) (miss_text (host_texts H) sel waitMs) None
          (\<lambda>s tree. (s, judge_visible sel tree)) () None False w = Some (w', tr, Inr u)"
    using assms by (auto simp: waitVisible_def split: sum.splits)
  from poll_loop_value [OF p] poll_loop_quiet [OF p] show ?thesis
    by (auto simp: judge_visible_def split: if_splits)
qed

lemma waitNotVisible_hit:
  assumes "waitNotVisible n H sel t pollMs w = Some (w', tr, Inr u)"
  shows "acted tr = [] \<and> (\<exists>ts tree. screens tr = ts @ [tree] \<and> matchSelector tree sel = [])"
proof -
  obtain waitMs where p: "poll_loop n H pollMs (clk H w + waitMs) (still_text (host_texts H) sel waitMs) None
          (\<lambda>s tree. (s, judge_gone sel tree)) () None False w = Some (w', tr, Inr u)"
    using assms by (auto simp: waitNotVisible_def split: sum.splits)
  from poll_loop_value [OF p] poll_loop_quiet [OF p] show ?thesis
    by (auto simp: judge_gone_def split: if_splits)
qed

lemma blamed_append: "blamed e tr \<Longrightarrow> blamed e (tr @ [])" by simp

lemma call_blamed:
  "call H a w = Some (w', tr, Inl e) \<Longrightarrow> driver_threw e tr"
  "call_void H a w = Some (w', tr, Inl e) \<Longrightarrow> driver_threw e tr"
  using call_fx call_void_fx by fastforce+

lemma threw_blamed: "driver_threw e tr \<Longrightarrow> blamed e (tr' @ tr)"
  by (auto simp: blamed_def driver_threw_def)

lemma pinch_at_blamed: "pinch_at H scale d c w = Some (w', tr, Inl e) \<Longrightarrow> blamed e (tr' @ tr)"
  by (auto simp: pinch_at_def fails_def split: option.splits prod.splits dest!: call_blamed intro: threw_blamed)
    (simp add: blamed_def)

lemma resolved_void_fx: "resolved_void u w = Some (w', tr, r) \<longleftrightarrow> w' = w \<and> tr = [] \<and> r = Inr None"
  by (auto simp: resolved_void_def)

lemma executeStep_blamed:
  assumes "executeStep n H app t pollMs s w = Some (w', tr, Inl e)"
  shows "blamed e tr"
proof -
  note [dest!] = call_blamed and [intro] = threw_blamed threw_blamed [where tr' = "[]", simplified]
  note [dest] = waits_blame pinch_at_blamed
  show ?thesis
  proof (cases s)
    case (Clear_state a)
    with assms show ?thesis
      by (auto simp: fails_def blamed_def split: option.splits list.splits)
  next
    case (Launch_app options)
    with assms show ?thesis by (auto simp: launch_def and_then_Some)
  next
    case (Scroll d until)
    with assms show ?thesis
      by (cases until) (auto simp: and_then_Some resolved_void_fx split: prod.splits)
  next
    case (Pinch on scale durationMs)
    with assms pinch_at_blamed [where tr' = "[]"] show ?thesis
      by (cases on) (auto simp: and_then_Some)
  qed (use assms in \<open>auto simp: and_then_Some resolved_void_fx\<close>)
qed

subsection \<open>What a run records\<close>

definition statuses :: "step_result list \<Rightarrow> step_status list" where
  "statuses rs = map st_status rs"

text \<open>The steps run up to the first that fails; the rest are skipped.\<close>

definition accounts :: "step_status list \<Rightarrow> bool \<Rightarrow> bool" where
  "accounts ss passed \<longleftrightarrow>
     (if passed then set ss \<subseteq> {Passed}
      else (\<exists>k j. ss = replicate k Passed @ [Failed] @ replicate j Skipped))"

lemma accounts_skip: "accounts ss False \<Longrightarrow> accounts (ss @ [Skipped]) False"
proof -
  assume "accounts ss False"
  then obtain k j where "ss = replicate k Passed @ [Failed] @ replicate j Skipped" by (auto simp: accounts_def)
  then have "ss @ [Skipped] = replicate k Passed @ [Failed] @ replicate (Suc j) Skipped"
    by (simp add: replicate_append_same)
  then show ?thesis unfolding accounts_def by (simp only: if_False) blast
qed

lemma accounts_fail: "accounts ss True \<Longrightarrow> accounts (ss @ [Failed]) False"
proof -
  assume "accounts ss True"
  then have "ss = replicate (length ss) Passed"
    by (intro replicate_eqI) (auto simp: accounts_def)
  then have "ss @ [Failed] = replicate (length ss) Passed @ [Failed] @ replicate 0 Skipped" by simp
  then show ?thesis unfolding accounts_def by (simp only: if_False) blast
qed

text \<open>The invariant of the loop: its record agrees with whether a step has failed.\<close>

definition run_inv :: "nat \<Rightarrow> run_state \<Rightarrow> bool" where
  "run_inv i rs \<longleftrightarrow>
     accounts (statuses (rs_steps rs)) (rs_failureMessage rs = None)
     \<and> map st_index (rs_steps rs) = [0..<i]
     \<and> (rs_failureMessage rs = None \<longleftrightarrow> rs_failureKind rs = None)
     \<and> (rs_failureMessage rs = None \<longrightarrow> \<not> rs_deviceLacks rs \<and> rs_failureScreenshot rs = None)
     \<and> (rs_deviceLacks rs \<longrightarrow> rs_failureKind rs = Some Kind_environment)"

lemma run_inv_start: "run_inv 0 run_start"
  by (simp add: run_inv_def run_start_def accounts_def statuses_def)

lemma run_inv_skip: "run_inv i rs \<Longrightarrow> rs_failureMessage rs \<noteq> None \<Longrightarrow> run_inv (Suc i) (skip_step T i s rs)"
  by (cases "rs_failureMessage rs") (simp_all add: run_inv_def skip_step_def statuses_def accounts_skip)

lemma run_inv_pass: "run_inv i rs \<Longrightarrow> rs_failureMessage rs = None \<Longrightarrow> run_inv (Suc i) (pass_step i name d rs)"
  by (auto simp: run_inv_def pass_step_def statuses_def accounts_def)

lemma run_inv_fail: "run_inv i rs \<Longrightarrow> rs_failureMessage rs = None \<Longrightarrow> run_inv (Suc i) (fail_step i name d e shot rs)"
  using accounts_fail [of "statuses (rs_steps rs)"]
  by (auto simp: run_inv_def fail_step_def statuses_def isEnvironmentStepFailure_def)

lemma run_step_inv:
  assumes "run_inv i rs" and "rs_failureMessage rs = None" and "run_step n H fl t pollMs i s rs w = Some (w', tr, rs')"
  shows "run_inv (Suc i) rs'"
  using assms run_inv_pass run_inv_fail
  by (auto simp: run_step_def Let_def split: option.splits sum.splits prod.splits)

lemma run_steps_inv:
  assumes "run_inv i rs" and "run_steps n H fl t pollMs i steps rs w = Some (w', tr, rs')"
  shows "run_inv (i + length steps) rs'"
  using assms
proof (induction steps arbitrary: i rs w tr)
  case (Cons s steps)
  show ?case
  proof (cases "rs_failureMessage rs = None")
    case True
    with Cons.prems obtain w1 tr1 rs1 tr2 where
      step: "run_step n H fl t pollMs i s rs w = Some (w1, tr1, rs1)"
      and rest: "run_steps n H fl t pollMs (Suc i) steps rs1 w1 = Some (w', tr2, rs')"
      by (auto split: option.splits)
    from Cons.IH [OF run_step_inv [OF Cons.prems(1) True step] rest] show ?thesis by simp
  next
    case False
    with Cons.prems have "run_steps n H fl t pollMs (Suc i) steps (skip_step (host_texts H) i s rs) w = Some (w', tr, rs')"
      by simp
    from Cons.IH [OF run_inv_skip [OF Cons.prems(1) False] this] show ?thesis by simp
  qed
qed simp

lemma run_steps_returns:
  assumes "clock_ok H" and "1 \<le> pollMs" and "nat MAX_TIMER_MS < n" and "t \<le> MAX_TIMER_MS"
  shows "run_steps n H fl t pollMs i steps rs w \<noteq> None"
proof (induction steps arbitrary: i rs w)
  case (Cons s steps)
  note not_None_eq [iff del]
  have "run_step n H fl t pollMs i s rs w \<noteq> None"
    using executeStep_returns [OF assms, of "fl_appId fl" s w]
    by (auto simp: run_step_def Let_def split: option.splits sum.splits prod.splits)
  with Cons.IH show ?case by (auto split: option.splits)
qed simp

text \<open>After the step that fails nothing more is done to the device: only its screen is captured.\<close>

lemma skip_step_msg [simp]: "rs_failureMessage (skip_step T i s rs) = rs_failureMessage rs"
  by (simp add: skip_step_def)

lemma run_steps_quiet:
  "rs_failureMessage rs \<noteq> None \<Longrightarrow> run_steps n H fl t pollMs i steps rs w = Some (w', tr, rs') \<Longrightarrow> w' = w \<and> tr = []"
proof (induction steps arbitrary: i rs)
  case (Cons s steps)
  then show ?case using Cons.IH [of "skip_step (host_texts H) i s rs" "Suc i"] by simp
qed simp

definition ends_at_failure :: "driver_fx list \<Rightarrow> bool" where
  "ends_at_failure tr \<longleftrightarrow> (\<exists>tr1 i nm. tr = tr1 @ [Mark_end i nm False, Took_shot])"

lemma ends_at_failure_append: "ends_at_failure b \<Longrightarrow> ends_at_failure (a @ b)"
  unfolding ends_at_failure_def by (metis append.assoc)

lemma run_steps_ends:
  assumes "rs_failureMessage rs = None" and "run_steps n H fl t pollMs i steps rs w = Some (w', tr, rs')"
    and "rs_failureMessage rs' \<noteq> None"
  shows "ends_at_failure tr"
  using assms
proof (induction steps arbitrary: i rs w tr)
  case (Cons s steps)
  then obtain w1 tr1 rs1 tr2 where
    step: "run_step n H fl t pollMs i s rs w = Some (w1, tr1, rs1)"
    and rest: "run_steps n H fl t pollMs (Suc i) steps rs1 w1 = Some (w', tr2, rs')" and tr: "tr = tr1 @ tr2"
    by (auto split: option.splits)
  show ?case
  proof (cases "rs_failureMessage rs1 = None")
    case True
    from Cons.IH [OF this rest Cons.prems(3)] show ?thesis unfolding tr by (rule ends_at_failure_append)
  next
    case False
    with step Cons.prems(1) obtain tr0 nm where
      "tr1 = Mark_start i (describeStep (host_texts H) s) (activityLabel (host_texts H) s) # tr0 @ [Mark_end i nm False, Took_shot]"
      by (auto simp: run_step_def Let_def pass_step_def split: option.splits sum.splits prod.splits)
    with run_steps_quiet [OF False rest] show ?thesis
      unfolding tr ends_at_failure_def by (metis append.right_neutral append_Cons)
  qed
qed simp

text \<open>A flow refused before its first step.\<close>

definition refused_statuses :: "step_status list \<Rightarrow> bool" where
  "refused_statuses ss \<longleftrightarrow> (\<exists>k j. ss = replicate k Skipped @ [Failed] @ replicate j Skipped)"

lemma refused_before: "k < a \<Longrightarrow>
    statuses (map (\<lambda>(i, s). refused_step T k m i s) (List.enumerate a steps)) = replicate (length steps) Skipped"
  by (induction steps arbitrary: a) (auto simp: statuses_def refused_step_def)

lemma refused_steps: "a \<le> k \<Longrightarrow> k < a + length steps \<Longrightarrow>
    statuses (map (\<lambda>(i, s). refused_step T k m i s) (List.enumerate a steps))
      = replicate (k - a) Skipped @ [Failed] @ replicate (a + length steps - Suc k) Skipped"
proof (induction steps arbitrary: a)
  case (Cons s steps)
  show ?case
  proof (cases "a = k")
    case True
    then show ?thesis using refused_before [of k "Suc k" T m steps] by (simp add: statuses_def refused_step_def)
  next
    case False
    with Cons.prems have "Suc a \<le> k" "k - a = Suc (k - Suc a)" by auto
    with Cons.IH [of "Suc a"] Cons.prems False show ?thesis by (simp add: statuses_def refused_step_def)
  qed
qed simp

lemma refused_indices: "map st_index (map (\<lambda>(i, s). refused_step T k m i s) (List.enumerate a steps)) = [a..<a + length steps]"
  by (induction steps arbitrary: a) (auto simp: refused_step_def upt_rec)

lemma unavailable_from_index:
  "unavailable_from i needs platform chrome steps = Refused b \<Longrightarrow> i \<le> ub_index b \<and> ub_index b < i + length steps"
proof (induction steps arbitrary: i needs)
  case (Cons s steps)
  have "Suc i \<le> ub_index b \<and> ub_index b < Suc i + length steps"
    if "unavailable_from (Suc i) n' platform chrome steps = Refused b" for n'
    using Cons.IH [OF that] .
  with Cons.prems show ?case
    by (fastforce split: step.splits button_availability.splits)
qed (simp split: if_splits)

lemma needs_chrome_index:
  "unavailable_from i False platform None steps = Needs_chrome \<Longrightarrow> unchecked_press platform i steps < i + length steps"
proof (induction steps arbitrary: i)
  case (Cons s steps)
  have "unchecked_press platform (Suc i) steps < Suc i + length steps"
    if "unavailable_from (Suc i) False platform None steps = Needs_chrome"
    using Cons.IH [OF that] .
  with Cons.prems show ?case
    by (cases s) (auto split: button_availability.splits if_splits)
qed simp

text \<open>What the record of a refused flow says.\<close>

definition refused_record :: "flow \<Rightarrow> flow_result \<Rightarrow> bool" where
  "refused_record fl res \<longleftrightarrow>
     refused_statuses (statuses (r_steps res)) \<and> map st_index (r_steps res) = [0..<length (fl_steps fl)]
     \<and> \<not> r_passed res \<and> r_failureKind res = Some Kind_environment \<and> \<not> r_deviceLacks res \<and> r_failureMessage res \<noteq> None"

lemma refusedFlow_record: "k < length (fl_steps fl) \<Longrightarrow> refused_record fl (refusedFlow T fl k m b)"
  using refused_steps [of 0 k "fl_steps fl" T m] refused_indices [of T k m 0 "fl_steps fl"]
  by (auto simp: refused_record_def refusedFlow_def refused_statuses_def)

lemma verdict_result_record:
  "verdict_result T fl platform (unavailableButton (fl_steps fl) platform c) = Some r \<Longrightarrow> refused_record fl r"
  by (auto simp: verdict_result_def unavailableButton_def split: button_verdict.splits
      dest!: unavailable_from_index intro!: refusedFlow_record)

lemma refuseButtons_record:
  assumes "refuseButtons H fl platform t w = (w', tr, Some r)"
  shows "refused_record fl r \<and> acted tr = []"
proof -
  have idx: "unavailableButton (fl_steps fl) platform None = Needs_chrome \<Longrightarrow>
      unchecked_press platform 0 (fl_steps fl) < length (fl_steps fl)"
    using needs_chrome_index [of 0 platform "fl_steps fl"] by (simp add: unavailableButton_def)
  have "refused_record fl r \<and> acted tr = []" if "unavailableButton (fl_steps fl) platform None = Needs_chrome"
    using assms that idx [OF that]
    by (auto simp: refuseButtons_def Let_def split: option.splits prod.splits sum.splits
        intro: refusedFlow_record verdict_result_record)
  moreover have "refused_record fl r \<and> acted tr = []" if "unavailableButton (fl_steps fl) platform None \<noteq> Needs_chrome"
    using assms that verdict_result_record [of "host_texts H" fl platform None r]
    by (auto simp: refuseButtons_def Let_def split: button_verdict.splits)
  ultimately show ?thesis by blast
qed

lemma refuseButtons_quiet: "refuseButtons H fl platform t w = (w', tr, None) \<Longrightarrow> acted tr = []"
  by (auto simp: refuseButtons_def Let_def split: option.splits prod.splits sum.splits button_verdict.splits)

text \<open>What the record of a flow that was run says.\<close>

definition run_record :: "flow \<Rightarrow> flow_result \<Rightarrow> bool" where
  "run_record fl res \<longleftrightarrow>
     accounts (statuses (r_steps res)) (r_passed res) \<and> map st_index (r_steps res) = [0..<length (fl_steps fl)]
     \<and> (r_passed res \<longleftrightarrow> r_failureMessage res = None) \<and> (r_passed res \<longleftrightarrow> r_failureKind res = None)
     \<and> (r_deviceLacks res \<longrightarrow> r_failureKind res = Some Kind_environment)"

lemma run_from_record:
  assumes "clock_ok H" and "1 \<le> pollMs" and "nat MAX_TIMER_MS < n" and "t \<le> MAX_TIMER_MS"
  shows "\<exists>w' tr res. run_from n H fl c t pollMs w = Some (w', tr, Inr res) \<and> run_record fl res
     \<and> (r_passed res \<or> ends_at_failure tr)"
proof -
  obtain w1 tr rs where rs: "run_steps n H fl t pollMs 0 (fl_steps fl) run_start w = Some (w1, tr, rs)"
    using run_steps_returns [OF assms] by (metis not_None_eq prod_cases3)
  have inv: "run_inv (length (fl_steps fl)) rs"
    using run_steps_inv [OF run_inv_start rs] by simp
  have "ends_at_failure tr" if "rs_failureMessage rs \<noteq> None"
    using run_steps_ends [OF _ rs that] by (simp add: run_start_def)
  then show ?thesis
    using rs inv
    by (cases "rs_failureMessage rs")
      (auto simp: run_from_def Let_def run_record_def run_inv_def split: prod.splits if_splits)
qed

end
