(* ===== verification/Flow_Props.thy ===== *)
theory Flow_Props
  imports Flow_Run
begin

text \<open>
  The properties of the flow runner, over any driver. The witnesses use a driver that plays back a
  list of answers, one for each read of the screen, on a clock that moves by a millisecond a read.
\<close>

subsection \<open>A driver that plays back\<close>

type_synonym script = "ms \<times> query_reply list"

definition play_query :: "ms \<Rightarrow> script \<Rightarrow> script \<times> query_reply" where
  "play_query b w =
     (case snd w of
        [] \<Rightarrow> ((fst w + 1, []), Answered [])
      | r # rs \<Rightarrow> ((fst w + 1, rs), r))"

definition plain_texts :: texts where
  "plain_texts = \<lparr>num_text = (\<lambda>_. ''#''), json_text = (\<lambda>_. ''{}'')\<rparr>"

definition player :: "script flow_host" where
  "player = \<lparr>clk = fst, sleep = (\<lambda>m w. (fst w + max 0 m, snd w)), query = play_query,
     act = (\<lambda>a w. (w, Inr None)), shoot = (\<lambda>m w. (w, Shot_failed)), chrome_of = None,
     host_texts = plain_texts\<rparr>"

lemma player_clock: "clock_ok player"
  by (auto simp: clock_ok_def player_def play_query_def split: list.split)

definition demo_frame :: ui_frame where
  "demo_frame = \<lparr>fr_x = 0, fr_y = 0, fr_width = 1, fr_height = 1 / 2\<rparr>"

definition demo_element :: "string \<Rightarrow> ui_element" where
  "demo_element l = \<lparr>el_role = ''button'', el_label = l, el_identifier = None, el_placeholder = None,
     el_frame = demo_frame, el_enabled = True, el_rawRole = None, el_secure = None, el_focused = None\<rparr>"

definition demo_selector :: selector where
  "demo_selector = \<lparr>sel_text = Some ''Pay'', sel_id = None, sel_label = None, sel_role = None,
     sel_index = None, sel_timeoutMs = None\<rparr>"

definition demo_flow :: flow where
  "demo_flow = \<lparr>fl_name = ''pay'', fl_appId = None, fl_tags = None, fl_steps = [Tap_on demo_selector], fl_file = None\<rparr>"

definition demo_options :: engine_options where
  "demo_options = \<lparr>eo_defaultTimeoutMs = None, eo_pollIntervalMs = None, eo_captureLastScreen = False, eo_platform = None\<rparr>"

subsection \<open>The properties\<close>

text \<open>
  A selector answers with elements of the screen that carry what it names and have the role it
  asks for, and an element that carries nothing it names changes nothing wherever on the screen it
  is: no fallback from an exact name to a partial one or to a placeholder is turned on or off by it.
\<close>

theorem selector_answers_only_what_it_names:
  assumes "\<not> carries sel e"
  shows "matchSelector (xs @ e # ys) sel = matchSelector (xs @ ys) sel
    \<and> (\<forall>x \<in> set (matchSelector tree sel). x \<in> set tree \<and> carries sel x \<and> (\<forall>r. sel_role sel = Some r \<longrightarrow> el_role x = r))"
proof
  have "filter (carries sel) (xs @ e # ys) = filter (carries sel) (xs @ ys)" using assms by simp
  then show "matchSelector (xs @ e # ys) sel = matchSelector (xs @ ys) sel"
    by (metis matchSelector_filter)
qed (use matchSelector_sub in blast)

theorem selector_answers_only_what_it_names_witness:
  "matchSelector [demo_element ''Pay now'', demo_element ''Cancel''] demo_selector
     = matchSelector [demo_element ''Pay now''] demo_selector"
proof -
  have "\<not> carries demo_selector (demo_element ''Cancel'')" by code_simp
  from selector_answers_only_what_it_names [OF this, of "[demo_element ''Pay now'']" "[]"] show ?thesis by simp
qed

text \<open>
  C36. A step that passes rests on a screen it read. A tap goes to the centre of the one element that
  matched on the last screen read, no earlier screen having matched anything; an assertion that
  something is visible saw it, and one that something is gone read a screen without it. A failed read
  never counts as either.
\<close>

theorem passed_steps_rest_on_a_screen:
  shows "(executeStep n H app t p (Tap_on sel) w = Some (w', tr, Inr v) \<longrightarrow>
      (\<exists>ts tree el. screens tr = ts @ [tree] \<and> matchSelector tree sel = [el] \<and> (\<forall>u \<in> set ts. matchSelector u sel = [])
         \<and> acted tr = [Do_tap (fst (center_of el)) (snd (center_of el))]))
    \<and> (executeStep n H app t p (Assert_visible sel) w = Some (w', tr, Inr v) \<longrightarrow>
      (\<exists>ts tree. screens tr = ts @ [tree] \<and> matchSelector tree sel \<noteq> []) \<and> acted tr = [])
    \<and> (executeStep n H app t p (Assert_not_visible sel) w = Some (w', tr, Inr v) \<longrightarrow>
      (\<exists>ts tree. screens tr = ts @ [tree] \<and> matchSelector tree sel = []) \<and> acted tr = [])"
proof (intro conjI impI)
  assume "executeStep n H app t p (Tap_on sel) w = Some (w', tr, Inr v)"
  then obtain w1 tr1 el tr2 where "resolveOne n H sel t p w = Some (w1, tr1, Inr el)"
    and "call_void H (Do_tap (fst (center_of el)) (snd (center_of el))) w1 = Some (w', tr2, Inr v)" and "tr = tr1 @ tr2"
    by (auto simp: and_then_Some)
  with resolveOne_hit [OF this(1)] call_void_fx [OF this(2)]
  show "\<exists>ts tree el. screens tr = ts @ [tree] \<and> matchSelector tree sel = [el] \<and> (\<forall>u \<in> set ts. matchSelector u sel = [])
     \<and> acted tr = [Do_tap (fst (center_of el)) (snd (center_of el))]" by auto
next
  assume "executeStep n H app t p (Assert_visible sel) w = Some (w', tr, Inr v)"
  then show "\<exists>ts tree. screens tr = ts @ [tree] \<and> matchSelector tree sel \<noteq> []" "acted tr = []"
    by (auto simp: and_then_Some resolved_void_fx dest!: waitVisible_hit)
next
  assume "executeStep n H app t p (Assert_not_visible sel) w = Some (w', tr, Inr v)"
  then show "\<exists>ts tree. screens tr = ts @ [tree] \<and> matchSelector tree sel = []" "acted tr = []"
    by (auto simp: and_then_Some resolved_void_fx dest!: waitNotVisible_hit)
qed

definition demo_script :: script where
  "demo_script = (0, [Query_failed (new_error Transient ''not up yet'') False,
     Answered [demo_element ''Pay now'', demo_element ''Cancel'']])"

theorem passed_steps_rest_on_a_screen_witness:
  "\<exists>w' tr v tree. executeStep 5 player None 10000 500 (Tap_on demo_selector) demo_script = Some (w', tr, Inr v)
     \<and> acted tr = [Do_tap (1 / 2) (1 / 4)] \<and> tree \<in> set (screens tr) \<and> length (matchSelector tree demo_selector) = 1"
proof -
  have run: "executeStep 5 player None 10000 500 (Tap_on demo_selector) demo_script = Some ((502, []),
      [Read (Blip (new_error Transient ''not up yet'') False),
       Read (Got [demo_element ''Pay now'', demo_element ''Cancel'']), Did (Do_tap (1 / 2) (1 / 4)) None], Inr None)"
    by code_simp
  from passed_steps_rest_on_a_screen
    [where n = 5 and H = player and app = None and t = 10000 and p = 500 and sel = demo_selector and w = demo_script, THEN conjunct1,
     THEN mp, OF run] run
  show ?thesis by fastforce
qed

text \<open>
  C37. The environment is blamed for a failed step only when the driver itself failed or the runner
  never saw the screen: once a screen has been read, a selector that does not match by the deadline is the
  product's failure, whatever reads failed around it.
\<close>

theorem environment_is_blamed_only_blind:
  assumes "executeStep n H app t p s w = Some (w', tr, Inl e)" and "isEnvironmentStepFailure e"
  shows "driver_threw e tr \<or> screens tr = []"
  using executeStep_blamed [OF assms(1)] assms(2) by (simp add: blamed_def)

theorem environment_is_blamed_only_blind_witness:
  "\<exists>w' tr e. executeStep 2 player None 1 500 (Tap_on demo_selector) (0, [Query_failed (new_error Transient ''down'') False])
       = Some (w', tr, Inl e) \<and> isEnvironmentStepFailure e \<and> screens tr = []"
proof -
  let ?go = "executeStep 2 player None 1 500 (Tap_on demo_selector) (0, [Query_failed (new_error Transient ''down'') False])"
  obtain w' tr e where go: "?go = Some (w', tr, Inl e)" "isEnvironmentStepFailure e" "\<not> driver_threw e tr"
  proof -
    have "?go = Some ((1, []), [Read (Blip (new_error Transient ''down'') False)],
        Inl (new_error Environment (withLastError (miss_text plain_texts demo_selector 1) (Some (new_error Transient ''down'', False)))))"
      by code_simp
    then show ?thesis using that by (auto simp: driver_threw_def)
  qed
  from environment_is_blamed_only_blind [OF go(1,2)] go show ?thesis by blast
qed

text \<open>
  C39. Every run of a flow ends, with as much fuel as the longest timer has milliseconds, whatever the
  driver answers; its record has one entry per step, in order. A flow refused before its first step
  touched nothing. One that ran lists passed steps, then at most one failed, then skipped ones; it has a
  message and a kind of failure exactly when it failed; and after the step that failed nothing was done
  but capturing the screen.
\<close>

theorem every_run_ends_and_accounts:
  assumes "clock_ok H" and "\<forall>p. eo_pollIntervalMs options = Some p \<longrightarrow> 1 \<le> p"
  shows "\<exists>w' tr r. runFlow FLOW_FUEL H fl options w = Some (w', tr, r)
    \<and> (case r of
         Inl e \<Rightarrow> isEnvironmentStepFailure e \<and> tr = []
       | Inr res \<Rightarrow> refused_record fl res \<and> acted tr = []
            \<or> run_record fl res \<and> (r_passed res \<or> ends_at_failure tr))"
proof -
  let ?t = "normalizeTimeoutMs (host_texts H)
     (case eo_defaultTimeoutMs options of Some t \<Rightarrow> t | None \<Rightarrow> Num (of_int DEFAULT_TIMEOUT_MS)) ''default timeout''"
  let ?p = "case eo_pollIntervalMs options of Some p \<Rightarrow> p | None \<Rightarrow> DEFAULT_POLL_INTERVAL_MS"
  show ?thesis
  proof (cases ?t)
    case (Inl e)
    then have "isEnvironmentStepFailure e"
      by (auto simp: normalizeTimeoutMs_def Let_def split: jnum.splits if_splits)
    with Inl show ?thesis by (simp add: runFlow_def)
  next
    case (Inr t)
    have p: "1 \<le> ?p" using assms(2) by (simp add: DEFAULT_POLL_INTERVAL_MS_def split: option.split)
    have t: "t \<le> MAX_TIMER_MS" using normalizeTimeoutMs_bounds [OF Inr] by simp
    obtain w1 tr1 ref where ref: "(case eo_platform options of
        Some platform \<Rightarrow> refuseButtons H fl platform t w | None \<Rightarrow> (w, [], None)) = (w1, tr1, ref)"
      by (metis prod_cases3)
    have fuel: "nat MAX_TIMER_MS < FLOW_FUEL" by (simp add: FLOW_FUEL_def)
    obtain w2 tr2 res where run: "run_from FLOW_FUEL H fl (eo_captureLastScreen options) t ?p w1 = Some (w2, tr2, Inr res)"
        "run_record fl res" "r_passed res \<or> ends_at_failure tr2"
      using run_from_record [OF assms(1) p fuel t, of fl "eo_captureLastScreen options" w1] by blast
    show ?thesis
    proof (cases ref)
      case None
      with run ref Inr ends_at_failure_append [of tr2 tr1] show ?thesis by (auto simp: runFlow_def Let_def)
    next
      case (Some r)
      with ref have "refused_record fl r \<and> acted tr1 = []"
        using refuseButtons_record [of H fl _ t w w1 tr1 r] by (auto split: option.splits)
      with Some ref Inr show ?thesis by (auto simp: runFlow_def Let_def)
    qed
  qed
qed

theorem every_run_ends_and_accounts_witness:
  "clock_ok player \<and> runFlow FLOW_FUEL player demo_flow demo_options demo_script \<noteq> None"
  using every_run_ends_and_accounts [OF player_clock, of demo_options demo_flow demo_script] player_clock
  by (auto simp: demo_options_def)



end
