(* ===== verification/Device_List.thy ===== *)
theory Device_List
  imports Session_Model
begin

text \<open>
  \<open>packages/agent-core/src/utils/deviceListWatcher.ts\<close>: how an agent notices devices that appear and
  leave. A read of the list is asynchronous, so \<open>tick\<close> is two steps: the one that starts the read and
  the one its answer resumes, with the generation it captured kept in \<open>wt_reading\<close>. The specification is
  an automaton for each device: listed, missed once, absent.
\<close>

subsection \<open>The code\<close>

definition DEVICE_REREAD_MS :: ms where "DEVICE_REREAD_MS = 30000"

record watcher =
  wt_sent :: "device_report list"
  wt_missingOnce :: "string list"
  wt_timer :: bool \<comment> \<open>\<open>timer\<close> is set\<close>
  wt_reading :: "nat option" \<comment> \<open>the generation of the read in flight\<close>
  wt_generation :: nat

definition new_watcher :: watcher where
  "new_watcher = \<lparr>wt_sent = [], wt_missingOnce = [], wt_timer = False, wt_reading = None, wt_generation = 0\<rparr>"

datatype watcher_fx = Begin_read | Read_error | Send "device_report list"

datatype watcher_event =
    Start "device_report list"
  | Stop
  | Tick
  | Read_done "device_report list option" \<comment> \<open>\<open>None\<close>: the read threw\<close>

definition stop :: "watcher \<Rightarrow> watcher" where
  "stop w = w\<lparr>wt_generation := wt_generation w + 1, wt_timer := False, wt_missingOnce := []\<rparr>"

definition start :: "device_report list \<Rightarrow> watcher \<Rightarrow> watcher" where
  "start baseline w = (stop w)\<lparr>wt_sent := baseline, wt_timer := True\<rparr>"

definition by_id :: "device_report list \<Rightarrow> string \<Rightarrow> device_report option" where
  "by_id ds = map_of (rev (map (\<lambda>d. (r_id d, d)) ds))"

text \<open>The devices of the last list that the read does not have, and those to remember as missed.\<close>

fun keep_missing :: "device_report list \<Rightarrow> string list \<Rightarrow> device_report list \<Rightarrow> device_report list \<times> string list" where
  "keep_missing read missing [] = ([], missing)"
| "keep_missing read missing (prev # ps) =
     (if by_id read (r_id prev) \<noteq> None \<or> r_id prev \<in> set missing
      then keep_missing read (removeAll (r_id prev) missing) ps
      else (case keep_missing read (missing @ [r_id prev]) ps of (kept, m) \<Rightarrow> (prev # kept, m)))"

definition changed :: "device_report list \<Rightarrow> device_report list \<Rightarrow> bool" where
  "changed sent next =
     (if length sent \<noteq> length next then True
      else list_ex (\<lambda>d. case by_id sent (r_id d) of
             None \<Rightarrow> True
           | Some prev \<Rightarrow> r_name prev \<noteq> r_name d \<or> r_formFactor prev \<noteq> r_formFactor d
               \<or> (r_osVersion d \<noteq> None \<and> r_osVersion d \<noteq> r_osVersion prev)) next)"

definition keep_version :: "device_report list \<Rightarrow> device_report \<Rightarrow> device_report" where
  "keep_version sent d =
     (case by_id sent (r_id d) of
        Some prev \<Rightarrow> if r_osVersion d = None \<and> r_osVersion prev \<noteq> None then d\<lparr>r_osVersion := r_osVersion prev\<rparr> else d
      | None \<Rightarrow> d)"

definition begin_tick :: "watcher \<Rightarrow> watcher \<times> watcher_fx list" where
  "begin_tick w =
     (if wt_reading w \<noteq> None \<or> \<not> wt_timer w then (w, [])
      else (w\<lparr>wt_reading := Some (wt_generation w)\<rparr>, [Begin_read]))"

definition apply_read :: "device_report list \<Rightarrow> watcher \<Rightarrow> watcher \<times> watcher_fx list" where
  "apply_read read w =
     (case keep_missing read (wt_missingOnce w) (wt_sent w) of
        (kept, missing) \<Rightarrow>
          (let next = read @ kept; w1 = w\<lparr>wt_missingOnce := missing\<rparr> in
           if \<not> changed (wt_sent w) next then (w1, [])
           else (w1\<lparr>wt_sent := map (keep_version (wt_sent w)) next\<rparr>, [Send next])))"

definition end_tick :: "device_report list option \<Rightarrow> watcher \<Rightarrow> watcher \<times> watcher_fx list" where
  "end_tick result w =
     (case wt_reading w of
        None \<Rightarrow> (w, [])
      | Some g \<Rightarrow>
          (let w1 = w\<lparr>wt_reading := None\<rparr> in
           if g \<noteq> wt_generation w then (w1, [])
           else (case result of None \<Rightarrow> (w1, [Read_error]) | Some read \<Rightarrow> apply_read read w1)))"

fun watcher_step :: "watcher_event \<Rightarrow> watcher \<Rightarrow> watcher \<times> watcher_fx list" where
  "watcher_step (Start baseline) w = (start baseline w, [])"
| "watcher_step Stop w = (stop w, [])"
| "watcher_step Tick w = begin_tick w"
| "watcher_step (Read_done result) w = end_tick result w"

subsection \<open>The specification\<close>

datatype presence = Listed | Missed | Absent

text \<open>What one read of the list says of one device.\<close>

fun after_read :: "bool \<Rightarrow> presence \<Rightarrow> presence" where
  "after_read True p = Listed"
| "after_read False Listed = Missed"
| "after_read False Missed = Absent"
| "after_read False Absent = Absent"

record watcher_spec =
  sp_presence :: "string \<Rightarrow> presence"
  sp_running :: bool
  sp_read :: "bool option" \<comment> \<open>a read in flight, and whether its answer will count\<close>

definition ids :: "device_report list \<Rightarrow> string set" where
  "ids ds = r_id ` set ds"

definition forget_misses :: "(string \<Rightarrow> presence) \<Rightarrow> string \<Rightarrow> presence" where
  "forget_misses p i = (if p i = Absent then Absent else Listed)"

fun spec_step :: "watcher_event \<Rightarrow> watcher_spec \<Rightarrow> watcher_spec" where
  "spec_step (Start baseline) a =
     \<lparr>sp_presence = (\<lambda>i. if i \<in> ids baseline then Listed else Absent), sp_running = True,
      sp_read = map_option (\<lambda>_. False) (sp_read a)\<rparr>"
| "spec_step Stop a =
     \<lparr>sp_presence = forget_misses (sp_presence a), sp_running = False, sp_read = map_option (\<lambda>_. False) (sp_read a)\<rparr>"
| "spec_step Tick a = (if sp_read a \<noteq> None \<or> \<not> sp_running a then a else a\<lparr>sp_read := Some True\<rparr>)"
| "spec_step (Read_done result) a =
     (let a1 = a\<lparr>sp_read := None\<rparr> in
      case result of
        Some read \<Rightarrow> if sp_read a = Some True
          then a1\<lparr>sp_presence := (\<lambda>i. after_read (i \<in> ids read) (sp_presence a i))\<rparr> else a1
      | None \<Rightarrow> a1)"

definition presence_of :: "watcher \<Rightarrow> string \<Rightarrow> presence" where
  "presence_of w i = (if i \<notin> ids (wt_sent w) then Absent else if i \<in> set (wt_missingOnce w) then Missed else Listed)"

definition spec_of :: "watcher \<Rightarrow> watcher_spec" where
  "spec_of w = \<lparr>sp_presence = presence_of w, sp_running = wt_timer w,
     sp_read = map_option (\<lambda>g. g = wt_generation w) (wt_reading w)\<rparr>"

subsection \<open>The code follows the specification\<close>

definition distinct_ids :: "device_report list \<Rightarrow> bool" where
  "distinct_ids ds \<longleftrightarrow> distinct (map r_id ds)"

definition watcher_inv :: "watcher \<Rightarrow> bool" where
  "watcher_inv w \<longleftrightarrow> distinct_ids (wt_sent w) \<and> set (wt_missingOnce w) \<subseteq> ids (wt_sent w)
     \<and> (\<forall>g. wt_reading w = Some g \<longrightarrow> g \<le> wt_generation w)"

fun watcher_ok :: "watcher_event \<Rightarrow> bool" where
  "watcher_ok (Start baseline) \<longleftrightarrow> distinct_ids baseline"
| "watcher_ok (Read_done (Some read)) \<longleftrightarrow> distinct_ids read"
| "watcher_ok _ \<longleftrightarrow> True"

lemma by_id_None: "by_id ds i = None \<longleftrightarrow> i \<notin> ids ds"
  by (auto simp: by_id_def ids_def map_of_eq_None_iff image_image)

lemma ids_simps [simp]: "ids [] = {}" "ids (d # ds) = insert (r_id d) (ids ds)" "ids (a @ b) = ids a \<union> ids b"
  by (auto simp: ids_def)

lemma ids_keep_version [simp]: "ids (map (keep_version sent) ds) = ids ds"
  by (auto simp: ids_def keep_version_def image_image split: option.split intro!: image_cong)

lemma r_id_keep_version [simp]: "r_id (keep_version sent d) = r_id d"
  by (simp add: keep_version_def split: option.split)

lemma keep_missing_spec:
  assumes "keep_missing read missing ps = (kept, m)" and "distinct_ids ps"
  shows "ids kept = {i \<in> ids ps. i \<notin> ids read \<and> i \<notin> set missing}
    \<and> set m = (set missing - ids ps) \<union> ids kept \<and> distinct_ids kept"
  using assms
proof (induction ps arbitrary: missing kept m)
  case (Cons p ps)
  have d: "distinct_ids ps" "r_id p \<notin> ids ps" using Cons.prems(2) by (auto simp: distinct_ids_def ids_def)
  show ?case
  proof (cases "r_id p \<in> ids read \<or> r_id p \<in> set missing")
    case True
    with Cons.prems have "keep_missing read (removeAll (r_id p) missing) ps = (kept, m)"
      by (auto simp: by_id_None)
    from Cons.IH [OF this d(1)] True d(2) show ?thesis by auto
  next
    case False
    with Cons.prems obtain kept' where k: "keep_missing read (missing @ [r_id p]) ps = (kept', m)" "kept = p # kept'"
      by (auto simp: by_id_None split: prod.splits)
    from Cons.IH [OF k(1) d(1)] False d(2) k(2) show ?thesis
      by (auto simp: distinct_ids_def ids_def)
  qed
qed (simp add: distinct_ids_def)

lemma unchanged_ids:
  assumes "\<not> changed sent next" and "distinct_ids sent" and "distinct_ids next"
  shows "ids next = ids sent"
proof -
  have len: "length sent = length next" using assms(1) by (cases "length sent = length next") (simp_all add: changed_def)
  have "by_id sent (r_id d) \<noteq> None" if "d \<in> set next" for d
    using assms(1) that by (fastforce simp: changed_def list_ex_iff split: if_splits option.splits)
  then have "ids next \<subseteq> ids sent" by (auto simp: by_id_None ids_def)
  moreover have "card (ids next) = card (ids sent)"
    using assms(2,3) len distinct_card [of "map r_id sent"] distinct_card [of "map r_id next"]
    by (simp add: distinct_ids_def ids_def)
  ultimately show ?thesis by (metis card_subset_eq List.finite_set finite_imageI ids_def)
qed

lemma apply_read_spec:
  assumes "watcher_inv w" and "distinct_ids read" and "wt_reading w = None"
  shows "watcher_inv (fst (apply_read read w))
    \<and> presence_of (fst (apply_read read w)) = (\<lambda>i. after_read (i \<in> ids read) (presence_of w i))
    \<and> wt_timer (fst (apply_read read w)) = wt_timer w \<and> wt_reading (fst (apply_read read w)) = None
    \<and> wt_generation (fst (apply_read read w)) = wt_generation w"
proof -
  obtain kept m where k: "keep_missing read (wt_missingOnce w) (wt_sent w) = (kept, m)" by fastforce
  have d: "distinct_ids (wt_sent w)" and sub: "set (wt_missingOnce w) \<subseteq> ids (wt_sent w)"
    using assms(1) by (auto simp: watcher_inv_def)
  note km = keep_missing_spec [OF k d]
  let ?next = "read @ kept"
  have dn: "distinct_ids ?next"
    using assms(2) km by (auto simp: distinct_ids_def ids_def)
  have m: "set m = ids kept" using km sub by auto
  let ?w = "fst (apply_read read w)"
  have sent: "ids (wt_sent ?w) = ids ?next \<and> distinct_ids (wt_sent ?w)"
    using unchanged_ids [OF _ d dn] dn d
    by (auto simp: apply_read_def k Let_def distinct_ids_def comp_def)
  have rest: "wt_missingOnce ?w = m" "wt_timer ?w = wt_timer w" "wt_reading ?w = None" "wt_generation ?w = wt_generation w"
    using assms(3) by (auto simp: apply_read_def k Let_def)
  have "presence_of ?w i = after_read (i \<in> ids read) (presence_of w i)" for i
    using km m sub sent rest(1) by (auto simp: presence_of_def)
  then show ?thesis
    using sent rest m by (auto simp: watcher_inv_def)
qed

lemma watcher_step_spec:
  assumes "watcher_inv w" and "watcher_ok e"
  shows "watcher_inv (fst (watcher_step e w)) \<and> spec_of (fst (watcher_step e w)) = spec_step e (spec_of w)"
proof (cases e)
  case (Start baseline)
  with assms show ?thesis
    by (cases "wt_reading w") (auto simp: start_def stop_def watcher_inv_def spec_of_def presence_of_def fun_eq_iff)
next
  case Stop
  with assms show ?thesis
    by (cases "wt_reading w") (auto simp: stop_def watcher_inv_def spec_of_def presence_of_def forget_misses_def fun_eq_iff)
next
  case Tick
  with assms show ?thesis
    by (auto simp: begin_tick_def watcher_inv_def spec_of_def presence_of_def fun_eq_iff)
next
  case (Read_done result)
  show ?thesis
  proof (cases "wt_reading w")
    case None
    then show ?thesis
      using assms(1) by (cases result) (auto simp: Read_done end_tick_def spec_of_def Let_def)
  next
    case (Some g)
    let ?w = "w\<lparr>wt_reading := None\<rparr>"
    have inv: "watcher_inv ?w" using assms(1) by (simp add: watcher_inv_def)
    have pres: "presence_of ?w = presence_of w" by (simp add: presence_of_def fun_eq_iff)
    show ?thesis
    proof (cases result)
      case None
      with Some inv pres show ?thesis by (simp add: Read_done end_tick_def spec_of_def Let_def)
    next
      case r: (Some read)
      then have "distinct_ids read" using assms(2) Read_done by simp
      from apply_read_spec [OF inv this] Some inv pres r show ?thesis
        by (auto simp: Read_done end_tick_def spec_of_def Let_def)
    qed
  qed
qed

interpretation device_watcher: refining_system watcher_step watcher_ok watcher_inv spec_of spec_step
  by unfold_locales (use watcher_step_spec in blast)+

subsection \<open>The list the relay has\<close>

text \<open>The last list announced: the one registered with at a start, or the last one sent.\<close>

fun announced :: "device_report list \<Rightarrow> watcher_fx list \<Rightarrow> device_report list" where
  "announced l [] = l"
| "announced l (Send ds # fx) = announced ds fx"
| "announced l (f # fx) = announced l fx"

lemma watcher_step_announced:
  assumes "\<forall>b. e \<noteq> Start b" and "ids l = ids (wt_sent w)"
  shows "ids (announced l (snd (watcher_step e w))) = ids (wt_sent (fst (watcher_step e w)))"
  using assms
  by (cases e) (auto simp: stop_def begin_tick_def end_tick_def apply_read_def Let_def
      split: option.splits prod.splits)

lemma announced_append: "announced l (a @ b) = announced (announced l a) b"
  by (induction l a rule: announced.induct) auto

lemma run_announced:
  "\<forall>e \<in> set es. \<forall>b. e \<noteq> Start b \<Longrightarrow> ids l = ids (wt_sent w) \<Longrightarrow>
     ids (announced l (snd (run watcher_step es w))) = ids (wt_sent (fst (run watcher_step es w)))"
proof (induction es arbitrary: l w)
  case (Cons e es)
  then have "ids (announced l (snd (watcher_step e w))) = ids (wt_sent (fst (watcher_step e w)))"
    by (intro watcher_step_announced) auto
  with Cons show ?case by (simp add: announced_append)
qed simp

text \<open>
  C21. Over every run after a start, the watcher follows the specification: a device is added by the
  first read that has it and leaves only when two reads in a row that count are without it; a read
  that fails, or that was begun before the last start or stop, changes nothing. The list last announced
  to the relay has exactly the devices the specification does not call absent.
\<close>

theorem watcher_follows_the_presence_spec:
  assumes "distinct_ids baseline" and "list_all watcher_ok es" and "\<forall>e \<in> set es. \<forall>b. e \<noteq> Start b"
    and "watcher_inv w0"
  shows "let w = start baseline w0; (w', fx) = run watcher_step es w; a = fold spec_step es (spec_step (Start baseline) (spec_of w0))
    in spec_of w' = a \<and> ids (announced baseline fx) = {i. sp_presence a i \<noteq> Absent}"
proof -
  let ?w = "start baseline w0"
  have w: "watcher_inv ?w \<and> spec_of ?w = spec_step (Start baseline) (spec_of w0)"
    using watcher_step_spec [OF assms(4), of "Start baseline"] assms(1) by simp
  let ?a = "fold spec_step es (spec_step (Start baseline) (spec_of w0))"
  have spec: "spec_of (fst (run watcher_step es ?w)) = ?a"
    using device_watcher.run_refines [of ?w es] assms(2) w by (simp del: spec_step.simps)
  have "ids (announced baseline (snd (run watcher_step es ?w))) = ids (wt_sent (fst (run watcher_step es ?w)))"
    by (rule run_announced [OF assms(3)]) (simp add: start_def)
  also have "\<dots> = {i. sp_presence ?a i \<noteq> Absent}"
    unfolding spec [symmetric] by (auto simp: spec_of_def presence_of_def)
  finally show ?thesis using spec by (simp add: Let_def case_prod_beta del: spec_step.simps)
qed

definition demo_device :: "string \<Rightarrow> device_report" where
  "demo_device i = \<lparr>r_id = i, r_name = i, r_platform = ''ios'', r_status = Booted, r_osVersion = None,
     r_formFactor = None, r_serviceTier = None\<rparr>"

theorem watcher_follows_the_presence_spec_witness:
  "ids (announced [demo_device ''a'', demo_device ''b'']
     (snd (run watcher_step [Tick, Read_done (Some [demo_device ''a'']), Tick, Read_done (Some [demo_device ''a''])]
       (start [demo_device ''a'', demo_device ''b''] new_watcher)))) = {''a''}"
proof -
  let ?es = "[Tick, Read_done (Some [demo_device ''a'']), Tick, Read_done (Some [demo_device ''a''])]"
  let ?b = "[demo_device ''a'', demo_device ''b'']"
  have "distinct_ids ?b" "list_all watcher_ok ?es" "\<forall>e \<in> set ?es. \<forall>b. e \<noteq> Start b" "watcher_inv new_watcher"
    by (simp_all add: distinct_ids_def demo_device_def watcher_inv_def new_watcher_def)
  from watcher_follows_the_presence_spec [OF this]
  have "ids (announced ?b (snd (run watcher_step ?es (start ?b new_watcher))))
     = {i. sp_presence (fold spec_step ?es (spec_step (Start ?b) (spec_of new_watcher))) i \<noteq> Absent}"
    by (simp add: Let_def case_prod_beta)
  also have "\<dots> = {''a''}"
    by (auto simp: demo_device_def new_watcher_def spec_of_def Let_def split: if_splits)
  finally show ?thesis .
qed

end
