(* ===== verification/Launch_Options.thy ===== *)
theory Launch_Options
  imports Flow_Describe
begin

text \<open>
  What an app may be launched with (\<open>packages/protocol/src/launch/index.ts\<close>) and how it gets there: as one
  line for the device's shell on Android (\<open>packages/android-agent/src/launchExtras.ts\<close>), as property-list
  strings on iOS (\<open>packages/ios-agent/src/launchArgs.ts\<close>). An unchecked value is a \<open>jval\<close>; the reasons a
  check gives are a datatype for their texts. The specification reads the line back: POSIX quoting, with
  every character a shell acts on refused, and the options of \<open>am start\<close>.
\<close>

subsection \<open>The check\<close>

datatype jval =
    V_undefined | V_null | V_bool bool | V_num jnum | V_str string | V_arr "jval list" | V_obj "(string \<times> jval) list"

definition MAX_LAUNCH_KEYS :: nat where "MAX_LAUNCH_KEYS = 32"
definition MAX_LAUNCH_TOTAL :: nat where "MAX_LAUNCH_TOTAL = 8192"

definition code_of :: "char \<Rightarrow> nat" where "code_of c = of_char c"

definition is_lower :: "char \<Rightarrow> bool" where
  "is_lower c \<longleftrightarrow> 97 \<le> code_of c \<and> code_of c \<le> 122"

definition is_alpha :: "char \<Rightarrow> bool" where
  "is_alpha c \<longleftrightarrow> is_upper c \<or> is_lower c"

definition is_alnum :: "char \<Rightarrow> bool" where
  "is_alnum c \<longleftrightarrow> is_alpha c \<or> is_digit c"

definition key_char :: "char \<Rightarrow> bool" where
  "key_char c \<longleftrightarrow> is_alnum c \<or> c \<in> set ''_.-''"

definition ARGUMENT_KEY :: "string \<Rightarrow> bool" where
  "ARGUMENT_KEY k \<longleftrightarrow> (case k of [] \<Rightarrow> False | c # cs \<Rightarrow> is_alnum c \<and> list_all key_char cs \<and> length cs \<le> 127)"

definition ENV_NAME :: "string \<Rightarrow> bool" where
  "ENV_NAME k \<longleftrightarrow> (case k of [] \<Rightarrow> False
     | c # cs \<Rightarrow> (is_alpha c \<or> c = CHR ''_'') \<and> list_all (\<lambda>d. is_alnum d \<or> d = CHR ''_'') cs \<and> length cs \<le> 127)"

definition RESERVED_ENV_PREFIXES :: "string list" where
  "RESERVED_ENV_PREFIXES = [''DYLD_'', ''TAPFLOW_'', ''SIMULATOR_'', ''SIMCTL_CHILD_'', ''__XPC_'']"

definition RESERVED_ENV_NAMES :: "string list" where
  "RESERVED_ENV_NAMES = [''HOME'', ''TMPDIR'', ''CFFIXED_USER_HOME'']"

definition is_control :: "char \<Rightarrow> bool" where
  "is_control c \<longleftrightarrow> code_of c \<le> 8 \<or> (11 \<le> code_of c \<and> code_of c \<le> 31) \<or> code_of c = 127"

datatype launch_problem =
    Control_characters | Leading_dash | Key_form | Not_a_whole_number | Empty_list | Item_not_a_string nat
  | Item_comma nat | Item_backslash nat | Item_control nat | Value_type
  | Name_form | Reserved_name | Env_not_a_string
  | Arguments_not_a_map | Env_not_a_map | Too_many_keys nat | Too_long nat

definition checkString :: "string \<Rightarrow> launch_problem option" where
  "checkString v = (if list_ex is_control v then Some Control_characters else None)"

definition safe_integer :: "jnum \<Rightarrow> bool" where
  "safe_integer n = (case n of Not_finite \<Rightarrow> False | Num q \<Rightarrow> of_int \<lfloor>q\<rfloor> = q \<and> \<bar>q\<bar> \<le> 9007199254740991)"

definition comma :: char where "comma = CHR '',''"
definition backslash :: char where "backslash = CHR 0x5C"
definition squote :: char where "squote = CHR 0x27"

fun check_items :: "nat \<Rightarrow> jval list \<Rightarrow> launch_problem option" where
  "check_items i [] = None"
| "check_items i (v # vs) =
     (case v of
        V_str item \<Rightarrow>
          if comma \<in> set item then Some (Item_comma i)
          else if item \<noteq> [] \<and> last item = backslash then Some (Item_backslash i)
          else if checkString item \<noteq> None then Some (Item_control i)
          else check_items (Suc i) vs
      | _ \<Rightarrow> Some (Item_not_a_string i))"

definition checkArgument :: "string \<Rightarrow> jval \<Rightarrow> launch_problem option" where
  "checkArgument key val =
     (if starts_with ''-'' key then Some Leading_dash
      else if \<not> ARGUMENT_KEY key then Some Key_form
      else (case val of
              V_str s \<Rightarrow> checkString s
            | V_bool b \<Rightarrow> None
            | V_num n \<Rightarrow> if safe_integer n then None else Some Not_a_whole_number
            | V_arr vs \<Rightarrow> if length vs = 0 then Some Empty_list else check_items 0 vs
            | _ \<Rightarrow> Some Value_type))"

definition checkEnv :: "string \<Rightarrow> jval \<Rightarrow> launch_problem option" where
  "checkEnv name val =
     (if \<not> ENV_NAME name then Some Name_form
      else if name \<in> set RESERVED_ENV_NAMES \<or> list_ex (\<lambda>p. starts_with p name) RESERVED_ENV_PREFIXES
      then Some Reserved_name
      else (case val of V_str s \<Rightarrow> checkString s | _ \<Rightarrow> Some Env_not_a_string))"

definition bool_text :: "bool \<Rightarrow> string" where
  "bool_text b = (if b then ''true'' else ''false'')"

text \<open>What \<open>measure\<close> adds, for the values that reach it.\<close>

definition scalar_length :: "jval \<Rightarrow> nat" where
  "scalar_length v = (case v of
       V_str s \<Rightarrow> length s
     | V_bool b \<Rightarrow> length (bool_text b)
     | V_num (Num q) \<Rightarrow> length (int_text \<lfloor>q\<rfloor>)
     | _ \<Rightarrow> 0)"

definition measured :: "string \<times> jval \<Rightarrow> nat" where
  "measured kv = length (fst kv) + (case snd kv of
       V_arr vs \<Rightarrow> sum_list (map (\<lambda>v. scalar_length v + 1) vs)
     | v \<Rightarrow> scalar_length v)"

fun first_problem :: "(string \<Rightarrow> jval \<Rightarrow> launch_problem option) \<Rightarrow> (string \<times> jval) list \<Rightarrow> launch_problem option" where
  "first_problem chk [] = None"
| "first_problem chk ((k, v) # kvs) = (case chk k v of Some p \<Rightarrow> Some p | None \<Rightarrow> first_problem chk kvs)"

definition map_entries :: "launch_problem \<Rightarrow> jval \<Rightarrow> launch_problem + (string \<times> jval) list" where
  "map_entries p v = (case v of V_undefined \<Rightarrow> Inr [] | V_obj kvs \<Rightarrow> Inr kvs | _ \<Rightarrow> Inl p)"

definition launchOptionsProblem :: "jval \<Rightarrow> jval \<Rightarrow> launch_problem option" where
  "launchOptionsProblem args env =
     (case map_entries Arguments_not_a_map args of
        Inl p \<Rightarrow> Some p
      | Inr as \<Rightarrow>
         (case first_problem checkArgument as of
            Some p \<Rightarrow> Some p
          | None \<Rightarrow>
             (case map_entries Env_not_a_map env of
                Inl p \<Rightarrow> Some p
              | Inr es \<Rightarrow>
                 (case first_problem checkEnv es of
                    Some p \<Rightarrow> Some p
                  | None \<Rightarrow>
                     (let keys = length as + length es; total = sum_list (map measured (as @ es)) in
                      if MAX_LAUNCH_KEYS < keys then Some (Too_many_keys keys)
                      else if MAX_LAUNCH_TOTAL < total then Some (Too_long total)
                      else None)))))"

definition hasLaunchOptions :: "launch_options option \<Rightarrow> bool" where
  "hasLaunchOptions opts =
     (case opts of None \<Rightarrow> False
      | Some lo \<Rightarrow> 0 < length (entries (lo_arguments lo)) \<or> 0 < length (entries (lo_env lo)))"

definition appliedKeys :: "launch_options \<Rightarrow> launch_applied" where
  "appliedKeys lo = \<lparr>la_arguments = map fst (entries (lo_arguments lo)), la_env = map fst (entries (lo_env lo))\<rparr>"

definition nonempty :: "'a list option \<Rightarrow> 'a list option" where
  "nonempty m = (if 0 < length (entries m) then m else None)"

definition compactLaunchOptions :: "launch_options option \<Rightarrow> launch_options option" where
  "compactLaunchOptions opts =
     (if \<not> hasLaunchOptions opts then None
      else map_option (\<lambda>lo. \<lparr>lo_arguments = nonempty (lo_arguments lo), lo_env = nonempty (lo_env lo)\<rparr>) opts)"

subsection \<open>The Android line\<close>

definition shellQuote :: "string \<Rightarrow> string" where
  "shellQuote s = [squote] @ concat (map (\<lambda>c. if c = squote then [squote, backslash, squote, squote] else [c]) s) @ [squote]"

definition INT32_MIN :: int where "INT32_MIN = - (2 ^ 31)"
definition INT32_MAX :: int where "INT32_MAX = 2 ^ 31 - 1"

definition extra :: "string \<Rightarrow> launch_arg \<Rightarrow> string list" where
  "extra key v =
     (let k = shellQuote key in
      case v of
        Arg_bool b \<Rightarrow> [''--ez'', k, bool_text b]
      | Arg_number n \<Rightarrow> [if INT32_MIN \<le> n \<and> n \<le> INT32_MAX then ''--ei'' else ''--el'', k, int_text n]
      | Arg_list vs \<Rightarrow> [''--esa'', k, shellQuote (join [comma] vs)]
      | Arg_string s \<Rightarrow> [''--es'', k, shellQuote s])"

definition androidLaunchExtras :: "(string \<times> launch_arg) list \<Rightarrow> string list" where
  "androidLaunchExtras args = concat (map (\<lambda>(k, v). extra k v) args)"

subsection \<open>The iOS arguments\<close>

definition dquote :: char where "dquote = CHR 0x22"

definition plistString :: "string \<Rightarrow> string" where
  "plistString s =
     [dquote] @ concat (map (\<lambda>c. if c = backslash then [backslash, backslash]
        else if c = dquote then [backslash, dquote] else [c]) s) @ [dquote]"

fun plistValue :: "launch_arg \<Rightarrow> string" where
  "plistValue (Arg_list vs) = ''('' @ join [comma] (map plistString vs) @ '')''"
| "plistValue (Arg_string s) = plistString s"
| "plistValue (Arg_number n) = plistString (int_text n)"
| "plistValue (Arg_bool b) = plistString (bool_text b)"

definition iosLaunchArgv :: "(string \<times> launch_arg) list \<Rightarrow> string list" where
  "iosLaunchArgv args = concat (map (\<lambda>(k, v). [''-'' @ k, plistValue v]) args)"

definition simctlChildEnv :: "(string \<times> string) list \<Rightarrow> (string \<times> string) list" where
  "simctlChildEnv env = map (\<lambda>(k, v). (''SIMCTL_CHILD_'' @ k, v)) env"

subsection \<open>Reading the line back\<close>

definition plain_char :: "char \<Rightarrow> bool" where
  "plain_char c \<longleftrightarrow> is_alnum c \<or> c = CHR ''-''"

text \<open>
  The words a POSIX shell makes of a line: within single quotes every character stands for itself,
  outside them a backslash quotes the next character and blanks separate words. A line with any other
  character outside quotes has no reading here, so nothing the shell would act on is let through.
\<close>

fun add_char :: "char \<Rightarrow> string option \<Rightarrow> string option" where
  "add_char c None = Some [c]"
| "add_char c (Some word) = Some (word @ [c])"

definition word_of :: "string option \<Rightarrow> string" where
  "word_of w = (case w of None \<Rightarrow> [] | Some s \<Rightarrow> s)"

fun sh_read :: "bool \<Rightarrow> string option \<Rightarrow> string \<Rightarrow> string list option" where
  "sh_read True w [] = None"
| "sh_read True w (c # cs) = (if c = squote then sh_read False w cs else sh_read True (add_char c w) cs)"
| "sh_read False w [] = Some (case w of None \<Rightarrow> [] | Some s \<Rightarrow> [s])"
| "sh_read False w (c # cs) =
     (if c = CHR '' '' then map_option (\<lambda>ws. (case w of None \<Rightarrow> [] | Some s \<Rightarrow> [s]) @ ws) (sh_read False None cs)
      else if c = squote then sh_read True (Some (word_of w)) cs
      else if c = backslash then (case cs of [] \<Rightarrow> None | d # ds \<Rightarrow> sh_read False (add_char d w) ds)
      else if plain_char c then sh_read False (add_char c w) cs
      else None)"

text \<open>Java's \<open>split("(?<!\\\\),")\<close>: at a comma not after a backslash, trailing empty strings dropped.\<close>

fun split_commas :: "string \<Rightarrow> bool \<Rightarrow> string \<Rightarrow> string list" where
  "split_commas cur escaped [] = [cur]"
| "split_commas cur escaped (c # cs) =
     (if c = comma \<and> \<not> escaped then cur # split_commas [] False cs
      else split_commas (cur @ [c]) (c = backslash) cs)"

definition java_split :: "string \<Rightarrow> string list" where
  "java_split s = (if comma \<notin> set s then [s] else rev (dropWhile (\<lambda>x. x = []) (rev (split_commas [] False s))))"

definition digits_value :: "string \<Rightarrow> nat" where
  "digits_value s = foldl (\<lambda>n c. 10 * n + (code_of c - 48)) 0 s"

definition int_value :: "string \<Rightarrow> int" where
  "int_value s = (if starts_with ''-'' s then - int (digits_value (tl s)) else int (digits_value s))"

text \<open>The extras \<open>am start\<close> makes of its words.\<close>

fun read_extras :: "string list \<Rightarrow> (string \<times> launch_arg) list option" where
  "read_extras [] = Some []"
| "read_extras (opt # k # v # rest) =
     (case (if opt = ''--ez'' then Some (Arg_bool (v = ''true''))
            else if opt = ''--ei'' \<or> opt = ''--el'' then Some (Arg_number (int_value v))
            else if opt = ''--esa'' then Some (Arg_list (java_split v))
            else if opt = ''--es'' then Some (Arg_string v) else None) of
        None \<Rightarrow> None
      | Some a \<Rightarrow> map_option (\<lambda>xs. (k, a) # xs) (read_extras rest))"
| "read_extras _ = None"

text \<open>The typed options of a checked map.\<close>

fun typed_arg :: "jval \<Rightarrow> launch_arg option" where
  "typed_arg (V_str s) = Some (Arg_string s)"
| "typed_arg (V_bool b) = Some (Arg_bool b)"
| "typed_arg (V_num (Num q)) = Some (Arg_number \<lfloor>q\<rfloor>)"
| "typed_arg (V_arr vs) = Some (Arg_list (map (\<lambda>v. case v of V_str s \<Rightarrow> s | _ \<Rightarrow> []) vs))"
| "typed_arg _ = None"

end
