(* ===== verification/Launch_Props.thy ===== *)
theory Launch_Props
  imports Launch_Options
begin

text \<open>
  What an app launched with checked options reads: each launch argument crosses the device's shell and
  \<open>am start\<close> as it was written, and a property-list string reads back as the string it was made of.
\<close>

subsection \<open>Words of the shell\<close>

text \<open>A piece of the line that stands for a word, whatever is around it.\<close>

definition stands :: "string \<Rightarrow> string \<Rightarrow> bool" where
  "stands p x \<longleftrightarrow> (\<forall>w rest. sh_read False w (p @ rest) = sh_read False (Some (word_of w @ x)) rest)"

lemma quote_chars [simp]: "squote \<noteq> backslash" "backslash \<noteq> squote" "squote \<noteq> CHR '' ''" "backslash \<noteq> CHR '' ''"
  "dquote \<noteq> backslash" "backslash \<noteq> dquote"
  by (simp_all add: squote_def backslash_def dquote_def)

lemma stands_quote: "stands (shellQuote s) s"
proof -
  have inside: "sh_read True (Some u) (concat (map (\<lambda>c. if c = squote then [squote, backslash, squote, squote] else [c]) s)
      @ squote # rest) = sh_read False (Some (u @ s)) rest" for u rest
    by (induction s arbitrary: u) (simp_all add: word_of_def)
  show ?thesis by (simp add: stands_def shellQuote_def inside)
qed

lemma plain_char_not: "plain_char c \<Longrightarrow> c \<noteq> CHR '' '' \<and> c \<noteq> squote \<and> c \<noteq> backslash"
  by (auto simp: plain_char_def is_alnum_def is_alpha_def is_upper_def is_lower_def is_digit_def code_of_def
      squote_def backslash_def Let_def)

lemma stands_plain:
  assumes "u \<noteq> []" and "list_all plain_char u"
  shows "stands u u"
proof -
  have some: "sh_read False (Some v) (u @ rest) = sh_read False (Some (v @ u)) rest" for v rest
    using assms(2)
  proof (induction u arbitrary: v)
    case (Cons c u)
    then have "plain_char c" by simp
    from plain_char_not [OF this] this Cons show ?case by simp
  qed simp
  obtain c u' where u: "u = c # u'" using assms(1) by (cases u) auto
  have "plain_char c" using assms(2) u by simp
  from plain_char_not [OF this] this have "sh_read False None (u @ rest) = sh_read False (Some [c]) (u' @ rest)" for rest
    by (simp add: u)
  moreover have "sh_read False (Some []) (u @ rest) = sh_read False (Some [c]) (u' @ rest)" for rest
    using plain_char_not [OF \<open>plain_char c\<close>] \<open>plain_char c\<close> by (simp add: u)
  ultimately have "sh_read False w (u @ rest) = sh_read False (Some (word_of w)) (u @ rest)" for w rest
    by (cases w) (simp_all add: word_of_def)
  then show ?thesis by (simp add: stands_def some)
qed

lemma sh_read_words:
  assumes "list_all2 stands ps xs"
  shows "sh_read False None (join '' '' ps) = Some xs"
proof -
  have more: "sh_read False (Some u) (concat (map (\<lambda>s. '' '' @ s) qs)) = Some (u # ys)"
    if "list_all2 stands qs ys" for u qs ys
    using that
  proof (induction qs ys arbitrary: u rule: list_all2_induct)
    case (Cons q qs y ys)
    have "sh_read False None (q @ concat (map (\<lambda>s. '' '' @ s) qs)) = Some (y # ys)"
      using Cons.hyps(1) Cons.IH [of y] by (simp add: stands_def word_of_def)
    then show ?case by simp
  qed simp
  show ?thesis
  proof (cases ps)
    case (Cons q qs)
    with assms obtain y ys where "xs = y # ys" "stands q y" "list_all2 stands qs ys" by (auto simp: list_all2_Cons1)
    moreover have "(@) '' '' = (#) CHR '' ''" by (simp add: fun_eq_iff)
    ultimately show ?thesis using Cons more [of qs ys y] by (simp add: join_def stands_def word_of_def)
  qed (use assms in \<open>simp add: join_def\<close>)
qed

subsection \<open>Numbers\<close>

lemma code_digit [simp]: "d < 10 \<Longrightarrow> code_of (digit_char d) = 48 + d"
  by (simp add: code_of_def digit_char_def)

lemma nat_text_digits: "list_all is_digit (nat_text n)"
proof (induction n rule: nat_text.induct)
  case (1 n)
  have "is_digit (digit_char d)" if "d < 10" for d
    using code_digit [OF that] that by (simp add: is_digit_def code_of_def Let_def)
  with 1 show ?case by (subst nat_text.simps) simp
qed

lemma nat_text_ne [simp]: "nat_text n \<noteq> []"
  by (subst nat_text.simps) simp

lemma digits_value_text [simp]: "digits_value (nat_text n) = n"
proof (induction n rule: nat_text.induct)
  case (1 n)
  then show ?case by (subst nat_text.simps) (simp add: digits_value_def)
qed

lemma int_text_ne [simp]: "int_text i \<noteq> []"
  by (simp add: int_text_def)

lemma plain_dash [simp]: "plain_char CHR ''-''"
  by (simp add: plain_char_def)

lemma plain_digits: "list_all is_digit s \<Longrightarrow> list_all plain_char s"
  by (induction s) (auto simp: plain_char_def is_alnum_def)

lemma int_text_plain: "list_all plain_char (int_text i)"
  using plain_digits [OF nat_text_digits] by (simp add: int_text_def)

lemma nat_text_hd: "\<not> starts_with ''-'' (nat_text n)"
proof -
  obtain c cs where "nat_text n = c # cs" by (cases "nat_text n") auto
  moreover have "is_digit c" using nat_text_digits [of n] calculation by simp
  ultimately show ?thesis by (auto simp: starts_with_def is_digit_def Let_def)
qed

lemma int_value_text [simp]: "int_value (int_text i) = i"
  using nat_text_hd by (simp add: int_value_def int_text_def) (simp add: starts_with_def)

subsection \<open>Lists\<close>

definition item_ok :: "string \<Rightarrow> bool" where
  "item_ok s \<longleftrightarrow> comma \<notin> set s \<and> (s \<noteq> [] \<longrightarrow> last s \<noteq> backslash)"

lemma split_commas_item:
  assumes "comma \<notin> set s"
  shows "split_commas cur esc s = [cur @ s]"
    and "(if s = [] then \<not> esc else last s \<noteq> backslash) \<Longrightarrow> split_commas cur esc (s @ comma # rest) = (cur @ s) # split_commas [] False rest"
  using assms by (induction s arbitrary: cur esc) (auto split: if_splits)

lemma split_commas_join:
  assumes "list_all item_ok vs" and "vs \<noteq> []"
  shows "split_commas [] False (join [comma] vs) = vs"
  using assms
proof (induction vs)
  case (Cons v vs)
  then have v: "comma \<notin> set v" "if v = [] then \<not> False else last v \<noteq> backslash" by (auto simp: item_ok_def)
  show ?case
  proof (cases vs)
    case Nil
    with split_commas_item(1) [OF v(1)] show ?thesis by (simp add: join_def)
  next
    case (Cons u us)
    then have "join [comma] (v # vs) = v @ comma # join [comma] vs" by (simp add: join_def)
    with split_commas_item(2) [OF v] Cons.IH Cons.prems Cons show ?thesis by simp
  qed
qed simp

text \<open>A list whose last item is empty does not come back, unless it is the only one.\<close>

definition list_ok :: "string list \<Rightarrow> bool" where
  "list_ok vs \<longleftrightarrow> length vs = 1 \<or> last vs \<noteq> []"

lemma java_split_join:
  assumes "list_all item_ok vs" and "vs \<noteq> []" and "list_ok vs"
  shows "java_split (join [comma] vs) = vs"
proof (cases "length vs = 1")
  case True
  then obtain v where "vs = [v]" by (auto simp: length_Suc_conv)
  with assms(1) show ?thesis by (simp add: java_split_def join_def item_ok_def)
next
  case False
  with assms(2) obtain v u us where vs: "vs = v # u # us" by (metis length_Cons list.exhaust list.size(3) One_nat_def)
  then have "comma \<in> set (join [comma] vs)" by (simp add: join_def)
  moreover have "rev (dropWhile (\<lambda>x. x = []) (rev vs)) = vs"
  proof -
    have "last vs \<noteq> []" using False assms(3) by (simp add: list_ok_def)
    then have "dropWhile (\<lambda>x. x = []) (last vs # rev (butlast vs)) = last vs # rev (butlast vs)" by simp
    moreover have "rev vs = last vs # rev (butlast vs)"
      using assms(2) by (metis append_butlast_last_id rev_eq_Cons_iff rev_rev_ident)
    ultimately have "dropWhile (\<lambda>x. x = []) (rev vs) = rev vs" by (simp only:)
    then show ?thesis by simp
  qed
  ultimately show ?thesis using split_commas_join [OF assms(1,2)] by (simp add: java_split_def)
qed

subsection \<open>Extras\<close>

definition raw_extra :: "string \<Rightarrow> launch_arg \<Rightarrow> string list" where
  "raw_extra k v = (case v of
       Arg_bool b \<Rightarrow> [''--ez'', k, bool_text b]
     | Arg_number n \<Rightarrow> [if INT32_MIN \<le> n \<and> n \<le> INT32_MAX then ''--ei'' else ''--el'', k, int_text n]
     | Arg_list vs \<Rightarrow> [''--esa'', k, join [comma] vs]
     | Arg_string s \<Rightarrow> [''--es'', k, s])"

lemma plain_options [simp]:
  "stands ''--ez'' ''--ez''" "stands ''--ei'' ''--ei''" "stands ''--el'' ''--el''" "stands ''--esa'' ''--esa''"
  "stands ''--es'' ''--es''" "stands ''true'' ''true''" "stands ''false'' ''false''"
  by (auto intro!: stands_plain simp: plain_char_def is_alnum_def is_alpha_def is_lower_def code_of_def)

lemma extra_stands: "list_all2 stands (extra k v) (raw_extra k v)"
  by (cases v) (auto simp: extra_def raw_extra_def Let_def stands_quote bool_text_def intro!: stands_plain int_text_plain)

lemma extras_stand: "list_all2 stands (androidLaunchExtras args) (concat (map (\<lambda>(k, v). raw_extra k v) args))"
  by (induction args) (auto simp: androidLaunchExtras_def intro!: list_all2_appendI extra_stands)

definition arg_ok :: "launch_arg \<Rightarrow> bool" where
  "arg_ok v = (case v of Arg_list vs \<Rightarrow> vs \<noteq> [] \<and> list_all item_ok vs \<and> list_ok vs | _ \<Rightarrow> True)"

lemma read_raw_extra:
  "arg_ok v \<Longrightarrow> read_extras (raw_extra k v @ rest) = map_option (\<lambda>xs. (k, v) # xs) (read_extras rest)"
  by (cases v) (auto simp: raw_extra_def arg_ok_def java_split_join bool_text_def)

lemma read_raw_extras:
  "list_all (\<lambda>(k, v). arg_ok v) args \<Longrightarrow> read_extras (concat (map (\<lambda>(k, v). raw_extra k v) args)) = Some args"
  by (induction args) (auto simp: read_raw_extra)

subsection \<open>What the check lets through\<close>

definition typed_map :: "(string \<times> jval) list \<Rightarrow> (string \<times> launch_arg) list" where
  "typed_map kvs = map (\<lambda>(k, v). (k, the (typed_arg v))) kvs"

lemma check_items_ok:
  "check_items i vs = None \<Longrightarrow> list_all item_ok (map (\<lambda>v. case v of V_str s \<Rightarrow> s | _ \<Rightarrow> []) vs)"
  by (induction i vs rule: check_items.induct) (auto simp: item_ok_def split: jval.splits if_splits)

lemma checkArgument_typed:
  assumes "checkArgument k v = None"
  shows "ARGUMENT_KEY k \<and> (\<exists>a. typed_arg v = Some a
    \<and> (\<forall>vs. a = Arg_list vs \<longrightarrow> vs \<noteq> [] \<and> list_all item_ok vs))"
  using assms check_items_ok [of 0]
  by (auto simp: checkArgument_def safe_integer_def split: if_splits jval.splits jnum.splits)

lemma first_problem_None: "first_problem chk kvs = None \<Longrightarrow> \<forall>(k, v) \<in> set kvs. chk k v = None"
  by (induction chk kvs rule: first_problem.induct) (auto split: option.splits)

lemma accepted_entries:
  assumes "launchOptionsProblem (V_obj kvs) env = None"
  shows "\<forall>(k, v) \<in> set kvs. checkArgument k v = None"
proof (rule first_problem_None)
  show "first_problem checkArgument kvs = None"
    using assms by (auto simp: launchOptionsProblem_def map_entries_def split: option.splits)
qed

text \<open>
  C35. Launch arguments that pass the check reach an Android app as they were written: the line the
  agent gives the device's shell is read as exactly the words meant, with no character left for the
  shell to act on, and \<open>am start\<close> makes of them the same keys and values. For a list this needs its last
  item not to be empty, unless it is the only one.
\<close>

theorem launch_arguments_reach_the_app:
  assumes "launchOptionsProblem (V_obj kvs) env = None"
    and "\<forall>(k, a) \<in> set (typed_map kvs). \<forall>vs. a = Arg_list vs \<longrightarrow> list_ok vs"
  shows "Option.bind (sh_read False None (join '' '' (androidLaunchExtras (typed_map kvs)))) read_extras
    = Some (typed_map kvs)"
proof -
  have "arg_ok a" if ka: "(k, a) \<in> set (typed_map kvs)" for k a
  proof -
    from ka obtain v where v: "(k, v) \<in> set kvs" "a = the (typed_arg v)" by (auto simp: typed_map_def)
    with accepted_entries [OF assms(1)] have "checkArgument k v = None" by blast
    from checkArgument_typed [OF this] v(2) assms(2) ka show ?thesis
      by (fastforce simp: arg_ok_def split: launch_arg.split)
  qed
  then have "list_all (\<lambda>(k, v). arg_ok v) (typed_map kvs)" by (auto simp: list_all_iff)
  then show ?thesis using sh_read_words [OF extras_stand] read_raw_extras by simp
qed

theorem launch_arguments_reach_the_app_witness:
  "Option.bind (sh_read False None (join '' '' (androidLaunchExtras
      [(''name'', Arg_string [CHR ''a'', squote, CHR ''b'', CHR '';'', CHR '' '', CHR ''$'']), (''n'', Arg_number (- 5)),
       (''l'', Arg_list [''x'', ''y''])]))) read_extras
    = Some [(''name'', Arg_string [CHR ''a'', squote, CHR ''b'', CHR '';'', CHR '' '', CHR ''$'']), (''n'', Arg_number (- 5)),
       (''l'', Arg_list [''x'', ''y''])]"
proof -
  let ?kvs = "[(''name'', V_str [CHR ''a'', squote, CHR ''b'', CHR '';'', CHR '' '', CHR ''$'']), (''n'', V_num (Num (- 5))),
    (''l'', V_arr [V_str ''x'', V_str ''y''])]"
  have ok: "launchOptionsProblem (V_obj ?kvs) V_undefined = None" by code_simp
  have typed: "typed_map ?kvs = [(''name'', Arg_string [CHR ''a'', squote, CHR ''b'', CHR '';'', CHR '' '', CHR ''$'']),
    (''n'', Arg_number (- 5)), (''l'', Arg_list [''x'', ''y''])]"
    by code_simp
  have "\<forall>(k, a) \<in> set (typed_map ?kvs). \<forall>vs. a = Arg_list vs \<longrightarrow> list_ok vs"
    by (simp add: typed list_ok_def)
  from launch_arguments_reach_the_app [OF ok this] show ?thesis by (simp only: typed)
qed

text \<open>The hypothesis is needed: the check accepts a list that ends in an empty item, and the app reads it short.\<close>

lemma empty_last_item_is_lost:
  "launchOptionsProblem (V_obj [(''l'', V_arr [V_str ''a'', V_str []])]) V_undefined = None
   \<and> Option.bind (sh_read False None (join '' '' (androidLaunchExtras [(''l'', Arg_list [''a'', []])]))) read_extras
     = Some [(''l'', Arg_list [''a''])]"
  by code_simp

subsection \<open>Property-list strings\<close>

text \<open>Reading an old-style property-list string after its opening quote: the string and what follows it.\<close>

fun plist_read :: "string \<Rightarrow> string \<Rightarrow> (string \<times> string) option" where
  "plist_read acc [] = None"
| "plist_read acc (c # cs) =
     (if c = dquote then Some (acc, cs)
      else if c = backslash then (case cs of [] \<Rightarrow> None | d # ds \<Rightarrow> plist_read (acc @ [d]) ds)
      else plist_read (acc @ [c]) cs)"

lemma plistString_reads: "plist_read [] (tl (plistString s) @ rest) = Some (s, rest)"
proof -
  have "plist_read acc (concat (map (\<lambda>c. if c = backslash then [backslash, backslash]
      else if c = dquote then [backslash, dquote] else [c]) s) @ dquote # rest) = Some (acc @ s, rest)" for acc
    by (induction s arbitrary: acc) simp_all
  then show ?thesis by (simp add: plistString_def)
qed

end
