(* ===== verification/Run_Reset.thy ===== *)
theory Run_Reset
  imports Launch_Options
begin

text \<open>
  Resetting a device before a run (\<open>packages/agent-core/src/utils/runReset.ts\<close>), and which flows a run
  replays and on which service tier (\<open>packages/flow-runner/src/eligibility.ts\<close>, \<open>serviceTier.ts\<close>). A step of a
  reset, the clock and the staleness test work on a state \<open>'w\<close> the model knows nothing about. Asking the
  relay for a build (\<open>lookupBuild\<close>) is not modelled.
\<close>

subsection \<open>The steps of a reset\<close>

definition RUN_RESET_BUDGET_MS :: ms where "RUN_RESET_BUDGET_MS = 60000"

datatype reset_item = App_uninstall | App_files | App_data | Keychain | Privacy_services | Pasteboard | Location

record 'w reset_step =
  rst_item :: reset_item
  rst_run :: "'w \<Rightarrow> 'w \<times> string option" \<comment> \<open>the error it throws\<close>

record reset_report =
  rep_done :: "reset_item list"
  rep_failed :: "reset_item list"

definition report_done :: "reset_item \<Rightarrow> reset_report \<Rightarrow> reset_report" where
  "report_done i r = r\<lparr>rep_done := rep_done r @ [i]\<rparr>"

definition report_failed :: "reset_item \<Rightarrow> reset_report \<Rightarrow> reset_report" where
  "report_failed i r = r\<lparr>rep_failed := rep_failed r @ [i]\<rparr>"

fun reset_from ::
  "('w \<Rightarrow> bool) \<Rightarrow> ('w \<Rightarrow> ms) \<Rightarrow> ms \<Rightarrow> 'w reset_step list \<Rightarrow> reset_report \<Rightarrow> 'w \<Rightarrow> 'w \<times> reset_report" where
  "reset_from isStale now deadline [] r w = (w, r)"
| "reset_from isStale now deadline (s # steps) r w =
     (if isStale w then (w, r)
      else if deadline \<le> now w then reset_from isStale now deadline steps (report_failed (rst_item s) r) w
      else (case rst_run s w of
              (w', None) \<Rightarrow> reset_from isStale now deadline steps (report_done (rst_item s) r) w'
            | (w', Some e) \<Rightarrow> reset_from isStale now deadline steps (report_failed (rst_item s) r) w'))"

definition runResetSteps :: "('w \<Rightarrow> bool) \<Rightarrow> ('w \<Rightarrow> ms) \<Rightarrow> ms \<Rightarrow> 'w reset_step list \<Rightarrow> 'w \<Rightarrow> 'w \<times> reset_report" where
  "runResetSteps isStale now deadline steps w =
     reset_from isStale now deadline steps \<lparr>rep_done = [], rep_failed = []\<rparr> w"

text \<open>The report names each step reached once, in one list or the other: a prefix of the steps.\<close>

lemma reset_from_reports:
  "\<exists>k. k \<le> length steps \<and> mset (rep_done (snd (reset_from isStale now d steps r w))) + mset (rep_failed (snd (reset_from isStale now d steps r w)))
     = mset (rep_done r) + mset (rep_failed r) + mset (map rst_item (take k steps))"
proof (induction steps arbitrary: r w)
  case (Cons s steps)
  have step: "\<exists>k. k \<le> length (s # steps) \<and> mset (rep_done (snd (reset_from isStale now d steps r' w'))) + mset (rep_failed (snd (reset_from isStale now d steps r' w')))
       = mset (rep_done r) + mset (rep_failed r) + mset (map rst_item (take k (s # steps)))"
    if "r' = report_done (rst_item s) r \<or> r' = report_failed (rst_item s) r" for r' w'
  proof -
    obtain k where k: "k \<le> length steps" "mset (rep_done (snd (reset_from isStale now d steps r' w'))) + mset (rep_failed (snd (reset_from isStale now d steps r' w')))
       = mset (rep_done r') + mset (rep_failed r') + mset (map rst_item (take k steps))"
      using Cons.IH [of r' w'] by blast
    with that show ?thesis by (intro exI [of _ "Suc k"]) (auto simp: report_done_def report_failed_def)
  qed
  show ?case
    using step by (auto split: prod.splits option.splits intro: exI [of _ 0])
qed simp

lemma reset_reports_each_step_once:
  "\<exists>k. k \<le> length steps \<and> mset (rep_done (snd (runResetSteps isStale now d steps w)))
     + mset (rep_failed (snd (runResetSteps isStale now d steps w))) = mset (map rst_item (take k steps))"
  using reset_from_reports [of steps isStale now d "\<lparr>rep_done = [], rep_failed = []\<rparr>" w]
  by (simp add: runResetSteps_def)

lemma fresh_reset_reports_all:
  assumes "\<And>w. \<not> isStale w"
  shows "mset (rep_done (snd (reset_from isStale now d steps r w))) + mset (rep_failed (snd (reset_from isStale now d steps r w)))
     = mset (rep_done r) + mset (rep_failed r) + mset (map rst_item steps)"
  using assms
  by (induction steps arbitrary: r w) (auto simp: report_done_def report_failed_def split: prod.splits option.splits)

subsection \<open>The apps of a reset\<close>

definition RESETTABLE_APP_ID :: "string \<Rightarrow> bool" where
  "RESETTABLE_APP_ID s \<longleftrightarrow> (case s of [] \<Rightarrow> False | c # cs \<Rightarrow> is_alnum c \<and> list_all key_char cs)"

text \<open>The error of \<open>resetApps\<close>: stopped, or what went wrong with each app. \<open>qt\<close> is \<open>JSON.stringify\<close>.\<close>

datatype apps_error = Superseded | Apps_failed "string list"

text \<open>The result of the rest, with the app acted on before it.\<close>

definition also_acted :: "string \<Rightarrow> 'w \<times> string list \<times> apps_error option \<Rightarrow> 'w \<times> string list \<times> apps_error option" where
  "also_acted i r = (fst r, i # fst (snd r), snd (snd r))"

lemma also_acted_simps [simp]: "fst (also_acted i r) = fst r" "fst (snd (also_acted i r)) = i # fst (snd r)"
  "snd (snd (also_acted i r)) = snd (snd r)"
  by (simp_all add: also_acted_def)

fun reset_apps_from ::
  "(string \<Rightarrow> string) \<Rightarrow> (string \<Rightarrow> 'w \<Rightarrow> 'w \<times> string option) \<Rightarrow> ('w \<Rightarrow> bool) \<Rightarrow> string list \<Rightarrow> string list \<Rightarrow> 'w
     \<Rightarrow> 'w \<times> string list \<times> apps_error option" where
  "reset_apps_from qt act isStale [] failures w =
     (w, [], if 0 < length failures then Some (Apps_failed failures) else None)"
| "reset_apps_from qt act isStale (i # rest) failures w =
     (if isStale w then (w, [], Some Superseded)
      else if \<not> RESETTABLE_APP_ID i
      then reset_apps_from qt act isStale rest (failures @ [qt i @ '': not an app id'']) w
      else (case act i w of
              (w1, None) \<Rightarrow> also_acted i (reset_apps_from qt act isStale rest failures w1)
            | (w1, Some m) \<Rightarrow>
                also_acted i (reset_apps_from qt act isStale rest (failures @ [i @ '': '' @ m]) w1)))"

definition resetApps ::
  "(string \<Rightarrow> string) \<Rightarrow> (string \<Rightarrow> 'w \<Rightarrow> 'w \<times> string option) \<Rightarrow> ('w \<Rightarrow> bool) \<Rightarrow> string list \<Rightarrow> 'w
     \<Rightarrow> 'w \<times> string list \<times> apps_error option" where
  "resetApps qt act isStale appIds w = reset_apps_from qt act isStale appIds [] w"

text \<open>A command is given only ids a shell reads as one plain word.\<close>

lemma reset_apps_safe:
  "list_all RESETTABLE_APP_ID (fst (snd (reset_apps_from qt act isStale apps failures w)))"
  by (induction apps arbitrary: failures w) (auto split: prod.split option.split)

lemma reset_apps_attempts_all:
  "(\<And>w. \<not> isStale w) \<Longrightarrow> fst (snd (reset_apps_from qt act isStale apps failures w)) = filter RESETTABLE_APP_ID apps"
  by (induction apps arbitrary: failures w) (auto split: prod.split option.split)

lemma reset_apps_passes:
  "snd (snd (reset_apps_from qt act isStale apps failures w)) = None \<Longrightarrow> failures = [] \<and> list_all RESETTABLE_APP_ID apps"
proof (induction apps arbitrary: failures w)
  case (Cons i apps)
  then show ?case by (fastforce split: prod.splits option.splits if_splits)
qed (simp split: if_splits)

subsection \<open>Which flows a run replays\<close>

record build_target =
  bt_id :: int
  bt_bundleId :: "string option"

record eligibility_target =
  et_build :: "build_target option"
  et_includeTags :: "string list option"
  et_excludeTags :: "string list option"

datatype skip_reason = Tag_filter | App_mismatch

datatype eligibility = Eligible | Skip skip_reason string

definition isEligible :: "(int \<Rightarrow> string) \<Rightarrow> string option \<Rightarrow> string list option \<Rightarrow> eligibility_target \<Rightarrow> eligibility" where
  "isEligible num appId flowTags target =
     (let tags = entries flowTags;
          excludes = entries (et_excludeTags target);
          includes = entries (et_includeTags target)
      in case find (\<lambda>t. t \<in> set excludes) tags of
           Some excluded \<Rightarrow> Skip Tag_filter (''tagged '' @ excluded)
         | None \<Rightarrow>
             if 0 < length includes \<and> \<not> list_ex (\<lambda>t. t \<in> set includes) tags
             then Skip Tag_filter (''not tagged '' @ join '' or '' includes)
             else (case (appId, et_build target) of
                 (Some app, Some b) \<Rightarrow>
                   (case bt_bundleId b of
                      Some bundle \<Rightarrow>
                        if app \<noteq> bundle
                        then Skip App_mismatch (''flow is for '' @ app @ '', build '' @ num (bt_id b) @ '' is '' @ bundle)
                        else Eligible
                    | None \<Rightarrow> Eligible)
               | _ \<Rightarrow> Eligible))"

definition parseTagList :: "string option \<Rightarrow> string list" where
  "parseTagList val = filter (\<lambda>t. 0 < length t) (map trim (split_on comma (case val of Some v \<Rightarrow> v | None \<Rightarrow> [])))"

lemma isEligible_iff:
  "isEligible num appId flowTags target = Eligible \<longleftrightarrow>
     set (entries flowTags) \<inter> set (entries (et_excludeTags target)) = {}
     \<and> (entries (et_includeTags target) = [] \<or> set (entries flowTags) \<inter> set (entries (et_includeTags target)) \<noteq> {})
     \<and> (\<forall>app b bundle. appId = Some app \<longrightarrow> et_build target = Some b \<longrightarrow> bt_bundleId b = Some bundle \<longrightarrow> app = bundle)"
proof (cases "find (\<lambda>t. t \<in> set (entries (et_excludeTags target))) (entries flowTags)")
  case None
  then have "set (entries flowTags) \<inter> set (entries (et_excludeTags target)) = {}" by (auto simp: find_None_iff)
  then show ?thesis
    using None by (auto simp: isEligible_def Let_def list_ex_iff split: option.splits)
next
  case (Some t)
  then have "t \<in> set (entries flowTags)" "t \<in> set (entries (et_excludeTags target))" by (auto simp: find_Some_iff)
  then show ?thesis using Some by (auto simp: isEligible_def Let_def)
qed

subsection \<open>The service tier of a run\<close>

definition FEATURES :: "string list" where
  "FEATURES = [''push'', ''storekit'', ''app-store'', ''universal-links'', ''spotlight'', ''siri'', ''icloud'',
     ''keychain-sync'', ''contacts'', ''calendar'', ''reminders'', ''mail'', ''photos'', ''health'',
     ''homekit'', ''imessage'', ''widgets'', ''wallet'', ''maps'', ''weather'', ''news'', ''game-center'',
     ''find-my'', ''screen-time'']"

definition tier_of_name :: "string \<Rightarrow> tier_name option" where
  "tier_of_name = [''stock'' \<mapsto> Stock, ''lean'' \<mapsto> Lean, ''slim'' \<mapsto> Slim]"

datatype tier_error = Unknown_tier string | Stock_keeps_nothing | Unknown_features "string list"

definition parseServiceTier :: "string \<Rightarrow> string option \<Rightarrow> tier_error + service_tier" where
  "parseServiceTier name keep =
     (case tier_of_name name of
        None \<Rightarrow> Inl (Unknown_tier name)
      | Some tier \<Rightarrow>
          (let features = parseTagList keep;
               unknown = filter (\<lambda>f. f \<notin> set FEATURES) features
           in if name = ''stock'' \<and> 0 < length features then Inl Stock_keeps_nothing
              else if 0 < length unknown then Inl (Unknown_features unknown)
              else Inr \<lparr>tier_name = tier, tier_keep = rev (remdups (rev features))\<rparr>))"

lemma parseServiceTier_keeps:
  "parseServiceTier name keep = Inr t \<Longrightarrow>
     set (tier_keep t) = set (parseTagList keep) \<and> set (tier_keep t) \<subseteq> set FEATURES \<and> distinct (tier_keep t)
     \<and> (tier_name t = Stock \<longrightarrow> tier_keep t = [])"
  by (auto simp: parseServiceTier_def tier_of_name_def Let_def filter_empty_conv split: option.splits if_splits)

end
