(* ===== verification/Junit.thy ===== *)
theory Junit
  imports Flow_Run
begin

text \<open>
  The report a CI page reads (\<open>packages/flow-runner/src/junit.ts\<close>). How a number of milliseconds is written in
  seconds with three decimals, and how a count is written, are arguments; the check mark and the cross
  before a step are written in ASCII.
\<close>

subsection \<open>Escaping\<close>

definition amp :: char where "amp = CHR ''&''"

text \<open>A control character XML 1.0 has no place for.\<close>

definition xml_illegal :: "char \<Rightarrow> bool" where
  "xml_illegal c \<longleftrightarrow> (let n = of_char c :: nat in n \<le> 8 \<or> n = 11 \<or> n = 12 \<or> (14 \<le> n \<and> n \<le> 31))"

definition replace_char :: "char \<Rightarrow> string \<Rightarrow> string \<Rightarrow> string" where
  "replace_char c r s = concat (map (\<lambda>d. if d = c then r else [d]) s)"

definition esc :: "string \<Rightarrow> string" where
  "esc s = replace_char (CHR 0x22) ''&quot;'' (replace_char (CHR ''>'') ''&gt;'' (replace_char (CHR ''<'') ''&lt;''
     (replace_char amp ''&amp;'' (filter (\<lambda>c. \<not> xml_illegal c) s))))"

text \<open>The four replacements one after another are one replacement of each character.\<close>

definition esc_char :: "char \<Rightarrow> string" where
  "esc_char c = (if xml_illegal c then [] else if c = amp then ''&amp;'' else if c = CHR ''<'' then ''&lt;''
     else if c = CHR ''>'' then ''&gt;'' else if c = CHR 0x22 then ''&quot;'' else [c])"

lemma replace_char_append [simp]: "replace_char c r (a @ b) = replace_char c r a @ replace_char c r b"
  by (simp add: replace_char_def)

lemma esc_chars: "esc s = concat (map esc_char s)"
proof (induction s)
  case (Cons c s)
  have "esc (c # s) = esc_char c @ esc s"
    by (simp add: esc_def esc_char_def amp_def replace_char_def)
  with Cons show ?case by simp
qed (simp add: esc_def replace_char_def)

text \<open>What a reader of the report makes of the text again.\<close>

fun unesc :: "string \<Rightarrow> string" where
  "unesc [] = []"
| "unesc (c # cs) =
     (if c = amp then
        (if starts_with ''amp;'' cs then amp # unesc (drop 4 cs)
         else if starts_with ''lt;'' cs then CHR ''<'' # unesc (drop 3 cs)
         else if starts_with ''gt;'' cs then CHR ''>'' # unesc (drop 3 cs)
         else if starts_with ''quot;'' cs then CHR 0x22 # unesc (drop 5 cs)
         else c # unesc cs)
      else c # unesc cs)"

lemma unesc_esc: "unesc (esc s) = filter (\<lambda>c. \<not> xml_illegal c) s"
proof (induction s)
  case (Cons c s)
  have legal: "\<not> xml_illegal amp" "\<not> xml_illegal CHR ''<''" "\<not> xml_illegal CHR ''>''" "\<not> xml_illegal CHR 0x22"
    by (simp_all add: xml_illegal_def amp_def Let_def)
  have "unesc (esc_char c @ rest) = (if xml_illegal c then unesc rest else c # unesc rest)" for rest
    using legal by (auto simp: esc_char_def starts_with_def amp_def)
  with Cons show ?case by (simp add: esc_chars)
qed (simp add: esc_chars)

lemma esc_no_markup: "set (esc s) \<inter> {CHR ''<'', CHR ''>'', CHR 0x22} = {} \<and> list_all (\<lambda>c. \<not> xml_illegal c) (esc s)"
proof -
  have "set (esc_char c) \<inter> {CHR ''<'', CHR ''>'', CHR 0x22} = {} \<and> list_all (\<lambda>c. \<not> xml_illegal c) (esc_char c)" for c
    by (auto simp: esc_char_def xml_illegal_def amp_def Let_def)
  then show ?thesis by (induction s) (auto simp: esc_chars list_all_iff)
qed

subsection \<open>The report\<close>

record junit_texts =
  seconds :: "ms \<Rightarrow> string" \<comment> \<open>\<open>(ms / 1000).toFixed(3)\<close>\<close>
  count :: "nat \<Rightarrow> string"
  millis :: "ms \<Rightarrow> string"

definition newline :: string where "newline = [CHR 0x0A]"

definition attr :: "string \<Rightarrow> string \<Rightarrow> string" where
  "attr name val = name @ ''='' @ quoted val"

definition step_line :: "junit_texts \<Rightarrow> step_result \<Rightarrow> string" where
  "step_line T s =
     (case st_status s of
        Passed \<Rightarrow> ''v '' @ st_name s @ '' ('' @ millis T (st_durationMs s) @ ''ms)''
      | Failed \<Rightarrow> ''x '' @ st_name s @ '' ('' @ millis T (st_durationMs s) @ ''ms): ''
          @ (case st_message s of Some m \<Rightarrow> m | None \<Rightarrow> [])
      | Skipped \<Rightarrow> ''- '' @ st_name s @ '' (skipped)'')"

definition stepLog :: "junit_texts \<Rightarrow> flow_result \<Rightarrow> string" where
  "stepLog T r = join newline (map (step_line T) (r_steps r))"

record skipped_flow =
  sf_name :: string
  sf_file :: "string option"
  sf_message :: string

record junit_suite =
  js_name :: string
  js_results :: "flow_result list"

record rendered_suite =
  rn_xml :: string
  rn_tests :: nat
  rn_failures :: nat
  rn_errors :: nat
  rn_skipped :: nat
  rn_ms :: ms

definition or_name :: "string option \<Rightarrow> string \<Rightarrow> string" where
  "or_name f name = (case f of Some x \<Rightarrow> x | None \<Rightarrow> name)"

definition case_open :: "string \<Rightarrow> string option \<Rightarrow> string \<Rightarrow> string" where
  "case_open name file time = ''    <testcase '' @ attr ''name'' (esc name) @ '' ''
     @ attr ''classname'' (esc (or_name file name)) @ '' '' @ attr ''time'' time @ ''>'' @ newline"

definition case_close :: string where "case_close = ''    </testcase>''"

definition result_case :: "junit_texts \<Rightarrow> flow_result \<Rightarrow> string" where
  "result_case T r = case_open (r_name r) (r_file r) (seconds T (r_durationMs r))
     @ (if r_passed r then ''      <system-out>'' @ esc (stepLog T r) @ ''</system-out>'' @ newline
        else ''      <failure '' @ attr ''message'' (esc (case r_failureMessage r of Some m \<Rightarrow> m | None \<Rightarrow> ''flow failed''))
          @ ''>'' @ esc (stepLog T r) @ ''</failure>'' @ newline)
     @ case_close"

definition other_case :: "string \<Rightarrow> skipped_flow \<Rightarrow> string" where
  "other_case tag f = case_open (sf_name f) (sf_file f) ''0.000''
     @ ''      <'' @ tag @ '' '' @ attr ''message'' (esc (sf_message f)) @ ''/>'' @ newline @ case_close"

definition suite :: "junit_texts \<Rightarrow> string \<Rightarrow> flow_result list \<Rightarrow> skipped_flow list \<Rightarrow> skipped_flow list \<Rightarrow> rendered_suite" where
  "suite T name results skipped notRun =
     (let failures = length (filter (\<lambda>r. \<not> r_passed r) results);
          tests = length results + length skipped + length notRun;
          total = foldl (\<lambda>acc r. acc + r_durationMs r) 0 results;
          cases = join newline (map (result_case T) results @ map (other_case ''skipped'') skipped @ map (other_case ''error'') notRun);
          errors = (if 0 < length notRun then '' '' @ attr ''errors'' (count T (length notRun)) else [])
      in \<lparr>rn_xml = ''  <testsuite '' @ attr ''name'' (esc name) @ '' '' @ attr ''tests'' (count T tests) @ '' ''
              @ attr ''failures'' (count T failures) @ errors @ '' '' @ attr ''skipped'' (count T (length skipped)) @ '' ''
              @ attr ''time'' (seconds T total) @ ''>'' @ newline @ cases @ newline @ ''  </testsuite>'' @ newline,
          rn_tests = tests, rn_failures = failures, rn_errors = length notRun, rn_skipped = length skipped, rn_ms = total\<rparr>)"

definition total_of :: "(rendered_suite \<Rightarrow> nat) \<Rightarrow> rendered_suite list \<Rightarrow> nat" where
  "total_of k suites = foldl (\<lambda>acc s. acc + k s) 0 suites"

definition document :: "junit_texts \<Rightarrow> rendered_suite list \<Rightarrow> bool \<Rightarrow> string" where
  "document T suites withErrors =
     ''<?xml '' @ attr ''version'' ''1.0'' @ '' '' @ attr ''encoding'' ''UTF-8'' @ ''?>'' @ newline
     @ ''<testsuites '' @ attr ''tests'' (count T (total_of rn_tests suites)) @ '' ''
     @ attr ''failures'' (count T (total_of rn_failures suites))
     @ (if withErrors then '' '' @ attr ''errors'' (count T (total_of rn_errors suites)) else [])
     @ '' '' @ attr ''skipped'' (count T (total_of rn_skipped suites)) @ '' ''
     @ attr ''time'' (seconds T (foldl (\<lambda>acc s. acc + rn_ms s) 0 suites)) @ ''>'' @ newline
     @ concat (map rn_xml suites) @ ''</testsuites>'' @ newline"

definition toJUnitXml :: "junit_texts \<Rightarrow> flow_result list \<Rightarrow> skipped_flow list \<Rightarrow> string" where
  "toJUnitXml T results skipped = document T [suite T ''tapflow-flows'' results skipped []] False"

definition rendered_suites ::
  "junit_texts \<Rightarrow> junit_suite list \<Rightarrow> skipped_flow list \<Rightarrow> skipped_flow list \<Rightarrow> rendered_suite list" where
  "rendered_suites T suites skipped notRun =
     map (\<lambda>s. suite T (js_name s) (js_results s) [] []) suites
     @ (if 0 < length skipped then [suite T ''tapflow-flows (skipped)'' [] skipped []] else [])
     @ (if 0 < length notRun then [suite T ''tapflow-flows (not run)'' [] [] notRun] else [])"

definition toJUnitXmlSuites ::
  "junit_texts \<Rightarrow> junit_suite list \<Rightarrow> skipped_flow list \<Rightarrow> skipped_flow list \<Rightarrow> string" where
  "toJUnitXmlSuites T suites skipped notRun = document T (rendered_suites T suites skipped notRun) True"

subsection \<open>Counts\<close>

lemma foldl_count: "foldl (\<lambda>acc s. acc + k s) (n :: nat) xs = n + sum_list (map k xs)"
  by (induction xs arbitrary: n) auto

text \<open>
  The report across devices counts every flow once, and is green only when every flow passed or was
  meant to be skipped: what no device got to is an error of its own.
\<close>

lemma suites_count:
  fixes suites :: "junit_suite list"
  defines "results \<equiv> concat (map js_results suites)"
  shows "total_of rn_tests (rendered_suites T suites sk nr) = length results + length sk + length nr"
    and "total_of rn_skipped (rendered_suites T suites sk nr) = length sk"
    and "total_of rn_errors (rendered_suites T suites sk nr) = length nr"
    and "total_of rn_failures (rendered_suites T suites sk nr) = length (filter (\<lambda>r. \<not> r_passed r) results)"
proof -
  have "sum_list (map (\<lambda>s. length (js_results s)) suites) = length results"
    and "sum_list (map (\<lambda>s. length (filter (\<lambda>r. \<not> r_passed r) (js_results s))) suites)
       = length (filter (\<lambda>r. \<not> r_passed r) results)"
    unfolding results_def by (induction suites) auto
  then show "total_of rn_tests (rendered_suites T suites sk nr) = length results + length sk + length nr"
    and "total_of rn_failures (rendered_suites T suites sk nr) = length (filter (\<lambda>r. \<not> r_passed r) results)"
    by (simp_all add: total_of_def rendered_suites_def foldl_count suite_def Let_def comp_def)
  show "total_of rn_skipped (rendered_suites T suites sk nr) = length sk"
    and "total_of rn_errors (rendered_suites T suites sk nr) = length nr"
    by (simp_all add: total_of_def rendered_suites_def foldl_count suite_def Let_def comp_def)
qed

lemma suites_green_iff:
  "total_of rn_failures (rendered_suites T suites sk nr) = 0 \<and> total_of rn_errors (rendered_suites T suites sk nr) = 0
     \<longleftrightarrow> nr = [] \<and> (\<forall>s \<in> set suites. \<forall>r \<in> set (js_results s). r_passed r)"
  by (auto simp: suites_count filter_empty_conv)

end
