(* ===== verification/Relay_State.thy ===== *)
theory Relay_State
  imports Boot_Gate Session_Ops Capacity Lease Relay_Lib Js_String
begin

text \<open>
  \<open>packages/relay/src/RelayServer.ts\<close>: the state the relay's handlers share, the messages they send, and
  who may be served. A handler takes what surrounds the relay (\<open>relay_env\<close>: which sockets are open and
  answering, whose they are, its settings) and the time, and returns the relay after it and the messages
  it sent, in order; a message the relay only passes on is a number standing for it. Logging, captures
  and the frame senders a session has are left out: no handler reads them back.
\<close>

subsection \<open>Data\<close>

text \<open>\<open>DeviceBoot\<close>; \<open>external\<close> and \<open>automation\<close> are the two fields the relay fills in.\<close>

record boot_payload =
  bp_deviceId :: string
  bp_resetMode :: "reset_mode option"
  bp_serviceTier :: "service_tier option"
  bp_runReset :: "payload option"
  bp_acceptH264 :: bool
  bp_secureContext :: "bool option"
  bp_external :: bool
  bp_automation :: bool

record boot_msg =
  bm_session :: string
  bm_request :: string
  bm_payload :: boot_payload

record held_boot =
  hb_ws :: socket
  hb_msg :: boot_msg
  hb_cost :: cost
  hb_class :: booter_class

record pending_boot =
  pb_session :: string
  pb_request :: string
  pb_agent :: socket
  pb_expires :: ms

record shutdown_requester =
  sr_session :: string
  sr_request :: string
  sr_ws :: socket
  sr_expires :: ms

datatype join_refusal = Refused_not_found | Refused_busy | Refused_exhausted

datatype lease_refusal = Lease_admission admission_refusal | Lease_all_held | Lease_no_device | Lease_bad_request

datatype command = Cmd_open_url | Cmd_clear_state | Cmd_clipboard | Cmd_network

datatype input_refusal = Channel_unavailable | Not_session_owner

datatype relay_msg =
    Device_boot boot_msg
  | Boot_failed string string "boot_refusal option" string \<comment> \<open>session, request, reason, message\<close>
  | Boot_stranded string string string \<comment> \<open>a \<open>device:boot-error\<close> too: the agent it was sent to is gone\<close>
  | Boot_waits string string ms boot_refusal
  | Device_shutdown string string \<comment> \<open>the relay's own: session, device\<close>
  | Shutdown_failed string "string option" string
  | Install_done string string
  | Install_failed string string string
  | App_install string string installed_build
  | Session_terminated string
  | Session_rebound string "string list"
  | Agent_away string
  | Watch_ended string watch_end
  | Holder_left string
  | Watch_did string watch_action
  | Join_refused string join_refusal string
  | Session_joined string "string list"
  | Leased string string string bool \<comment> \<open>request, session, device, from the pool\<close>
  | Lease_turned_down string lease_refusal string bool \<comment> \<open>request, reason, message, retryable\<close>
  | Replay_chrome string payload
  | Replay_info string payload
  | Replay_postures string payload
  | Replay_ready string \<comment> \<open>device\<close>
  | Request_idr string
  | Request_network string
  | Registered "(string \<times> string) list" \<comment> \<open>device, session\<close>
  | Devices_applied "(string \<times> string) list" "(string \<times> string) list" \<comment> \<open>added, removed\<close>
  | Stream_registered
  | Command_refused command string string string \<comment> \<open>session, request, message\<close>
  | Input_refused bool string string string input_refusal \<comment> \<open>as \<open>input:type-error\<close>, session, request, message\<close>
  | Passed_on payload

type_synonym sent = "(socket \<times> relay_msg) list"

record relay =
  rl_sessions :: manager
  rl_gate :: "held_boot gate"
  rl_gateTimer :: "ms option"
  rl_pendingBoots :: "(string, pending_boot) jmap"
  rl_requesters :: "(string, shutdown_requester) jmap"
  rl_agents :: "(socket, agent_identity) jmap"
  rl_latest :: "(string, socket) jmap"
  rl_holds :: "(socket, ms) jmap"
  rl_idrAt :: "(string, ms) jmap"
  rl_network :: "(string, requester) jmap"

definition new_relay :: "ms \<Rightarrow> relay" where
  "new_relay timeout = \<lparr>rl_sessions = new_manager timeout, rl_gate = [], rl_gateTimer = None, rl_pendingBoots = [],
     rl_requesters = [], rl_agents = [], rl_latest = [], rl_holds = [],
     rl_idrAt = [], rl_network = []\<rparr>"

record relay_env =
  up :: "socket \<Rightarrow> bool"
  answering :: "socket \<Rightarrow> bool"
  ownerRecord :: "socket \<Rightarrow> join_owner"
  holderLabelOf :: "socket \<Rightarrow> string"
  personName :: "socket \<Rightarrow> string"
  wsExternal :: "socket \<Rightarrow> bool"
  gateTiming :: gate_timing
  pendingBootTtlMs :: ms
  evictionGraceMs :: ms
  agentGraceMs :: ms
  automatedCapOverride :: "int option"
  RESOURCE_THRESHOLD :: rat

type_synonym handler = "relay \<Rightarrow> relay \<times> sent"

definition SHUTDOWN_REQUESTER_TTL_MS :: ms where "SHUTDOWN_REQUESTER_TTL_MS = 35000"
definition PENDING_BOOT_TTL_MS :: ms where "PENDING_BOOT_TTL_MS = 180000"
definition EVICTION_GRACE_MS :: ms where "EVICTION_GRACE_MS = 60000"
definition DEFAULT_AGENT_GRACE_MS :: ms where "DEFAULT_AGENT_GRACE_MS = 15000"
definition IDR_REQUEST_THROTTLE_MS :: ms where "IDR_REQUEST_THROTTLE_MS = 500"
definition NETWORK_STATE_REQUEST_THROTTLE_MS :: ms where "NETWORK_STATE_REQUEST_THROTTLE_MS = 500"

definition SHUTDOWN_OUTCOME_LOST :: string where
  "SHUTDOWN_OUTCOME_LOST =
     ''The session ended before its agent confirmed the shutdown, so whether the device shut down is unknown.''"

fun BOOT_REFUSAL_MESSAGES :: "boot_refusal \<Rightarrow> string" where
  "BOOT_REFUSAL_MESSAGES Host_booting =
     ''Another device is still booting on this Mac. Try again once it has settled.''"
| "BOOT_REFUSAL_MESSAGES Host_memory_critical =
     ''This Mac is critically short of memory. Try again once it has recovered.''"
| "BOOT_REFUSAL_MESSAGES Host_at_capacity =
     ''This Mac already runs as many automation devices as it allows, and all of them are in use.''"

subsection \<open>Steps\<close>

definition sendTo :: "relay_env \<Rightarrow> socket \<Rightarrow> relay_msg \<Rightarrow> sent" where
  "sendTo E ws msg = (if up E ws then [(ws, msg)] else [])"

definition send_option :: "relay_env \<Rightarrow> socket option \<Rightarrow> relay_msg \<Rightarrow> sent" where
  "send_option E ws msg = (case ws of Some w \<Rightarrow> sendTo E w msg | None \<Rightarrow> [])"

definition tellWatchers :: "relay_env \<Rightarrow> string \<Rightarrow> relay_msg \<Rightarrow> relay \<Rightarrow> sent" where
  "tellWatchers E i msg R = concat (map (\<lambda>w. sendTo E w msg) (watchersOf (rl_sessions R) i))"

definition tellWatchersAction :: "relay_env \<Rightarrow> string \<Rightarrow> watch_action \<Rightarrow> relay \<Rightarrow> sent" where
  "tellWatchersAction E i action R = tellWatchers E i (Watch_did i action) R"

text \<open>\<open>onWatchersEvicted\<close>.\<close>

definition evicted_notices :: "relay_env \<Rightarrow> eviction list \<Rightarrow> sent" where
  "evicted_notices E told =
     concat (map (\<lambda>(i, sockets, why). concat (map (\<lambda>w. sendTo E w (Watch_ended i why)) sockets)) told)"

definition on_mgr :: "(manager \<Rightarrow> manager) \<Rightarrow> relay \<Rightarrow> relay" where
  "on_mgr f R = R\<lparr>rl_sessions := f (rl_sessions R)\<rparr>"

definition upd :: "string \<Rightarrow> (session \<Rightarrow> session) \<Rightarrow> relay \<Rightarrow> relay" where
  "upd i f = on_mgr (on_session i f)"

definition session_at :: "relay \<Rightarrow> string \<Rightarrow> session option" where
  "session_at R i = get (rl_sessions R) i"

definition hostKey :: "session \<Rightarrow> string" where
  "hostKey s = hostKeyOf (sid_of s) (agentId s) (agentName s)"

subsection \<open>Whose session it is\<close>

definition ownerOf :: "relay_env \<Rightarrow> socket \<Rightarrow> string" where
  "ownerOf E ws = o_key (ownerRecord E ws)"

definition userOf :: "relay_env \<Rightarrow> socket \<Rightarrow> string" where
  "userOf E ws = o_user (ownerRecord E ws)"

definition ownsSession :: "relay_env \<Rightarrow> socket \<Rightarrow> session \<Rightarrow> bool" where
  "ownsSession E ws s \<longleftrightarrow> owner s \<noteq> None \<and> owner s = Some (ownerOf E ws)"

definition mayShutDown :: "relay_env \<Rightarrow> socket \<Rightarrow> session \<Rightarrow> bool" where
  "mayShutDown E ws s \<longleftrightarrow>
     (if owner s = None then True
      else if owner s = Some (ownerOf E ws) then True
      else ownerMinted s \<and> ownerUser s = Some (userOf E ws))"

definition ownershipRefusal :: "session \<Rightarrow> string" where
  "ownershipRefusal s = (if browserSocket s \<noteq> None then ''session held by another client'' else ''session not joined'')"

definition reachableTargetWithoutOwnership :: "relay_env \<Rightarrow> string \<Rightarrow> relay \<Rightarrow> string + session" where
  "reachableTargetWithoutOwnership E i R =
     (case session_at R i of
        None \<Rightarrow> Inl ''Session not found''
      | Some s \<Rightarrow> if \<not> up E (agentSocket s) then Inl ''agent offline'' else Inr s)"

definition dispatchTarget :: "relay_env \<Rightarrow> socket \<Rightarrow> string \<Rightarrow> relay \<Rightarrow> string + session" where
  "dispatchTarget E ws i R =
     (case session_at R i of
        Some s \<Rightarrow> if \<not> ownsSession E ws s then Inl (ownershipRefusal s) else reachableTargetWithoutOwnership E i R
      | None \<Rightarrow> reachableTargetWithoutOwnership E i R)"

lemma dispatchTarget_Inr:
  "dispatchTarget E ws i R = Inr s \<longleftrightarrow> session_at R i = Some s \<and> ownsSession E ws s \<and> up E (agentSocket s)"
  by (auto simp: dispatchTarget_def reachableTargetWithoutOwnership_def split: option.splits if_splits)

subsection \<open>What the relay asks an agent for\<close>

definition ask_agent :: "relay_env \<Rightarrow> string \<Rightarrow> (string \<Rightarrow> relay_msg) \<Rightarrow> relay \<Rightarrow> sent" where
  "ask_agent E i msg R = (case session_at R i of Some s \<Rightarrow> sendTo E (agentSocket s) (msg i) | None \<Rightarrow> [])"

text \<open>\<open>idrRequester(sessionId)()\<close>: its \<open>lastAt\<close> starts at zero.\<close>

definition requestIdr :: "relay_env \<Rightarrow> ms \<Rightarrow> string \<Rightarrow> handler" where
  "requestIdr E now i R =
     (let last = (case jget (rl_idrAt R) i of Some t \<Rightarrow> t | None \<Rightarrow> 0)
      in if now - last < IDR_REQUEST_THROTTLE_MS then (R\<lparr>rl_idrAt := jset i last (rl_idrAt R)\<rparr>, [])
         else (R\<lparr>rl_idrAt := jset i now (rl_idrAt R)\<rparr>, ask_agent E i Request_idr R))"

definition network_event :: "relay_env \<Rightarrow> string \<Rightarrow> requester_event \<Rightarrow> handler" where
  "network_event E i ev R =
     (case requester_step NETWORK_STATE_REQUEST_THROTTLE_MS ev
             (case jget (rl_network R) i of Some r \<Rightarrow> r | None \<Rightarrow> new_requester) of
        (r, fires) \<Rightarrow> (R\<lparr>rl_network := jset i r (rl_network R)\<rparr>,
                       concat (map (\<lambda>_. ask_agent E i Request_network R) fires)))"

subsection \<open>What is installed on a device\<close>

text \<open>To whoever holds the session now.\<close>

definition answerInstallWaiter :: "relay_env \<Rightarrow> session \<Rightarrow> string option \<Rightarrow> string \<Rightarrow> sent" where
  "answerInstallWaiter E s failure requestId = send_option E (browserSocket s)
     (case failure of None \<Rightarrow> Install_done (sid_of s) requestId | Some why \<Rightarrow> Install_failed (sid_of s) requestId why)"

definition answer_waiters :: "relay_env \<Rightarrow> session \<Rightarrow> string option \<Rightarrow> pending_install \<Rightarrow> sent" where
  "answer_waiters E s failure p = concat (map (answerInstallWaiter E s failure) (pi_waiters p))"

definition dropPendingInstall :: "relay_env \<Rightarrow> string \<Rightarrow> string \<Rightarrow> handler" where
  "dropPendingInstall E i reason R =
     (case session_at R i of
        None \<Rightarrow> (R, [])
      | Some s \<Rightarrow>
          (case pendingInstall s of
             None \<Rightarrow> (R, [])
           | Some p \<Rightarrow> (upd i (\<lambda>s. s\<lparr>pendingInstall := None\<rparr>) R, answer_waiters E s (Some reason) p)))"

definition forgetInstall :: "relay_env \<Rightarrow> string \<Rightarrow> string \<Rightarrow> handler" where
  "forgetInstall E i reason R = dropPendingInstall E i reason (upd i (\<lambda>s. s\<lparr>installed := None\<rparr>) R)"

definition settleInstall :: "relay_env \<Rightarrow> string \<Rightarrow> string \<Rightarrow> bool \<Rightarrow> string option \<Rightarrow> handler" where
  "settleInstall E i requestId ok reason R =
     (case session_at R i of
        None \<Rightarrow> (R, [])
      | Some s \<Rightarrow>
          (case pendingInstall s of
             None \<Rightarrow> (R, [])
           | Some p \<Rightarrow>
               if pi_request p \<noteq> requestId then (R, [])
               else (upd i (\<lambda>s. s\<lparr>pendingInstall := None, installed := (if ok then Some (pi_build p) else None)\<rparr>) R,
                     answer_waiters E s
                       (if ok then None
                        else Some (case reason of Some r \<Rightarrow> r | None \<Rightarrow> ''The install this was waiting on failed'')) p)))"

end
