(* ===== verification/Relay_Boot.thy ===== *)
theory Relay_Boot
  imports Relay_State Boot_Gate_Props
begin

text \<open>
  How \<open>RelayServer\<close> carries a boot out: the boot gate's effects (\<open>applyGate\<close>), the boot it forwards to
  the agent and remembers until an answer, a rebind or its expiry (\<open>pendingBoots\<close>), the record of who
  booted a device (\<open>lastBoot\<close>), and the agent's replies. A forward that fails tells the gate, whose
  effects are applied in turn; how deep that goes is bounded, and \<open>gate_effects_are_carried_out\<close> proves the bound.
\<close>

subsection \<open>Boots in flight\<close>

definition bootKey :: "string \<Rightarrow> string \<Rightarrow> string" where
  "bootKey i requestId = i @ [CHR 0x00] @ requestId"

definition forgetBoot :: "string \<Rightarrow> relay \<Rightarrow> relay" where
  "forgetBoot key R = R\<lparr>rl_pendingBoots := jdel key (rl_pendingBoots R)\<rparr>"

definition rememberBoot :: "relay_env \<Rightarrow> ms \<Rightarrow> string \<Rightarrow> string \<Rightarrow> socket \<Rightarrow> relay \<Rightarrow> relay" where
  "rememberBoot E now i requestId agent R =
     (let key = bootKey i requestId; R1 = forgetBoot key R
      in R1\<lparr>rl_pendingBoots := jset key \<lparr>pb_session = i, pb_request = requestId, pb_agent = agent,
           pb_expires = now + pendingBootTtlMs E\<rparr> (rl_pendingBoots R1)\<rparr>)"

definition settleBoot :: "string option \<Rightarrow> string option \<Rightarrow> relay \<Rightarrow> relay" where
  "settleBoot i requestId R =
     (case (i, requestId) of (Some i, Some r) \<Rightarrow> forgetBoot (bootKey i r) R | _ \<Rightarrow> R)"

definition forgetEvictedBoots :: "string list \<Rightarrow> relay \<Rightarrow> relay" where
  "forgetEvictedBoots ids R =
     R\<lparr>rl_pendingBoots := filter (\<lambda>(_, p). pb_session p \<notin> set ids) (rl_pendingBoots R)\<rparr>"

text \<open>The timers of the entries, at the time they fire.\<close>

definition boots_expire :: "ms \<Rightarrow> relay \<Rightarrow> relay" where
  "boots_expire now R = R\<lparr>rl_pendingBoots := filter (\<lambda>(_, p). now < pb_expires p) (rl_pendingBoots R)\<rparr>"

subsection \<open>Who booted a device\<close>

definition undo_last_boot :: "string option \<Rightarrow> session \<Rightarrow> session" where
  "undo_last_boot requestId s =
     (case lastBootPending s of
        Some (r, prev) \<Rightarrow> if Some r = requestId then s\<lparr>lastBoot := prev, lastBootPending := None\<rparr> else s
      | None \<Rightarrow> s)"

definition undoLastBoot :: "string \<Rightarrow> string option \<Rightarrow> relay \<Rightarrow> relay" where
  "undoLastBoot i requestId = upd i (undo_last_boot requestId)"

definition late_class :: "string option \<Rightarrow> session \<Rightarrow> booter_class" where
  "late_class requestId s =
     (case lastBootExpired s of
        Some (r, c) \<Rightarrow> if Some r = requestId then c
          else if isAiClientKind (holderKind s) then Automated else Interactive
      | None \<Rightarrow> if isAiClientKind (holderKind s) then Automated else Interactive)"

definition settle_last_boot :: "ms \<Rightarrow> string option \<Rightarrow> bool option \<Rightarrow> session \<Rightarrow> session" where
  "settle_last_boot now requestId cold s =
     (if map_option fst (lastBootPending s) = requestId \<and> lastBootPending s \<noteq> None then
        (let s1 = (if cold = Some False then s\<lparr>lastBoot := snd (the (lastBootPending s))\<rparr> else s)
         in s1\<lparr>lastBootPending := None\<rparr>)
      else if cold = Some True then
        (let note = Some \<lparr>bn_class = late_class requestId s, bn_at = now\<rparr>
         in s\<lparr>lastBoot := note, lastBootPending := map_option (\<lambda>(r, _). (r, note)) (lastBootPending s)\<rparr>)
      else s)"

definition settleLastBoot :: "ms \<Rightarrow> string \<Rightarrow> string option \<Rightarrow> bool option \<Rightarrow> relay \<Rightarrow> relay" where
  "settleLastBoot now i requestId cold = upd i (settle_last_boot now requestId cold)"

text \<open>A boot still out keeps the value from before it.\<close>

definition charge_boot :: "ms \<Rightarrow> string \<Rightarrow> booter_class \<Rightarrow> session \<Rightarrow> session" where
  "charge_boot now requestId c s =
     s\<lparr>lastBootPending := Some (requestId, case lastBootPending s of Some (_, prev) \<Rightarrow> prev | None \<Rightarrow> lastBoot s),
       lastBoot := Some \<lparr>bn_class = c, bn_at = now\<rparr>\<rparr>"

subsection \<open>Carrying out what the gate decided\<close>

definition resets_device :: "boot_msg \<Rightarrow> bool" where
  "resets_device msg \<longleftrightarrow> bp_resetMode (bm_payload msg) = Some Full_erase \<or> bp_runReset (bm_payload msg) \<noteq> None"

text \<open>\<open>forwardBoot\<close>, up to what it tells the gate: whether the boot could not go.\<close>

definition forwardBoot :: "relay_env \<Rightarrow> ms \<Rightarrow> held_boot \<Rightarrow> relay \<Rightarrow> relay \<times> sent \<times> bool" where
  "forwardBoot E now hb R =
     (let msg = hb_msg hb; i = bm_session msg; r = bm_request msg in
      case dispatchTarget E (hb_ws hb) i R of
        Inl why \<Rightarrow> (R, sendTo E (hb_ws hb) (Boot_failed i r None why), True)
      | Inr s \<Rightarrow>
          (let R1 = (if hb_cost hb = Cold then upd i (charge_boot now r (hb_class hb)) R else R);
               R2 = on_mgr (noteBootSent i) (rememberBoot E now i r (agentSocket s) R1);
               (R3, told) = (if resets_device msg then forgetInstall E i ''The device is being reset'' R2 else (R2, []))
           in (R3, told @ [(agentSocket s, Device_boot msg)], False)))"

definition withdraw_text :: "withdrawn \<Rightarrow> string" where
  "withdraw_text why = (case why of
     Replaced \<Rightarrow> ''Replaced by a newer boot request for this session''
   | Cancelled \<Rightarrow> ''The viewer left while this boot was waiting its turn on this Mac'')"

text \<open>One effect; a boot that could not go is named, for the gate to hear of.\<close>

fun carry_out :: "relay_env \<Rightarrow> ms \<Rightarrow> held_boot effect \<Rightarrow> relay \<Rightarrow> relay \<times> sent \<times> (string \<times> string) option" where
  "carry_out E now (Deliver i r hb) R =
     (case forwardBoot E now hb R of
        (R1, out, failed) \<Rightarrow> (R1, out, if failed then Some (bm_session (hb_msg hb), bm_request (hb_msg hb)) else None))"
| "carry_out E now (Refuse i r why hb) R =
     (R, sendTo E (hb_ws hb) (Boot_failed i r (Some why) (BOOT_REFUSAL_MESSAGES why)), None)"
| "carry_out E now (Waiting i r until why hb) R = (R, sendTo E (hb_ws hb) (Boot_waits i r until why), None)"
| "carry_out E now (Withdraw i r why hb) R =
     (R, sendTo E (hb_ws hb) (Boot_failed i r None (withdraw_text why)), None)"
| "carry_out E now (Log ev key i) R = (R, [], None)"

text \<open>The timer is set after the effects, to wake the gate at its next deadline.\<close>

definition set_gate_timer :: "relay_env \<Rightarrow> ms \<Rightarrow> relay \<Rightarrow> relay" where
  "set_gate_timer E now R = R\<lparr>rl_gateTimer := map_option (max now) (nextDeadline (gateTiming E) now (rl_gate R))\<rparr>"

fun apply_gate :: "nat \<Rightarrow> relay_env \<Rightarrow> ms \<Rightarrow> held_boot effect list \<Rightarrow> relay \<Rightarrow> (relay \<times> sent) option" where
  "apply_gate n E now [] R = Some (set_gate_timer E now R, [])"
| "apply_gate n E now (fx # fxs) R =
     (case carry_out E now fx R of
        (R1, out, None) \<Rightarrow> map_option (\<lambda>(R2, out2). (R2, out @ out2)) (apply_gate n E now fxs R1)
      | (R1, out, Some (i, r)) \<Rightarrow>
          (case n of
             0 \<Rightarrow> None
           | Suc k \<Rightarrow>
               (case onEvent (gateTiming E) now (Boot_error i (Some r)) (rl_gate R1) of
                  (g, nested) \<Rightarrow>
                    (case apply_gate k E now nested (R1\<lparr>rl_gate := g\<rparr>) of
                       None \<Rightarrow> None
                     | Some (R2, out2) \<Rightarrow>
                         map_option (\<lambda>(R3, out3). (R3, out @ out2 @ out3)) (apply_gate n E now fxs R2)))))"

text \<open>Every Mac holds one boot at most, so there are no more nested deliveries than Macs.\<close>

definition applyGate :: "relay_env \<Rightarrow> ms \<Rightarrow> held_boot effect list \<Rightarrow> handler" where
  "applyGate E now fxs R =
     (case apply_gate (Suc (length (rl_gate R))) E now fxs R of Some r \<Rightarrow> r | None \<Rightarrow> (R, []))"

definition gateEvent :: "relay_env \<Rightarrow> ms \<Rightarrow> gate_event \<Rightarrow> handler" where
  "gateEvent E now ev R =
     (case onEvent (gateTiming E) now ev (rl_gate R) of (g, fxs) \<Rightarrow> applyGate E now fxs (R\<lparr>rl_gate := g\<rparr>))"

definition gate_timer_fires :: "relay_env \<Rightarrow> ms \<Rightarrow> handler" where
  "gate_timer_fires E now R =
     (let R0 = R\<lparr>rl_gateTimer := None\<rparr> in
      case tick (gateTiming E) now (rl_gate R0) of (g, fxs) \<Rightarrow> applyGate E now fxs (R0\<lparr>rl_gate := g\<rparr>))"

subsection \<open>A rebind\<close>

definition invalidate_boot :: "relay_env \<Rightarrow> string \<times> pending_boot \<Rightarrow> handler" where
  "invalidate_boot E entry R =
     (let (key, p) = entry; R1 = undoLastBoot (pb_session p) (Some (pb_request p)) (forgetBoot key R)
      in (R1, case session_at R (pb_session p) of
                Some s \<Rightarrow> send_option E (browserSocket s) (Boot_stranded (pb_session p) (pb_request p)
                  (''session '' @ pb_session p @ '' rebounded to a new agent while this boot was in flight, and that agent never saw this request''))
              | None \<Rightarrow> []))"

definition invalidateBootsFor :: "relay_env \<Rightarrow> socket list \<Rightarrow> handler" where
  "invalidateBootsFor E old R =
     fx_each (invalidate_boot E) (filter (\<lambda>(_, p). pb_agent p \<in> set old) (rl_pendingBoots R)) R"

subsection \<open>A session ends\<close>

text \<open>A disposed requester leaves the map with its timer.\<close>

definition forgetSessionState :: "string \<Rightarrow> relay \<Rightarrow> relay" where
  "forgetSessionState i R =
     forgetEvictedBoots [i] (R\<lparr>rl_idrAt := jdel i (rl_idrAt R), rl_network := jdel i (rl_network R)\<rparr>)"

definition removeSession :: "relay_env \<Rightarrow> ms \<Rightarrow> string \<Rightarrow> handler" where
  "removeSession E now i R =
     (case remove i (rl_sessions R) of
        (m, told) \<Rightarrow>
          (case gateEvent E now (Session_removed i) (forgetSessionState i (R\<lparr>rl_sessions := m\<rparr>)) of
             (R1, out) \<Rightarrow> (R1, evicted_notices E told @ out)))"

end
