(* ===== verification/Relay_Admit.thy ===== *)
theory Relay_Admit
  imports Relay_Boot
begin

text \<open>
  What \<open>RelayServer\<close> asks of a Mac before a boot (\<open>resourceLoad\<close>, \<open>macAdmission\<close>), the automation cap and the
  devices shut down to keep it or to free memory (\<open>capacityDevices\<close>, \<open>evictForCapacity\<close>,
  \<open>freeOneForMemory\<close>), and \<open>handleBoot\<close>, which puts them together. A percentage is a rational.
\<close>

subsection \<open>The load of a Mac\<close>

record load =
  cpuOver :: bool
  memOver :: bool

text \<open>\<open>(used / total) * 100 > threshold\<close>; division by zero is \<open>Infinity\<close>, or \<open>NaN\<close> for nothing used.\<close>

definition mem_over :: "rat \<Rightarrow> agent_resources \<Rightarrow> bool" where
  "mem_over threshold r =
     (if memTotalMB r = 0 then 0 < memUsedMB r
      else threshold < rat_of_int (memUsedMB r) / rat_of_int (memTotalMB r) * 100)"

definition resourceLoad :: "relay_env \<Rightarrow> relay \<Rightarrow> session \<Rightarrow> load option" where
  "resourceLoad E R s =
     (if \<not> up E (agentSocket s) then None
      else map_option (\<lambda>r. \<lparr>cpuOver = RESOURCE_THRESHOLD E < cpuPercent r \<and> \<not> isBooting (rl_gate R) (hostKey s),
             memOver = mem_over (RESOURCE_THRESHOLD E) r\<rparr>)
           (getResources (rl_sessions R) (agentSocket s)))"

record mac_admission =
  ma_booting :: bool
  ma_overloaded :: bool
  ma_memoryRefuses :: "string list"

text \<open>\<open>group[0]!\<close>: a group is never empty.\<close>

definition macAdmission :: "relay_env \<Rightarrow> relay \<Rightarrow> session list \<Rightarrow> mac_admission" where
  "macAdmission E R devs =
     (let l = resourceLoad E R (hd devs);
          mem = (case l of Some x \<Rightarrow> memOver x | None \<Rightarrow> False)
      in \<lparr>ma_booting = isBooting (rl_gate R) (hostKey (hd devs)),
          ma_overloaded = (case l of Some x \<Rightarrow> cpuOver x | None \<Rightarrow> False) \<or> mem \<and> \<not> list_ex readySent devs,
          ma_memoryRefuses = (if mem then map deviceId (filter (\<lambda>s. \<not> readySent s) devs) else [])\<rparr>)"

subsection \<open>The automation cap\<close>

definition latest_report :: "relay \<Rightarrow> session list \<Rightarrow> agent_resources option" where
  "latest_report R onHost =
     fold (\<lambda>s latest. case getResources (rl_sessions R) (agentSocket s) of
        None \<Rightarrow> latest
      | Some r \<Rightarrow> (case latest of None \<Rightarrow> Some r | Some l \<Rightarrow> if reportedAt l < reportedAt r then Some r else latest))
       onHost None"

text \<open>\<open>None\<close> is \<open>Number.POSITIVE_INFINITY\<close>.\<close>

definition automatedCap :: "relay_env \<Rightarrow> relay \<Rightarrow> session list \<Rightarrow> int option" where
  "automatedCap E R onHost =
     (case automatedCapOverride E of
        Some n \<Rightarrow> Some n
      | None \<Rightarrow> map_option (\<lambda>r. defaultCap (memTotalMB r)) (latest_report R onHost))"

text \<open>A boot nobody has answered within its time is taken as not having happened.\<close>

definition boot_expired :: "relay_env \<Rightarrow> ms \<Rightarrow> session \<Rightarrow> bool" where
  "boot_expired E now s =
     (case (lastBootPending s, lastBoot s) of
        (Some _, Some note) \<Rightarrow> pendingBootTtlMs E \<le> now - bn_at note
      | _ \<Rightarrow> False)"

definition expire_boot :: "relay_env \<Rightarrow> ms \<Rightarrow> session \<Rightarrow> session" where
  "expire_boot E now s =
     (if boot_expired E now s
      then undo_last_boot (map_option fst (lastBootPending s))
        (s\<lparr>lastBootExpired := Some (fst (the (lastBootPending s)), bn_class (the (lastBoot s)))\<rparr>)
      else s)"

definition onHost :: "relay \<Rightarrow> string \<Rightarrow> session list" where
  "onHost R key = getAllOnHost (rl_sessions R) key hostKey"

definition expire_boots :: "relay_env \<Rightarrow> ms \<Rightarrow> string \<Rightarrow> relay \<Rightarrow> relay" where
  "expire_boots E now key R = fold (\<lambda>s. upd (sid_of s) (expire_boot E now)) (onHost R key) R"

definition evicting :: "relay_env \<Rightarrow> ms \<Rightarrow> session \<Rightarrow> bool" where
  "evicting E now s = (case evictingAt s of Some t \<Rightarrow> now - t < evictionGraceMs E | None \<Rightarrow> False)"

definition booted_by :: "booter_class \<Rightarrow> session \<Rightarrow> bool" where
  "booted_by c s = (case lastBoot s of Some note \<Rightarrow> bn_class note = c | None \<Rightarrow> False)"

definition bootedAt :: "session \<Rightarrow> ms" where
  "bootedAt s = (case lastBoot s of Some note \<Rightarrow> bn_at note | None \<Rightarrow> 0)"

definition capacity_device_of :: "relay_env \<Rightarrow> relay \<Rightarrow> session \<Rightarrow> capacity_device" where
  "capacity_device_of E R s =
     \<lparr>c_session = sid_of s, c_platform = devicePlatform s,
      c_automated = booted_by Automated s
        \<and> (deviceStatus s = Booted \<or> evictingAt s \<noteq> None \<or> lastBootPending s \<noteq> None),
      c_booted = (deviceStatus s = Booted \<or> evictingAt s \<noteq> None) \<and> lastBootPending s = None,
      c_inUse = owner s \<noteq> None \<or> waitingOwner s \<noteq> None \<or> 0 < length (watchersOf (rl_sessions R) (sid_of s)),
      c_reachable = up E (agentSocket s), c_bootedAt = bootedAt s\<rparr>"

text \<open>\<open>capacityDevices\<close>, after the boots have expired.\<close>

definition capacityDevices :: "relay_env \<Rightarrow> ms \<Rightarrow> string \<Rightarrow> relay \<Rightarrow> capacity_device list" where
  "capacityDevices E now key R =
     map (capacity_device_of E R) (filter (\<lambda>s. \<not> evicting E now s) (onHost R key))"

text \<open>The cap a Mac has; a Mac without one takes any number.\<close>

definition planCapacityFor :: "relay_env \<Rightarrow> ms \<Rightarrow> session \<Rightarrow> relay \<Rightarrow> relay \<times> capacity_plan" where
  "planCapacityFor E now s R =
     (let R1 = expire_boots E now (hostKey s) R
      in (R1, case automatedCap E R1 (onHost R1 (hostKey s)) of
                None \<Rightarrow> Plan_ok []
              | Some cap \<Rightarrow> planCapacity (capacityDevices E now (hostKey s) R1) (sid_of s) (devicePlatform s) cap))"

definition mark_evicting :: "ms \<Rightarrow> session \<Rightarrow> session" where
  "mark_evicting now s = s\<lparr>evictingAt := Some now, deviceStatus := Shutdown, readySent := False\<rparr>"

definition evictForCapacity :: "relay_env \<Rightarrow> ms \<Rightarrow> string \<Rightarrow> handler" where
  "evictForCapacity E now i R =
     (case session_at R i of
        None \<Rightarrow> (R, [])
      | Some s \<Rightarrow>
          if \<not> up E (agentSocket s) then (R, [])
          else (on_mgr (noteShutdownSent i) (upd i (mark_evicting now) R),
                sendTo E (agentSocket s) (Device_shutdown i (deviceId s))))"

definition freeOneForMemory :: "relay_env \<Rightarrow> ms \<Rightarrow> session \<Rightarrow> handler" where
  "freeOneForMemory E now s R =
     (if list_ex (evicting E now) (onHost R (hostKey s)) then (R, [])
      else (let R1 = expire_boots E now (hostKey s) R
            in case idleToFree (capacityDevices E now (hostKey s) R1) (sid_of s) of
                 None \<Rightarrow> (R1, [])
               | Some victim \<Rightarrow> evictForCapacity E now victim R1))"

subsection \<open>A boot\<close>

definition gate_cost :: "boot_cost \<Rightarrow> cost" where
  "gate_cost c = (case c of Boot_cold \<Rightarrow> Cold | Boot_warm \<Rightarrow> Warm)"

definition booter :: "session \<Rightarrow> booter_class" where
  "booter s = (if isAiClientKind (holderKind s) then Automated else Interactive)"

definition tagged :: "relay_env \<Rightarrow> socket \<Rightarrow> session \<Rightarrow> boot_msg \<Rightarrow> boot_msg" where
  "tagged E ws s msg = msg\<lparr>bm_payload := (bm_payload msg)\<lparr>bp_external := wsExternal E ws,
     bp_automation := isAiClientKind (holderKind s)\<rparr>\<rparr>"

definition boot_cost_of :: "session \<Rightarrow> boot_msg \<Rightarrow> cost" where
  "boot_cost_of s msg = gate_cost (classifyBoot (deviceStatus s) (bp_resetMode (bm_payload msg))
     (bp_serviceTier (bm_payload msg)) (deviceServiceTier s))"

definition goes :: "string \<Rightarrow> held_boot effect list \<Rightarrow> bool" where
  "goes requestId fxs = list_ex (\<lambda>fx. case fx of Deliver _ r _ \<Rightarrow> r = requestId | _ \<Rightarrow> False) fxs"

definition refused_critical :: "string \<Rightarrow> held_boot effect list \<Rightarrow> bool" where
  "refused_critical requestId fxs =
     list_ex (\<lambda>fx. case fx of Refuse _ r why _ \<Rightarrow> r = requestId \<and> why = Host_memory_critical | _ \<Rightarrow> False) fxs"

definition boot_request_of :: "relay_env \<Rightarrow> socket \<Rightarrow> session \<Rightarrow> boot_msg \<Rightarrow> held_boot boot_request" where
  "boot_request_of E ws s msg =
     (let m = tagged E ws s msg
      in \<lparr>r_host = hostKey s, r_session = bm_session msg, r_request = bm_request msg,
          r_cost = boot_cost_of s m, r_class = booter s,
          r_message = \<lparr>hb_ws = ws, hb_msg = m, hb_cost = boot_cost_of s m, hb_class = booter s\<rparr>\<rparr>)"

text \<open>The gate's part of \<open>handleBoot\<close>: admit, apply, and make the room that was planned.\<close>

definition admit_boot :: "relay_env \<Rightarrow> ms \<Rightarrow> socket \<Rightarrow> session \<Rightarrow> boot_msg \<Rightarrow> string list \<Rightarrow> handler" where
  "admit_boot E now ws s msg evict R =
     (case admit (gateTiming E) now (boot_request_of E ws s msg) (rl_gate R) of
        (g, fxs) \<Rightarrow>
          fx_then (applyGate E now fxs)
            (\<lambda>R. if goes (bm_request msg) fxs then fx_each (evictForCapacity E now) evict R
                 else if refused_critical (bm_request msg) fxs then freeOneForMemory E now s R
                 else (R, []))
            (R\<lparr>rl_gate := g\<rparr>))"

definition handleBoot :: "relay_env \<Rightarrow> ms \<Rightarrow> socket \<Rightarrow> boot_msg \<Rightarrow> handler" where
  "handleBoot E now ws msg R =
     (case dispatchTarget E ws (bm_session msg) R of
        Inl why \<Rightarrow> (R, sendTo E ws (Boot_failed (bm_session msg) (bm_request msg) None why))
      | Inr s \<Rightarrow>
          (let req = boot_request_of E ws s msg;
               (R1, plan) = (if r_cost req = Cold \<and> r_class req = Automated then planCapacityFor E now s R
                             else (R, Plan_ok []))
           in case plan of
                Plan_refused \<Rightarrow> (R1, sendTo E ws (Boot_failed (bm_session msg) (bm_request msg) (Some Host_at_capacity)
                  (BOOT_REFUSAL_MESSAGES Host_at_capacity)))
              | Plan_ok evict \<Rightarrow> admit_boot E now ws s msg evict R1))"

end
