(* ===== verification/Relay_Join.thy ===== *)
theory Relay_Join
  imports Relay_Admit
begin

text \<open>
  How \<open>RelayServer\<close> gives a session to a client and takes it back: \<open>handleSessionStart\<close>, \<open>handleLease\<close>
  (which chooses a device, joins it and boots it in one call), \<open>session:leave\<close>, \<open>session:end\<close>, the close
  of a browser socket, and \<open>handleWatchStart\<close>. The link to the watch page a join may carry is left out.
\<close>

subsection \<open>Joining\<close>

text \<open>What a viewer is shown again: what the relay last heard of the device.\<close>

definition replay_state :: "relay_env \<Rightarrow> socket \<Rightarrow> session \<Rightarrow> sent" where
  "replay_state E ws s =
     (case chromeData s of Some p \<Rightarrow> sendTo E ws (Replay_chrome (sid_of s) p) | None \<Rightarrow> []) @
     (case deviceInfo s of Some p \<Rightarrow> sendTo E ws (Replay_info (sid_of s) p) | None \<Rightarrow> []) @
     (case postures s of Some p \<Rightarrow> sendTo E ws (Replay_postures (sid_of s) p) | None \<Rightarrow> [])"

definition has_capability :: "session \<Rightarrow> string \<Rightarrow> bool" where
  "has_capability s c = (case agentCapabilities s of Some cs \<Rightarrow> c \<in> set cs | None \<Rightarrow> False)"

text \<open>After the join: the state, and for a device already up a keyframe and its network state.\<close>

definition replay_join :: "relay_env \<Rightarrow> ms \<Rightarrow> socket \<Rightarrow> session \<Rightarrow> handler" where
  "replay_join E now ws s R =
     (if \<not> readySent s then (R, replay_state E ws s)
      else fx_then (\<lambda>R. (R, replay_state E ws s @ sendTo E ws (Replay_ready (deviceId s))))
        (fx_then (\<lambda>R. if holderStream s then requestIdr E now (sid_of s) R else (R, []))
          (\<lambda>R. if has_capability s ''network-control'' then network_event E (sid_of s) (Call now) R else (R, []))) R)"

definition join_as :: "relay_env \<Rightarrow> socket \<Rightarrow> client_kind option \<Rightarrow> bool option \<Rightarrow> join_holder" where
  "join_as E ws kind stream = \<lparr>h_kind = kind, h_label = holderLabelOf E ws, h_name = Some (personName E ws),
     h_stream = (if stream = Some False then Some False else None)\<rparr>"

definition exhausted :: "relay_env \<Rightarrow> client_kind option \<Rightarrow> relay \<Rightarrow> session \<Rightarrow> bool" where
  "exhausted E kind R s =
     (case resourceLoad E R s of
        None \<Rightarrow> False
      | Some l \<Rightarrow> cpuOver l \<or> memOver l \<and> \<not> (readySent s \<and> \<not> isAiClientKind kind))"

definition refuse_join :: "relay_env \<Rightarrow> socket \<Rightarrow> string \<Rightarrow> join_refusal \<Rightarrow> string \<Rightarrow> handler" where
  "refuse_join E ws i why text R = (R, sendTo E ws (Join_refused i why text))"

definition joined :: "relay_env \<Rightarrow> ms \<Rightarrow> socket \<Rightarrow> string \<Rightarrow> eviction list \<Rightarrow> session \<Rightarrow> handler" where
  "joined E now ws i told s R =
     fx_then (\<lambda>R. (R, evicted_notices E told @
          sendTo E ws (Session_joined i (case agentCapabilities s of Some cs \<Rightarrow> cs | None \<Rightarrow> []))))
       (\<lambda>R. if \<not> up E (agentSocket s) then (R, sendTo E ws (Agent_away i)) else replay_join E now ws s R) R"

definition handleSessionStart ::
    "relay_env \<Rightarrow> ms \<Rightarrow> socket \<Rightarrow> string \<Rightarrow> client_kind option \<Rightarrow> bool option \<Rightarrow> handler" where
  "handleSessionStart E now ws i kind stream R =
     (case session_at R i of
        None \<Rightarrow> refuse_join E ws i Refused_not_found ''Session not found'' R
      | Some s \<Rightarrow>
          if isWatching (rl_sessions R) ws i then
            refuse_join E ws i Refused_busy ''This connection is watching the session. Stop watching to join it.'' R
          else if occupied (up E) (answering E) (ownerOf E ws) s then refuse_join E ws i Refused_busy ''Session busy'' R
          else if exhausted E kind R s then refuse_join E ws i Refused_exhausted ''Agent resources exhausted'' R
          else (case join now (up E) (answering E) i ws (ownerRecord E ws) (join_as E ws kind stream) (rl_sessions R) of
                  (m, Join_ok, told) \<Rightarrow>
                    (case get m i of
                       Some s' \<Rightarrow> joined E now ws i told s' (R\<lparr>rl_sessions := m\<rparr>)
                     | None \<Rightarrow> (R, []))
                | (m, Join_held_by_another, told) \<Rightarrow> refuse_join E ws i Refused_busy ''Session busy'' (R\<lparr>rl_sessions := m\<rparr>)
                | (m, Join_not_found, told) \<Rightarrow> refuse_join E ws i Refused_not_found ''Session not found'' (R\<lparr>rl_sessions := m\<rparr>)))"

subsection \<open>Leasing\<close>

record lease_msg =
  ls_request :: string
  ls_platform :: "string option"
  ls_buildId :: "int option"
  ls_exclude :: "string list"
  ls_serviceTier :: "service_tier option"
  ls_runReset :: "payload option"
  ls_acceptH264 :: bool
  ls_stream :: "bool option"

text \<open>\<open>SELECT platform FROM builds\<close>: no such build, or its platform if it has one.\<close>

type_synonym build_lookup = "int \<Rightarrow> string option option"

definition lease_platform :: "build_lookup \<Rightarrow> lease_msg \<Rightarrow> string + string" where
  "lease_platform builds msg =
     (let wanted = (\<lambda>p. case p of Some x \<Rightarrow> (if x = [] then Inl ''no platform: name one, or a build this relay has'' else Inr x)
                              | None \<Rightarrow> Inl ''no platform: name one, or a build this relay has'')
      in case ls_buildId msg of
           None \<Rightarrow> wanted (ls_platform msg)
         | Some b \<Rightarrow>
             (case builds b of
                None \<Rightarrow> Inl (''build '' @ int_text b @ '' not found'')
              | Some p \<Rightarrow> if p = Some ''ios'' \<or> p = Some ''android'' then wanted p else wanted (ls_platform msg)))"

definition turn_down :: "relay_env \<Rightarrow> socket \<Rightarrow> lease_msg \<Rightarrow> lease_refusal \<Rightarrow> string \<Rightarrow> handler" where
  "turn_down E ws msg why text R = (R, sendTo E ws (Lease_turned_down (ls_request msg) why text
     (why \<noteq> Lease_no_device \<and> why \<noteq> Lease_bad_request)))"

definition ours :: "session \<Rightarrow> bool" where
  "ours s \<longleftrightarrow> deviceStatus s = Booted \<and> booted_by Automated s"

definition leasable :: "relay_env \<Rightarrow> ms \<Rightarrow> relay \<Rightarrow> session \<Rightarrow> bool" where
  "leasable E now R s \<longleftrightarrow> up E (agentSocket s) \<and> \<not> deviceGone s
     \<and> owner s = None \<and> watchersOf (rl_sessions R) (sid_of s) = []
     \<and> \<not> evicting E now s \<and> lastBootPending s = None
     \<and> \<not> (idleTimer s \<noteq> None \<and> \<not> lastHolderWasAi s)
     \<and> (deviceStatus s = Shutdown \<or> ours s)"

definition in_pool :: "lease_msg \<Rightarrow> session \<Rightarrow> bool" where
  "in_pool msg s \<longleftrightarrow> ours s \<and> classifyBoot (deviceStatus s) None (ls_serviceTier msg) (deviceServiceTier s) = Boot_warm"

definition leaseRefusal :: "relay_env \<Rightarrow> ms \<Rightarrow> session \<Rightarrow> bool \<Rightarrow> relay \<Rightarrow> relay \<times> admission_refusal option" where
  "leaseRefusal E now s pool R =
     (if (case resourceLoad E R s of Some l \<Rightarrow> cpuOver l \<or> memOver l | None \<Rightarrow> False) then (R, Some Agent_resources_exhausted)
      else if pool then (R, None)
      else (case planCapacityFor E now s R of
              (R1, Plan_refused) \<Rightarrow> (R1, Some (Boot_refusal Host_at_capacity))
            | (R1, Plan_ok _) \<Rightarrow> (R1, map_option Boot_refusal (wouldRefuseAutomated now (rl_gate R1) (hostKey s)))))"

definition lease_candidate_of :: "relay_env \<Rightarrow> ms \<Rightarrow> lease_msg \<Rightarrow> session \<Rightarrow> relay \<Rightarrow> relay \<times> lease_candidate" where
  "lease_candidate_of E now msg s R =
     (case leaseRefusal E now s (in_pool msg s) R of
        (R1, why) \<Rightarrow> (R1, \<lparr>l_session = sid_of s, l_host = hostKey s, l_pool = in_pool msg s,
          l_bootedAt = bootedAt s, l_refusal = why\<rparr>))"

text \<open>The loop over the sessions of the platform, each read when its turn comes.\<close>

fun lease_candidates :: "relay_env \<Rightarrow> ms \<Rightarrow> lease_msg \<Rightarrow> string list \<Rightarrow> relay \<Rightarrow> relay \<times> lease_candidate list" where
  "lease_candidates E now msg [] R = (R, [])"
| "lease_candidates E now msg (i # ids) R =
     (case session_at R i of
        None \<Rightarrow> lease_candidates E now msg ids R
      | Some s \<Rightarrow>
          if \<not> leasable E now R s then lease_candidates E now msg ids R
          else (case lease_candidate_of E now msg s R of
                  (R1, c) \<Rightarrow> (case lease_candidates E now msg ids R1 of (R2, cs) \<Rightarrow> (R2, c # cs))))"

definition lease_host_of :: "relay_env \<Rightarrow> ms \<Rightarrow> string \<Rightarrow> relay \<Rightarrow> relay \<times> lease_host" where
  "lease_host_of E now key R =
     (let reports = List.map_filter (getResources (rl_sessions R)) (fold set_add (map agentSocket (onHost R key)) []);
          R1 = expire_boots E now key R;
          automated = int (length (filter c_automated (capacityDevices E now key R1)))
      in (R1, case jsort (\<lambda>x y. reportedAt y - reportedAt x) reports of
                r # _ \<Rightarrow> \<lparr>l_freeMB = Some (rat_of_int (memTotalMB r - memUsedMB r)), l_cpu = Some (cpuPercent r), l_automated = automated\<rparr>
              | [] \<Rightarrow> \<lparr>l_freeMB = None, l_cpu = None, l_automated = automated\<rparr>))"

fun lease_hosts :: "relay_env \<Rightarrow> ms \<Rightarrow> string list \<Rightarrow> relay \<Rightarrow> relay \<times> (string \<times> lease_host) list" where
  "lease_hosts E now [] R = (R, [])"
| "lease_hosts E now (key # keys) R =
     (case lease_host_of E now key R of
        (R1, h) \<Rightarrow> (case lease_hosts E now keys R1 of (R2, hs) \<Rightarrow> (R2, (key, h) # hs)))"

definition lease_text :: "admission_refusal \<Rightarrow> string" where
  "lease_text why = (case why of
     Agent_resources_exhausted \<Rightarrow> ''Agent resources exhausted'' | Boot_refusal b \<Rightarrow> BOOT_REFUSAL_MESSAGES b)"

definition lease_boot :: "lease_msg \<Rightarrow> session \<Rightarrow> boot_msg" where
  "lease_boot msg s = \<lparr>bm_session = sid_of s, bm_request = ls_request msg,
     bm_payload = \<lparr>bp_deviceId = deviceId s, bp_resetMode = None, bp_serviceTier = ls_serviceTier msg,
       bp_runReset = ls_runReset msg, bp_acceptH264 = ls_acceptH264 msg, bp_secureContext = None, bp_external = False, bp_automation = False\<rparr>\<rparr>"

text \<open>The device chosen: told, joined, and booted if the join made this client its holder.\<close>

definition take_lease :: "relay_env \<Rightarrow> ms \<Rightarrow> socket \<Rightarrow> lease_msg \<Rightarrow> session \<Rightarrow> bool \<Rightarrow> handler" where
  "take_lease E now ws msg s pool =
     fx_then (\<lambda>R. (R, sendTo E ws (Leased (ls_request msg) (sid_of s) (deviceId s) pool)))
       (fx_then (handleSessionStart E now ws (sid_of s) (Some Flow_runner) (if ls_stream msg = Some False then Some False else None))
         (\<lambda>R. case session_at R (sid_of s) of
                Some s' \<Rightarrow> if ownsSession E ws s' then handleBoot E now ws (lease_boot msg s') R else (R, [])
              | None \<Rightarrow> (R, [])))"

definition settle_choice :: "relay_env \<Rightarrow> ms \<Rightarrow> socket \<Rightarrow> lease_msg \<Rightarrow> lease_candidate list \<Rightarrow> lease_choice \<Rightarrow> handler" where
  "settle_choice E now ws msg cands choice R =
     (case choice of
        Lease_refused why critical \<Rightarrow>
          fx_then
            (\<lambda>R. case Option.bind (Option.bind critical (\<lambda>key. find (\<lambda>c. l_host c = key) cands))
                    (\<lambda>c. session_at R (l_session c)) of
                   Some s \<Rightarrow> freeOneForMemory E now s R
                 | None \<Rightarrow> (R, []))
            (turn_down E ws msg (Lease_admission why) (lease_text why)) R
      | Lease_ok i \<Rightarrow>
          (case (session_at R i, find (\<lambda>c. l_session c = i) cands) of
             (Some s, Some c) \<Rightarrow> take_lease E now ws msg s (l_pool c) R
           | _ \<Rightarrow> (R, [])))"

definition handleLease :: "build_lookup \<Rightarrow> relay_env \<Rightarrow> ms \<Rightarrow> socket \<Rightarrow> lease_msg \<Rightarrow> handler" where
  "handleLease builds E now ws msg R =
     (case lease_platform builds msg of
        Inl why \<Rightarrow> turn_down E ws msg Lease_bad_request why R
      | Inr platform \<Rightarrow>
          (let ofPlatform = filter (\<lambda>s. devicePlatform s = platform \<and> sid_of s \<notin> set (ls_exclude msg)) (all (rl_sessions R))
           in if ofPlatform = [] then turn_down E ws msg Lease_no_device (''no '' @ platform @ '' device on this relay'') R
              else (let R1 = fold (expire_boots E now) (fold set_add (map hostKey ofPlatform) []) R;
                        (R2, cands) = lease_candidates E now msg (map sid_of ofPlatform) R1
                    in if cands = [] then turn_down E ws msg Lease_all_held (''every '' @ platform @ '' device is in use'') R2
                       else (case lease_hosts E now (fold set_add (map l_host cands) []) R2 of
                               (R3, hosts) \<Rightarrow> settle_choice E now ws msg cands (chooseLease cands hosts) R3))))"

subsection \<open>Letting go\<close>

definition idleShutdown :: "relay_env \<Rightarrow> string \<Rightarrow> handler" where
  "idleShutdown E i R =
     (case session_at R i of
        None \<Rightarrow> (R, [])
      | Some s \<Rightarrow>
          if \<not> up E (agentSocket s) then (R, [])
          else (on_mgr (noteShutdownSent i) R, sendTo E (agentSocket s) (Device_shutdown i (deviceId s))))"

text \<open>The idle timer of a session, at the time it fires.\<close>

definition idle_timer_fires :: "relay_env \<Rightarrow> ms \<Rightarrow> string \<Rightarrow> handler" where
  "idle_timer_fires E now i R =
     (case Option.bind (session_at R i) idleTimer of
        Some t \<Rightarrow> if t \<le> now then idleShutdown E i (on_mgr (idle_fires now i) R) else (R, [])
      | None \<Rightarrow> (R, []))"

definition session_leave :: "relay_env \<Rightarrow> ms \<Rightarrow> socket \<Rightarrow> string \<Rightarrow> handler" where
  "session_leave E now ws i R =
     (case session_at R i of
        None \<Rightarrow> (R, [])
      | Some s \<Rightarrow>
          if \<not> ownsSession E ws s then (R, [])
          else fx_then
            (\<lambda>R. gateEvent E now (Browser_closed i)
               (forgetSessionState i (on_mgr (\<lambda>m. spend_resume i (clearBrowser now i (idleResumeOnLeave s) m)) R)))
            (\<lambda>R. case endWatches i Session_ended (rl_sessions R) of
                   (m, told) \<Rightarrow> (R\<lparr>rl_sessions := m\<rparr>, evicted_notices E told)) R)"

definition release_held :: "relay_env \<Rightarrow> ms \<Rightarrow> string \<Rightarrow> handler" where
  "release_held E now i =
     fx_then (\<lambda>R. let R1 = on_mgr (\<lambda>m. spend_resume i (clearBrowser now i True m)) R
                  in (R1, tellWatchers E i (Holder_left i) R1))
       (gateEvent E now (Browser_closed i))"

text \<open>The part of the close handler that a browser or stream socket reaches.\<close>

definition socket_gone :: "relay_env \<Rightarrow> ms \<Rightarrow> socket \<Rightarrow> handler" where
  "socket_gone E now ws R =
     (let R1 = (case getByStreamSocket (rl_sessions R) ws of
                  Some s \<Rightarrow> on_mgr (clearStreamSocket (sid_of s)) R | None \<Rightarrow> R);
          R2 = on_mgr (\<lambda>m. fst (removeWatcherSocket ws m)) R1
      in fx_each (release_held E now) (map sid_of (getByBrowserSocket (rl_sessions R2) ws)) R2)"

subsection \<open>Watching\<close>

datatype watch_answer = Watch_refused watch_start_result | Watch_begun

text \<open>What the relay tells a new watcher is what a join replays; a keyframe is asked for as well.\<close>

definition handleWatchStart :: "relay_env \<Rightarrow> ms \<Rightarrow> bool \<Rightarrow> socket \<Rightarrow> string \<Rightarrow> relay \<Rightarrow> relay \<times> sent \<times> watch_answer" where
  "handleWatchStart E now mayWatch ws i R =
     (case watch_start mayWatch (ownerOf E ws) ws i (rl_sessions R) of
        (m, Watch_started) \<Rightarrow>
          (let R1 = R\<lparr>rl_sessions := m\<rparr> in
           case session_at R1 i of
             None \<Rightarrow> (R1, [], Watch_begun)
           | Some s \<Rightarrow>
               (let (R2, out) =
                  (if \<not> up E (agentSocket s) then (R1, sendTo E ws (Agent_away i))
                   else if \<not> readySent s then (R1, replay_state E ws s)
                   else fx_then (\<lambda>R. (R, replay_state E ws s @ sendTo E ws (Replay_ready (deviceId s))))
                          (requestIdr E now i) R1)
                in (R2, out, Watch_begun)))
      | (m, why) \<Rightarrow> (R\<lparr>rl_sessions := m\<rparr>, [], Watch_refused why))"

end
