(* ===== verification/Relay_Agent.thy ===== *)
theory Relay_Agent
  imports Relay_Join
begin

text \<open>
  The agent's side of \<open>RelayServer\<close>: its registration (which moves the sessions of its last connection to
  the new one), its device list, its resource report, what it answers about a boot or a shutdown, and
  the loss of its socket, with the sessions held open a while for its return. And the two commands
  whose answers are matched up here: \<open>device:shutdown\<close> and \<open>app:install\<close>. The screenshots and UI trees
  an HTTP route waits for are left out, and so is the log.
\<close>

subsection \<open>Who waits for a shutdown\<close>

definition shutdownRequesterKey :: "string \<Rightarrow> string \<Rightarrow> string" where
  "shutdownRequesterKey i requestId = i @ [CHR 0x0A] @ requestId"

definition rememberShutdownRequester :: "ms \<Rightarrow> socket \<Rightarrow> string \<Rightarrow> string option \<Rightarrow> relay \<Rightarrow> relay" where
  "rememberShutdownRequester now ws i requestId R =
     (case requestId of
        None \<Rightarrow> R
      | Some r \<Rightarrow> R\<lparr>rl_requesters := jset (shutdownRequesterKey i r) \<lparr>sr_session = i, sr_request = r, sr_ws = ws,
          sr_expires = now + SHUTDOWN_REQUESTER_TTL_MS\<rparr> (rl_requesters R)\<rparr>)"

definition answerShutdownRequester :: "relay_env \<Rightarrow> session \<Rightarrow> string option \<Rightarrow> payload \<Rightarrow> handler" where
  "answerShutdownRequester E s requestId raw R =
     (case requestId of
        None \<Rightarrow> (R, [])
      | Some r \<Rightarrow>
          (let key = shutdownRequesterKey (sid_of s) r in
           case jget (rl_requesters R) key of
             None \<Rightarrow> (R, [])
           | Some e \<Rightarrow> (R\<lparr>rl_requesters := jdel key (rl_requesters R)\<rparr>,
               if Some (sr_ws e) = browserSocket s then [] else sendTo E (sr_ws e) (Passed_on raw))))"

definition settleShutdownRequesters :: "relay_env \<Rightarrow> session \<Rightarrow> string option \<Rightarrow> handler" where
  "settleShutdownRequesters E s message R =
     (let mine = filter (\<lambda>(_, e). sr_session e = sid_of s) (rl_requesters R)
      in (R\<lparr>rl_requesters := filter (\<lambda>(_, e). sr_session e \<noteq> sid_of s) (rl_requesters R)\<rparr>,
          case message of
            None \<Rightarrow> []
          | Some text \<Rightarrow> concat (map (\<lambda>(_, e). if Some (sr_ws e) = browserSocket s then []
              else sendTo E (sr_ws e) (Shutdown_failed (sid_of s) (Some (sr_request e)) text)) mine)))"

definition forgetShutdownRequesters :: "socket \<Rightarrow> relay \<Rightarrow> relay" where
  "forgetShutdownRequesters ws R = R\<lparr>rl_requesters := filter (\<lambda>(_, e). sr_ws e \<noteq> ws) (rl_requesters R)\<rparr>"

definition requesters_expire :: "ms \<Rightarrow> relay \<Rightarrow> relay" where
  "requesters_expire now R = R\<lparr>rl_requesters := filter (\<lambda>(_, e). now < sr_expires e) (rl_requesters R)\<rparr>"

subsection \<open>\<open>device:shutdown\<close>\<close>

definition device_shutdown :: "relay_env \<Rightarrow> ms \<Rightarrow> socket \<Rightarrow> string \<Rightarrow> string option \<Rightarrow> payload \<Rightarrow> handler" where
  "device_shutdown E now ws i requestId raw R =
     (let refuse = (\<lambda>text. (R, sendTo E ws (Shutdown_failed i requestId text))) in
      if session_at R i \<noteq> None \<and> isWatching (rl_sessions R) ws i then
        refuse ''This connection is watching the session and cannot shut its device down.''
      else if (case session_at R i of Some s \<Rightarrow> \<not> mayShutDown E ws s | None \<Rightarrow> False) then
        refuse (ownershipRefusal (the (session_at R i)))
      else (case reachableTargetWithoutOwnership E i R of
              Inl why \<Rightarrow> refuse why
            | Inr s \<Rightarrow>
                (on_mgr (noteShutdown now i (userOf E ws) (holderLabelOf E ws) (personName E ws))
                   (rememberShutdownRequester now ws i requestId R),
                 [(agentSocket s, Passed_on raw)])))"

subsection \<open>What the agent answers\<close>

text \<open>To the holder, as it arrived.\<close>

definition to_holder :: "relay_env \<Rightarrow> string \<Rightarrow> payload \<Rightarrow> relay \<Rightarrow> sent" where
  "to_holder E i raw R = (case session_at R i of Some s \<Rightarrow> send_option E (browserSocket s) (Passed_on raw) | None \<Rightarrow> [])"

definition to_viewers :: "relay_env \<Rightarrow> string \<Rightarrow> payload \<Rightarrow> relay \<Rightarrow> sent" where
  "to_viewers E i raw R = to_holder E i raw R @ tellWatchers E i (Passed_on raw) R"

definition agent_booting :: "relay_env \<Rightarrow> string \<Rightarrow> payload \<Rightarrow> handler" where
  "agent_booting E i raw R =
     (case session_at R i of
        None \<Rightarrow> (R, [])
      | Some s \<Rightarrow> (let R1 = on_mgr (\<lambda>m. setDeviceServiceTier i None (clearDeviceCache i m)) R in (R1, to_viewers E i raw R1)))"

definition agent_boot_error :: "relay_env \<Rightarrow> ms \<Rightarrow> string \<Rightarrow> string option \<Rightarrow> payload \<Rightarrow> handler" where
  "agent_boot_error E now i requestId raw R =
     fx_then (gateEvent E now (Boot_error i requestId))
       (\<lambda>R. let R1 = undoLastBoot i requestId R in (R1, to_holder E i raw R1)) (settleBoot (Some i) requestId R)"

definition ready_facts :: "bool option \<Rightarrow> device_tier option \<Rightarrow> session \<Rightarrow> session" where
  "ready_facts cold tier s =
     (let s1 = (if cold \<noteq> Some False then s\<lparr>installed := None\<rparr> else s)
      in if tier \<noteq> None then s1\<lparr>deviceServiceTier := tier\<rparr> else s1)"

definition agent_ready ::
    "relay_env \<Rightarrow> ms \<Rightarrow> string option \<Rightarrow> string option \<Rightarrow> bool option \<Rightarrow> device_tier option \<Rightarrow> payload \<Rightarrow> handler" where
  "agent_ready E now sid requestId cold tier raw R =
     (case sid of
        None \<Rightarrow> (R, [])
      | Some i \<Rightarrow>
          (let R0 = settleBoot (Some i) requestId R in
           case session_at R0 i of
             None \<Rightarrow> (R0, [])
           | Some s \<Rightarrow>
               fx_then (gateEvent E now (Ready (hostKey s) i cold))
                 (\<lambda>R. let R1 = on_mgr (\<lambda>m. setReadySent i True (updateDeviceStatus i Booted m)) R
                      in (R1, to_viewers E i raw R1))
                 (settleLastBoot now i requestId cold (upd i (ready_facts cold tier) R0))))"

definition shut_down :: "session \<Rightarrow> session" where
  "shut_down s =
     (let s1 = (if lastBootPending s = None then s\<lparr>lastBoot := None\<rparr> else s)
      in s1\<lparr>lastBootExpired := None, evictingAt := None\<rparr>)"

definition agent_shutdown_done :: "relay_env \<Rightarrow> ms \<Rightarrow> string \<Rightarrow> string option \<Rightarrow> payload \<Rightarrow> handler" where
  "agent_shutdown_done E now i requestId raw =
     fx_then (gateEvent E now (Shutdown_done i))
       (\<lambda>R. case session_at R i of
              None \<Rightarrow> (R, [])
            | Some s \<Rightarrow>
                fx_then (\<lambda>R. forgetInstall E i ''The device shut down''
                    (on_mgr (\<lambda>m. setDeviceServiceTier i None (setReadySent i False (updateDeviceStatus i Shutdown m))) R))
                  (\<lambda>R. let R1 = upd i shut_down (on_mgr (settleShutdown i) R)
                       in fx_then (\<lambda>R. (R, to_holder E i raw R)) (answerShutdownRequester E s requestId raw) R1) R)"

definition agent_shutdown_error :: "relay_env \<Rightarrow> string \<Rightarrow> string option \<Rightarrow> payload \<Rightarrow> handler" where
  "agent_shutdown_error E i requestId raw R =
     (case session_at R i of
        None \<Rightarrow> (R, [])
      | Some s \<Rightarrow>
          fx_then (\<lambda>R. (R, to_holder E i raw R)) (answerShutdownRequester E s requestId raw)
            (on_mgr (undoShutdown i)
              (upd i (\<lambda>s. if evictingAt s \<noteq> None then s\<lparr>evictingAt := None, deviceStatus := Booted\<rparr> else s) R)))"

definition agent_installed :: "relay_env \<Rightarrow> string \<Rightarrow> string \<Rightarrow> bool \<Rightarrow> string option \<Rightarrow> payload \<Rightarrow> handler" where
  "agent_installed E i requestId ok reason raw =
     fx_then (settleInstall E i requestId ok reason) (\<lambda>R. (R, to_holder E i raw R))"

subsection \<open>\<open>app:install\<close>\<close>

text \<open>
  \<open>path\<close> is the build's stored path, if there is such a build, and \<open>readable\<close> whether its file is there.
\<close>

definition handleBrowserAppInstall ::
    "relay_env \<Rightarrow> socket \<Rightarrow> string \<Rightarrow> string \<Rightarrow> int \<Rightarrow> bool \<Rightarrow> string option \<Rightarrow> bool \<Rightarrow> handler" where
  "handleBrowserAppInstall E ws i requestId buildId keepIfInstalled path readable R =
     (let fail = (\<lambda>text. (R, sendTo E ws (Install_failed i requestId text))) in
      case session_at R i of
        None \<Rightarrow> fail ''Session not found''
      | Some s \<Rightarrow>
          if \<not> ownsSession E ws s then fail (ownershipRefusal s)
          else (case path of
                  None \<Rightarrow> fail ''Build not found''
                | Some filePath \<Rightarrow>
                    if \<not> up E (agentSocket s) then fail ''agent offline''
                    else if keepIfInstalled \<and> map_option pi_build (pendingInstall s) = Some (buildId, filePath) then
                      (upd i (\<lambda>s. s\<lparr>pendingInstall := map_option (\<lambda>p. p\<lparr>pi_waiters := pi_waiters p @ [requestId]\<rparr>) (pendingInstall s)\<rparr>) R, [])
                    else if keepIfInstalled \<and> pendingInstall s = None \<and> installed s = Some (buildId, filePath) then
                      (R, sendTo E ws (Install_done i requestId))
                    else if \<not> readable then
                      fail ''The relay cannot read this build file. It may have been deleted -- re-upload the build.''
                    else fx_then (forgetInstall E i ''Replaced by another install on this device'')
                           (\<lambda>R. (upd i (\<lambda>s. s\<lparr>pendingInstall := Some \<lparr>pi_build = (buildId, filePath), pi_request = requestId,
                                    pi_waiters = []\<rparr>\<rparr>) R,
                                 sendTo E (agentSocket s) (App_install i requestId (buildId, filePath))
                                   @ tellWatchersAction E i Act_install R)) R))"

subsection \<open>An agent's socket goes away\<close>

text \<open>\<open>rejectPending\<close>, the half that touches sessions: their installs in flight.\<close>

definition rejectPending :: "relay_env \<Rightarrow> string list \<Rightarrow> string \<Rightarrow> handler" where
  "rejectPending E ids reason = fx_each (\<lambda>i. dropPendingInstall E i reason) ids"

definition end_session :: "relay_env \<Rightarrow> ms \<Rightarrow> session \<Rightarrow> handler" where
  "end_session E now s = fx_then (settleShutdownRequesters E s (Some SHUTDOWN_OUTCOME_LOST)) (removeSession E now (sid_of s))"

definition evictAgentSocket :: "relay_env \<Rightarrow> ms \<Rightarrow> socket \<Rightarrow> handler" where
  "evictAgentSocket E now ws R =
     (let ss = getAllByAgentSocket (rl_sessions R) ws in
      if ss = [] then (R, [])
      else fx_then (rejectPending E (map sid_of ss) ''Agent disconnected'')
        (fx_then (\<lambda>R. (forgetEvictedBoots (map sid_of ss) R,
            concat (map (\<lambda>s. send_option E (browserSocket s) (Session_terminated (sid_of s))) ss)))
          (fx_then (fx_each (end_session E now) ss) (\<lambda>R. (on_mgr (removeResources ws) R, [])))) R)"

text \<open>A socket closed for a credential that is no longer valid (\<open>revoked\<close>) is not waited for.\<close>

definition holdAgentSocket :: "relay_env \<Rightarrow> ms \<Rightarrow> bool \<Rightarrow> socket \<Rightarrow> relay \<Rightarrow> relay \<times> sent \<times> bool" where
  "holdAgentSocket E now revoked ws R =
     (let ss = getAllByAgentSocket (rl_sessions R) ws in
      if revoked then
        (case evictAgentSocket E now ws R of
           (R1, out) \<Rightarrow> (if ss = [] then on_mgr (removeResources ws) R1 else R1, out, ss \<noteq> []))
      else if ss = [] then (on_mgr (removeResources ws) R, [], False)
      else (case rejectPending E (map sid_of ss) ''Agent disconnected'' R of
              (R1, out) \<Rightarrow>
                (R1\<lparr>rl_holds := jset ws (now + agentGraceMs E) (rl_holds R1)\<rparr>,
                 out @ concat (map (\<lambda>s. send_option E (browserSocket s) (Agent_away (sid_of s))
                   @ tellWatchers E (sid_of s) (Agent_away (sid_of s)) R1) ss),
                 True)))"

definition releaseHold :: "socket \<Rightarrow> relay \<Rightarrow> relay" where
  "releaseHold ws R = R\<lparr>rl_holds := jdel ws (rl_holds R)\<rparr>"

text \<open>The timer of a held socket.\<close>

definition agent_hold_fires :: "relay_env \<Rightarrow> ms \<Rightarrow> socket \<Rightarrow> handler" where
  "agent_hold_fires E now ws R =
     (case jget (rl_holds R) ws of
        None \<Rightarrow> (R, [])
      | Some t \<Rightarrow>
          if now < t then (R, [])
          else fx_then (evictAgentSocket E now ws) (\<lambda>R. (on_mgr (removeResources ws) R, [])) (releaseHold ws R))"

definition socket_closes :: "relay_env \<Rightarrow> ms \<Rightarrow> bool \<Rightarrow> socket \<Rightarrow> handler" where
  "socket_closes E now revoked ws R =
     (case holdAgentSocket E now revoked ws (forgetShutdownRequesters ws R) of
        (R1, out, was_agent) \<Rightarrow>
          if was_agent then (R1, out)
          else (case socket_gone E now ws R1 of (R2, out2) \<Rightarrow> (R2, out @ out2)))"

definition session_end :: "relay_env \<Rightarrow> ms \<Rightarrow> socket \<Rightarrow> string \<Rightarrow> handler" where
  "session_end E now ws i R =
     (case session_at R i of
        None \<Rightarrow> (R, [])
      | Some s \<Rightarrow>
          if \<not> ownsSession E ws s then (R, [])
          else fx_then (settleShutdownRequesters E s None) (removeSession E now i) R)"

subsection \<open>What an agent reports\<close>

definition handleAgentResources :: "relay_env \<Rightarrow> ms \<Rightarrow> socket \<Rightarrow> agent_resources \<Rightarrow> handler" where
  "handleAgentResources E now ws r R =
     (let R1 = on_mgr (setResources ws r) R in
      case getAllByAgentSocket (rl_sessions R1) ws of
        [] \<Rightarrow> (R1, [])
      | s # _ \<Rightarrow>
          fx_then (gateEvent E now (Sample (hostKey s) (cpuPercent r)))
            (\<lambda>R. case memoryPressure r of
                   None \<Rightarrow> (R, [])
                 | Some p \<Rightarrow> gateEvent E now (Pressure (hostKey s) (p = Critical_pressure)) R) R1)"

text \<open>\<open>[...new Map(devices.map((d) => [d.id, d])).values()]\<close>.\<close>

definition by_last :: "device_report list \<Rightarrow> device_report list" where
  "by_last ds = map snd (fold (\<lambda>d. jset (r_id d) d) ds [])"

definition identity_of :: "agent_identity \<Rightarrow> string option" where
  "identity_of a = (case agent_identity.i_agentId a of Some i \<Rightarrow> Some i | None \<Rightarrow> i_agentName a)"

definition latest_key :: "string \<Rightarrow> agent_identity \<Rightarrow> string" where
  "latest_key identity a = identity @ [CHR 0x00] @ (case i_agentPlatform a of Some p \<Rightarrow> p | None \<Rightarrow> [])"

subsection \<open>The device list\<close>

text \<open>One session of the agent, against its list: refreshed, ended, or kept for who is on it.\<close>

definition reconcile :: "relay_env \<Rightarrow> ms \<Rightarrow> device_report list \<Rightarrow> session \<Rightarrow> relay \<times> (string \<times> string) list
    \<Rightarrow> (relay \<times> (string \<times> string) list) \<times> sent" where
  "reconcile E now devices s st =
     (let (R, removed) = st in
      case find (\<lambda>d. r_id d = deviceId s) devices of
        Some d \<Rightarrow> ((on_mgr (refreshDevice (sid_of s) d) R, removed), [])
      | None \<Rightarrow>
          (let R1 = on_mgr (device_left (sid_of s)) R in
           if (case session_at R1 (sid_of s) of Some s' \<Rightarrow> goneAndVacant (rl_sessions R1) s' | None \<Rightarrow> False)
           then (case end_session E now s R1 of (R2, out) \<Rightarrow> ((R2, removed @ [(deviceId s, sid_of s)]), out))
           else ((R1, removed), [])))"

definition handleAgentDevices :: "relay_env \<Rightarrow> ms \<Rightarrow> string list \<Rightarrow> socket \<Rightarrow> device_report list \<Rightarrow> handler" where
  "handleAgentDevices E now newIds ws msg_devices R =
     (case jget (rl_agents R) ws of
        None \<Rightarrow> (R, [])
      | Some a \<Rightarrow>
          if (case identity_of a of
                Some identity \<Rightarrow> identity \<noteq> [] \<and> jget (rl_latest R) (latest_key identity a) \<noteq> Some ws
              | None \<Rightarrow> False) then (R, [])
          else (let devices = by_last msg_devices; current = getAllByAgentSocket (rl_sessions R) ws in
                case fx_each (reconcile E now devices) current (R, []) of
                  ((R1, removed), out) \<Rightarrow>
                    (let fresh = filter (\<lambda>d. r_id d \<notin> set (map deviceId current)) devices;
                         made = zip newIds fresh
                     in (on_mgr (create ws made a) R1,
                         out @ sendTo E ws (Devices_applied (map (\<lambda>(i, d). (r_id d, i)) made) removed)))))"

text \<open>\<open>sweepGoneDevices\<close>: the sessions it ends, then one message to each agent that is open.\<close>

definition sweepGoneDevices :: "relay_env \<Rightarrow> ms \<Rightarrow> handler" where
  "sweepGoneDevices E now R =
     (let gone = filter (goneAndVacant (rl_sessions R)) (all (rl_sessions R));
          agents = fold set_add (map agentSocket gone) []
      in fx_then (fx_each (end_session E now) gone)
           (\<lambda>R. (R, concat (map (\<lambda>a. sendTo E a (Devices_applied []
              (map (\<lambda>s. (deviceId s, sid_of s)) (filter (\<lambda>s. agentSocket s = a) gone)))) agents))) R)"

subsection \<open>Registration\<close>

record rebinding =
  rb_relay :: relay
  rb_bound :: "(string, string) jmap" \<comment> \<open>device, session\<close>
  rb_old :: "socket list"

definition rebind_session :: "relay_env \<Rightarrow> ms \<Rightarrow> socket \<Rightarrow> agent_identity \<Rightarrow> device_report list \<Rightarrow> socket \<Rightarrow> session
    \<Rightarrow> rebinding \<Rightarrow> rebinding \<times> sent" where
  "rebind_session E now ws a devices old s B =
     (if jget (rb_bound B) (deviceId s) \<noteq> None then (B, [])
      else (case find (\<lambda>d. r_id d = deviceId s) devices of
              None \<Rightarrow> (B, [])
            | Some d \<Rightarrow>
                (case gateEvent E now (Rebound (sid_of s)) (on_mgr (rebind (sid_of s) ws d a) (rb_relay B)) of
                   (R1, out) \<Rightarrow> (B\<lparr>rb_relay := R1, rb_bound := jset (deviceId s) (sid_of s) (rb_bound B),
                      rb_old := set_add old (rb_old B)\<rparr>, out))))"

definition replace_agent :: "relay_env \<Rightarrow> ms \<Rightarrow> socket \<Rightarrow> agent_identity \<Rightarrow> device_report list \<Rightarrow> socket
    \<Rightarrow> rebinding \<Rightarrow> rebinding \<times> sent" where
  "replace_agent E now ws a devices old B =
     (if old = ws then (B, [])
      else (let B1 = B\<lparr>rb_relay := releaseHold old (rb_relay B)\<rparr> in
        fx_then (fx_each (rebind_session E now ws a devices old) (getAllByAgentSocket (rl_sessions (rb_relay B1)) old))
          (\<lambda>B. case evictAgentSocket E now old (rb_relay B) of (R1, out) \<Rightarrow> (B\<lparr>rb_relay := R1\<rparr>, out)) B1))"

text \<open>Sessions of a device that is back under another agent, whose own agent is away.\<close>

definition end_stranded :: "relay_env \<Rightarrow> ms \<Rightarrow> device_report \<Rightarrow> handler" where
  "end_stranded E now d R =
     fx_each (\<lambda>s. fx_then (\<lambda>R. (R, send_option E (browserSocket s) (Session_terminated (sid_of s)))) (end_session E now s))
       (filter (\<lambda>s. \<not> up E (agentSocket s)) (getAllByDeviceId (rl_sessions R) (r_id d))) R"

definition tell_rebound :: "relay_env \<Rightarrow> string list \<Rightarrow> string \<Rightarrow> handler" where
  "tell_rebound E caps i R =
     (R, (case session_at R i of Some s \<Rightarrow> send_option E (browserSocket s) (Session_rebound i caps) | None \<Rightarrow> [])
         @ tellWatchers E i (Session_rebound i caps) R)"

definition rebind_all :: "relay_env \<Rightarrow> ms \<Rightarrow> socket \<Rightarrow> agent_identity \<Rightarrow> device_report list \<Rightarrow> relay \<Rightarrow> rebinding \<times> sent" where
  "rebind_all E now ws a devices R =
     (let B0 = \<lparr>rb_relay = R, rb_bound = [], rb_old = []\<rparr> in
      case identity_of a of
        Some (c # cs) \<Rightarrow>
          fx_each (replace_agent E now ws a devices) (getAgentSocketsByIdentity (rl_sessions R) (c # cs) (i_agentPlatform a)) B0
      | _ \<Rightarrow> (B0, []))"

definition note_agent :: "socket \<Rightarrow> agent_identity \<Rightarrow> relay \<Rightarrow> relay" where
  "note_agent ws a R =
     (let R1 = R\<lparr>rl_agents := jset ws a (rl_agents R)\<rparr> in
      case identity_of a of
        Some (c # cs) \<Rightarrow> R1\<lparr>rl_latest := jset (latest_key (c # cs) a) ws (rl_latest R1)\<rparr>
      | _ \<Rightarrow> R1)"

definition session_for :: "(string, string) jmap \<Rightarrow> (string \<times> device_report) list \<Rightarrow> device_report \<Rightarrow> string" where
  "session_for bound made d =
     (case find (\<lambda>(_, e). r_id e = r_id d) made of
        Some (i, _) \<Rightarrow> i
      | None \<Rightarrow> (case jget bound (r_id d) of Some i \<Rightarrow> i | None \<Rightarrow> []))"

definition handleAgentRegister ::
    "relay_env \<Rightarrow> ms \<Rightarrow> string list \<Rightarrow> socket \<Rightarrow> agent_identity \<Rightarrow> device_report list \<Rightarrow> handler" where
  "handleAgentRegister E now newIds ws a msg_devices R =
     (let devices = by_last msg_devices in
      case rebind_all E now ws a devices (note_agent ws a R) of
        (B, out) \<Rightarrow>
          (let bound = rb_bound B;
               fresh = filter (\<lambda>d. jget bound (r_id d) = None) devices;
               made = zip newIds fresh;
               caps = (case i_agentCapabilities a of Some cs \<Rightarrow> cs | None \<Rightarrow> [])
           in fx_then (\<lambda>R. (R, out))
                (fx_then (if bound = [] then (\<lambda>R. (R, [])) else rejectPending E (map snd bound) ''Agent restarted'')
                (fx_then (fx_each (end_stranded E now) fresh)
                (fx_then (\<lambda>R. (on_mgr (create ws made a) R,
                     sendTo E ws (Registered (map (\<lambda>d. (r_id d, session_for bound made d)) devices))))
                (fx_then (fx_each (tell_rebound E caps) (map snd bound))
                   (invalidateBootsFor E (rb_old B)))))) (rb_relay B)))"

end
