(* ===== verification/Relay_Inv.thy ===== *)
theory Relay_Inv
  imports Relay_Agent Session_Inv
begin

text \<open>
  What the relay's handlers keep: the session manager's invariant and the boot gate's, and that a boot the
  gate holds is the boot its message names. Carrying out the gate's effects changes of the sessions only what
  records boots and installs, so these facts pass through it; and it always ends.
\<close>

declare map_of_eq_Some_iff [simp del]

subsection \<open>What boots and installs may change of a session\<close>

definition core :: "session \<Rightarrow> session" where
  "core s = s\<lparr>lastBoot := None, lastBootPending := None, lastBootExpired := None, evictingAt := None,
     installed := None, pendingInstall := None, bootAfterShutdown := None, deviceStatus := Unknown,
     readySent := False, deviceServiceTier := None\<rparr>"

definition same_core :: "manager \<Rightarrow> manager \<Rightarrow> bool" where
  "same_core m m' \<longleftrightarrow> map (\<lambda>(i, s). (i, core s)) (sessions m') = map (\<lambda>(i, s). (i, core s)) (sessions m)
     \<and> m'\<lparr>sessions := []\<rparr> = m\<lparr>sessions := []\<rparr>"

lemma same_core_refl [simp]: "same_core m m"
  by (simp add: same_core_def)

lemma same_core_trans [trans]: "same_core a b \<Longrightarrow> same_core b c \<Longrightarrow> same_core a c"
  by (simp add: same_core_def)

lemma same_core_sym: "same_core a b \<Longrightarrow> same_core b a"
  by (simp add: same_core_def)

lemma jget_core: "jget (map (\<lambda>(i, s). (i, core s)) xs) i = map_option core (jget xs i)"
  by (induction xs) auto

lemma same_core_jget: "same_core m m' \<Longrightarrow> map_option core (jget (sessions m') i) = map_option core (jget (sessions m) i)"
  using jget_core [of "sessions m" i] jget_core [of "sessions m'" i] by (simp add: same_core_def)

lemma same_core_parts:
  assumes "same_core m m'"
  shows "watchers m' = watchers m" "watcherSocketIndex m' = watcherSocketIndex m"
    "streamSocketIndex m' = streamSocketIndex m" "browserSocketIndex m' = browserSocketIndex m"
    "agentSocketIndex m' = agentSocketIndex m" "agentResources m' = agentResources m"
    "idleTimeoutMs m' = idleTimeoutMs m" "jkeys (sessions m') = jkeys (sessions m)"
proof -
  have "map fst (map (\<lambda>(i, s). (i, core s)) xs) = map fst xs" for xs
    by (induction xs) auto
  then show "jkeys (sessions m') = jkeys (sessions m)" using assms unfolding same_core_def by metis
qed (use assms in \<open>cases m, cases m', simp add: same_core_def\<close>)+

lemma core_fields:
  assumes "core s = core t"
  shows "sid_of s = sid_of t" "agentId s = agentId t" "agentName s = agentName t" "agentSocket s = agentSocket t"
    "browserSocket s = browserSocket t" "owner s = owner t" "ownerMinted s = ownerMinted t"
    "ownerUser s = ownerUser t" "holderKind s = holderKind t" "streamSocket s = streamSocket t"
    "deviceId s = deviceId t" "idleTimer s = idleTimer t" "waitingOwner s = waitingOwner t"
    "idleResumeOnLeave s = idleResumeOnLeave t" "deviceGone s = deviceGone t" "devicePlatform s = devicePlatform t"
    "lastHolderWasAi s = lastHolderWasAi t"
  using assms by (cases s, cases t, simp add: core_def)+

lemma same_core_session:
  assumes "same_core m m'" and "jget (sessions m') i = Some s'"
  obtains s where "jget (sessions m) i = Some s" "core s' = core s"
  using same_core_jget [OF assms(1), of i] assms(2) by (cases "jget (sessions m) i") auto

lemma same_core_ex:
  assumes "same_core m m'" and "\<And>s t. core s = core t \<Longrightarrow> P s = P t"
  shows "(\<exists>s. jget (sessions m') i = Some s \<and> P s) \<longleftrightarrow> (\<exists>s. jget (sessions m) i = Some s \<and> P s)"
  by (metis assms same_core_session same_core_sym)

lemma core_jset:
  "jget xs i = Some s \<Longrightarrow> core t = core s
     \<Longrightarrow> map (\<lambda>(i, s). (i, core s)) (jset i t xs) = map (\<lambda>(i, s). (i, core s)) xs"
  by (induction xs) auto

lemma same_core_on_session: "(\<And>s. core (f s) = core s) \<Longrightarrow> same_core m (on_session i f m)"
  by (cases "jget (sessions m) i")
    (auto simp: on_session_def same_core_def intro!: core_jset)

lemma same_core_inv:
  assumes "same_core m m'" and "manager_inv m"
  shows "manager_inv m'"
proof -
  note parts = same_core_parts [OF assms(1)] and old = manager_invD [OF assms(2)]
  have ok: "session_ok s' \<longleftrightarrow> session_ok s" if "core s' = core s" for s s'
    using core_fields [OF that] by (simp add: session_ok_def)
  have same: "holds m' = holds m" "served_by m' = served_by m" "watch_key m' = watch_key m"
    unfolding fun_eq_iff holds_def served_by_def
    by (intro allI same_core_ex [OF assms(1)], drule core_fields(5), simp)
      (intro allI same_core_ex [OF assms(1)], drule core_fields(4), simp, simp add: watch_key_def parts)
  have "sessions_ok m'"
    unfolding sessions_ok_def
  proof (intro conjI allI impI)
    show "jwf (sessions m')" using old(1) parts(8) by (simp add: sessions_ok_def)
    fix i s' assume "jget (sessions m') i = Some s'"
    then obtain s where s: "jget (sessions m) i = Some s" "core s' = core s"
      by (rule same_core_session [OF assms(1)])
    from inv_session [OF assms(2) s(1)] core_fields(1) [OF s(2)] ok [OF s(2)]
    show "sid_of s' = i" "session_ok s'" by simp_all
  qed
  moreover have "watchers_wf m'" using old(2) parts by (simp add: watchers_wf_def same(3))
  moreover have "watches_admitted m'"
  proof (rule watches_admitted_mono [OF old(3)])
    fix j s assume "jget (sessions m) j = Some s"
    then obtain s' where "jget (sessions m') j = Some s'" "core s = core s'"
      by (rule same_core_session [OF same_core_sym [OF assms(1)]])
    with core_fields [of s s'] show "\<exists>s'. jget (sessions m') j = Some s'
        \<and> (owner s' = None \<or> owner s' = owner s \<and> holderKind s' = holderKind s)" by simp
  qed (simp add: same(3))
  moreover have "stream_ok m'"
    unfolding stream_ok_def
  proof (intro conjI allI impI)
    show "jwf (streamSocketIndex m')" using old(4) parts(3) by (simp add: stream_ok_def)
    fix ws i assume "jget (streamSocketIndex m') ws = Some i"
    then obtain s where s: "jget (sessions m) i = Some s" "streamSocket s = Some ws"
      using old(4) parts(3) by (auto simp: stream_ok_def)
    from same_core_session [OF same_core_sym [OF assms(1)] s(1)] obtain s' where
      "jget (sessions m') i = Some s'" "core s = core s'" by blast
    with core_fields(10) [of s s'] s(2) show "\<exists>s. jget (sessions m') i = Some s \<and> streamSocket s = Some ws" by simp
  qed
  ultimately show ?thesis using old(5,6) by (simp add: manager_inv_def same parts)
qed

subsection \<open>Where each boot went\<close>

definition boot_ok :: "held_boot boot \<Rightarrow> bool" where
  "boot_ok b = (case b of (i, r, hb) \<Rightarrow> i = bm_session (hb_msg hb) \<and> r = bm_request (hb_msg hb))"

definition asker :: "held_boot boot \<Rightarrow> socket" where
  "asker b = hb_ws (snd (snd b))"

definition boot_id :: "held_boot boot \<Rightarrow> string \<times> string" where
  "boot_id b = (fst b, fst (snd b))"

fun settled1 :: "socket \<times> relay_msg \<Rightarrow> (string \<times> string) multiset" where
  "settled1 (ws, Device_boot m) = {#(bm_session m, bm_request m)#}"
| "settled1 (ws, Boot_failed i r why text) = {#(i, r)#}"
| "settled1 (ws, msg) = {#}"

definition settled :: "sent \<Rightarrow> (string \<times> string) multiset" where
  "settled out = sum_list (map settled1 out)"

lemma settled_simps [simp]:
  "settled [] = {#}" "settled (p # out) = settled1 p + settled out" "settled (a @ b) = settled a + settled b"
  by (simp_all add: settled_def)

lemma settled_concat: "(\<And>x. x \<in> set xs \<Longrightarrow> settled (f x) = {#}) \<Longrightarrow> settled (concat (map f xs)) = {#}"
  by (induction xs) auto

text \<open>
  The boots \<open>B\<close> a step found are the ones \<open>B'\<close> it kept, those it settled with a message, and those whose
  asker was no longer there to be told.
\<close>

definition accounts :: "relay_env \<Rightarrow> held_boot boot multiset \<Rightarrow> held_boot boot multiset \<Rightarrow> sent \<Rightarrow> bool" where
  "accounts E B B' out \<longleftrightarrow> set_mset B' \<subseteq> set_mset B
     \<and> (\<exists>L. image_mset boot_id B = image_mset boot_id B' + settled out + image_mset boot_id L
          \<and> (\<forall>b \<in># L. b \<in># B \<and> \<not> up E (asker b)))"

lemma accounts_none: "settled out = {#} \<Longrightarrow> accounts E B B out"
  by (auto simp: accounts_def)

lemma accounts_trans:
  assumes "accounts E A B out1" and "accounts E B C out2"
  shows "accounts E A C (out1 @ out2)"
proof -
  obtain L1 where L1: "image_mset boot_id A = image_mset boot_id B + settled out1 + image_mset boot_id L1"
      "\<forall>b \<in># L1. b \<in># A \<and> \<not> up E (asker b)" "set_mset B \<subseteq> set_mset A"
    using assms(1) unfolding accounts_def by blast
  obtain L2 where L2: "image_mset boot_id B = image_mset boot_id C + settled out2 + image_mset boot_id L2"
      "\<forall>b \<in># L2. b \<in># B \<and> \<not> up E (asker b)" "set_mset C \<subseteq> set_mset B"
    using assms(2) unfolding accounts_def by blast
  have "image_mset boot_id A = image_mset boot_id C + settled (out1 @ out2) + image_mset boot_id (L1 + L2)"
    using L1(1) L2(1) by (simp add: add_ac)
  moreover have "\<forall>b \<in># L1 + L2. b \<in># A \<and> \<not> up E (asker b)" using L1 L2 by auto
  ultimately show ?thesis using L1(3) L2(3) unfolding accounts_def by blast
qed

lemma accounts_frame:
  assumes "accounts E A B out"
  shows "accounts E (A + D) (B + D) out"
proof -
  obtain L where "image_mset boot_id A = image_mset boot_id B + settled out + image_mset boot_id L"
      "\<forall>b \<in># L. b \<in># A \<and> \<not> up E (asker b)" "set_mset B \<subseteq> set_mset A"
    using assms unfolding accounts_def by blast
  then show ?thesis unfolding accounts_def by (intro conjI exI [of _ L]) (auto simp: add_ac)
qed

lemma accounts_exact:
  assumes "accounts E A B out" and "\<forall>b \<in># A. up E (asker b)"
  shows "image_mset boot_id A = image_mset boot_id B + settled out"
proof -
  obtain L where "image_mset boot_id A = image_mset boot_id B + settled out + image_mset boot_id L"
      "\<forall>b \<in># L. b \<in># A \<and> \<not> up E (asker b)"
    using assms(1) unfolding accounts_def by blast
  moreover from this(2) assms(2) have "\<not> b \<in># L" for b by blast
  then have "L = {#}" by (meson multiset_nonemptyE)
  ultimately show ?thesis by simp
qed

lemma accounts_at_most: "accounts E A B out \<Longrightarrow> image_mset boot_id B + settled out \<subseteq># image_mset boot_id A"
  unfolding accounts_def by (metis mset_subset_eq_add_left)

subsection \<open>Carrying out the gate's effects\<close>

definition same_relay :: "relay \<Rightarrow> relay \<Rightarrow> bool" where
  "same_relay R R' \<longleftrightarrow> same_core (rl_sessions R) (rl_sessions R') \<and> rl_requesters R' = rl_requesters R
     \<and> rl_agents R' = rl_agents R \<and> rl_latest R' = rl_latest R \<and> rl_holds R' = rl_holds R
     \<and> rl_idrAt R' = rl_idrAt R \<and> rl_network R' = rl_network R"

lemma same_relay_refl [simp]: "same_relay R R"
  by (simp add: same_relay_def)

lemma same_relay_trans [trans]: "same_relay A B \<Longrightarrow> same_relay B C \<Longrightarrow> same_relay A C"
  by (auto simp: same_relay_def intro: same_core_trans)

lemma same_relay_other [simp]:
  "same_relay R (R\<lparr>rl_gate := g\<rparr>)" "same_relay R (R\<lparr>rl_gateTimer := t\<rparr>)" "same_relay R (R\<lparr>rl_pendingBoots := p\<rparr>)"
  by (simp_all add: same_relay_def)

lemma same_relay_upd: "(\<And>s. core (f s) = core s) \<Longrightarrow> same_relay R (upd i f R)"
  by (simp add: same_relay_def upd_def on_mgr_def same_core_on_session)

lemma gate_upd [simp]: "rl_gate (upd i f R) = rl_gate R" "rl_gate (on_mgr h R) = rl_gate R"
    "rl_pendingBoots (upd i f R) = rl_pendingBoots R" "rl_pendingBoots (on_mgr h R) = rl_pendingBoots R"
  by (simp_all add: upd_def on_mgr_def)

lemma core_charge [simp]: "core (charge_boot now r c s) = core s"
  by (simp add: charge_boot_def core_def)

lemma core_undo [simp]: "core (undo_last_boot r s) = core s"
  by (auto simp: undo_last_boot_def core_def split: option.split)

lemma core_settle [simp]: "core (settle_last_boot now r cold s) = core s"
  by (auto simp: settle_last_boot_def core_def Let_def)

lemma same_relay_boot_sent: "same_relay R (on_mgr (noteBootSent i) R)"
  unfolding noteBootSent_def by (rule same_relay_upd [unfolded upd_def]) (simp add: core_def)

lemma dropPendingInstall_frame:
  "same_relay R (fst (dropPendingInstall E i why R))" "rl_gate (fst (dropPendingInstall E i why R)) = rl_gate R"
  "rl_pendingBoots (fst (dropPendingInstall E i why R)) = rl_pendingBoots R"
  by (auto simp: dropPendingInstall_def core_def intro!: same_relay_upd split: option.split)

lemma forgetInstall_frame:
  "same_relay R (fst (forgetInstall E i why R))" "rl_gate (fst (forgetInstall E i why R)) = rl_gate R"
  "rl_pendingBoots (fst (forgetInstall E i why R)) = rl_pendingBoots R"
proof -
  have "same_relay R (upd i (\<lambda>s. s\<lparr>installed := None\<rparr>) R)" by (rule same_relay_upd) (simp add: core_def)
  then show "same_relay R (fst (forgetInstall E i why R))"
    using dropPendingInstall_frame(1) same_relay_trans unfolding forgetInstall_def by blast
qed (simp_all add: forgetInstall_def dropPendingInstall_frame)

text \<open>What is said of an install settles no boot.\<close>

lemma waiters_only_installs:
  "p \<in> set (answer_waiters E s why q) \<Longrightarrow> (\<exists>i r. snd p = Install_done i r) \<or> (\<exists>i r t. snd p = Install_failed i r t)"
  by (auto simp: answer_waiters_def answerInstallWaiter_def send_option_def sendTo_def split: option.splits if_splits)

lemma installs_settle_nothing:
  "(\<And>p. p \<in> set out \<Longrightarrow> (\<exists>i r. snd p = Install_done i r) \<or> (\<exists>i r t. snd p = Install_failed i r t)) \<Longrightarrow> settled out = {#}"
proof (induction out)
  case (Cons p out)
  have "settled out = {#}" by (rule Cons.IH) (use Cons.prems in auto)
  moreover have "settled1 p = {#}" using Cons.prems [of p] by (cases p) auto
  ultimately show ?case by simp
qed simp

lemma drop_only_installs:
  "p \<in> set (snd (dropPendingInstall E i why R)) \<Longrightarrow> (\<exists>i r. snd p = Install_done i r) \<or> (\<exists>i r t. snd p = Install_failed i r t)"
  by (auto simp: dropPendingInstall_def split: option.splits dest: waiters_only_installs)

lemma forget_only_installs:
  "p \<in> set (snd (forgetInstall E i why R)) \<Longrightarrow> (\<exists>i r. snd p = Install_done i r) \<or> (\<exists>i r t. snd p = Install_failed i r t)"
  unfolding forgetInstall_def by (rule drop_only_installs)

lemma settled_forget [simp]: "settled (snd (forgetInstall E i why R)) = {#}"
  by (rule installs_settle_nothing, rule forget_only_installs)

lemma settled_sendTo: "settled (sendTo E ws msg) = (if up E ws then settled1 (ws, msg) else {#})"
  by (simp add: sendTo_def)

lemma forwardBoot_frame:
  "same_relay R (fst (forwardBoot E now hb R))" "rl_gate (fst (forwardBoot E now hb R)) = rl_gate R"
proof -
  define i where "i = bm_session (hb_msg hb)"
  define r where "r = bm_request (hb_msg hb)"
  have "same_relay R (fst (forwardBoot E now hb R)) \<and> rl_gate (fst (forwardBoot E now hb R)) = rl_gate R"
  proof (cases "dispatchTarget E (hb_ws hb) i R")
    case (Inl why)
    then show ?thesis by (simp add: forwardBoot_def Let_def i_def)
  next
    case (Inr s)
    define R1 where "R1 = (if hb_cost hb = Cold then upd i (charge_boot now r (hb_class hb)) R else R)"
    define R2 where "R2 = on_mgr (noteBootSent i) (rememberBoot E now i r (agentSocket s) R1)"
    have "same_relay R R1" by (auto simp: R1_def intro: same_relay_upd)
    also have "same_relay R1 (rememberBoot E now i r (agentSocket s) R1)"
      by (simp add: rememberBoot_def forgetBoot_def Let_def)
    also have "same_relay \<dots> R2" unfolding R2_def by (rule same_relay_boot_sent)
    finally have R2: "same_relay R R2" .
    have g: "rl_gate R2 = rl_gate R"
      by (simp add: R2_def R1_def rememberBoot_def forgetBoot_def Let_def)
    have "fst (forwardBoot E now hb R)
        = (if resets_device (hb_msg hb) then fst (forgetInstall E i ''The device is being reset'' R2) else R2)"
      using Inr by (simp add: forwardBoot_def Let_def R1_def R2_def i_def r_def split_beta)
    with R2 g show ?thesis
      using forgetInstall_frame [where R = R2 and E = E and i = i and why = "''The device is being reset''"] same_relay_trans [OF R2] by auto
  qed
  then show "same_relay R (fst (forwardBoot E now hb R))" "rl_gate (fst (forwardBoot E now hb R)) = rl_gate R" by simp_all
qed

lemma carry_out_frame:
  "same_relay R (fst (carry_out E now fx R))" "rl_gate (fst (carry_out E now fx R)) = rl_gate R"
  using forwardBoot_frame by (cases fx; simp add: split_beta)+

lemma forwardBoot_settles:
  "settled (fst (snd (forwardBoot E now hb R))) =
     (if snd (snd (forwardBoot E now hb R)) \<and> \<not> up E (hb_ws hb) then {#}
      else {#(bm_session (hb_msg hb), bm_request (hb_msg hb))#})"
  by (auto simp: forwardBoot_def Let_def settled_sendTo split_beta split: sum.split)

lemma carry_out_accounts:
  assumes "\<forall>b \<in># answer fx. boot_ok b"
  shows "accounts E (answer fx) {#} (fst (snd (carry_out E now fx R)))"
proof (cases fx)
  case (Deliver i r hb)
  with assms have ok: "i = bm_session (hb_msg hb)" "r = bm_request (hb_msg hb)" by (simp_all add: boot_ok_def)
  let ?f = "forwardBoot E now hb R"
  show ?thesis
  proof (cases "snd (snd ?f) \<and> \<not> up E (hb_ws hb)")
    case True
    then show ?thesis using Deliver forwardBoot_settles [of E now hb R]
      by (auto simp: accounts_def split_beta asker_def intro!: exI [of _ "{#(i, r, hb)#}"])
  next
    case False
    then show ?thesis using Deliver forwardBoot_settles [of E now hb R] ok
      by (auto simp: accounts_def split_beta boot_id_def intro!: exI [of _ "{#}"])
  qed
next
  case (Refuse i r why hb)
  then show ?thesis
    by (cases "up E (hb_ws hb)")
      (auto simp: accounts_def settled_sendTo boot_id_def asker_def
        intro!: exI [of _ "if up E (hb_ws hb) then {#} else {#(i, r, hb)#}"])
next
  case (Withdraw i r why hb)
  then show ?thesis
    by (cases "up E (hb_ws hb)")
      (auto simp: accounts_def settled_sendTo boot_id_def asker_def
        intro!: exI [of _ "if up E (hb_ws hb) then {#} else {#(i, r, hb)#}"])
qed (auto simp: accounts_def settled_sendTo)

text \<open>One gate event, with what it does to the boots the gate knew of.\<close>

lemma boot_error_step:
  assumes "gate_inv g" and "onEvent t now (Boot_error i r) g = (g', fxs)"
  shows "gate_inv g'" "kept_boots g = kept_boots g' + answers fxs"
  using gate_step_inv [OF assms(1), of t "(now, Event (Boot_error i r))"]
    gate_step_conserves [OF assms(1), of "(now, Event (Boot_error i r))" t] assms(2) by simp_all

lemma carry_out_failed:
  "carry_out E now fx R = (R1, out, Some p) \<Longrightarrow> answer fx \<noteq> {#}"
  by (cases fx) (auto simp: split_beta split: if_splits)

text \<open>Each nested failure uses up a boot the gate was holding, so the depth is bounded by those.\<close>

lemma apply_gate_run:
  assumes "gate_inv (rl_gate R)" and "answers fxs = {#} \<or> size (kept_boots (rl_gate R)) < n"
    and "\<forall>b \<in># kept_boots (rl_gate R) + answers fxs. boot_ok b"
  shows "\<exists>R' out. apply_gate n E now fxs R = Some (R', out) \<and> gate_inv (rl_gate R') \<and> same_relay R R'
    \<and> kept_boots (rl_gate R') \<subseteq># kept_boots (rl_gate R)
    \<and> accounts E (kept_boots (rl_gate R) + answers fxs) (kept_boots (rl_gate R')) out"
  using assms
proof (induction n E now fxs R rule: apply_gate.induct)
  case (1 n E now R)
  then show ?case
    by (intro exI [of _ "set_gate_timer E now R"] exI [of _ "[]"])
      (simp add: set_gate_timer_def accounts_none)
next
  case (2 n E now fx fxs R)
  obtain R1 out f where c: "carry_out E now fx R = (R1, out, f)" by (metis prod_cases3)
  have R1: "same_relay R R1" "rl_gate R1 = rl_gate R" using carry_out_frame [where R = R and E = E and now = now and fx = fx] c by simp_all
  let ?K = "kept_boots (rl_gate R)"
  have acc1: "accounts E (?K + answers (fx # fxs)) (?K + answers fxs) out"
    using accounts_frame [OF carry_out_accounts [of fx E now R], of "?K + answers fxs"] 2(6) c by (simp add: add_ac)
  show ?case
  proof (cases f)
    case None
    have "\<exists>R' out2. apply_gate n E now fxs R1 = Some (R', out2) \<and> gate_inv (rl_gate R') \<and> same_relay R1 R'
        \<and> kept_boots (rl_gate R') \<subseteq># ?K \<and> accounts E (?K + answers fxs) (kept_boots (rl_gate R')) out2"
      using 2(1) [OF c [symmetric] refl None] 2(4-6) R1(2) by auto
    then obtain R' out2 where IH: "apply_gate n E now fxs R1 = Some (R', out2)" "gate_inv (rl_gate R')" "same_relay R1 R'"
        "kept_boots (rl_gate R') \<subseteq># ?K" "accounts E (?K + answers fxs) (kept_boots (rl_gate R')) out2" by blast
    then show ?thesis
      using c None same_relay_trans [OF R1(1) IH(3)] accounts_trans [OF acc1 IH(5)] by simp
  next
    case (Some p)
    obtain i r where p: "p = (i, r)" by force
    have ans: "answers (fx # fxs) \<noteq> {#}" using carry_out_failed c Some by fastforce
    then obtain k where n: "n = Suc k" using 2(5) by (cases n) simp_all
    obtain g nested where ev: "onEvent (gateTiming E) now (Boot_error i (Some r)) (rl_gate R1) = (g, nested)" by force
    have g: "gate_inv g" "?K = kept_boots g + answers nested"
      using boot_error_step [OF _ ev] 2(4) R1(2) by simp_all
    have nok: "\<forall>b \<in># kept_boots g + answers nested. boot_ok b" using 2(6) g(2) by simp
    have fuel: "answers nested = {#} \<or> size (kept_boots g) < k"
    proof (cases "answers nested = {#}")
      case False
      then have "0 < size (answers nested)" by (simp add: nonempty_has_size)
      moreover have "size ?K < n" using 2(5) ans by auto
      ultimately show ?thesis using g(2) n by simp
    qed simp
    obtain R2 out2 where R2: "apply_gate k E now nested (R1\<lparr>rl_gate := g\<rparr>) = Some (R2, out2)" "gate_inv (rl_gate R2)"
        "same_relay (R1\<lparr>rl_gate := g\<rparr>) R2" "kept_boots (rl_gate R2) \<subseteq># kept_boots g"
        "accounts E (kept_boots g + answers nested) (kept_boots (rl_gate R2)) out2"
      using 2(2) [OF c [symmetric] refl Some p [symmetric] n ev [symmetric]] fuel g(1) nok by auto
    have sub: "kept_boots (rl_gate R2) \<subseteq># ?K" using R2(4) g(2) by (simp add: subset_mset.trans)
    have "\<forall>b \<in># kept_boots (rl_gate R2) + answers fxs. boot_ok b"
      using sub 2(6) by (auto dest: mset_subset_eqD)
    moreover have "answers fxs = {#} \<or> size (kept_boots (rl_gate R2)) < n"
      using 2(5) ans size_mset_mono [OF sub] by auto
    ultimately obtain R3 out3 where R3: "apply_gate n E now fxs R2 = Some (R3, out3)" "gate_inv (rl_gate R3)"
        "same_relay R2 R3" "kept_boots (rl_gate R3) \<subseteq># kept_boots (rl_gate R2)"
        "accounts E (kept_boots (rl_gate R2) + answers fxs) (kept_boots (rl_gate R3)) out3"
      using 2(3) [OF c [symmetric] refl Some p [symmetric] n ev [symmetric] R2(1) refl] R2(2) by auto
    have "same_relay R R3"
      using same_relay_trans [OF R1(1)] same_relay_trans [OF same_relay_other(1) R2(3)] R3(3) same_relay_trans by blast
    moreover have "kept_boots (rl_gate R3) \<subseteq># ?K" using R3(4) sub by (rule subset_mset.trans)
    moreover have "accounts E (?K + answers (fx # fxs)) (kept_boots (rl_gate R3)) (out @ out2 @ out3)"
      using accounts_trans [OF acc1 accounts_trans [OF accounts_frame [OF R2(5) [folded g(2)], of "answers fxs"] R3(5)]] .
    ultimately show ?thesis using c Some p n ev R2(1) R3(1,2) by simp
  qed
qed

end
