(* ===== verification/Relay_Steps.thy ===== *)
theory Relay_Steps
  imports Relay_Inv
begin

text \<open>
  Every handler of the relay keeps its invariant, and says of every boot that the gate held, or that was
  just asked for, where it went: still held, sent to an agent, or answered (\<open>good\<close>). A handler is shown
  good from its parts.
\<close>

declare map_of_eq_Some_iff [simp del]

subsection \<open>Good steps\<close>

definition relay_inv :: "relay \<Rightarrow> bool" where
  "relay_inv R \<longleftrightarrow> manager_inv (rl_sessions R) \<and> gate_inv (rl_gate R) \<and> (\<forall>b \<in># kept_boots (rl_gate R). boot_ok b)"

abbreviation kept :: "relay \<Rightarrow> held_boot boot multiset" where
  "kept R \<equiv> kept_boots (rl_gate R)"

definition session_ids :: "relay \<Rightarrow> string set" where
  "session_ids R = fst ` set (sessions (rl_sessions R))"

definition good :: "relay_env \<Rightarrow> ('s \<Rightarrow> relay) \<Rightarrow> ('s \<Rightarrow> 's \<times> sent) \<Rightarrow> bool" where
  "good E v f \<longleftrightarrow> (\<forall>s. relay_inv (v s) \<longrightarrow>
     relay_inv (v (fst (f s))) \<and> accounts E (kept (v s)) (kept (v (fst (f s)))) (snd (f s))
     \<and> session_ids (v (fst (f s))) \<subseteq> session_ids (v s))"

abbreviation good_step :: "relay_env \<Rightarrow> handler \<Rightarrow> bool" where
  "good_step E f \<equiv> good E (\<lambda>R. R) f"

named_theorems good_intros "handlers that are good"
named_theorems quiet "messages that settle no boot"

lemma goodD:
  "good E v f \<Longrightarrow> relay_inv (v s) \<Longrightarrow>
     relay_inv (v (fst (f s))) \<and> accounts E (kept (v s)) (kept (v (fst (f s)))) (snd (f s))
     \<and> session_ids (v (fst (f s))) \<subseteq> session_ids (v s)"
  by (simp add: good_def)

lemma good_then [good_intros]: "good E v f \<Longrightarrow> good E v g \<Longrightarrow> good E v (fx_then f g)"
  unfolding good_def by (auto simp: fx_then_def intro: accounts_trans)

lemma good_each [good_intros]: "(\<And>x. x \<in> set xs \<Longrightarrow> good E v (f x)) \<Longrightarrow> good E v (fx_each f xs)"
proof (induction xs)
  case Nil
  then show ?case by (simp add: good_def accounts_none)
next
  case (Cons x xs)
  then have "good E v (fx_then (f x) (fx_each f xs))" by (intro good_then) auto
  moreover have "fx_each f (x # xs) = fx_then (f x) (fx_each f xs)" by (simp add: fun_eq_iff)
  ultimately show ?case by simp
qed

lemma good_if [good_intros]: "good E v f \<Longrightarrow> good E v g \<Longrightarrow> good E v (\<lambda>s. if P s then f s else g s)"
  by (simp add: good_def)

lemma good_at:
  assumes "\<And>s. relay_inv (v s) \<Longrightarrow> \<exists>g. f s = g s \<and> good E v g"
  shows "good E v f"
  unfolding good_def
proof (intro allI impI)
  fix s assume inv: "relay_inv (v s)"
  from assms [OF inv] obtain g where "f s = g s" "good E v g" by blast
  with goodD [OF this(2) inv] show "relay_inv (v (fst (f s))) \<and> accounts E (kept (v s)) (kept (v (fst (f s)))) (snd (f s))
      \<and> session_ids (v (fst (f s))) \<subseteq> session_ids (v s)" by simp
qed

lemma good_say [good_intros]: "(\<And>s. settled (out s) = {#}) \<Longrightarrow> good E v (\<lambda>s. (s, out s))"
  by (simp add: good_def accounts_none)

lemma good_quiet:
  assumes "\<And>R. relay_inv R \<Longrightarrow> manager_inv (rl_sessions (fst (f R))) \<and> rl_gate (fst (f R)) = rl_gate R
      \<and> settled (snd (f R)) = {#} \<and> session_ids (fst (f R)) \<subseteq> session_ids R"
  shows "good_step E f"
  using assms by (simp add: good_def relay_inv_def accounts_none)

lemma good_pure:
  "(\<And>R. relay_inv R \<Longrightarrow> manager_inv (rl_sessions (f R)) \<and> rl_gate (f R) = rl_gate R \<and> session_ids (f R) \<subseteq> session_ids R) \<Longrightarrow>
     good_step E (\<lambda>R. (f R, []))"
  by (rule good_quiet) simp

text \<open>A step before or after one that says nothing.\<close>

lemma good_after:
  assumes "good_step E f"
    and "\<And>R. relay_inv R \<Longrightarrow> manager_inv (rl_sessions (h R)) \<and> rl_gate (h R) = rl_gate R \<and> session_ids (h R) \<subseteq> session_ids R"
  shows "good_step E (\<lambda>R. f (h R))"
proof -
  have "good_step E (fx_then (\<lambda>R. (h R, [])) f)" by (intro good_then good_pure assms)
  moreover have "fx_then (\<lambda>R. (h R, [])) f = (\<lambda>R. f (h R))" by (simp add: fun_eq_iff fx_then_def)
  ultimately show ?thesis by simp
qed

lemma relay_invD:
  assumes "relay_inv R"
  shows "manager_inv (rl_sessions R)" "gate_inv (rl_gate R)" "\<forall>b \<in># kept R. boot_ok b"
  using assms by (simp_all add: relay_inv_def)

lemma same_relay_ids: "same_relay R R' \<Longrightarrow> session_ids R' = session_ids R"
  unfolding same_relay_def session_ids_def by (metis image_set same_core_parts(8))

lemma relay_inv_mgr: "relay_inv R \<Longrightarrow> manager_inv m \<Longrightarrow> relay_inv (R\<lparr>rl_sessions := m\<rparr>)"
  by (simp add: relay_inv_def)

lemma relay_inv_same:
  "relay_inv R \<Longrightarrow> same_relay R R' \<Longrightarrow> gate_inv (rl_gate R') \<Longrightarrow> kept R' \<subseteq># kept R \<Longrightarrow> relay_inv R'"
  unfolding relay_inv_def by (auto simp: same_relay_def dest: mset_subset_eqD intro: same_core_inv)

subsection \<open>Messages that settle no boot\<close>

lemma settled_quiet [quiet]:
  "settled (send_option E w msg) = (case w of Some ws \<Rightarrow> settled (sendTo E ws msg) | None \<Rightarrow> {#})"
  "(\<And>ws. settled1 (ws, msg) = {#}) \<Longrightarrow> settled (tellWatchers E i msg R) = {#}"
  "settled (evicted_notices E told) = {#}"
  "(\<And>ws i. settled1 (ws, msg' i) = {#}) \<Longrightarrow> settled (ask_agent E i msg' R) = {#}"
  "settled (replay_state E ws s) = {#}"
  "settled (to_holder E i raw R) = {#}"
  by (auto simp: send_option_def tellWatchers_def evicted_notices_def ask_agent_def replay_state_def to_holder_def
      settled_sendTo split_beta intro!: settled_concat split: option.split)

lemma settled_action [quiet]: "settled (tellWatchersAction E i action R) = {#}"
  by (simp add: tellWatchersAction_def quiet)

lemma settled_viewers [quiet]: "settled (to_viewers E i raw R) = {#}"
  by (simp add: to_viewers_def quiet)

subsection \<open>The gate\<close>

lemma size_kept: "size (kept_boots g) \<le> length g"
proof -
  have "size (kept_host h) \<le> 1" for h :: "'a host" by (simp add: kept_host_def split: option.split)
  then show ?thesis by (induction g) (auto simp: kept_boots_def intro: add_le_mono [of _ "Suc 0", simplified])
qed

lemma applyGate_run:
  assumes "gate_inv (rl_gate R)" and "\<forall>b \<in># kept R + answers fxs. boot_ok b"
  shows "apply_gate (Suc (length (rl_gate R))) E now fxs R = Some (applyGate E now fxs R)"
    and "gate_inv (rl_gate (fst (applyGate E now fxs R)))" and "same_relay R (fst (applyGate E now fxs R))"
    and "kept (fst (applyGate E now fxs R)) \<subseteq># kept R"
    and "accounts E (kept R + answers fxs) (kept (fst (applyGate E now fxs R))) (snd (applyGate E now fxs R))"
proof -
  have "size (kept R) < Suc (length (rl_gate R))" using size_kept [of "rl_gate R"] by simp
  with apply_gate_run [OF assms(1) _ assms(2), of "Suc (length (rl_gate R))" E now] obtain R' out where
    "apply_gate (Suc (length (rl_gate R))) E now fxs R = Some (R', out)" "gate_inv (rl_gate R')" "same_relay R R'"
    "kept R' \<subseteq># kept R" "accounts E (kept R + answers fxs) (kept R') out" by blast
  moreover from this(1) have "applyGate E now fxs R = (R', out)" by (simp add: applyGate_def)
  ultimately show "apply_gate (Suc (length (rl_gate R))) E now fxs R = Some (applyGate E now fxs R)"
    "gate_inv (rl_gate (fst (applyGate E now fxs R)))" "same_relay R (fst (applyGate E now fxs R))"
    "kept (fst (applyGate E now fxs R)) \<subseteq># kept R"
    "accounts E (kept R + answers fxs) (kept (fst (applyGate E now fxs R))) (snd (applyGate E now fxs R))"
    by simp_all
qed

text \<open>A call of the gate that takes the boots \<open>B\<close> in, and its effects applied.\<close>

lemma gate_call_run:
  assumes "relay_inv R" and "gate_inv g" and "kept R + B = kept_boots g + answers fxs" and "\<forall>b \<in># B. boot_ok b"
  shows "relay_inv (fst (applyGate E now fxs (R\<lparr>rl_gate := g\<rparr>)))"
    and "same_relay R (fst (applyGate E now fxs (R\<lparr>rl_gate := g\<rparr>)))"
    and "accounts E (kept R + B) (kept (fst (applyGate E now fxs (R\<lparr>rl_gate := g\<rparr>)))) (snd (applyGate E now fxs (R\<lparr>rl_gate := g\<rparr>)))"
proof -
  let ?R = "R\<lparr>rl_gate := g\<rparr>"
  have ok: "\<forall>b \<in># kept_boots g + answers fxs. boot_ok b"
    using relay_invD(3) [OF assms(1)] assms(4) unfolding assms(3) [symmetric] by auto
  note run = applyGate_run [of ?R fxs E now, simplified, OF assms(2)]
  have "relay_inv ?R" using assms(1,2) ok by (simp add: relay_inv_def)
  then show "relay_inv (fst (applyGate E now fxs ?R))" using run ok by (auto intro: relay_inv_same)
  show "same_relay R (fst (applyGate E now fxs ?R))" using run(3) ok same_relay_trans [OF same_relay_other(1)] by auto
  show "accounts E (kept R + B) (kept (fst (applyGate E now fxs ?R))) (snd (applyGate E now fxs ?R))"
    using run(5) ok assms(3) by auto
qed

lemma event_call:
  assumes "relay_inv R" and "onEvent (gateTiming E) now ev (rl_gate R) = (g, fxs)"
  shows "gate_inv g" and "kept R + {#} = kept_boots g + answers fxs"
  using gate_step_inv [OF relay_invD(2) [OF assms(1)], of "gateTiming E" "(now, Event ev)"]
    gate_step_conserves [OF relay_invD(2) [OF assms(1)], of "(now, Event ev)" "gateTiming E"] assms(2) by simp_all

lemma gateEvent_run:
  assumes "relay_inv R"
  shows "relay_inv (fst (gateEvent E now ev R))" and "same_relay R (fst (gateEvent E now ev R))"
    and "accounts E (kept R) (kept (fst (gateEvent E now ev R))) (snd (gateEvent E now ev R))"
proof -
  obtain g fxs where ev: "onEvent (gateTiming E) now ev (rl_gate R) = (g, fxs)" by force
  from gate_call_run [OF assms event_call [OF assms ev], of E now] ev
  show "relay_inv (fst (gateEvent E now ev R))" "same_relay R (fst (gateEvent E now ev R))"
    "accounts E (kept R) (kept (fst (gateEvent E now ev R))) (snd (gateEvent E now ev R))"
    by (simp_all add: gateEvent_def)
qed

lemma good_gateEvent [good_intros]: "good_step E (gateEvent E now ev)"
  unfolding good_def using gateEvent_run same_relay_ids by (metis subset_refl)

lemma good_gate_timer [good_intros]: "good_step E (gate_timer_fires E now)"
  unfolding good_def
proof (intro allI impI)
  fix R assume R: "relay_inv R"
  let ?R = "R\<lparr>rl_gateTimer := None\<rparr>"
  have R0: "relay_inv ?R" using R by (simp add: relay_inv_def)
  obtain g fxs where tk: "tick (gateTiming E) now (rl_gate R) = (g, fxs)" by force
  have "gate_inv g" "kept ?R + {#} = kept_boots g + answers fxs"
    using gate_step_inv [OF relay_invD(2) [OF R], of "gateTiming E" "(now, Tick)"]
      gate_step_conserves [OF relay_invD(2) [OF R], of "(now, Tick)" "gateTiming E"] tk by simp_all
  from gate_call_run [OF R0 this, of E now] tk
  show "relay_inv (fst (gate_timer_fires E now R))
      \<and> accounts E (kept R) (kept (fst (gate_timer_fires E now R))) (snd (gate_timer_fires E now R))
      \<and> session_ids (fst (gate_timer_fires E now R)) \<subseteq> session_ids R"
    using same_relay_ids [of ?R "fst (gate_timer_fires E now R)"]
    by (simp add: gate_timer_fires_def) (simp add: session_ids_def)
qed

subsection \<open>The small steps\<close>

lemma same_relay_mgr: "relay_inv R \<Longrightarrow> same_relay R R' \<Longrightarrow> manager_inv (rl_sessions R')"
  using same_core_inv relay_invD(1) by (auto simp: same_relay_def)

lemma good_core:
  assumes "\<And>R. same_relay R (fst (f R)) \<and> rl_gate (fst (f R)) = rl_gate R \<and> settled (snd (f R)) = {#}"
  shows "good_step E f"
  using assms same_relay_mgr same_relay_ids by (intro good_quiet) (metis subset_refl)

lemma rl_sessions_upd [simp]: "rl_sessions (upd i f R) = on_session i f (rl_sessions R)" "rl_sessions (on_mgr h R) = h (rl_sessions R)"
  by (simp_all add: upd_def on_mgr_def)

lemma good_dropPendingInstall [good_intros]: "good_step E (dropPendingInstall E i why)"
  by (rule good_core) (simp add: dropPendingInstall_frame installs_settle_nothing drop_only_installs)

lemma good_forgetInstall [good_intros]: "good_step E (forgetInstall E i why)"
  by (rule good_core) (simp add: forgetInstall_frame)

lemma good_settleInstall [good_intros]: "good_step E (settleInstall E i r ok why)"
  by (rule good_core)
    (auto simp: settleInstall_def core_def intro!: same_relay_upd installs_settle_nothing
      split: option.split dest: waiters_only_installs)

lemma good_rejectPending [good_intros]: "good_step E (rejectPending E ids why)"
  unfolding rejectPending_def by (intro good_intros)

lemma session_ids_simps [simp]:
  "session_ids (R\<lparr>rl_sessions := m\<rparr>) = fst ` set (sessions m)" "session_ids (R\<lparr>rl_gate := g\<rparr>) = session_ids R"
  "session_ids (R\<lparr>rl_gateTimer := t\<rparr>) = session_ids R" "session_ids (R\<lparr>rl_pendingBoots := p\<rparr>) = session_ids R"
  "session_ids (R\<lparr>rl_requesters := q\<rparr>) = session_ids R" "session_ids (R\<lparr>rl_agents := a\<rparr>) = session_ids R"
  "session_ids (R\<lparr>rl_latest := l\<rparr>) = session_ids R" "session_ids (R\<lparr>rl_holds := h\<rparr>) = session_ids R"
  "session_ids (R\<lparr>rl_idrAt := i\<rparr>) = session_ids R" "session_ids (R\<lparr>rl_network := n\<rparr>) = session_ids R"
  "session_ids (on_mgr f R) = fst ` set (sessions (f (rl_sessions R)))"
  by (simp_all add: session_ids_def on_mgr_def)

lemma good_requestIdr [good_intros]: "good_step E (requestIdr E now i)"
  by (rule good_quiet) (auto simp: requestIdr_def Let_def quiet relay_inv_def)

lemma good_network [good_intros]: "good_step E (network_event E i ev)"
  by (rule good_quiet) (auto simp: network_event_def quiet relay_inv_def split_beta intro!: settled_concat)

lemma forgetSessionState_frame:
  "rl_sessions (forgetSessionState i R) = rl_sessions R" "rl_gate (forgetSessionState i R) = rl_gate R"
  by (simp_all add: forgetSessionState_def forgetEvictedBoots_def)

lemma removed_ids:
  assumes "manager_inv m"
  shows "fst ` set (sessions (fst (remove i m))) \<subseteq> fst ` set (sessions m)"
proof (cases "jget (sessions m) i")
  case (Some s)
  have "sessions (fst (evictWatchers i Session_ended (\<lambda>_. True) m)) = sessions m"
    using evictWatchers_spec(2) [OF manager_invD(2) [OF assms]] by (simp add: same_sessions_def)
  then have "sessions (fst (remove i m)) = jdel i (sessions m)"
    using Some by (simp add: remove_def Let_def split_beta split: option.split)
  then have "set (jkeys (sessions (fst (remove i m)))) \<subseteq> set (jkeys (sessions m))"
    by (simp only: jkeys_del) auto
  then show ?thesis by (simp only: set_map)
qed (simp add: remove_def)

lemma relay_inv_cong: "rl_sessions R' = rl_sessions R \<Longrightarrow> rl_gate R' = rl_gate R \<Longrightarrow> relay_inv R' = relay_inv R"
  by (simp add: relay_inv_def)

lemma good_removeSession [good_intros]: "good_step E (removeSession E now i)"
proof (rule good_at)
  fix R assume R: "relay_inv R"
  define say where "say = evicted_notices E (snd (remove i (rl_sessions R)))"
  define h where "h = (\<lambda>R. forgetSessionState i (R\<lparr>rl_sessions := fst (remove i (rl_sessions R))\<rparr>))"
  have "good_step E (\<lambda>R. gateEvent E now (Session_removed i) (h R))"
    by (rule good_after [OF good_gateEvent]) (simp add: h_def forgetSessionState_frame remove_inv relay_invD(1) removed_ids session_ids_def)
  then have "good_step E (fx_then (\<lambda>R. (R, say)) (\<lambda>R. gateEvent E now (Session_removed i) (h R)))"
    by (intro good_intros) (simp add: say_def quiet)
  moreover have "removeSession E now i R = fx_then (\<lambda>R. (R, say)) (\<lambda>R. gateEvent E now (Session_removed i) (h R)) R"
    by (simp add: removeSession_def fx_then_def say_def h_def split_beta)
  ultimately show "\<exists>g. removeSession E now i R = g R \<and> good_step E g" by blast
qed

lemma good_settleRequesters [good_intros]: "good_step E (settleShutdownRequesters E s why)"
  by (rule good_quiet)
    (auto simp: settleShutdownRequesters_def Let_def relay_inv_def settled_sendTo split_beta intro!: settled_concat split: option.split)

lemma good_end_session [good_intros]: "good_step E (end_session E now s)"
  unfolding end_session_def by (intro good_intros)

lemma good_answerRequester [good_intros]: "good_step E (answerShutdownRequester E s r raw)"
  by (rule good_quiet) (auto simp: answerShutdownRequester_def Let_def relay_inv_def settled_sendTo split: option.split)

subsection \<open>The cap\<close>

lemma core_expire [simp]: "core (expire_boot E now s) = core s"
  by (simp add: expire_boot_def) (simp add: core_def)

lemma fold_same_relay:
  assumes "\<And>x R. same_relay R (f x R)" and "\<And>x R. rl_gate (f x R) = rl_gate R"
  shows "same_relay R (fold f xs R) \<and> rl_gate (fold f xs R) = rl_gate R"
proof (induction xs arbitrary: R)
  case (Cons x xs)
  from Cons.IH [of "f x R"] assms show ?case by (auto intro: same_relay_trans)
qed simp

lemma expire_boots_frame: "same_relay R (expire_boots E now key R)" "rl_gate (expire_boots E now key R) = rl_gate R"
  using fold_same_relay [of "\<lambda>s. upd (sid_of s) (expire_boot E now)" R "onHost R key"]
  by (simp_all add: expire_boots_def same_relay_upd)

lemma core_mark [simp]: "core (mark_evicting now s) = core s"
  by (simp add: mark_evicting_def core_def)

lemma same_relay_shutdown_sent: "same_relay R (on_mgr (noteShutdownSent i) R)"
  unfolding noteShutdownSent_def by (rule same_relay_upd [unfolded upd_def]) (simp add: core_def)

lemma evictForCapacity_frame:
  "same_relay R (fst (evictForCapacity E now i R))" "rl_gate (fst (evictForCapacity E now i R)) = rl_gate R"
  "settled (snd (evictForCapacity E now i R)) = {#}"
proof -
  have "same_relay R (on_mgr (noteShutdownSent i) (upd i (mark_evicting now) R))"
    by (rule same_relay_trans [OF same_relay_upd same_relay_shutdown_sent]) simp
  then show "same_relay R (fst (evictForCapacity E now i R))"
    by (simp add: evictForCapacity_def split: option.split)
qed (simp_all add: evictForCapacity_def settled_sendTo split: option.split)

lemma good_evictForCapacity [good_intros]: "good_step E (evictForCapacity E now i)"
  by (rule good_core) (simp add: evictForCapacity_frame)

lemma good_freeOne [good_intros]: "good_step E (freeOneForMemory E now s)"
proof (rule good_core)
  fix R
  show "same_relay R (fst (freeOneForMemory E now s R)) \<and> rl_gate (fst (freeOneForMemory E now s R)) = rl_gate R
      \<and> settled (snd (freeOneForMemory E now s R)) = {#}"
    using expire_boots_frame [where R = R and E = E and now = now and key = "hostKey s"] evictForCapacity_frame
      same_relay_trans [OF expire_boots_frame(1) evictForCapacity_frame(1)]
    by (auto simp: freeOneForMemory_def Let_def split: option.split)
qed

lemma planCapacityFor_frame:
  "same_relay R (fst (planCapacityFor E now s R))" "rl_gate (fst (planCapacityFor E now s R)) = rl_gate R"
  by (simp_all add: planCapacityFor_def Let_def expire_boots_frame)

subsection \<open>A boot\<close>

definition boot_of :: "relay_env \<Rightarrow> socket \<Rightarrow> session \<Rightarrow> boot_msg \<Rightarrow> held_boot boot" where
  "boot_of E ws s msg = (bm_session msg, bm_request msg, r_message (boot_request_of E ws s msg))"

lemma boot_of_ok: "boot_ok (boot_of E ws s msg)" "asker (boot_of E ws s msg) = ws"
    "boot_id (boot_of E ws s msg) = (bm_session msg, bm_request msg)"
  by (simp_all add: boot_of_def boot_ok_def boot_id_def asker_def boot_request_of_def tagged_def Let_def)

lemma admit_call:
  assumes "relay_inv R" and "admit (gateTiming E) now (boot_request_of E ws s msg) (rl_gate R) = (g, fxs)"
  shows "gate_inv g" and "kept R + {#boot_of E ws s msg#} = kept_boots g + answers fxs"
proof -
  let ?req = "boot_request_of E ws s msg"
  have ids: "r_session ?req = bm_session msg" "r_request ?req = bm_request msg" by (simp_all add: boot_request_of_def Let_def)
  then show "gate_inv g" "kept R + {#boot_of E ws s msg#} = kept_boots g + answers fxs"
    using gate_step_inv [OF relay_invD(2) [OF assms(1)], of "gateTiming E" "(now, Admit ?req)"]
      gate_step_conserves [OF relay_invD(2) [OF assms(1)], of "(now, Admit ?req)" "gateTiming E"] assms(2)
    by (simp_all add: boot_of_def)
qed

lemma admit_boot_run:
  assumes "relay_inv R"
  shows "relay_inv (fst (admit_boot E now ws s msg evict R))"
    and "accounts E (kept R + {#boot_of E ws s msg#}) (kept (fst (admit_boot E now ws s msg evict R)))
      (snd (admit_boot E now ws s msg evict R))"
proof -
  let ?req = "boot_request_of E ws s msg"
  obtain g fxs where ad: "admit (gateTiming E) now ?req (rl_gate R) = (g, fxs)" by force
  note run = gate_call_run [OF assms admit_call [OF assms ad], of E now, simplified, OF boot_of_ok(1)]
  define after where "after = (\<lambda>R. if goes (bm_request msg) fxs then fx_each (evictForCapacity E now) evict R
                 else if refused_critical (bm_request msg) fxs then freeOneForMemory E now s R
                 else (R, []))"
  have "good_step E after"
    unfolding after_def by (intro good_intros good_say) (simp add: settled_def)
  from goodD [OF this run(1)] run
  have "relay_inv (fst (after (fst (applyGate E now fxs (R\<lparr>rl_gate := g\<rparr>)))))"
    "accounts E (kept R + {#boot_of E ws s msg#}) (kept (fst (after (fst (applyGate E now fxs (R\<lparr>rl_gate := g\<rparr>))))))
       (snd (applyGate E now fxs (R\<lparr>rl_gate := g\<rparr>)) @ snd (after (fst (applyGate E now fxs (R\<lparr>rl_gate := g\<rparr>)))))"
    by (auto intro: accounts_trans)
  moreover have "admit_boot E now ws s msg evict R = fx_then (applyGate E now fxs) after (R\<lparr>rl_gate := g\<rparr>)"
    by (simp add: admit_boot_def ad after_def)
  ultimately show "relay_inv (fst (admit_boot E now ws s msg evict R))"
    "accounts E (kept R + {#boot_of E ws s msg#}) (kept (fst (admit_boot E now ws s msg evict R)))
      (snd (admit_boot E now ws s msg evict R))"
    by (simp_all only: fx_simps)
qed

text \<open>
  \<open>handleBoot\<close>: the boot it was asked for is held by the gate, sent to an agent, or answered, and so is each
  boot the gate held before, except one whose asker is not there to be told.
\<close>

lemma handleBoot_run:
  assumes "relay_inv R"
  shows "relay_inv (fst (handleBoot E now ws msg R))"
    and "\<exists>b. boot_id b = (bm_session msg, bm_request msg) \<and> asker b = ws
      \<and> accounts E (kept R + {#b#}) (kept (fst (handleBoot E now ws msg R))) (snd (handleBoot E now ws msg R))"
proof -
  define b :: "held_boot boot" where "b = (bm_session msg, bm_request msg, \<lparr>hb_ws = ws, hb_msg = msg, hb_cost = Warm, hb_class = Interactive\<rparr>)"
  have said: "accounts E (kept R' + {#b#}) (kept R') (sendTo E ws (Boot_failed (bm_session msg) (bm_request msg) why words))" for R' why words
    unfolding accounts_def
    by (cases "up E ws")
      (auto simp: settled_sendTo b_def boot_id_def asker_def
        intro!: exI [of _ "if up E ws then {#} else {#(bm_session msg, bm_request msg, \<lparr>hb_ws = ws, hb_msg = msg, hb_cost = Warm, hb_class = Interactive\<rparr>)#}"])
  have b: "boot_id b = (bm_session msg, bm_request msg)" "asker b = ws" by (simp_all add: b_def boot_id_def asker_def)
  have "relay_inv (fst (handleBoot E now ws msg R)) \<and> (\<exists>b. boot_id b = (bm_session msg, bm_request msg) \<and> asker b = ws
      \<and> accounts E (kept R + {#b#}) (kept (fst (handleBoot E now ws msg R))) (snd (handleBoot E now ws msg R)))"
  proof (cases "dispatchTarget E ws (bm_session msg) R")
    case (Inl why)
    then show ?thesis using assms said [of R] b by (intro conjI exI [of _ b]) (simp_all add: handleBoot_def)
  next
    case (Inr s)
    let ?req = "boot_request_of E ws s msg"
    obtain R1 plan where P: "(if r_cost ?req = Cold \<and> r_class ?req = Automated then planCapacityFor E now s R else (R, Plan_ok [])) = (R1, plan)"
      by force
    have R1: "same_relay R R1" "rl_gate R1 = rl_gate R"
      using P planCapacityFor_frame [where R = R and E = E and now = now and s = s] by (auto split: if_splits)
    then have inv: "relay_inv R1" using relay_inv_same [OF assms R1(1)] relay_invD(2) [OF assms] by simp
    show ?thesis
    proof (cases plan)
      case Plan_refused
      then show ?thesis using Inr P inv R1 said [of R1] b by (intro conjI exI [of _ b]) (simp_all add: handleBoot_def Let_def)
    next
      case (Plan_ok evict)
      then show ?thesis
        using Inr P R1(2) admit_boot_run [OF inv, where E = E and now = now and ws = ws and s = s and msg = msg and evict = evict] boot_of_ok(2,3) [of E ws s msg]
        by (intro conjI exI [of _ "boot_of E ws s msg"]) (simp_all add: handleBoot_def Let_def)
    qed
  qed
  then show "relay_inv (fst (handleBoot E now ws msg R))" "\<exists>b. boot_id b = (bm_session msg, bm_request msg) \<and> asker b = ws
      \<and> accounts E (kept R + {#b#}) (kept (fst (handleBoot E now ws msg R))) (snd (handleBoot E now ws msg R))"
    by blast+
qed

end
