(* ===== verification/Relay_Good.thy ===== *)
theory Relay_Good
  imports Relay_Steps
begin

text \<open>
  The handlers of \<open>Relay_Join\<close> and \<open>Relay_Agent\<close> are good: joins, releases, watches, shutdowns, what an
  agent answers, the loss of its socket and its return. Only a registration and a device list bring new
  sessions.
\<close>

declare map_of_eq_Some_iff [simp del]

subsection \<open>Which sessions there are\<close>

abbreviation ids :: "manager \<Rightarrow> string set" where
  "ids m \<equiv> fst ` set (sessions m)"

named_theorems ids_simps "operations that add no session"

lemma ids_on_session [ids_simps]: "ids (on_session i f m) = ids m"
proof (cases "jget (sessions m) i")
  case (Some s)
  then have "map fst (sessions (on_session i f m)) = map fst (sessions m)"
    by (simp add: on_session_def jkeys_set)
  then show ?thesis by (metis set_map)
qed (simp add: on_session_def)

lemma sessions_fold_drop: "sessions (fold (drop_watcher i) evs m) = sessions m"
  by (induction evs arbitrary: m) (simp_all add: drop_watcher_same [unfolded same_sessions_def])

lemma ids_evict [ids_simps]: "ids (fst (evictWatchers i why which m)) = ids m"
  by (simp add: evictWatchers_def Let_def sessions_fold_drop split: option.split)

lemma ids_index [ids_simps]: "ids (unindexBrowser s m) = ids m"
  by (simp add: unindexBrowser_def split: option.split)

lemma ids_release [ids_simps]: "ids (spend_resume i (clearBrowser now i c m)) = ids m"
  by (simp add: spend_resume_def clearBrowser_def ids_simps split: option.split)

lemma ids_join [ids_simps]: "ids (fst (join now isOpen isAlive i ws w h m)) = ids m"
  by (simp add: join_def Let_def split_beta ids_simps split: option.split)

lemma ids_watch [ids_simps]: "ids (fst (watch_start may who ws i m)) = ids m"
  by (simp add: watch_start_def addWatcher_def Let_def split: option.split)

lemma ids_stream [ids_simps]: "ids (clearStreamSocket i m) = ids m"
  by (simp add: clearStreamSocket_def ids_simps split: option.split)

lemma ids_unwatch [ids_simps]: "ids (fst (removeWatcherSocket ws m)) = ids m"
proof -
  have "sessions (fold (\<lambda>i m. drop_watcher i ws m) js m) = sessions m" for js
    by (induction js arbitrary: m) (simp_all add: drop_watcher_same [unfolded same_sessions_def])
  then show ?thesis by (simp add: removeWatcherSocket_def Let_def)
qed

lemma ids_idle [ids_simps]: "ids (idle_fires now i m) = ids m"
  by (simp add: idle_fires_def ids_simps split: option.split)

lemma ids_writes [ids_simps]:
  "ids (refreshDevice i d m) = ids m" "ids (noteShutdownSent i m) = ids m" "ids (noteBootSent i m) = ids m"
  "ids (clearDeviceCache i m) = ids m" "ids (setReadySent i b m) = ids m" "ids (setDeviceServiceTier i t m) = ids m"
  "ids (updateDeviceStatus i st m) = ids m" "ids (device_left i m) = ids m"
  "ids (noteShutdown now i user label nm m) = ids m" "ids (undoShutdown i m) = ids m" "ids (settleShutdown i m) = ids m"
  "ids (setResources ws r m) = ids m" "ids (removeResources ws m) = ids m"
  unfolding refreshDevice_def noteShutdownSent_def noteBootSent_def clearDeviceCache_def setReadySent_def
    setDeviceServiceTier_def updateDeviceStatus_def device_left_def noteShutdown_def undoShutdown_def settleShutdown_def
    setResources_def removeResources_def
  by (simp_all add: ids_simps)

lemma ids_rebind [ids_simps]: "ids (rebind i ws d a m) = ids m"
  by (simp add: rebind_def Let_def ids_simps split: option.split)

subsection \<open>Steps of the session manager\<close>

lemma good_mgr:
  assumes "\<And>m. manager_inv m \<Longrightarrow> manager_inv (h m)" and "\<And>m. ids (h m) \<subseteq> ids m" and "\<And>R. settled (out R) = {#}"
  shows "good_step E (\<lambda>R. (on_mgr h R, out R))"
proof (rule good_quiet)
  fix R assume "relay_inv R"
  from relay_invD(1) [OF this] assms
  show "manager_inv (rl_sessions (fst (on_mgr h R, out R))) \<and> rl_gate (fst (on_mgr h R, out R)) = rl_gate R
      \<and> settled (snd (on_mgr h R, out R)) = {#} \<and> session_ids (fst (on_mgr h R, out R)) \<subseteq> session_ids R"
    by (simp add: session_ids_def)
qed

text \<open>A handler that first changes the sessions.\<close>

lemma good_after_mgr:
  assumes "good_step E f" and "\<And>m. manager_inv m \<Longrightarrow> manager_inv (h m)" and "\<And>m. ids (h m) \<subseteq> ids m"
  shows "good_step E (\<lambda>R. f (on_mgr h R))"
  by (rule good_after [OF assms(1)]) (use assms(2,3) relay_invD(1) in \<open>auto simp: session_ids_def\<close>)

lemma good_id [good_intros]: "good E v (\<lambda>s. (s, []))"
  by (rule good_say) simp

lemma good_option [good_intros]:
  assumes "good E v f" and "\<And>s. good E v (g s)"
  shows "good E v (\<lambda>R. case P R of None \<Rightarrow> f R | Some s \<Rightarrow> g s R)"
proof (rule good_at)
  fix s
  show "\<exists>h. (case P s of None \<Rightarrow> f s | Some t \<Rightarrow> g t s) = h s \<and> good E v h"
    using assms by (cases "P s") auto
qed

lemma good_eta: "good E v (\<lambda>s. f s) = good E v f"
  by simp


subsection \<open>Joining and leaving\<close>

text \<open>A handler at one state.\<close>

definition fine :: "relay_env \<Rightarrow> relay \<Rightarrow> relay \<times> sent \<Rightarrow> bool" where
  "fine E R p \<longleftrightarrow> (relay_inv R \<longrightarrow>
     relay_inv (fst p) \<and> accounts E (kept R) (kept (fst p)) (snd p) \<and> session_ids (fst p) \<subseteq> session_ids R)"

lemma good_iff_fine: "good_step E f \<longleftrightarrow> (\<forall>R. fine E R (f R))"
  by (simp add: good_def fine_def)

lemma fineI: "good_step E f \<Longrightarrow> fine E R (f R)"
  by (simp add: good_iff_fine)

lemma good_fine: "(\<And>R. relay_inv R \<Longrightarrow> fine E R (f R)) \<Longrightarrow> good_step E f"
  by (auto simp: good_iff_fine fine_def)

lemma fine_mgr:
  assumes "relay_inv R" and "fine E (R\<lparr>rl_sessions := m\<rparr>) p" and "manager_inv m" and "ids m \<subseteq> ids (rl_sessions R)"
  shows "fine E R p"
proof -
  have "relay_inv (R\<lparr>rl_sessions := m\<rparr>)" using assms(1,3) by (simp add: relay_inv_def)
  then have "relay_inv (fst p) \<and> accounts E (kept R) (kept (fst p)) (snd p) \<and> session_ids (fst p) \<subseteq> ids m"
    using assms(2) by (simp add: fine_def)
  moreover have "ids m \<subseteq> session_ids R" using assms(4) by (simp add: session_ids_def)
  ultimately show ?thesis unfolding fine_def by blast
qed

lemma fine_id: "fine E R (R, [])"
  using fineI [OF good_id] .

lemma good_refuse [good_intros]: "good_step E (refuse_join E ws i why words)"
  by (rule good_quiet) (simp add: refuse_join_def settled_sendTo relay_invD)

lemma good_replay [good_intros]: "good_step E (replay_join E now ws s)"
  unfolding replay_join_def by (intro good_intros) (simp_all add: quiet settled_sendTo)

lemma good_joined [good_intros]: "good_step E (joined E now ws i told s)"
  unfolding joined_def by (intro good_intros) (simp_all add: quiet settled_sendTo)

lemma good_sessionStart [good_intros]: "good_step E (handleSessionStart E now ws i kind stream)"
proof (rule good_fine)
  fix R assume inv: "relay_inv R"
  obtain m r told where j: "join now (up E) (answering E) i ws (ownerRecord E ws) (join_as E ws kind stream) (rl_sessions R) = (m, r, told)"
    by (metis prod_cases3)
  have m: "manager_inv m" "ids m \<subseteq> ids (rl_sessions R)"
    using join_inv [OF relay_invD(1) [OF inv], of now "up E" "answering E" i ws "ownerRecord E ws" "join_as E ws kind stream"]
      ids_join [of now "up E" "answering E" i ws "ownerRecord E ws" "join_as E ws kind stream" "rl_sessions R"] j by simp_all
  have moved: "fine E R (f (R\<lparr>rl_sessions := m\<rparr>))" if "good_step E f" for f
    by (rule fine_mgr [OF inv fineI [OF that] m])
  show "fine E R (handleSessionStart E now ws i kind stream R)"
    unfolding handleSessionStart_def j
    by (auto split: option.split join_result.split intro: fine_id fineI moved good_refuse good_joined)
qed


lemma good_notices: "good_step E (\<lambda>R. (R\<lparr>rl_sessions := fst (endWatches i why (rl_sessions R))\<rparr>,
    evicted_notices E (snd (endWatches i why (rl_sessions R)))))"
  by (rule good_quiet) (auto simp: endWatches_def evictWatchers_inv relay_invD quiet session_ids_def ids_simps)

lemma on_session_cong:
  "(\<And>s. jget (sessions m) i = Some s \<Longrightarrow> f s = g s) \<Longrightarrow> on_session i f m = on_session i g m"
  by (simp add: on_session_def split: option.split)

lemma good_leave [good_intros]: "good_step E (session_leave E now ws i)"
proof (rule good_fine)
  fix R assume inv: "relay_inv R"
  show "fine E R (session_leave E now ws i R)"
  proof (cases "\<exists>s. session_at R i = Some s \<and> ownsSession E ws s")
    case True
    then obtain s where s: "session_at R i = Some s" "ownsSession E ws s" by blast
    define R1 where "R1 = R\<lparr>rl_sessions := spend_resume i (clearBrowser now i (idleResumeOnLeave s) (rl_sessions R))\<rparr>"
    define f where "f = fx_then (\<lambda>R. gateEvent E now (Browser_closed i) (forgetSessionState i R))
       (\<lambda>R. (R\<lparr>rl_sessions := fst (endWatches i Session_ended (rl_sessions R))\<rparr>,
             evicted_notices E (snd (endWatches i Session_ended (rl_sessions R)))))"
    have "good_step E f"
      unfolding f_def
      by (intro good_then good_notices good_after [OF good_gateEvent])
        (simp add: forgetSessionState_frame relay_invD session_ids_def)
    moreover have "manager_inv (rl_sessions R1)"
      unfolding R1_def using s
      by (auto intro!: session_release_inv relay_invD(1) [OF inv] simp: ownsSession_def session_at_def get_def)
    ultimately have "fine E R (f R1)"
      unfolding R1_def by (intro fine_mgr [OF inv fineI]) (simp_all add: ids_simps)
    moreover have "session_leave E now ws i R = f R1"
      using s by (simp add: session_leave_def f_def R1_def fx_then_def on_mgr_def split_beta)
    ultimately show ?thesis by simp
  next
    case False
    then show ?thesis by (auto simp: session_leave_def fine_id split: option.split)
  qed
qed

lemma good_release [good_intros]: "good_step E (release_held E now i)"
proof -
  have "good_step E (\<lambda>R. (on_mgr h R, tellWatchers E i (Holder_left i) (on_mgr h R)))"
    if "h = (\<lambda>m. spend_resume i (clearBrowser now i True m))" for h
    by (rule good_mgr) (simp_all add: that session_release_inv ids_simps quiet)
  then show ?thesis unfolding release_held_def Let_def by (intro good_then good_gateEvent) simp
qed

lemma good_socket_gone [good_intros]: "good_step E (socket_gone E now ws)"
proof (rule good_fine)
  fix R assume inv: "relay_inv R"
  define m where "m = fst (removeWatcherSocket ws
      (case getByStreamSocket (rl_sessions R) ws of Some s \<Rightarrow> clearStreamSocket (sid_of s) (rl_sessions R) | None \<Rightarrow> rl_sessions R))"
  have m: "manager_inv m" "ids m \<subseteq> ids (rl_sessions R)"
    unfolding m_def using relay_invD(1) [OF inv]
    by (auto simp: removeWatcherSocket_inv clearStreamSocket_inv ids_simps split: option.split)
  have "good_step E (fx_each (release_held E now) (map sid_of (getByBrowserSocket m ws)))"
    by (intro good_intros)
  from fine_mgr [OF inv fineI [OF this] m] show "fine E R (socket_gone E now ws R)"
    by (simp add: socket_gone_def Let_def m_def on_mgr_def split: option.split) (auto simp: on_mgr_def)
qed

lemma good_idleShutdown: "good_step E (idleShutdown E i)"
  unfolding idleShutdown_def
proof (intro good_option good_id)
  fix s
  have "good_step E (\<lambda>R. (on_mgr (noteShutdownSent i) R, sendTo E (agentSocket s) (Device_shutdown i (deviceId s))))"
    by (rule good_mgr) (simp_all add: field_writes_inv ids_simps settled_sendTo)
  then show "good_step E (\<lambda>R. if \<not> up E (agentSocket s) then (R, [])
      else (on_mgr (noteShutdownSent i) R, sendTo E (agentSocket s) (Device_shutdown i (deviceId s))))"
    by (intro good_if good_id)
qed

lemma good_idle_timer [good_intros]: "good_step E (idle_timer_fires E now i)"
  unfolding idle_timer_fires_def
  by (intro good_option good_id good_if good_after_mgr [OF good_idleShutdown]) (simp_all add: idle_fires_inv ids_simps)

lemma good_watchStart [good_intros]:
  "good_step E (\<lambda>R. (fst (handleWatchStart E now may ws i R), fst (snd (handleWatchStart E now may ws i R))))"
proof (rule good_fine)
  fix R assume inv: "relay_inv R"
  obtain m r where w: "watch_start may (ownerOf E ws) ws i (rl_sessions R) = (m, r)" by force
  have m: "manager_inv m" "ids m \<subseteq> ids (rl_sessions R)"
    using watch_start_inv [OF relay_invD(1) [OF inv], of may "ownerOf E ws" ws i]
      ids_watch [of may "ownerOf E ws" ws i "rl_sessions R"] w by simp_all
  have moved: "fine E R (f (R\<lparr>rl_sessions := m\<rparr>))" if "good_step E f" for f
    by (rule fine_mgr [OF inv fineI [OF that] m])
  define R1 where "R1 = R\<lparr>rl_sessions := m\<rparr>"
  have said: "fine E R (R1, out)" if "settled out = {#}" for out
    using moved [of "\<lambda>R. (R, out)"] that by (simp add: good_say R1_def)
  have "good_step E (fx_then (\<lambda>R. (R, replay_state E ws s @ sendTo E ws (Replay_ready (deviceId s)))) (requestIdr E now i))" for s
    by (intro good_intros) (simp add: quiet settled_sendTo)
  then have "fine E R (fx_then (\<lambda>R. (R, replay_state E ws s @ sendTo E ws (Replay_ready (deviceId s)))) (requestIdr E now i) R1)" for s
    unfolding R1_def by (rule moved)
  then show "fine E R (fst (handleWatchStart E now may ws i R), fst (snd (handleWatchStart E now may ws i R)))"
    unfolding handleWatchStart_def w
    by (auto simp: R1_def [symmetric] Let_def quiet settled_sendTo split_beta split: watch_start_result.split option.split intro!: said)
qed


subsection \<open>What agents answer\<close>

lemma good_upd [good_intros]:
  assumes "\<And>s. core (f s) = core s" and "\<And>R. settled (out R) = {#}"
  shows "good_step E (\<lambda>R. (upd i f R, out R))"
  by (rule good_core) (simp add: same_relay_upd assms)

lemma good_after_same:
  assumes "good_step E f" and "\<And>R. same_relay R (h R)" and "\<And>R. rl_gate (h R) = rl_gate R"
  shows "good_step E (\<lambda>R. f (h R))"
  by (rule good_after [OF assms(1)]) (use assms(2,3) same_relay_mgr same_relay_ids in \<open>metis subset_refl\<close>)

lemma good_deviceShutdown [good_intros]: "good_step E (device_shutdown E now ws i requestId raw)"
proof (rule good_fine)
  fix R assume inv: "relay_inv R"
  have refused: "fine E R (R, sendTo E ws (Shutdown_failed i requestId words))" for words
    using fineI [OF good_say, of "\<lambda>_. sendTo E ws (Shutdown_failed i requestId words)"] by (simp add: settled_sendTo)
  define h where "h = noteShutdown now i (userOf E ws) (holderLabelOf E ws) (personName E ws)"
  have "good_step E (\<lambda>R. (on_mgr h (rememberShutdownRequester now ws i requestId R), [(agentSocket s, Passed_on raw)]))" for s
    by (rule good_quiet)
      (auto simp: h_def rememberShutdownRequester_def shutdown_inv relay_invD ids_simps session_ids_def on_mgr_def split: option.split)
  note taken = fineI [OF this]
  show "fine E R (device_shutdown E now ws i requestId raw R)"
    unfolding device_shutdown_def Let_def h_def [symmetric]
    by (auto simp: refused taken split: sum.split option.split)
qed

lemma good_booting [good_intros]: "good_step E (agent_booting E i raw)"
  unfolding agent_booting_def Let_def
  by (intro good_option good_id good_mgr) (simp_all add: field_writes_inv ids_simps quiet)

lemma settleBoot_frame: "same_relay R (settleBoot i r R)" "rl_gate (settleBoot i r R) = rl_gate R"
  by (simp_all add: settleBoot_def forgetBoot_def split: option.split)

lemma good_bootError [good_intros]: "good_step E (agent_boot_error E now i requestId raw)"
proof -
  have "good_step E (fx_then (gateEvent E now (Boot_error i requestId))
      (\<lambda>R. (undoLastBoot i requestId R, to_holder E i raw (undoLastBoot i requestId R))))"
    unfolding undoLastBoot_def by (intro good_intros) (simp_all add: quiet)
  from good_after_same [OF this settleBoot_frame] show ?thesis unfolding agent_boot_error_def Let_def .
qed

lemma core_ready [simp]: "core (ready_facts cold tier s) = core s"
  by (simp add: ready_facts_def Let_def core_def)

lemma good_ready [good_intros]: "good_step E (agent_ready E now sid requestId cold tier raw)"
proof (cases sid)
  case None
  then show ?thesis using good_id by (simp add: agent_ready_def [abs_def])
next
  case (Some i)
  define up1 where "up1 = on_mgr (\<lambda>m. setReadySent i True (updateDeviceStatus i Booted m))"
  have "good_step E (\<lambda>R. (up1 R, to_viewers E i raw (up1 R)))"
    unfolding up1_def by (rule good_mgr) (simp_all add: field_writes_inv ids_simps quiet)
  then have "good_step E (fx_then (gateEvent E now (Ready (hostKey s) i cold)) (\<lambda>R. (up1 R, to_viewers E i raw (up1 R))))" for s
    by (intro good_intros)
  then have "good_step E (\<lambda>R. fx_then (gateEvent E now (Ready (hostKey s) i cold)) (\<lambda>R. (up1 R, to_viewers E i raw (up1 R)))
      (settleLastBoot now i requestId cold (upd i (ready_facts cold tier) R)))" for s
    by (rule good_after_same)
      (simp_all add: settleLastBoot_def same_relay_trans [OF same_relay_upd same_relay_upd])
  then have "good_step E (\<lambda>R. case session_at R i of None \<Rightarrow> (R, [])
      | Some s \<Rightarrow> fx_then (gateEvent E now (Ready (hostKey s) i cold)) (\<lambda>R. (up1 R, to_viewers E i raw (up1 R)))
         (settleLastBoot now i requestId cold (upd i (ready_facts cold tier) R)))"
    by (intro good_option good_id)
  from good_after_same [OF this settleBoot_frame]
  show ?thesis unfolding agent_ready_def Let_def up1_def using Some by simp
qed

lemma core_shut_down [simp]: "core (shut_down s) = core s"
  by (simp add: shut_down_def Let_def core_def)

lemma good_shutdownDone [good_intros]: "good_step E (agent_shutdown_done E now i requestId raw)"
proof -
  have answer: "good_step E (fx_then (\<lambda>R. (R, to_holder E i raw R)) (answerShutdownRequester E s requestId raw))" for s
    by (intro good_intros) (simp add: quiet)
  have "good_step E (\<lambda>R. fx_then (\<lambda>R. (R, to_holder E i raw R)) (answerShutdownRequester E s requestId raw)
      (upd i shut_down (on_mgr (settleShutdown i) R)))" for s
    by (rule good_after_mgr [OF good_after_same [OF answer]])
      (simp_all add: same_relay_upd shutdown_inv ids_simps)
  moreover have "good_step E (\<lambda>R. forgetInstall E i why
      (on_mgr (\<lambda>m. setDeviceServiceTier i None (setReadySent i False (updateDeviceStatus i Shutdown m))) R))" for why
    by (rule good_after_mgr [OF good_forgetInstall]) (simp_all add: field_writes_inv ids_simps)
  ultimately show ?thesis
    unfolding agent_shutdown_done_def Let_def by (intro good_then good_gateEvent good_option good_id)
qed

lemma good_shutdownError [good_intros]: "good_step E (agent_shutdown_error E i requestId raw)"
proof -
  have answer: "good_step E (fx_then (\<lambda>R. (R, to_holder E i raw R)) (answerShutdownRequester E s requestId raw))" for s
    by (intro good_intros) (simp add: quiet)
  have "good_step E (\<lambda>R. fx_then (\<lambda>R. (R, to_holder E i raw R)) (answerShutdownRequester E s requestId raw)
      (on_mgr (undoShutdown i) R))" for s
    by (rule good_after_mgr [OF answer]) (simp_all add: shutdown_inv ids_simps)
  from good_after_same [OF this, of "upd i (\<lambda>s. if evictingAt s \<noteq> None then s\<lparr>evictingAt := None, deviceStatus := Booted\<rparr> else s)"]
  show ?thesis
    unfolding agent_shutdown_error_def
    by (intro good_option good_id) (simp add: same_relay_upd core_def)
qed

lemma good_installed [good_intros]: "good_step E (agent_installed E i requestId ok reason raw)"
  unfolding agent_installed_def by (intro good_intros) (simp add: quiet)

lemma good_appInstall [good_intros]: "good_step E (handleBrowserAppInstall E ws i requestId buildId keep path readable)"
proof (rule good_fine)
  fix R assume inv: "relay_inv R"
  have quietly: "fine E R (R, sendTo E ws m)" if "\<And>w. settled1 (w, m) = {#}" for m
    using fineI [OF good_say, of "\<lambda>_. sendTo E ws m"] that by (simp add: settled_sendTo)
  have joins: "fine E R (upd i (\<lambda>s. s\<lparr>pendingInstall := f s\<rparr>) R, [])" for f
    by (rule fineI [OF good_upd]) (simp_all add: core_def)
  have sends: "good_step E (fx_then (forgetInstall E i ''Replaced by another install on this device'')
      (\<lambda>R. (upd i (\<lambda>s. s\<lparr>pendingInstall := x\<rparr>) R, sendTo E a (App_install i requestId b) @ tellWatchersAction E i Act_install R)))" for x a b
    by (intro good_then good_forgetInstall good_upd) (simp_all add: core_def settled_sendTo quiet)
  show "fine E R (handleBrowserAppInstall E ws i requestId buildId keep path readable R)"
    unfolding handleBrowserAppInstall_def Let_def
    by (auto simp: quietly joins fineI [OF sends] split: option.split)
qed

subsection \<open>The loss and the return of an agent\<close>

lemma good_evicted_boots: "good_step E (\<lambda>R. (forgetEvictedBoots js R,
    concat (map (\<lambda>s. send_option E (browserSocket s) (Session_terminated (sid_of s))) ss)))"
  by (rule good_quiet)
    (auto simp: forgetEvictedBoots_def relay_invD session_ids_def quiet settled_sendTo split: option.split intro!: settled_concat)

lemma good_noResources: "good_step E (\<lambda>R. (on_mgr (removeResources ws) R, []))"
  by (rule good_mgr) (simp_all add: ids_simps removeResources_def resources_inv)

lemma good_evictAgent [good_intros]: "good_step E (evictAgentSocket E now ws)"
proof (rule good_fine)
  fix R :: relay
  define ss where "ss = getAllByAgentSocket (rl_sessions R) ws"
  have "good_step E (if ss = [] then (\<lambda>R. (R, []))
      else fx_then (rejectPending E (map sid_of ss) ''Agent disconnected'')
        (fx_then (\<lambda>R. (forgetEvictedBoots (map sid_of ss) R,
            concat (map (\<lambda>s. send_option E (browserSocket s) (Session_terminated (sid_of s))) ss)))
          (fx_then (fx_each (end_session E now) ss) (\<lambda>R. (on_mgr (removeResources ws) R, [])))))" (is "good_step E ?f")
    by (auto intro!: good_then good_rejectPending good_evicted_boots good_each good_end_session good_noResources good_id)
  from fineI [OF this, of R] show "fine E R (evictAgentSocket E now ws R)"
    by (simp add: evictAgentSocket_def ss_def Let_def split: if_splits)
qed


lemma good_relay_only:
  assumes "\<And>R. rl_sessions (h R) = rl_sessions R" and "\<And>R. rl_gate (h R) = rl_gate R" and "\<And>R. settled (out R) = {#}"
  shows "good_step E (\<lambda>R. (h R, out R))"
  by (rule good_quiet) (use assms relay_invD(1) in \<open>auto simp: session_ids_def\<close>)

lemma good_hold [good_intros]: "good_step E (\<lambda>R. (fst (holdAgentSocket E now revoked ws R), fst (snd (holdAgentSocket E now revoked ws R))))"
proof (rule good_fine)
  fix R :: relay
  define ss where "ss = getAllByAgentSocket (rl_sessions R) ws"
  have evict: "good_step E (fx_then (evictAgentSocket E now ws) (\<lambda>R. (if ss = [] then on_mgr (removeResources ws) R else R, [])))"
    using good_noResources good_id by (intro good_then good_evictAgent) (cases "ss = []"; simp)
  have hold: "good_step E (fx_then (rejectPending E (map sid_of ss) ''Agent disconnected'')
      (\<lambda>R. (R\<lparr>rl_holds := jset ws (now + agentGraceMs E) (rl_holds R)\<rparr>,
         concat (map (\<lambda>s. send_option E (browserSocket s) (Agent_away (sid_of s)) @ tellWatchers E (sid_of s) (Agent_away (sid_of s)) R) ss))))"
    by (intro good_then good_rejectPending good_relay_only)
      (simp_all add: settled_concat quiet settled_sendTo split: option.split)
  show "fine E R (fst (holdAgentSocket E now revoked ws R), fst (snd (holdAgentSocket E now revoked ws R)))"
    using fineI [OF evict, of R] fineI [OF hold, of R] fineI [OF good_noResources, of E R ws]
    by (simp add: holdAgentSocket_def ss_def [symmetric] Let_def fx_then_def split_beta)
qed

lemma good_hold_fires [good_intros]: "good_step E (agent_hold_fires E now ws)"
proof -
  have "good_step E (fx_then (evictAgentSocket E now ws) (\<lambda>R. (on_mgr (removeResources ws) R, [])))"
    by (intro good_then good_evictAgent good_noResources)
  from good_after [OF this, of "releaseHold ws"] show ?thesis
    unfolding agent_hold_fires_def
    by (intro good_option good_id good_if) (simp add: releaseHold_def relay_invD session_ids_def)
qed

lemma good_closes [good_intros]: "good_step E (socket_closes E now revoked ws)"
proof (rule good_fine)
  fix R :: relay
  define hold where "hold = (\<lambda>R. (fst (holdAgentSocket E now revoked ws R), fst (snd (holdAgentSocket E now revoked ws R))))"
  define b where "b = snd (snd (holdAgentSocket E now revoked ws (forgetShutdownRequesters ws R)))"
  have "good_step E (fx_then hold (if b then (\<lambda>R. (R, [])) else socket_gone E now ws))"
    unfolding hold_def by (auto intro: good_then good_hold good_id good_socket_gone)
  from good_after [OF this, of "forgetShutdownRequesters ws"]
  have "good_step E (\<lambda>R. fx_then hold (if b then (\<lambda>R. (R, [])) else socket_gone E now ws) (forgetShutdownRequesters ws R))"
    by (simp add: forgetShutdownRequesters_def relay_invD session_ids_def)
  from fineI [OF this, of R] show "fine E R (socket_closes E now revoked ws R)"
    by (simp add: socket_closes_def hold_def b_def fx_then_def split_beta split: if_splits)
qed

lemma good_end [good_intros]: "good_step E (session_end E now ws i)"
  unfolding session_end_def by (intro good_option good_id good_if good_then good_settleRequesters good_removeSession)

subsection \<open>What agents report\<close>

lemma good_resources [good_intros]: "good_step E (handleAgentResources E now ws r)"
proof -
  have "good_step E (\<lambda>R. case getAllByAgentSocket (rl_sessions R) ws of [] \<Rightarrow> (R, [])
      | s # _ \<Rightarrow> fx_then (gateEvent E now (Sample (hostKey s) (cpuPercent r)))
         (\<lambda>R. case memoryPressure r of None \<Rightarrow> (R, [])
            | Some p \<Rightarrow> gateEvent E now (Pressure (hostKey s) (p = Critical_pressure)) R) R)"
  proof (rule good_fine)
    fix R :: relay
    have "good_step E (fx_then (gateEvent E now (Sample (hostKey s) (cpuPercent r)))
         (\<lambda>R. case memoryPressure r of None \<Rightarrow> (R, [])
            | Some p \<Rightarrow> gateEvent E now (Pressure (hostKey s) (p = Critical_pressure)) R))" for s
      by (intro good_intros)
    from fineI [OF this] show "fine E R (case getAllByAgentSocket (rl_sessions R) ws of [] \<Rightarrow> (R, [])
      | s # _ \<Rightarrow> fx_then (gateEvent E now (Sample (hostKey s) (cpuPercent r)))
         (\<lambda>R. case memoryPressure r of None \<Rightarrow> (R, [])
            | Some p \<Rightarrow> gateEvent E now (Pressure (hostKey s) (p = Critical_pressure)) R) R)"
      by (simp add: fine_id split: list.split)
  qed
  from good_after_mgr [OF this, of "setResources ws r"] show ?thesis
    unfolding handleAgentResources_def Let_def by (simp add: ids_simps setResources_def resources_inv)
qed

lemma good_sweep [good_intros]: "good_step E (sweepGoneDevices E now)"
proof (rule good_fine)
  fix R :: relay
  have "good_step E (fx_then (fx_each (end_session E now) gone) (\<lambda>R. (R, concat (map (\<lambda>a. sendTo E a (Devices_applied [] (f a))) agents))))"
    for gone agents f
    by (intro good_intros settled_concat) (simp add: settled_sendTo)
  from fineI [OF this] show "fine E R (sweepGoneDevices E now R)" unfolding sweepGoneDevices_def Let_def .
qed

text \<open>A step of a loop that carries more than the relay.\<close>

lemma good_part:
  assumes "\<And>s. fine E (v s) (v (fst (f s)), snd (f s))"
  shows "good E v f"
  using assms by (auto simp: good_def fine_def)

lemma fine_part: "good E v f \<Longrightarrow> fine E (v s) (v (fst (f s)), snd (f s))"
  by (auto simp: good_def fine_def)

lemma good_reconcile: "good E fst (reconcile E now devices s)"
proof (rule good_part)
  fix st :: "relay \<times> (string \<times> string) list"
  obtain R removed where st: "st = (R, removed)" by force
  have refresh: "good_step E (\<lambda>R. (on_mgr (refreshDevice (sid_of s) d) R, []))" for d
    by (rule good_mgr) (simp_all add: field_writes_inv ids_simps)
  have left: "good_step E (\<lambda>R. f (on_mgr (device_left (sid_of s)) R))" if "good_step E f" for f
    by (rule good_after_mgr [OF that]) (simp_all add: field_writes_inv ids_simps)
  have "fine E R (end_session E now s (on_mgr (device_left (sid_of s)) R))"
    by (rule fineI [OF left [OF good_end_session]])
  moreover have "fine E R (on_mgr (device_left (sid_of s)) R, [])"
    by (rule fineI [OF left [OF good_id]])
  ultimately show "fine E (fst st) (fst (fst (reconcile E now devices s st)), snd (reconcile E now devices s st))"
    using fineI [OF refresh, of R]
    by (simp add: st reconcile_def Let_def split_beta split: option.split)
qed

end
