(* ===== verification/Relay_Run.thy ===== *)
theory Relay_Run
  imports Relay_Good
begin

text \<open>
  Registration, the device list and the lease: the handlers that bring new sessions, and the one that may ask
  for a boot in passing. Each keeps the relay's invariant and accounts for every boot.
\<close>

declare map_of_eq_Some_iff [simp del]

subsection \<open>New sessions\<close>

definition fresh_ids :: "string list \<Rightarrow> relay \<Rightarrow> bool" where
  "fresh_ids newIds R \<longleftrightarrow> distinct newIds \<and> list_all (\<lambda>i. jget (sessions (rl_sessions R)) i = None) newIds"

definition accounted :: "relay_env \<Rightarrow> relay \<Rightarrow> relay \<times> sent \<Rightarrow> bool" where
  "accounted E R p \<longleftrightarrow> relay_inv (fst p) \<and> accounts E (kept R) (kept (fst p)) (snd p)"

lemma good_accounted: "good_step E f \<Longrightarrow> relay_inv R \<Longrightarrow> accounted E R (f R)"
  by (simp add: accounted_def good_def)

lemma accounted_then: "accounted E R (f R) \<Longrightarrow> accounted E (fst (f R)) (g (fst (f R))) \<Longrightarrow> accounted E R (fx_then f g R)"
  by (auto simp: accounted_def fx_then_def intro: accounts_trans)

lemma fresh_none: "fresh_ids newIds R \<longleftrightarrow> distinct newIds \<and> set newIds \<inter> session_ids R = {}"
  by (auto simp: fresh_ids_def session_ids_def list_all_iff map_of_eq_None_iff)

text \<open>Sessions for the devices new to the relay, after steps that added none.\<close>

lemma create_accounted:
  assumes "relay_inv R" and "fresh_ids newIds R" and "settled out = {#}"
  shows "accounted E R (on_mgr (create ws (zip newIds ds) a) R, out)"
proof -
  have "distinct (map fst (zip newIds ds))" using assms(2) by (simp add: map_fst_zip_take fresh_ids_def)
  moreover have "jget (sessions (rl_sessions R)) i = None" if "i \<in> fst ` set (zip newIds ds)" for i
    using assms(2) that by (auto simp: fresh_ids_def list_all_iff dest: set_zip_leftD)
  ultimately have "manager_inv (create ws (zip newIds ds) a (rl_sessions R))"
    using create_inv [OF relay_invD(1) [OF assms(1)]] by blast
  with assms show ?thesis by (simp add: accounted_def relay_inv_def accounts_none)
qed

lemma fresh_after: "good_step E f \<Longrightarrow> relay_inv R \<Longrightarrow> fresh_ids newIds R \<Longrightarrow> fresh_ids newIds (fst (f R))"
  unfolding fresh_none good_def by blast

lemma agentDevices_accounted:
  assumes "relay_inv R" and "fresh_ids newIds R"
  shows "accounted E R (handleAgentDevices E now newIds ws ds R)"
proof (cases "handleAgentDevices E now newIds ws ds R = (R, [])")
  case True
  then show ?thesis using good_accounted [OF good_id assms(1)] by simp
next
  case False
  then obtain a where a: "jget (rl_agents R) ws = Some a"
    by (auto simp: handleAgentDevices_def split: option.splits)
  define devices where "devices = by_last ds"
  define current where "current = getAllByAgentSocket (rl_sessions R) ws"
  define loop where "loop = fx_each (reconcile E now devices) current (R, [])"
  define new where "new = filter (\<lambda>d. r_id d \<notin> set (map deviceId current)) devices"
  have "good E fst (fx_each (reconcile E now devices) current)" by (intro good_each good_reconcile)
  from goodD [OF this, of "(R, [])"] assms(1)
  have L: "relay_inv (fst (fst loop))" "accounts E (kept R) (kept (fst (fst loop))) (snd loop)"
      "session_ids (fst (fst loop)) \<subseteq> session_ids R"
    by (simp_all add: loop_def)
  then have fresh: "fresh_ids newIds (fst (fst loop))" using assms(2) unfolding fresh_none by blast
  have "accounted E (fst (fst loop)) (on_mgr (create ws (zip newIds new) a) (fst (fst loop)),
      sendTo E ws (Devices_applied (map (\<lambda>(i, d). (r_id d, i)) (zip newIds new)) (snd (fst loop))))"
    by (rule create_accounted [OF L(1) fresh]) (simp add: settled_sendTo)
  moreover have "handleAgentDevices E now newIds ws ds R
      = (on_mgr (create ws (zip newIds new) a) (fst (fst loop)), snd loop @
         sendTo E ws (Devices_applied (map (\<lambda>(i, d). (r_id d, i)) (zip newIds new)) (snd (fst loop))))"
    using False a
    by (simp add: handleAgentDevices_def Let_def devices_def current_def loop_def new_def split_beta split: if_splits)
  ultimately show ?thesis using L(2) by (auto simp: accounted_def intro: accounts_trans)
qed

subsection \<open>Registration\<close>

lemma good_rebind_session: "good E rb_relay (rebind_session E now ws a devices old s)"
proof (rule good_part)
  fix B :: rebinding
  have "good_step E (\<lambda>R. gateEvent E now (Rebound (sid_of s)) (on_mgr (rebind (sid_of s) ws d a) R))" for d
    by (rule good_after_mgr [OF good_gateEvent]) (simp_all add: rebind_inv ids_simps)
  from fineI [OF this, of "rb_relay B"]
  show "fine E (rb_relay B) (rb_relay (fst (rebind_session E now ws a devices old s B)), snd (rebind_session E now ws a devices old s B))"
    by (auto simp: rebind_session_def fine_id split_beta split: option.split)
qed

lemma good_replace_agent: "good E rb_relay (replace_agent E now ws a devices old)"
proof (rule good_part)
  fix B :: rebinding
  have evict: "good E rb_relay (\<lambda>B. (B\<lparr>rb_relay := fst (evictAgentSocket E now old (rb_relay B))\<rparr>, snd (evictAgentSocket E now old (rb_relay B))))"
    by (rule good_part) (use fineI [OF good_evictAgent] in simp)
  define B1 where "B1 = B\<lparr>rb_relay := releaseHold old (rb_relay B)\<rparr>"
  have B1: "relay_inv (rb_relay B) \<Longrightarrow> relay_inv (rb_relay B1)" "kept (rb_relay B1) = kept (rb_relay B)"
      "session_ids (rb_relay B1) = session_ids (rb_relay B)"
    by (simp_all add: B1_def releaseHold_def relay_inv_def)
  have "good E rb_relay (fx_then (fx_each (rebind_session E now ws a devices old) (getAllByAgentSocket (rl_sessions (rb_relay B1)) old))
      (\<lambda>B. (B\<lparr>rb_relay := fst (evictAgentSocket E now old (rb_relay B))\<rparr>, snd (evictAgentSocket E now old (rb_relay B)))))" (is "good E _ ?f")
    by (intro good_then good_each good_rebind_session evict)
  from fine_part [OF this, of B1] B1 have "fine E (rb_relay B) (rb_relay (fst (?f B1)), snd (?f B1))"
    by (simp add: fine_def)
  then show "fine E (rb_relay B) (rb_relay (fst (replace_agent E now ws a devices old B)), snd (replace_agent E now ws a devices old B))"
    by (simp add: replace_agent_def B1_def Let_def fine_id split_beta)
qed

lemma rebind_all_good:
  assumes "relay_inv R"
  shows "relay_inv (rb_relay (fst (rebind_all E now ws a devices R)))
    \<and> accounts E (kept R) (kept (rb_relay (fst (rebind_all E now ws a devices R)))) (snd (rebind_all E now ws a devices R))
    \<and> session_ids (rb_relay (fst (rebind_all E now ws a devices R))) \<subseteq> session_ids R"
proof -
  let ?B = "\<lparr>rb_relay = R, rb_bound = [], rb_old = []\<rparr>"
  have "good E rb_relay (fx_each (replace_agent E now ws a devices) sockets)" for sockets
    by (intro good_each good_replace_agent)
  from goodD [OF this, of ?B] assms show ?thesis
    by (simp add: rebind_all_def Let_def accounts_none split: option.split list.split)
qed

lemma good_end_stranded: "good_step E (end_stranded E now d)"
proof (rule good_fine)
  fix R :: relay
  have "good_step E (fx_each (\<lambda>s. fx_then (\<lambda>R. (R, send_option E (browserSocket s) (Session_terminated (sid_of s)))) (end_session E now s)) ss)" for ss
    by (intro good_each good_then good_say good_end_session) (simp add: quiet settled_sendTo split: option.split)
  from fineI [OF this] show "fine E R (end_stranded E now d R)" by (simp add: end_stranded_def)
qed

lemma good_tell_rebound: "good_step E (tell_rebound E caps i)"
  unfolding tell_rebound_def by (intro good_say) (simp add: quiet settled_sendTo split: option.split)

lemma good_invalidate: "good_step E (invalidateBootsFor E old)"
proof (rule good_fine)
  fix R :: relay
  have "good_step E (invalidate_boot E p)" for p
  proof (rule good_core)
    fix R
    have "same_relay R (upd i (undo_last_boot r) (forgetBoot k R))" for i r k
      by (rule same_relay_trans [OF _ same_relay_upd]) (simp_all add: forgetBoot_def)
    then show "same_relay R (fst (invalidate_boot E p R)) \<and> rl_gate (fst (invalidate_boot E p R)) = rl_gate R
        \<and> settled (snd (invalidate_boot E p R)) = {#}"
      by (simp add: invalidate_boot_def Let_def split_beta undoLastBoot_def forgetBoot_def quiet settled_sendTo split: option.split)
  qed
  then have "good_step E (fx_each (invalidate_boot E) ps)" for ps by (intro good_each)
  from fineI [OF this] show "fine E R (invalidateBootsFor E old R)" by (simp add: invalidateBootsFor_def)
qed

lemma register_accounted:
  assumes "relay_inv R" and "fresh_ids newIds R"
  shows "accounted E R (handleAgentRegister E now newIds ws a ds R)"
proof -
  define devices where "devices = by_last ds"
  define R0 where "R0 = note_agent ws a R"
  have R0: "relay_inv R0" "kept R0 = kept R" "session_ids R0 = session_ids R"
    using assms(1) by (auto simp: R0_def note_agent_def Let_def relay_inv_def split: option.split list.split)
  define B where "B = fst (rebind_all E now ws a devices R0)"
  define out where "out = snd (rebind_all E now ws a devices R0)"
  note bound = rebind_all_good [OF R0(1), of E now ws a devices, folded B_def out_def, unfolded R0(2,3)]
  define new where "new = filter (\<lambda>d. jget (rb_bound B) (r_id d) = None) devices"
  define caps where "caps = (case i_agentCapabilities a of Some cs \<Rightarrow> cs | None \<Rightarrow> [])"
  define before where "before = fx_then (if rb_bound B = [] then (\<lambda>R. (R, [])) else rejectPending E (map snd (rb_bound B)) ''Agent restarted'')
      (fx_each (end_stranded E now) new)"
  define make where "make = (\<lambda>R. (on_mgr (create ws (zip newIds new) a) R,
      sendTo E ws (Registered (map (\<lambda>d. (r_id d, session_for (rb_bound B) (zip newIds new) d)) devices))))"
  define after where "after = fx_then (fx_each (tell_rebound E caps) (map snd (rb_bound B))) (invalidateBootsFor E (rb_old B))"
  have before: "good_step E before"
    unfolding before_def by (intro good_then good_each good_end_stranded) (auto intro: good_id good_rejectPending)
  have after: "good_step E after"
    unfolding after_def by (intro good_then good_each good_tell_rebound good_invalidate)
  have inv: "relay_inv (rb_relay B)" "fresh_ids newIds (rb_relay B)" using bound assms(2) unfolding fresh_none by blast+
  have made: "accounted E (fst (before (rb_relay B))) (make (fst (before (rb_relay B))))"
    unfolding make_def
    by (intro create_accounted fresh_after [OF before inv]) (use goodD [OF before inv(1)] in \<open>simp_all add: settled_sendTo\<close>)
  have "accounted E (fst (make (fst (before (rb_relay B))))) (after (fst (make (fst (before (rb_relay B))))))"
    by (rule good_accounted [OF after]) (use made in \<open>simp add: accounted_def\<close>)
  then have "accounted E (rb_relay B) (fx_then before (fx_then make after) (rb_relay B))"
    by (intro accounted_then [of E _ before, OF good_accounted [OF before inv(1)]] accounted_then [of E _ make, OF made])
  moreover have "handleAgentRegister E now newIds ws a ds R
      = (fst (fx_then before (fx_then make after) (rb_relay B)), out @ snd (fx_then before (fx_then make after) (rb_relay B)))"
    by (simp add: handleAgentRegister_def Let_def split_beta devices_def R0_def B_def out_def new_def caps_def before_def make_def
        after_def fx_then_def)
  ultimately show ?thesis using bound by (auto simp: accounted_def intro: accounts_trans)
qed


subsection \<open>Leases\<close>

text \<open>A handler that may ask for one boot itself, under the request \<open>r\<close> of the socket \<open>ws\<close>.\<close>

definition one_boot :: "relay_env \<Rightarrow> socket \<Rightarrow> string \<Rightarrow> relay \<Rightarrow> relay \<times> sent \<Rightarrow> bool" where
  "one_boot E ws r R p \<longleftrightarrow> relay_inv (fst p) \<and> (\<exists>B. size B \<le> 1 \<and> (\<forall>b \<in># B. snd (boot_id b) = r \<and> asker b = ws)
     \<and> accounts E (kept R + B) (kept (fst p)) (snd p))"

lemma one_boot_none: "accounted E R p \<Longrightarrow> one_boot E ws r R p"
  unfolding one_boot_def accounted_def by (auto intro!: exI [of _ "{#}"])

lemma one_boot_fine: "relay_inv R \<Longrightarrow> fine E R p \<Longrightarrow> one_boot E ws r R p"
  by (rule one_boot_none) (simp add: accounted_def fine_def)

lemma one_boot_after:
  assumes "accounted E R (f R)" and "one_boot E ws r (fst (f R)) (g (fst (f R)))"
  shows "one_boot E ws r R (fx_then f g R)"
proof -
  obtain B where B: "size B \<le> 1" "\<forall>b \<in># B. snd (boot_id b) = r \<and> asker b = ws"
      "accounts E (kept (fst (f R)) + B) (kept (fst (g (fst (f R))))) (snd (g (fst (f R))))"
    using assms(2) unfolding one_boot_def by blast
  have "accounts E (kept R + B) (kept (fst (f R)) + B) (snd (f R))"
    using assms(1) by (simp add: accounted_def accounts_frame)
  from accounts_trans [OF this B(3)] B(1,2) assms(2) show ?thesis
    unfolding one_boot_def by (auto simp: fx_then_def)
qed

lemma handleBoot_one: "relay_inv R \<Longrightarrow> one_boot E ws (bm_request msg) R (handleBoot E now ws msg R)"
proof -
  assume inv: "relay_inv R"
  obtain b where "boot_id b = (bm_session msg, bm_request msg)" "asker b = ws"
      "accounts E (kept R + {#b#}) (kept (fst (handleBoot E now ws msg R))) (snd (handleBoot E now ws msg R))"
    using handleBoot_run(2) [OF inv] by blast
  with handleBoot_run(1) [OF inv] show ?thesis
    unfolding one_boot_def by (intro conjI exI [of _ "{#b#}"]) simp_all
qed

lemma leaseRefusal_frame:
  "same_relay R (fst (leaseRefusal E now s pool R))" "rl_gate (fst (leaseRefusal E now s pool R)) = rl_gate R"
  using planCapacityFor_frame [where E = E and now = now and s = s and R = R]
  by (auto simp: leaseRefusal_def split_beta split: capacity_plan.split)

lemma lease_candidates_frame:
  "same_relay R (fst (lease_candidates E now msg is R)) \<and> rl_gate (fst (lease_candidates E now msg is R)) = rl_gate R"
proof (induction "is" arbitrary: R)
  case (Cons i "is")
  show ?case
  proof (cases "session_at R i")
    case (Some s)
    define R1 where "R1 = fst (lease_candidate_of E now msg s R)"
    have R1: "same_relay R R1" "rl_gate R1 = rl_gate R"
      using leaseRefusal_frame [where R = R and E = E and now = now and s = s and pool = "in_pool msg s"]
      by (simp_all add: R1_def lease_candidate_of_def split_beta)
    show ?thesis
      using Cons.IH [of R] Cons.IH [of R1] Some R1(2) same_relay_trans [OF R1(1)]
      by (simp add: R1_def [symmetric] split_beta)
  qed (use Cons.IH [of R] in simp)
qed simp

lemma lease_hosts_frame:
  "same_relay R (fst (lease_hosts E now keys R)) \<and> rl_gate (fst (lease_hosts E now keys R)) = rl_gate R"
proof (induction keys arbitrary: R)
  case (Cons key keys)
  have "fst (lease_host_of E now key R) = expire_boots E now key R" by (simp add: lease_host_of_def Let_def)
  then show ?case
    using Cons.IH [of "expire_boots E now key R"] expire_boots_frame [where R = R and E = E and now = now and key = key]
      same_relay_trans
    by (simp add: split_beta)
qed simp

lemma turn_down_fine: "fine E R (turn_down E ws msg why words R)"
  unfolding turn_down_def by (rule fineI [OF good_say]) (simp add: settled_sendTo)

lemma take_lease_one: "relay_inv R \<Longrightarrow> one_boot E ws (ls_request msg) R (take_lease E now ws msg s pool R)"
  unfolding take_lease_def
proof (intro one_boot_after)
  assume inv: "relay_inv R"
  show "accounted E R (R, sendTo E ws (Leased (ls_request msg) (sid_of s) (deviceId s) pool))"
    using inv by (simp add: accounted_def accounts_none settled_sendTo)
  let ?f = "handleSessionStart E now ws (sid_of s) (Some Flow_runner) (if ls_stream msg = Some False then Some False else None)"
  let ?p = "(R, sendTo E ws (Leased (ls_request msg) (sid_of s) (deviceId s) pool))"
  show j: "accounted E (fst ?p) (?f (fst ?p))"
    using inv by (simp add: good_accounted [OF good_sessionStart])
  let ?R = "fst (?f (fst ?p))"
  have "relay_inv ?R" using j by (simp add: accounted_def)
  then show "one_boot E ws (ls_request msg) ?R (case session_at ?R (sid_of s) of
      Some s' \<Rightarrow> if ownsSession E ws s' then handleBoot E now ws (lease_boot msg s') ?R else (?R, []) | None \<Rightarrow> (?R, []))"
    using handleBoot_one [of ?R E ws "lease_boot msg s'" now for s']
    by (auto simp: lease_boot_def one_boot_fine fine_id split: option.split)
qed

lemma settle_choice_one: "relay_inv R \<Longrightarrow> one_boot E ws (ls_request msg) R (settle_choice E now ws msg cands choice R)"
proof (cases choice)
  case (Lease_refused why critical)
  assume inv: "relay_inv R"
  have "good_step E (fx_then (\<lambda>R. case Option.bind (Option.bind critical (\<lambda>key. find (\<lambda>c. l_host c = key) cands))
         (\<lambda>c. session_at R (l_session c)) of Some s \<Rightarrow> freeOneForMemory E now s R | None \<Rightarrow> (R, []))
       (turn_down E ws msg (Lease_admission why) (lease_text why)))"
    by (intro good_then good_option good_freeOne good_id good_fine turn_down_fine)
  from one_boot_fine [OF inv fineI [OF this]] show ?thesis
    by (simp add: settle_choice_def Lease_refused)
next
  case (Lease_ok i)
  then show "relay_inv R \<Longrightarrow> ?thesis"
    by (auto simp: settle_choice_def one_boot_fine fine_id take_lease_one split: option.split)
qed

lemma handleLease_one:
  assumes "relay_inv R"
  shows "one_boot E ws (ls_request msg) R (handleLease builds E now ws msg R)"
proof -
  have moved: "one_boot E ws (ls_request msg) R (g R1)"
    if "same_relay R R1" "rl_gate R1 = rl_gate R" "relay_inv R1 \<Longrightarrow> one_boot E ws (ls_request msg) R1 (g R1)" for R1 g
  proof -
    have "relay_inv R1" using relay_inv_same [OF assms that(1)] that(2) relay_invD(2) [OF assms] by simp
    from that(3) [OF this] show ?thesis by (simp add: one_boot_def that(2))
  qed
  have down: "one_boot E ws (ls_request msg) R' (turn_down E ws msg why words R')" if "relay_inv R'" for R' why words
    by (rule one_boot_fine [OF that turn_down_fine])
  show ?thesis
  proof (cases "lease_platform builds msg")
    case (Inl why)
    then show ?thesis using down [OF assms] by (simp add: handleLease_def)
  next
    case (Inr platform)
    define ss where "ss = filter (\<lambda>s. devicePlatform s = platform \<and> sid_of s \<notin> set (ls_exclude msg)) (all (rl_sessions R))"
    define R1 where "R1 = fold (expire_boots E now) (fold set_add (map hostKey ss) []) R"
    obtain R2 cands where c: "lease_candidates E now msg (map sid_of ss) R1 = (R2, cands)" by force
    obtain R3 hosts where h: "lease_hosts E now (fold set_add (map l_host cands) []) R2 = (R3, hosts)" by force
    have R1: "same_relay R R1" "rl_gate R1 = rl_gate R"
      using expire_boots_frame fold_same_relay [of "expire_boots E now" R] unfolding R1_def by blast+
    have R2: "same_relay R R2" "rl_gate R2 = rl_gate R"
      using lease_candidates_frame [of R1 E now msg "map sid_of ss"] c R1 same_relay_trans by auto
    have R3: "same_relay R R3" "rl_gate R3 = rl_gate R"
      using lease_hosts_frame [of R2 E now "fold set_add (map l_host cands) []"] h R2 same_relay_trans by auto
    have "handleLease builds E now ws msg R =
        (if ss = [] then turn_down E ws msg Lease_no_device (''no '' @ platform @ '' device on this relay'') R
         else if cands = [] then turn_down E ws msg Lease_all_held (''every '' @ platform @ '' device is in use'') R2
         else settle_choice E now ws msg cands (chooseLease cands hosts) R3)"
      using Inr c h by (simp add: handleLease_def Let_def ss_def [symmetric] R1_def [symmetric])
    moreover have "one_boot E ws (ls_request msg) R (turn_down E ws msg why words R2)" for why words
      by (rule moved [OF R2]) (rule down)
    moreover have "one_boot E ws (ls_request msg) R (settle_choice E now ws msg cands choice R3)" for choice
      by (rule moved [OF R3]) (rule settle_choice_one)
    ultimately show ?thesis using down [OF assms] by simp
  qed
qed

end
