(* ===== verification/Watch_Actions.thy ===== *)
theory Watch_Actions
  imports Wire Js_String
begin

text \<open>
  \<open>packages/relay/src/lib/watchActions.ts\<close>: what a session's watchers are told the holder did. A
  coordinate is a rational; the distance is compared by its square, without the rounding of
  \<open>Math.hypot\<close>.
\<close>

definition TAP_RADIUS :: rat where "TAP_RADIUS = 2 / 100"

definition digit_key :: "char \<Rightarrow> bool" where
  "digit_key c \<longleftrightarrow> c \<in> set ''0123456789''"

definition upper_key :: "char \<Rightarrow> bool" where
  "upper_key c \<longleftrightarrow> c \<in> set ''ABCDEFGHIJKLMNOPQRSTUVWXYZ''"

definition WATCHED_NUMPAD_KEYS :: "string list" where
  "WATCHED_NUMPAD_KEYS = map ((@) ''Numpad'')
     [''Add'', ''Subtract'', ''Multiply'', ''Divide'', ''Decimal'', ''Comma'', ''Equal'', ''ParenLeft'', ''ParenRight'',
      ''Hash'', ''Star'']"

definition NAMED_KEYS :: "string list" where
  "NAMED_KEYS = [''Space'', ''Minus'', ''Equal'', ''BracketLeft'', ''BracketRight'', ''Backslash'', ''Semicolon'', ''Quote'',
     ''Backquote'', ''Comma'', ''Period'', ''Slash'', ''IntlBackslash'', ''IntlRo'', ''IntlYen'']"

text \<open>The regular expression, alternative by alternative: a prefix and one more character, or a whole name.\<close>

definition watched_one_after :: "string \<Rightarrow> (char \<Rightarrow> bool) \<Rightarrow> string \<Rightarrow> bool" where
  "watched_one_after pre ok code \<longleftrightarrow> length code = Suc (length pre) \<and> take (length pre) code = pre \<and> ok (last code)"

definition types_character :: "string \<Rightarrow> bool" where
  "types_character code \<longleftrightarrow> watched_one_after ''Key'' upper_key code \<or> watched_one_after ''Digit'' digit_key code
     \<or> watched_one_after ''Numpad'' digit_key code \<or> code \<in> set WATCHED_NUMPAD_KEYS \<or> code \<in> set NAMED_KEYS"

definition keyForWatchers :: "string \<Rightarrow> string" where
  "keyForWatchers code = (if types_character code \<or> length code = 1 then ''character'' else code)"

definition distance2 :: "touch_point \<Rightarrow> touch_point \<Rightarrow> rat" where
  "distance2 p q = (fst q - fst p) * (fst q - fst p) + (snd q - snd p) * (snd q - snd p)"

definition gestureAction :: "touch_point option \<Rightarrow> touch_point option \<Rightarrow> watch_action option" where
  "gestureAction start ended =
     (case start of
        None \<Rightarrow> map_option Act_tap ended
      | Some s \<Rightarrow>
          (let to = (case ended of Some e \<Rightarrow> e | None \<Rightarrow> s)
           in Some (if distance2 s to \<le> TAP_RADIUS * TAP_RADIUS then Act_tap s else Act_swipe s to)))"

end
