(* ===== verification/Relay_Route.thy ===== *)
theory Relay_Route
  imports Relay_Agent Watch_Actions
begin

text \<open>
  The rest of \<open>RelayServer.route\<close>: what an agent tells of its device, the replies bound to the session's own
  agent, the commands a holder sends its device, and the inputs, with what watchers are told of them.
\<close>

subsection \<open>From the agent\<close>

definition stream_register :: "relay_env \<Rightarrow> socket \<Rightarrow> string \<Rightarrow> handler" where
  "stream_register E ws i R =
     (case session_at R i of
        None \<Rightarrow> (R, [])
      | Some s \<Rightarrow> (on_mgr (setStreamSocket i ws) R, sendTo E ws Stream_registered))"

datatype device_state = State_chrome | State_postures | State_info

fun cache_state :: "device_state \<Rightarrow> string \<Rightarrow> payload \<Rightarrow> manager \<Rightarrow> manager" where
  "cache_state State_chrome = setChromeData"
| "cache_state State_postures = setPostures"
| "cache_state State_info = setDeviceInfo"

text \<open>\<open>session:chrome\<close>, \<open>device:postures\<close> and \<open>session:deviceInfo\<close>: kept for the next viewer and shown to these.\<close>

definition agent_state :: "relay_env \<Rightarrow> device_state \<Rightarrow> string \<Rightarrow> payload \<Rightarrow> payload \<Rightarrow> handler" where
  "agent_state E what i p raw R =
     (case session_at R i of
        None \<Rightarrow> (R, [])
      | Some s \<Rightarrow> (let R1 = on_mgr (cache_state what i p) R in (R1, to_viewers E i raw R1)))"

text \<open>A reply to the holder's command; one that carries a clipboard or a network state only from the session's agent.\<close>

definition agent_reply :: "relay_env \<Rightarrow> string \<Rightarrow> payload \<Rightarrow> handler" where
  "agent_reply E i raw R = (R, to_holder E i raw R)"

definition bound_reply :: "relay_env \<Rightarrow> socket \<Rightarrow> string \<Rightarrow> payload \<Rightarrow> handler" where
  "bound_reply E ws i raw R =
     (R, case session_at R i of Some s \<Rightarrow> (if agentSocket s = ws then to_holder E i raw R else []) | None \<Rightarrow> [])"

subsection \<open>From the holder\<close>

definition watch_stop :: "socket \<Rightarrow> string \<Rightarrow> handler" where
  "watch_stop ws i R = (on_mgr (\<lambda>m. fst (removeWatcher i ws m)) R, [])"

definition session_activity :: "relay_env \<Rightarrow> socket \<Rightarrow> string \<Rightarrow> string \<Rightarrow> handler" where
  "session_activity E ws i label R =
     (R, case session_at R i of
           Some s \<Rightarrow> (if trim label \<noteq> [] \<and> ownsSession E ws s then tellWatchersAction E i (Act_label (trim label)) R else [])
         | None \<Rightarrow> [])"

fun action_of :: "command \<Rightarrow> watch_action option" where
  "action_of Cmd_open_url = Some Act_open_url"
| "action_of Cmd_clear_state = Some Act_clear_state"
| "action_of Cmd_clipboard = None"
| "action_of Cmd_network = None"

definition tell_action :: "relay_env \<Rightarrow> string \<Rightarrow> watch_action option \<Rightarrow> relay \<Rightarrow> sent" where
  "tell_action E i action R = (case action of Some a \<Rightarrow> tellWatchersAction E i a R | None \<Rightarrow> [])"

text \<open>\<open>open-url\<close>, \<open>app:clear-state\<close>, \<open>clipboard:read\<close>, \<open>clipboard:write\<close> and \<open>network:set\<close>.\<close>

definition holder_command :: "relay_env \<Rightarrow> socket \<Rightarrow> command \<Rightarrow> string \<Rightarrow> string \<Rightarrow> payload \<Rightarrow> handler" where
  "holder_command E ws c i requestId raw R =
     (R, case dispatchTarget E ws i R of
           Inr s \<Rightarrow> (agentSocket s, Passed_on raw) # tell_action E i (action_of c) R
         | Inl why \<Rightarrow> sendTo E ws (Command_refused c i requestId why))"

subsection \<open>Input\<close>

datatype unacked_input = Touch_start touch_point | Touch_move touch_point | Touch_cancel | Other_unacked

datatype acked_input = Touch_end "touch_point option" | Pinch_end | Key_press string | Button_press bool string \<comment> \<open>down\<close>
  | Type_text string

definition follow_gesture :: "unacked_input \<Rightarrow> session \<Rightarrow> session" where
  "follow_gesture inp s =
     (case inp of
        Touch_start p \<Rightarrow> s\<lparr>gesture := Some (p, p), touchCancelled := False\<rparr>
      | Touch_move p \<Rightarrow> s\<lparr>gesture := map_option (\<lambda>(start, _). (start, p)) (gesture s)\<rparr>
      | Touch_cancel \<Rightarrow>
          (if has_capability s ''touch-cancel'' then s\<lparr>touchCancelled := True, gesture := None\<rparr>
           else s\<lparr>touchCancelled := False\<rparr>)
      | Other_unacked \<Rightarrow> s)"

definition forwardUnacked :: "relay_env \<Rightarrow> socket \<Rightarrow> string \<Rightarrow> unacked_input \<Rightarrow> payload \<Rightarrow> handler" where
  "forwardUnacked E ws i inp raw R =
     (case session_at R i of
        None \<Rightarrow> (R, [])
      | Some s \<Rightarrow>
          if \<not> ownsSession E ws s then (R, [])
          else if up E (agentSocket s) then (upd i (follow_gesture inp) R, [(agentSocket s, Passed_on raw)])
          else (R, []))"

text \<open>What watchers are told of an input, and the session after it.\<close>

definition end_touch :: "session \<Rightarrow> session" where
  "end_touch s = s\<lparr>gesture := None, touchCancelled := False\<rparr>"

definition input_action :: "acked_input \<Rightarrow> session \<Rightarrow> watch_action option" where
  "input_action inp s =
     (case inp of
        Touch_end p \<Rightarrow>
          (if touchCancelled s then None
           else gestureAction (map_option fst (gesture s)) (if p \<noteq> None then p else map_option snd (gesture s)))
      | Pinch_end \<Rightarrow> Some Act_pinch
      | Key_press code \<Rightarrow> Some (Act_key (keyForWatchers code))
      | Button_press down name \<Rightarrow> if down then None else Some (Act_button name)
      | Type_text typed \<Rightarrow> Some (Act_type (length typed)))"

definition tellWatchersInput :: "relay_env \<Rightarrow> string \<Rightarrow> acked_input \<Rightarrow> session \<Rightarrow> handler" where
  "tellWatchersInput E i inp s R =
     (let R1 = (case inp of Touch_end _ \<Rightarrow> upd i end_touch R | _ \<Rightarrow> R)
      in (R1, tell_action E i (input_action inp s) R1))"

definition refuseInput :: "relay_env \<Rightarrow> socket \<Rightarrow> acked_input \<Rightarrow> string \<Rightarrow> string \<Rightarrow> string \<Rightarrow> input_refusal \<Rightarrow> handler" where
  "refuseInput E ws inp i requestId message reason R =
     (R, sendTo E ws (Input_refused (case inp of Type_text _ \<Rightarrow> True | _ \<Rightarrow> False) i requestId message reason))"

definition handleAckedInput :: "relay_env \<Rightarrow> socket \<Rightarrow> string \<Rightarrow> string \<Rightarrow> acked_input \<Rightarrow> payload \<Rightarrow> handler" where
  "handleAckedInput E ws i requestId inp raw R =
     (case session_at R i of
        None \<Rightarrow> refuseInput E ws inp i requestId ''Session not found'' Channel_unavailable R
      | Some s \<Rightarrow>
          if \<not> ownsSession E ws s then refuseInput E ws inp i requestId (ownershipRefusal s) Not_session_owner R
          else if up E (agentSocket s) then
            (case tellWatchersInput E i inp s R of (R1, told) \<Rightarrow> (R1, (agentSocket s, Passed_on raw) # told))
          else refuseInput E ws inp i requestId ''agent offline'' Channel_unavailable R)"

end
