(* ===== verification/Relay_System.thy ===== *)
theory Relay_System
  imports Relay_Run Relay_Route
begin

text \<open>
  The relay as one system: the events its handlers and timers answer (\<open>handle\<close>), and its runs
  (\<open>relay_run\<close>) from a relay just started, with the boots asked for and all that was sent. Identifiers of
  new sessions are fresh, as \<open>randomUUID\<close>'s are.
\<close>

declare map_of_eq_Some_iff [simp del]

subsection \<open>The remaining handlers are good\<close>

lemma ids_setStream [ids_simps]: "ids (setStreamSocket i ws m) = ids m"
  by (simp add: setStreamSocket_def Let_def ids_simps split: option.split)

lemma ids_unwatch1 [ids_simps]: "ids (fst (removeWatcher i ws m)) = ids m"
  by (simp add: removeWatcher_def drop_watcher_same [unfolded same_sessions_def] Let_def split: option.split)

lemma ids_cache [ids_simps]: "ids (cache_state what i p m) = ids m"
  by (cases what) (simp_all add: setChromeData_def setPostures_def setDeviceInfo_def ids_simps)

lemma cache_inv: "manager_inv m \<Longrightarrow> manager_inv (cache_state what i p m)"
  by (cases what) (simp_all add: field_writes_inv)

lemma good_stream [good_intros]: "good_step E (stream_register E ws i)"
  unfolding stream_register_def
  by (intro good_option good_id good_mgr) (simp_all add: setStreamSocket_inv ids_simps settled_sendTo)

lemma good_agentState [good_intros]: "good_step E (agent_state E what i p raw)"
  unfolding agent_state_def Let_def
  by (intro good_option good_id good_mgr) (simp_all add: cache_inv ids_simps quiet)

lemma good_replies [good_intros]: "good_step E (agent_reply E i raw)" "good_step E (bound_reply E ws i raw)"
    "good_step E (session_activity E ws i label)" "good_step E (holder_command E ws c i requestId raw)"
  unfolding agent_reply_def bound_reply_def session_activity_def holder_command_def
  by (rule good_say, simp add: quiet settled_sendTo tell_action_def split: option.split sum.split)+

lemma good_watchStop [good_intros]: "good_step E (watch_stop ws i)"
  unfolding watch_stop_def
  by (rule good_mgr) (use step_unwatch session_step_inv in \<open>blast\<close>, simp_all add: ids_simps)

lemma follow_ok: "session_ok (follow_gesture inp s) = session_ok s" "keeps_ties s (follow_gesture inp s)"
  by (simp_all add: follow_gesture_def session_ok_def keeps_ties_def split: unacked_input.split)

lemma end_touch_ok: "session_ok (end_touch s) = session_ok s" "keeps_ties s (end_touch s)"
  by (simp_all add: end_touch_def session_ok_def keeps_ties_def)

lemma good_upd_fields:
  assumes "\<And>s. session_ok (f s) = session_ok s" and "\<And>s. keeps_ties s (f s)" and "\<And>R. settled (out R) = {#}"
  shows "good_step E (\<lambda>R. (upd i f R, out R))"
  unfolding upd_def by (rule good_mgr) (simp_all add: on_session_inv assms ids_simps)

lemma good_unacked [good_intros]: "good_step E (forwardUnacked E ws i inp raw)"
  unfolding forwardUnacked_def
  by (intro good_option good_id good_if good_upd_fields) (simp_all add: follow_ok)

lemma settled_tell [quiet]: "settled (tell_action E i a R) = {#}"
  by (simp add: tell_action_def quiet split: option.split)

lemma good_acked [good_intros]: "good_step E (handleAckedInput E ws i requestId inp raw)"
proof (rule good_fine)
  fix R :: relay
  have refused: "fine E R (refuseInput E ws inp' i requestId words why R)" for inp' words why
    unfolding refuseInput_def by (rule fineI [OF good_say]) (simp add: settled_sendTo)
  have ended: "fine E R (upd i end_touch R, (a, Passed_on raw) # tell_action E i x (upd i end_touch R))" for a x
    by (rule fineI [OF good_upd_fields]) (simp_all add: end_touch_ok quiet)
  have told: "fine E R (R, (a, Passed_on raw) # tell_action E i x R)" for a x
    by (rule fineI [OF good_say]) (simp add: quiet)
  show "fine E R (handleAckedInput E ws i requestId inp raw R)"
    by (cases inp) (auto simp: handleAckedInput_def tellWatchersInput_def Let_def refused ended told split: option.split)
qed

lemma good_expiries [good_intros]: "good_step E (\<lambda>R. (boots_expire now R, []))" "good_step E (\<lambda>R. (requesters_expire now R, []))"
  by (rule good_relay_only, simp_all add: boots_expire_def requesters_expire_def)+

subsection \<open>Events\<close>

datatype relay_event =
    Ask_boot socket boot_msg
  | Ask_lease socket lease_msg
  | Ask_join socket string "client_kind option" "bool option"
  | Ask_leave socket string
  | Ask_end socket string
  | Ask_watch bool socket string \<comment> \<open>whether it may watch\<close>
  | Ask_unwatch socket string
  | Ask_shutdown socket string "string option" payload
  | Ask_install socket string string int bool "string option" bool
  | Ask_command socket command string string payload
  | Tell_activity socket string string
  | Send_unacked socket string unacked_input payload
  | Send_acked socket string string acked_input payload
  | Agent_registers "string list" socket agent_identity "device_report list" \<comment> \<open>new identifiers first\<close>
  | Agent_lists "string list" socket "device_report list"
  | Agent_measures socket agent_resources
  | Agent_streams socket string
  | Agent_shows device_state string payload payload
  | Agent_boots string payload
  | Agent_boot_fails string "string option" payload
  | Agent_is_ready "string option" "string option" "bool option" "device_tier option" payload
  | Agent_shut_down string "string option" payload
  | Agent_shutdown_fails string "string option" payload
  | Agent_installed string string bool "string option" payload
  | Agent_replies string payload
  | Agent_answers socket string payload
  | Socket_closes bool socket \<comment> \<open>whether its credential was revoked\<close>
  | Gate_timer
  | Idle_timer string
  | Hold_timer socket
  | Boots_timer
  | Requesters_timer
  | Network_timer string
  | Heartbeat

fun handle :: "build_lookup \<Rightarrow> relay_env \<Rightarrow> ms \<Rightarrow> relay_event \<Rightarrow> handler" where
  "handle builds E now (Ask_boot ws msg) = handleBoot E now ws msg"
| "handle builds E now (Ask_lease ws msg) = handleLease builds E now ws msg"
| "handle builds E now (Ask_join ws i kind stream) = handleSessionStart E now ws i kind stream"
| "handle builds E now (Ask_leave ws i) = session_leave E now ws i"
| "handle builds E now (Ask_end ws i) = session_end E now ws i"
| "handle builds E now (Ask_watch may ws i) =
     (\<lambda>R. (fst (handleWatchStart E now may ws i R), fst (snd (handleWatchStart E now may ws i R))))"
| "handle builds E now (Ask_unwatch ws i) = watch_stop ws i"
| "handle builds E now (Ask_shutdown ws i requestId raw) = device_shutdown E now ws i requestId raw"
| "handle builds E now (Ask_install ws i requestId build keep path readable) =
     handleBrowserAppInstall E ws i requestId build keep path readable"
| "handle builds E now (Ask_command ws c i requestId raw) = holder_command E ws c i requestId raw"
| "handle builds E now (Tell_activity ws i label) = session_activity E ws i label"
| "handle builds E now (Send_unacked ws i inp raw) = forwardUnacked E ws i inp raw"
| "handle builds E now (Send_acked ws i requestId inp raw) = handleAckedInput E ws i requestId inp raw"
| "handle builds E now (Agent_registers newIds ws a ds) = handleAgentRegister E now newIds ws a ds"
| "handle builds E now (Agent_lists newIds ws ds) = handleAgentDevices E now newIds ws ds"
| "handle builds E now (Agent_measures ws r) = handleAgentResources E now ws r"
| "handle builds E now (Agent_streams ws i) = stream_register E ws i"
| "handle builds E now (Agent_shows what i p raw) = agent_state E what i p raw"
| "handle builds E now (Agent_boots i raw) = agent_booting E i raw"
| "handle builds E now (Agent_boot_fails i requestId raw) = agent_boot_error E now i requestId raw"
| "handle builds E now (Agent_is_ready i requestId cold tier raw) = agent_ready E now i requestId cold tier raw"
| "handle builds E now (Agent_shut_down i requestId raw) = agent_shutdown_done E now i requestId raw"
| "handle builds E now (Agent_shutdown_fails i requestId raw) = agent_shutdown_error E i requestId raw"
| "handle builds E now (Agent_installed i requestId ok why raw) = agent_installed E i requestId ok why raw"
| "handle builds E now (Agent_replies i raw) = agent_reply E i raw"
| "handle builds E now (Agent_answers ws i raw) = bound_reply E ws i raw"
| "handle builds E now (Socket_closes revoked ws) = socket_closes E now revoked ws"
| "handle builds E now Gate_timer = gate_timer_fires E now"
| "handle builds E now (Idle_timer i) = idle_timer_fires E now i"
| "handle builds E now (Hold_timer ws) = agent_hold_fires E now ws"
| "handle builds E now Boots_timer = (\<lambda>R. (boots_expire now R, []))"
| "handle builds E now Requesters_timer = (\<lambda>R. (requesters_expire now R, []))"
| "handle builds E now (Network_timer i) = network_event E i (Timer_runs now)"
| "handle builds E now Heartbeat = sweepGoneDevices E now"

fun new_ids :: "relay_event \<Rightarrow> string list" where
  "new_ids (Agent_registers newIds ws a ds) = newIds"
| "new_ids (Agent_lists newIds ws ds) = newIds"
| "new_ids ev = []"

text \<open>The request an event asks a boot under, and on whose socket.\<close>

fun boot_asked :: "relay_event \<Rightarrow> (socket \<times> string) option" where
  "boot_asked (Ask_boot ws msg) = Some (ws, bm_request msg)"
| "boot_asked (Ask_lease ws msg) = Some (ws, ls_request msg)"
| "boot_asked ev = None"

definition requests :: "relay_event \<Rightarrow> string multiset" where
  "requests ev = (case boot_asked ev of Some (ws, r) \<Rightarrow> {#r#} | None \<Rightarrow> {#})"

lemma other_events:
  assumes "relay_inv R" and "fresh_ids (new_ids ev) R" and "boot_asked ev = None"
  shows "accounted E R (handle builds E now ev R)"
  using assms by (cases ev)
    (auto intro: agentDevices_accounted register_accounted good_accounted good_intros)

text \<open>Any event: an invariant kept, and at most the one boot it asked for joins those to be answered.\<close>

lemma handle_accounts:
  assumes "relay_inv R" and "fresh_ids (new_ids ev) R"
  shows "relay_inv (fst (handle builds E now ev R))"
    and "\<exists>B. image_mset (\<lambda>b. snd (boot_id b)) B \<subseteq># requests ev
      \<and> accounts E (kept R + B) (kept (fst (handle builds E now ev R))) (snd (handle builds E now ev R))"
proof -
  have "relay_inv (fst (handle builds E now ev R)) \<and> (\<exists>B. image_mset (\<lambda>b. snd (boot_id b)) B \<subseteq># requests ev
      \<and> accounts E (kept R + B) (kept (fst (handle builds E now ev R))) (snd (handle builds E now ev R)))"
  proof (cases "boot_asked ev")
    case None
    from other_events [OF assms this, of E builds now] show ?thesis
      by (intro conjI exI [of _ "{#}"]) (simp_all add: accounted_def)
  next
    case (Some p)
    obtain ws r where p: "p = (ws, r)" by force
    have "one_boot E ws r R (handle builds E now ev R)"
      using Some p handleBoot_one [OF assms(1)] handleLease_one [OF assms(1)] by (cases ev) auto
    then obtain B where B: "relay_inv (fst (handle builds E now ev R))" "size B \<le> 1" "\<forall>b \<in># B. snd (boot_id b) = r"
        "accounts E (kept R + B) (kept (fst (handle builds E now ev R))) (snd (handle builds E now ev R))"
      unfolding one_boot_def by blast
    have "image_mset (\<lambda>b. snd (boot_id b)) B \<subseteq># {#r#}"
    proof (cases "B = {#}")
      case False
      then obtain b where "B = {#b#}" using B(2) by (metis One_nat_def le_Suc_eq le_zero_eq size_1_singleton_mset size_eq_0_iff_empty)
      with B(3) show ?thesis by simp
    qed simp
    with B Some p show ?thesis by (auto simp: requests_def)
  qed
  then show "relay_inv (fst (handle builds E now ev R))"
    "\<exists>B. image_mset (\<lambda>b. snd (boot_id b)) B \<subseteq># requests ev
      \<and> accounts E (kept R + B) (kept (fst (handle builds E now ev R))) (snd (handle builds E now ev R))" by blast+
qed

subsection \<open>Runs\<close>

inductive relay_run :: "build_lookup \<Rightarrow> ms \<Rightarrow> string multiset \<Rightarrow> sent \<Rightarrow> relay \<Rightarrow> bool" for builds timeout where
  relay_starts: "relay_run builds timeout {#} [] (new_relay timeout)"
| relay_handles: "relay_run builds timeout wanted said R \<Longrightarrow> fresh_ids (new_ids ev) R
    \<Longrightarrow> relay_run builds timeout (wanted + requests ev) (said @ snd (handle builds E now ev R)) (fst (handle builds E now ev R))"

lemma new_relay_inv: "relay_inv (new_relay t)"
  by (simp add: relay_inv_def new_relay_def kept_boots_def every_host_def new_manager_inv)

lemma run_relay_inv: "relay_run builds timeout wanted said R \<Longrightarrow> relay_inv R"
  by (induction rule: relay_run.induct) (auto intro: new_relay_inv handle_accounts(1))

lemma run_answers_once:
  "relay_run builds timeout wanted said R \<Longrightarrow>
     image_mset (\<lambda>b. snd (boot_id b)) (kept R) + image_mset snd (settled said) \<subseteq># wanted"
proof (induction rule: relay_run.induct)
  case relay_starts
  then show ?case by (simp add: new_relay_def kept_boots_def)
next
  case (relay_handles wanted said R ev E now)
  let ?p = "handle builds E now ev R"
  obtain B where B: "image_mset (\<lambda>b. snd (boot_id b)) B \<subseteq># requests ev" "accounts E (kept R + B) (kept (fst ?p)) (snd ?p)"
    using handle_accounts(2) [OF run_relay_inv [OF relay_handles(1)] relay_handles(2)] by blast
  have "image_mset snd (image_mset boot_id (kept (fst ?p)) + settled (snd ?p)) \<subseteq># image_mset snd (image_mset boot_id (kept R + B))"
    by (rule image_mset_subseteq_mono [OF accounts_at_most [OF B(2)]])
  then have "image_mset (\<lambda>b. snd (boot_id b)) (kept (fst ?p)) + image_mset snd (settled (snd ?p))
      \<subseteq># image_mset (\<lambda>b. snd (boot_id b)) (kept R) + image_mset (\<lambda>b. snd (boot_id b)) B"
    by (simp add: multiset.map_comp comp_def)
  also have "\<dots> \<subseteq># image_mset (\<lambda>b. snd (boot_id b)) (kept R) + requests ev" using B(1) by simp
  finally have "image_mset (\<lambda>b. snd (boot_id b)) (kept (fst ?p)) + image_mset snd (settled (snd ?p)) + image_mset snd (settled said)
      \<subseteq># image_mset (\<lambda>b. snd (boot_id b)) (kept R) + image_mset snd (settled said) + requests ev"
    by (simp add: add_ac)
  also have "\<dots> \<subseteq># wanted + requests ev" using relay_handles.IH by simp
  finally show ?case by (simp add: add_ac)
qed

end
