(* ===== verification/Relay_Props.thy ===== *)
theory Relay_Props
  imports Relay_System
begin

text \<open>
  Where the relay sends each boot: a boot leaves for a device only from an effect of the gate, and only while
  its asker still holds the session. And a small relay, played event by event, on which the properties of
  the theories that follow are tried.
\<close>

declare map_of_eq_Some_iff [simp del]

subsection \<open>Where a boot is sent\<close>

definition boot_message :: "held_boot boot \<Rightarrow> boot_msg" where
  "boot_message b = hb_msg (snd (snd b))"

text \<open>The boot \<open>b\<close> may go to \<open>a\<close>: the open socket of the agent of a session its asker holds.\<close>

definition may_go :: "relay_env \<Rightarrow> relay \<Rightarrow> held_boot boot \<Rightarrow> socket \<Rightarrow> bool" where
  "may_go E R b a \<longleftrightarrow> (case session_at R (bm_session (boot_message b)) of
     Some s \<Rightarrow> ownsSession E (asker b) s \<and> agentSocket s = a \<and> up E a | None \<Rightarrow> False)"

lemma same_relay_session:
  assumes "same_relay R R'" and "session_at R' i = Some s'"
  obtains s where "session_at R i = Some s" "core s' = core s"
  using assms same_core_session [of "rl_sessions R" "rl_sessions R'" i s'] by (auto simp: same_relay_def session_at_def get_def)

lemma same_relay_go: "same_relay R R' \<Longrightarrow> may_go E R' b a \<Longrightarrow> may_go E R b a"
  unfolding may_go_def
  by (auto split: option.splits elim!: same_relay_session simp: ownsSession_def dest: core_fields)

lemma carry_out_boot:
  assumes "(a, Device_boot m) \<in> set (fst (snd (carry_out E now fx R)))"
  shows "\<exists>b \<in># answer fx. boot_message b = m \<and> may_go E R b a"
proof (cases fx)
  case (Deliver i r hb)
  have told: "p \<in> set (snd (forgetInstall E j why R')) \<Longrightarrow> snd p \<noteq> Device_boot m" for p j why R'
    using forget_only_installs by fastforce
  show ?thesis
    using assms Deliver told [of "(a, Device_boot m)"]
    by (auto simp: forwardBoot_def Let_def split_beta sendTo_def boot_message_def may_go_def asker_def dispatchTarget_Inr
        split: sum.splits if_splits)
qed (use assms in \<open>auto simp: sendTo_def split: if_splits\<close>)


lemma apply_gate_boot:
  "apply_gate n E now fxs R = Some (R', out) \<Longrightarrow> gate_inv (rl_gate R) \<Longrightarrow>
     gate_inv (rl_gate R') \<and> kept R' \<subseteq># kept R \<and> same_relay R R'
     \<and> (\<forall>a m. (a, Device_boot m) \<in> set out \<longrightarrow> (\<exists>b \<in># kept R + answers fxs. boot_message b = m \<and> may_go E R b a))"
proof (induction n E now fxs R arbitrary: R' out rule: apply_gate.induct)
  case (1 n E now R)
  then show ?case by (auto simp: set_gate_timer_def)
next
  case (2 n E now fx fxs R)
  obtain R1 out1 f where c: "carry_out E now fx R = (R1, out1, f)" by (metis prod_cases3)
  have R1: "same_relay R R1" "rl_gate R1 = rl_gate R" using carry_out_frame [where R = R and E = E and now = now and fx = fx] c by simp_all
  have first: "\<exists>b \<in># answer fx. boot_message b = m \<and> may_go E R b a" if "(a, Device_boot m) \<in> set out1" for a m
    using carry_out_boot [of a m E now fx R] c that by simp
  show ?case
  proof (cases f)
    case None
    then obtain out2 where rest: "apply_gate n E now fxs R1 = Some (R', out2)" "out = out1 @ out2" using 2(4) c by auto
    have "gate_inv (rl_gate R1)" using 2(5) R1(2) by simp
    from 2(1) [OF c [symmetric] refl None rest(1) this] R1 rest(2) first show ?thesis
      by (fastforce intro: same_relay_trans same_relay_go)
  next
    case (Some p)
    obtain i r where p: "p = (i, r)" by force
    obtain k where n: "n = Suc k" using 2(4) c Some p by (cases n) auto
    obtain g nested where ev: "onEvent (gateTiming E) now (Boot_error i (Some r)) (rl_gate R1) = (g, nested)" by force
    have g: "gate_inv g" "kept R = kept_boots g + answers nested"
      using boot_error_step [OF _ ev] 2(5) R1(2) by simp_all
    obtain R2 out2 where R2: "apply_gate k E now nested (R1\<lparr>rl_gate := g\<rparr>) = Some (R2, out2)"
      using 2(4) c Some p n ev by (auto split: option.splits)
    obtain out3 where R3: "apply_gate n E now fxs R2 = Some (R', out3)" "out = out1 @ out2 @ out3"
      using 2(4) c Some p n ev R2 by (auto split: option.splits)
    have "gate_inv (rl_gate (R1\<lparr>rl_gate := g\<rparr>))" using g(1) by simp
    note second = 2(2) [OF c [symmetric] refl Some p [symmetric] n ev [symmetric] R2 this]
    note third = 2(3) [OF c [symmetric] refl Some p [symmetric] n ev [symmetric] R2 refl R3(1)]
    have upto: "same_relay R R2" using R1(1) same_relay_other(1) second same_relay_trans by blast
    have upto1: "same_relay R (R1\<lparr>rl_gate := g\<rparr>)" using R1(1) same_relay_other(1) same_relay_trans by blast
    have sub: "kept R2 \<subseteq># kept R" using second g(2) by (auto intro: subset_mset.trans)
    have in_kept: "b \<in># kept R" if "b \<in># kept_boots g + answers nested" for b using that g(2) by simp
    have old: "b \<in># kept R + answers (fx # fxs)" if "b \<in># kept R2 + answers fxs" for b
      using that mset_subset_eqD [OF sub, of b] by auto
    have "\<exists>b \<in># kept R + answers (fx # fxs). boot_message b = m \<and> may_go E R b a" if "(a, Device_boot m) \<in> set out" for a m
    proof -
      from that R3(2) consider "(a, Device_boot m) \<in> set out1" | "(a, Device_boot m) \<in> set out2" | "(a, Device_boot m) \<in> set out3" by auto
      then show ?thesis
      proof cases
        case 1
        with first show ?thesis by fastforce
      next
        case 2
        with second have "\<exists>b \<in># kept_boots g + answers nested. boot_message b = m \<and> may_go E (R1\<lparr>rl_gate := g\<rparr>) b a"
          by simp
        then obtain b where "b \<in># kept_boots g + answers nested" "boot_message b = m" "may_go E (R1\<lparr>rl_gate := g\<rparr>) b a"
          by blast
        with in_kept same_relay_go [OF upto1] show ?thesis by fastforce
      next
        case 3
        with third second have "\<exists>b \<in># kept R2 + answers fxs. boot_message b = m \<and> may_go E R2 b a" by simp
        then obtain b where "b \<in># kept R2 + answers fxs" "boot_message b = m" "may_go E R2 b a" by blast
        with old same_relay_go [OF upto] show ?thesis by blast
      qed
    qed
    moreover have "gate_inv (rl_gate R')" "kept R' \<subseteq># kept R" "same_relay R R'"
      using third second sub upto by (auto intro: subset_mset.trans same_relay_trans)
    ultimately show ?thesis by blast
  qed
qed


lemma gate_call_boot:
  assumes "gate_inv g" and "kept R + B = kept_boots g + answers fxs"
    and "(a, Device_boot m) \<in> set (snd (applyGate E now fxs (R\<lparr>rl_gate := g\<rparr>)))"
  shows "\<exists>b \<in># kept R + B. boot_message b = m \<and> may_go E R b a"
proof -
  obtain R' out where run: "apply_gate (Suc (length g)) E now fxs (R\<lparr>rl_gate := g\<rparr>) = Some (R', out)"
      "(a, Device_boot m) \<in> set out"
    using assms(3) by (auto simp: applyGate_def split: option.splits)
  from apply_gate_boot [OF run(1)] assms(1) run(2)
  have "\<exists>b \<in># kept_boots g + answers fxs. boot_message b = m \<and> may_go E (R\<lparr>rl_gate := g\<rparr>) b a" by simp
  with same_relay_go [OF same_relay_other(1)] show ?thesis unfolding assms(2) by blast
qed

lemma no_boot_in:
  "settled out = {#} \<Longrightarrow> (a, Device_boot m) \<notin> set out"
  by (induction out) (auto simp: settled_def)

lemma settled_each: "(\<And>x R. x \<in> set xs \<Longrightarrow> settled (snd (f x R)) = {#}) \<Longrightarrow> settled (snd (fx_each f xs R)) = {#}"
  by (induction xs arbitrary: R) (auto simp: fx_then_def)

lemma settled_freeOne: "settled (snd (freeOneForMemory E now s R)) = {#}"
  by (simp add: freeOneForMemory_def Let_def evictForCapacity_frame split: option.split)

text \<open>The two ways \<open>handleBoot\<close> can go, with the state it makes room in.\<close>

definition planned :: "relay_env \<Rightarrow> ms \<Rightarrow> socket \<Rightarrow> session \<Rightarrow> boot_msg \<Rightarrow> relay \<Rightarrow> relay \<times> capacity_plan" where
  "planned E now ws s msg R =
     (if boot_cost_of s (tagged E ws s msg) = Cold \<and> booter s = Automated then planCapacityFor E now s R else (R, Plan_ok []))"

lemma planned_frame:
  "same_relay R (fst (planned E now ws s msg R))" "rl_gate (fst (planned E now ws s msg R)) = rl_gate R"
  by (simp_all add: planned_def planCapacityFor_frame)

lemma handleBoot_eq:
  "handleBoot E now ws msg R =
     (case dispatchTarget E ws (bm_session msg) R of
        Inl why \<Rightarrow> (R, sendTo E ws (Boot_failed (bm_session msg) (bm_request msg) None why))
      | Inr s \<Rightarrow>
          (case planned E now ws s msg R of
             (R1, Plan_refused) \<Rightarrow> (R1, sendTo E ws (Boot_failed (bm_session msg) (bm_request msg) (Some Host_at_capacity)
                (BOOT_REFUSAL_MESSAGES Host_at_capacity)))
           | (R1, Plan_ok evict) \<Rightarrow> admit_boot E now ws s msg evict R1))"
  by (auto simp: handleBoot_def planned_def boot_request_of_def Let_def split_beta split: sum.split capacity_plan.split)

lemma admit_boot_sends:
  assumes "relay_inv R" and "(a, Device_boot m) \<in> set (snd (admit_boot E now ws s msg evict R))"
  shows "\<exists>b \<in># kept R + {#boot_of E ws s msg#}. boot_message b = m \<and> may_go E R b a"
proof -
  let ?req = "boot_request_of E ws s msg"
  obtain g fxs where ad: "admit (gateTiming E) now ?req (rl_gate R) = (g, fxs)" by force
  have "settled (snd (if goes (bm_request msg) fxs then fx_each (evictForCapacity E now) evict R'
      else if refused_critical (bm_request msg) fxs then freeOneForMemory E now s R' else (R', []))) = {#}" for R'
    by (simp add: settled_each evictForCapacity_frame settled_freeOne)
  note quiet_end = no_boot_in [OF this]
  have "(a, Device_boot m) \<in> set (snd (applyGate E now fxs (R\<lparr>rl_gate := g\<rparr>)))"
    using assms(2) quiet_end by (auto simp: admit_boot_def ad fx_then_def)
  from gate_call_boot [OF admit_call [OF assms(1) ad] this] show ?thesis .
qed


subsection \<open>A relay to try the properties on\<close>

definition demo_env :: relay_env where
  "demo_env = \<lparr>up = (\<lambda>ws. ws \<noteq> 99), answering = (\<lambda>_. True),
     ownerRecord = (\<lambda>ws. if ws = 20 then \<lparr>o_key = ''anna'', o_user = ''anna'', o_minted = False\<rparr>
                         else \<lparr>o_key = ''bot'', o_user = ''bot'', o_minted = False\<rparr>),
     holderLabelOf = (\<lambda>_. ''label''), personName = (\<lambda>_. ''name''), wsExternal = (\<lambda>_. False),
     gateTiming = GATE_DEFAULTS, pendingBootTtlMs = PENDING_BOOT_TTL_MS, evictionGraceMs = EVICTION_GRACE_MS,
     agentGraceMs = DEFAULT_AGENT_GRACE_MS, automatedCapOverride = Some 1, RESOURCE_THRESHOLD = 80\<rparr>"

definition demo_agent :: agent_identity where
  "demo_agent = \<lparr>agent_identity.i_agentId = Some ''mac'', i_agentName = Some ''Mac'', i_agentPlatform = Some ''ios'',
     i_agentCapabilities = None\<rparr>"

definition demo_device :: "string \<Rightarrow> device_report" where
  "demo_device d = \<lparr>r_id = d, r_name = d, r_platform = ''ios'', r_status = Shutdown,
     r_osVersion = None, r_formFactor = None, r_serviceTier = None\<rparr>"

definition demo_boot :: "string \<Rightarrow> string \<Rightarrow> boot_msg" where
  "demo_boot i r = \<lparr>bm_session = i, bm_request = r, bm_payload = \<lparr>bp_deviceId = ''d'', bp_resetMode = None,
     bp_serviceTier = None, bp_runReset = None, bp_acceptH264 = True, bp_secureContext = None, bp_external = False,
     bp_automation = False\<rparr>\<rparr>"

definition play :: "relay_event list \<Rightarrow> relay \<times> sent" where
  "play evs = run (handle (\<lambda>_. None) demo_env 1000) evs (new_relay 60000)"

text \<open>Two devices on one Mac, \<open>s1\<close> held by a person on socket 20.\<close>

definition demo_start :: "relay_event list" where
  "demo_start = [Agent_registers [''s1'', ''s2''] 10 demo_agent [demo_device ''d1'', demo_device ''d2''],
     Ask_join 20 ''s1'' (Some Dashboard) None]"

text \<open>A list of events, each with fresh identifiers, is a run.\<close>

fun all_fresh :: "relay_event list \<Rightarrow> relay \<Rightarrow> bool" where
  "all_fresh [] R = True"
| "all_fresh (ev # evs) R \<longleftrightarrow> fresh_ids (new_ids ev) R \<and> all_fresh evs (fst (handle (\<lambda>_. None) demo_env 1000 ev R))"

lemma run_from:
  "relay_run (\<lambda>_. None) t wanted said R \<Longrightarrow> all_fresh evs R \<Longrightarrow>
     relay_run (\<lambda>_. None) t (wanted + sum_list (map requests evs)) (said @ snd (run (handle (\<lambda>_. None) demo_env 1000) evs R))
       (fst (run (handle (\<lambda>_. None) demo_env 1000) evs R))"
proof (induction evs arbitrary: wanted said R)
  case (Cons ev evs)
  from Cons.IH [OF relay_handles [OF Cons.prems(1)], of ev demo_env 1000] Cons.prems(2) show ?case
    by (simp add: add_ac)
qed simp

lemma play_runs:
  "all_fresh evs (new_relay 60000) \<Longrightarrow>
     relay_run (\<lambda>_. None) 60000 (sum_list (map requests evs)) (snd (play evs)) (fst (play evs))"
  using run_from [OF relay_starts, of evs 60000] by (simp add: play_def)

end
