(* ===== verification/Relay_Claims.thy ===== *)
theory Relay_Claims
  imports Relay_Props
begin

text \<open>
  The properties of the relay as a system, over every run: each boot answered at most once, and no boot lost
  while whoever asked for it is there; the boot gate's effects always carried out to the end; and a device
  booted only for the client that holds it.
\<close>

declare map_of_eq_Some_iff [simp del]

subsection \<open>Boots over a run\<close>

lemma demo_boot_said:
  "snd (play (demo_start @ [Ask_boot 20 (demo_boot ''s1'' ''r1'')]))
     = [(10, Registered [(''d1'', ''s1''), (''d2'', ''s2'')]), (20, Session_joined ''s1'' []), (10, Device_boot (demo_boot ''s1'' ''r1''))]"
  by code_simp

lemma demo_fresh: "all_fresh demo_start (new_relay 60000)" "all_fresh (demo_start @ [Ask_boot 20 (demo_boot ''s1'' ''r1'')]) (new_relay 60000)"
  by code_simp+

lemma demo_start_gate: "rl_gate (fst (play demo_start)) = []"
  by code_simp



text \<open>
  C3. No boot is lost: in every state a run reaches, with everyone whose boot is in question connected, after
  a \<open>device:boot\<close> the boots the gate held and this one are, each once, held still, sent to an agent or
  answered with an error.
\<close>
theorem no_boot_is_lost:
  assumes "relay_run builds timeout wanted said R" and "up E ws"
    and "\<forall>b \<in># kept R. up E (asker b)"
  shows "add_mset (bm_session msg, bm_request msg) (image_mset boot_id (kept R))
    = image_mset boot_id (kept (fst (handleBoot E now ws msg R))) + settled (snd (handleBoot E now ws msg R))"
proof -
  obtain b where b: "boot_id b = (bm_session msg, bm_request msg)" "asker b = ws"
    "accounts E (kept R + {#b#}) (kept (fst (handleBoot E now ws msg R))) (snd (handleBoot E now ws msg R))"
    using handleBoot_run(2) [OF run_relay_inv [OF assms(1)]] by blast
  have "\<forall>c \<in># kept R + {#b#}. up E (asker c)" using assms(2,3) b(2) by auto
  from accounts_exact [OF b(3) this] b(1) show ?thesis by simp
qed

theorem no_boot_is_lost_witness:
  "add_mset (''s2'', ''r2'') (image_mset boot_id (kept (fst (play demo_start))))
    = image_mset boot_id (kept (fst (handleBoot demo_env 1000 20 (demo_boot ''s2'' ''r2'') (fst (play demo_start)))))
      + settled (snd (handleBoot demo_env 1000 20 (demo_boot ''s2'' ''r2'') (fst (play demo_start))))"
proof -
  have "kept (fst (play demo_start)) = {#}" by (simp add: demo_start_gate kept_boots_def)
  then show ?thesis
    using no_boot_is_lost [OF play_runs [OF demo_fresh(1)], where E = demo_env and ws = 20 and now = 1000 and msg = "demo_boot ''s2'' ''r2''"]
    by (simp add: demo_boot_def demo_env_def)
qed


subsection \<open>The gate's effects\<close>

lemma apply_gate_mono:
  "apply_gate n E now fxs R = Some p \<Longrightarrow> n \<le> m \<Longrightarrow> apply_gate m E now fxs R = Some p"
proof (induction n E now fxs R arbitrary: m p rule: apply_gate.induct)
  case (2 n E now fx fxs R)
  obtain R1 out1 f where c: "carry_out E now fx R = (R1, out1, f)" by (metis prod_cases3)
  show ?case
  proof (cases f)
    case None
    with 2(4) c obtain q where "apply_gate n E now fxs R1 = Some q" by auto
    with 2(1) [OF c [symmetric] refl None this 2(5)] 2(4) c None show ?thesis by simp
  next
    case (Some x)
    obtain i r where x: "x = (i, r)" by force
    obtain k where n: "n = Suc k" using 2(4) c Some x by (cases n) auto
    obtain l where m: "m = Suc l" "k \<le> l" using 2(5) n by (cases m) auto
    obtain g nested where ev: "onEvent (gateTiming E) now (Boot_error i (Some r)) (rl_gate R1) = (g, nested)" by force
    obtain R2 out2 where R2: "apply_gate k E now nested (R1\<lparr>rl_gate := g\<rparr>) = Some (R2, out2)"
      using 2(4) c Some x n ev by (auto split: option.splits)
    obtain q where R3: "apply_gate n E now fxs R2 = Some q"
      using 2(4) c Some x n ev R2 by (auto split: option.splits)
    have "apply_gate l E now nested (R1\<lparr>rl_gate := g\<rparr>) = Some (R2, out2)"
      by (rule 2(2) [OF c [symmetric] refl Some x [symmetric] n ev [symmetric] R2 m(2)])
    moreover have "apply_gate m E now fxs R2 = Some q"
      by (rule 2(3) [OF c [symmetric] refl Some x [symmetric] n ev [symmetric] R2 refl R3 2(5)])
    ultimately show ?thesis using 2(4) c Some x n m ev R2 R3 by simp
  qed
qed simp

text \<open>
  C12. \<open>applyGate\<close> always comes to an end. A boot that can no longer go is an event for the gate, whose own
  effects are applied in turn; in every state a run reaches, for every call of the gate, one level more of
  that nesting than the gate has Macs is enough, and any greater bound gives the same result.
\<close>
theorem gate_effects_are_carried_out:
  assumes "relay_run builds timeout wanted said R"
    and "call = Admit (boot_request_of E ws s msg) \<or> call = Event ev \<or> call = Tick"
    and "gate_step (gateTiming E) (now, call) (rl_gate R) = (g, fxs)" and "length g < n"
  shows "apply_gate n E now fxs (R\<lparr>rl_gate := g\<rparr>) = Some (applyGate E now fxs (R\<lparr>rl_gate := g\<rparr>))"
proof -
  note inv = run_relay_inv [OF assms(1)]
  have g: "gate_inv g" "kept R + asked (now, call) = kept_boots g + answers fxs"
    using gate_step_inv [OF relay_invD(2) [OF inv], of "gateTiming E" "(now, call)"]
      gate_step_conserves [OF relay_invD(2) [OF inv], of "(now, call)" "gateTiming E"] assms(3) by simp_all
  have "\<forall>b \<in># asked (now, call). boot_ok b"
    using assms(2) by (auto simp: boot_ok_def boot_request_of_def tagged_def Let_def)
  with relay_invD(3) [OF inv] have "\<forall>b \<in># kept_boots g + answers fxs. boot_ok b"
    unfolding g(2) [symmetric] by auto
  with applyGate_run(1) [of "R\<lparr>rl_gate := g\<rparr>" fxs E now] g(1)
  have "apply_gate (Suc (length g)) E now fxs (R\<lparr>rl_gate := g\<rparr>) = Some (applyGate E now fxs (R\<lparr>rl_gate := g\<rparr>))"
    by simp
  from apply_gate_mono [OF this] assms(4) show ?thesis by simp
qed

definition demo_admit :: "held_boot gate \<times> held_boot effect list" where
  "demo_admit = gate_step (gateTiming demo_env) (1000, Admit (boot_request_of demo_env 20
     (the (session_at (fst (play demo_start)) ''s1'')) (demo_boot ''s1'' ''r1''))) (rl_gate (fst (play demo_start)))"

theorem gate_effects_are_carried_out_witness:
  "apply_gate 2 demo_env 1000 (snd demo_admit) ((fst (play demo_start))\<lparr>rl_gate := fst demo_admit\<rparr>)
     = Some (applyGate demo_env 1000 (snd demo_admit) ((fst (play demo_start))\<lparr>rl_gate := fst demo_admit\<rparr>))
   \<and> length (snd demo_admit) = 1"
proof
  have "length (fst demo_admit) < 2" by code_simp
  then show "apply_gate 2 demo_env 1000 (snd demo_admit) ((fst (play demo_start))\<lparr>rl_gate := fst demo_admit\<rparr>)
     = Some (applyGate demo_env 1000 (snd demo_admit) ((fst (play demo_start))\<lparr>rl_gate := fst demo_admit\<rparr>))"
    by (intro gate_effects_are_carried_out [OF play_runs [OF demo_fresh(1)] disjI1 [OF refl]])
      (simp_all add: demo_admit_def)
  show "length (snd demo_admit) = 1" by code_simp
qed


subsection \<open>Whose device a boot reaches\<close>

lemma may_goD:
  assumes "may_go E R b a"
  obtains s where "session_at R (bm_session (boot_message b)) = Some s" "ownsSession E (asker b) s" "agentSocket s = a" "up E a"
  using assms by (auto simp: may_go_def split: option.splits)

lemma boot_of_message:
  "(boot_message (boot_of E ws s msg) = m) = (tagged E ws s msg = m)"
  "bm_session (tagged E ws s msg) = bm_session msg" "bm_request (tagged E ws s msg) = bm_request msg"
  by (simp_all add: boot_message_def boot_of_def boot_request_of_def Let_def tagged_def)

text \<open>
  C4. A boot reaches a device only from the client that holds it: in every state a run reaches, a boot that
  \<open>device:boot\<close> or a gate event sends goes to the open socket of the agent whose session it names, and the
  client it is sent for, the one asking now or one whose boot the gate held, is that session's holder.
\<close>
theorem boots_reach_only_the_holders_device:
  assumes "relay_run builds timeout wanted said R"
    and "(a, Device_boot m) \<in> set (snd (handleBoot E now ws msg R)) \<union> set (snd (gateEvent E now ev R))"
  shows "\<exists>s w. session_at R (bm_session m) = Some s \<and> agentSocket s = a \<and> up E a \<and> ownsSession E w s
    \<and> (w = ws \<and> bm_session m = bm_session msg \<and> bm_request m = bm_request msg
       \<or> (\<exists>b \<in># kept R. boot_message b = m \<and> asker b = w))"
proof -
  note inv = run_relay_inv [OF assms(1)]
  from assms(2) consider "(a, Device_boot m) \<in> set (snd (handleBoot E now ws msg R))"
    | "(a, Device_boot m) \<in> set (snd (gateEvent E now ev R))" by blast
  then show ?thesis
  proof cases
    case 1
    then obtain s R1 evict where s: "dispatchTarget E ws (bm_session msg) R = Inr s" "planned E now ws s msg R = (R1, Plan_ok evict)"
        "(a, Device_boot m) \<in> set (snd (admit_boot E now ws s msg evict R1))"
      by (auto simp: handleBoot_eq sendTo_def split: sum.splits prod.splits capacity_plan.splits if_splits)
    have R1: "same_relay R R1" "rl_gate R1 = rl_gate R" using planned_frame [where R = R and E = E and now = now and ws = ws and s = s and msg = msg] s(2) by simp_all
    have "relay_inv R1" using relay_inv_same [OF inv R1(1)] R1(2) relay_invD(2) [OF inv] by simp
    from admit_boot_sends [OF this s(3)] obtain b where
      b: "b \<in># kept R1 + {#boot_of E ws s msg#}" "boot_message b = m" "may_go E R1 b a" by blast
    from may_goD [OF same_relay_go [OF R1(1) b(3)]] b(2) obtain s' where
      s': "session_at R (bm_session m) = Some s'" "ownsSession E (asker b) s'" "agentSocket s' = a" "up E a" by auto
    have mine: "w = ws \<and> bm_session m = bm_session msg \<and> bm_request m = bm_request msg"
      if "b = boot_of E ws s msg" "w = asker b" for w
      using that b(2) boot_of_message(2,3) [of E ws s msg] boot_of_ok(2) [of E ws s msg]
      by (metis boot_of_message(1))
    have "b \<in># kept R \<or> b = boot_of E ws s msg" using b(1) R1(2) by auto
    then show ?thesis using s' b(2) mine [OF _ refl] by blast
  next
    case 2
    obtain g fxs where ev: "onEvent (gateTiming E) now ev (rl_gate R) = (g, fxs)" by force
    from gate_call_boot [OF event_call [OF inv ev]] 2 ev have "\<exists>b \<in># kept R + {#}. boot_message b = m \<and> may_go E R b a"
      by (simp only: gateEvent_def prod.case)
    then obtain b where b: "b \<in># kept R" "boot_message b = m" "may_go E R b a" by (simp only: add_0_right) blast
    from may_goD [OF b(3)] obtain s where
      s: "session_at R (bm_session m) = Some s" "ownsSession E (asker b) s" "agentSocket s = a" "up E a" unfolding b(2) .
    with b(1,2) have "\<exists>b' \<in># kept R. boot_message b' = m \<and> asker b' = asker b" by (intro bexI [of _ b]) simp_all
    with s show ?thesis by (intro exI [of _ s] exI [of _ "asker b"]) (simp only: simp_thms)
  qed
qed

theorem boots_reach_only_the_holders_device_witness:
  "session_at (fst (play demo_start)) ''s1'' \<noteq> None \<and> up demo_env 10"
proof -
  have "(10, Device_boot (demo_boot ''s1'' ''r1'')) \<in> set (snd (handleBoot demo_env 1000 20 (demo_boot ''s1'' ''r1'') (fst (play demo_start))))"
    by code_simp
  from boots_reach_only_the_holders_device [OF play_runs [OF demo_fresh(1)] UnI1 [OF this]] show ?thesis
    by (auto simp: demo_boot_def)
qed

end
