(* ===== verification/Relay_Room.thy ===== *)
theory Relay_Room
  imports Relay_Props
begin

text \<open>
  Which devices the relay shuts down to make room for a boot, and what a returning agent leaves of the boots
  that were sent to the socket before it.
\<close>

declare map_of_eq_Some_iff [simp del]

subsection \<open>Nothing the gate sends shuts a device down\<close>

lemma carry_out_no_shutdown: "(a, Device_shutdown i d) \<notin> set (fst (snd (carry_out E now fx R)))"
proof (cases fx)
  case (Deliver j r hb)
  have "p \<in> set (snd (forgetInstall E k why R')) \<Longrightarrow> snd p \<noteq> Device_shutdown i d" for p k why R'
    using forget_only_installs by fastforce
  from this [of "(a, Device_shutdown i d)"] show ?thesis
    using Deliver by (auto simp: forwardBoot_def Let_def split_beta sendTo_def split: sum.splits if_splits)
qed (auto simp: sendTo_def)

lemma apply_gate_no_shutdown: "apply_gate n E now fxs R = Some (R', out) \<Longrightarrow> (a, Device_shutdown i d) \<notin> set out"
proof (induction n E now fxs R arbitrary: R' out rule: apply_gate.induct)
  case (2 n E now fx fxs R)
  obtain R1 out1 f where c: "carry_out E now fx R = (R1, out1, f)" by (metis prod_cases3)
  with carry_out_no_shutdown [of a i d E now fx R] have first: "(a, Device_shutdown i d) \<notin> set out1" by simp
  show ?case
  proof (cases f)
    case None
    then obtain out2 where "apply_gate n E now fxs R1 = Some (R', out2)" "out = out1 @ out2" using 2(4) c by auto
    with 2(1) [OF c [symmetric] refl None] first show ?thesis by simp
  next
    case (Some p)
    obtain j r where p: "p = (j, r)" by force
    obtain k where n: "n = Suc k" using 2(4) c Some p by (cases n) auto
    obtain g nested where ev: "onEvent (gateTiming E) now (Boot_error j (Some r)) (rl_gate R1) = (g, nested)" by force
    obtain R2 out2 where R2: "apply_gate k E now nested (R1\<lparr>rl_gate := g\<rparr>) = Some (R2, out2)"
      using 2(4) c Some p n ev by (auto split: option.splits)
    obtain out3 where R3: "apply_gate n E now fxs R2 = Some (R', out3)" "out = out1 @ out2 @ out3"
      using 2(4) c Some p n ev R2 by (auto split: option.splits)
    show ?thesis
      using 2(2) [OF c [symmetric] refl Some p [symmetric] n ev [symmetric] R2]
        2(3) [OF c [symmetric] refl Some p [symmetric] n ev [symmetric] R2 refl R3(1)] R3(2) first by simp
  qed
qed auto

lemma applyGate_no_shutdown: "(a, Device_shutdown i d) \<notin> set (snd (applyGate E now fxs R))"
  by (auto simp: applyGate_def dest: apply_gate_no_shutdown split: option.split)

subsection \<open>A device that may be shut down\<close>

text \<open>The device of session \<open>i\<close> may make room on the Mac \<open>key\<close>: nobody holds it, waits for it or watches it.\<close>

definition spare :: "relay_env \<Rightarrow> string \<Rightarrow> relay \<Rightarrow> string \<Rightarrow> bool" where
  "spare E key R i \<longleftrightarrow> (case session_at R i of
     Some t \<Rightarrow> hostKey t = key \<and> owner t = None \<and> waitingOwner t = None \<and> watchersOf (rl_sessions R) i = []
       \<and> up E (agentSocket t)
   | None \<Rightarrow> False)"

lemma spareI:
  "session_at R i = Some t \<Longrightarrow> hostKey t = key \<Longrightarrow> owner t = None \<Longrightarrow> waitingOwner t = None
     \<Longrightarrow> watchersOf (rl_sessions R) i = [] \<Longrightarrow> up E (agentSocket t) \<Longrightarrow> spare E key R i"
  by (simp add: spare_def)

lemma spareE:
  assumes "spare E key R i"
  obtains t where "session_at R i = Some t" "hostKey t = key" "owner t = None" "waitingOwner t = None"
    "watchersOf (rl_sessions R) i = []" "up E (agentSocket t)"
  using assms by (auto simp: spare_def split: option.splits)

lemma same_relay_spare:
  assumes "same_relay R R'" and "spare E key R' i"
  shows "spare E key R i"
  using assms(2)
proof (rule spareE)
  fix t assume t: "session_at R' i = Some t" "hostKey t = key" "owner t = None" "waitingOwner t = None"
    "watchersOf (rl_sessions R') i = []" "up E (agentSocket t)"
  from same_relay_session [OF assms(1) t(1)] obtain s where s: "session_at R i = Some s" "core t = core s" .
  have "watchersOf (rl_sessions R) i = watchersOf (rl_sessions R') i"
    using same_core_parts(1) [of "rl_sessions R" "rl_sessions R'"] assms(1) by (simp add: same_relay_def watchersOf_def)
  moreover have "hostKey s = hostKey t" using core_fields(1-3) [OF s(2)] by (simp add: hostKey_def)
  ultimately show ?thesis
    using s(1) t(2-6) core_fields [OF s(2)] by (intro spareI [of R i s]) simp_all
qed

lemma same_relay_sym: "same_relay R R' \<Longrightarrow> same_relay R' R"
  by (simp add: same_relay_def same_core_sym)

lemma evict_says:
  assumes "(a, Device_shutdown i d) \<in> set (snd (evictForCapacity E now j R))"
  shows "i = j \<and> (\<exists>t. session_at R i = Some t \<and> agentSocket t = a \<and> deviceId t = d)"
  using assms by (auto simp: evictForCapacity_def sendTo_def split: option.splits if_splits)

lemma evictions_say:
  "(a, Device_shutdown i d) \<in> set (snd (fx_each (evictForCapacity E now) js R)) \<Longrightarrow>
     i \<in> set js \<and> (\<exists>t. session_at R i = Some t \<and> agentSocket t = a \<and> deviceId t = d)"
proof (induction js arbitrary: R)
  case (Cons j js)
  have frame: "same_relay R (fst (evictForCapacity E now j R))" by (simp add: evictForCapacity_frame)
  from Cons.prems consider "(a, Device_shutdown i d) \<in> set (snd (evictForCapacity E now j R))"
    | "(a, Device_shutdown i d) \<in> set (snd (fx_each (evictForCapacity E now) js (fst (evictForCapacity E now j R))))"
    by (auto simp: fx_then_def split_beta)
  then show ?case
  proof cases
    case 1
    from evict_says [OF this] show ?thesis by auto
  next
    case 2
    from Cons.IH [OF this] obtain t where
      t: "i \<in> set js" "session_at (fst (evictForCapacity E now j R)) i = Some t" "agentSocket t = a" "deviceId t = d" by blast
    from same_relay_session [OF frame t(2)] obtain t' where "session_at R i = Some t'" "core t = core t'" by blast
    with t core_fields [of t t'] show ?thesis by simp
  qed
qed simp

lemma capacity_device_spare:
  assumes "d \<in> set (capacityDevices E now key R)" and "evictable d" and "manager_inv (rl_sessions R)"
  shows "spare E key R (c_session d)"
proof -
  from assms(1) obtain t where t: "t \<in> set (onHost R key)" "d = capacity_device_of E R t"
    by (auto simp: capacityDevices_def)
  from t(1) obtain i where i: "(i, t) \<in> set (sessions (rl_sessions R))" "hostKey t = key"
    by (auto simp: onHost_def getAllOnHost_def all_def)
  have "jget (sessions (rl_sessions R)) i = Some t"
    using manager_invD(1) [OF assms(3)] i(1) by (simp add: sessions_ok_def)
  with inv_session [OF assms(3) this] have "session_at R (sid_of t) = Some t"
    by (simp add: session_at_def get_def)
  with assms(2) t(2) i(2) show ?thesis
    by (auto simp: evictable_def capacity_device_of_def intro: spareI)
qed

lemma idleToFree_mem:
  "idleToFree devices rid = Some v \<Longrightarrow> \<exists>d \<in> set devices. c_session d = v \<and> evictable d \<and> v \<noteq> rid"
proof (cases "filter (\<lambda>d. c_automated d \<and> evictable d \<and> c_session d \<noteq> rid) devices")
  case (Cons d ds)
  moreover assume "idleToFree devices rid = Some v"
  ultimately obtain x where x: "x \<in> set (d # ds)" "c_session x = v"
    using foldl_oldest [of d ds] by (auto simp: idleToFree_def)
  moreover have "x \<in> set (filter (\<lambda>d. c_automated d \<and> evictable d \<and> c_session d \<noteq> rid) devices)" unfolding Cons by (rule x(1))
  ultimately show ?thesis by auto
qed (simp add: idleToFree_def)

lemma evict_until_mem: "i \<in> set (fst (evict_until over ds)) \<Longrightarrow> \<exists>d \<in> set ds. c_session d = i"
  by (induction over ds rule: evict_until.induct) (auto simp: split_beta split: if_splits)

lemma planned_evicts:
  assumes "planned E now ws s msg R = (R1, Plan_ok evict)" and "i \<in> set evict" and "relay_inv R"
  shows "spare E (hostKey s) R i \<and> i \<noteq> sid_of s"
proof -
  let ?devs = "capacityDevices E now (hostKey s) R1"
  have same: "same_relay R R1" using planned_frame(1) [where R = R and E = E and now = now and ws = ws and s = s and msg = msg] assms(1) by simp
  have inv: "manager_inv (rl_sessions R1)" by (rule same_relay_mgr [OF assms(3) same])
  from assms(1,2) obtain cap where "planCapacity ?devs (sid_of s) (devicePlatform s) cap = Plan_ok evict"
    by (auto simp: planned_def planCapacityFor_def Let_def split: if_splits option.splits)
  with assms(2) obtain over where "i \<in> set (fst (evict_until over (idle_of ?devs (sid_of s))))"
    by (auto simp: planCapacity_def Let_def split_beta split: if_splits)
  then obtain d where d: "d \<in> set (idle_of ?devs (sid_of s))" "c_session d = i"
    using evict_until_mem by blast
  then have "spare E (hostKey s) R1 i" "i \<noteq> sid_of s"
    using capacity_device_spare [OF _ _ inv] by (auto simp: idle_of_mem)
  with same_relay_spare [OF same] show ?thesis by blast
qed

lemma freed_for_memory:
  assumes "(a, Device_shutdown i d) \<in> set (snd (freeOneForMemory E now s R))" and "relay_inv R"
  shows "spare E (hostKey s) R i \<and> i \<noteq> sid_of s \<and> (\<exists>t. session_at R i = Some t \<and> agentSocket t = a \<and> deviceId t = d)"
proof -
  let ?R1 = "expire_boots E now (hostKey s) R"
  have same: "same_relay R ?R1" by (simp add: expire_boots_frame)
  have inv: "manager_inv (rl_sessions ?R1)" by (rule same_relay_mgr [OF assms(2) same])
  from assms(1) obtain v where v: "idleToFree (capacityDevices E now (hostKey s) ?R1) (sid_of s) = Some v"
      "(a, Device_shutdown i d) \<in> set (snd (evictForCapacity E now v ?R1))"
    by (auto simp: freeOneForMemory_def Let_def split: if_splits option.splits)
  from idleToFree_mem [OF v(1)] capacity_device_spare [OF _ _ inv] have "spare E (hostKey s) ?R1 v" "v \<noteq> sid_of s" by auto
  moreover from evict_says [OF v(2)] obtain t where t: "i = v" "session_at ?R1 i = Some t" "agentSocket t = a" "deviceId t = d" by blast
  moreover from same_relay_session [OF same t(2)] obtain t' where "session_at R i = Some t'" "core t = core t'" by blast
  ultimately show ?thesis using same_relay_spare [OF same] core_fields [of t t'] by auto
qed

lemma admit_boot_shuts_down:
  assumes "relay_inv R" and "\<And>j. j \<in> set evict \<Longrightarrow> spare E (hostKey s) R j \<and> j \<noteq> sid_of s"
    and "(a, Device_shutdown i d) \<in> set (snd (admit_boot E now ws s msg evict R))"
  shows "spare E (hostKey s) R i \<and> i \<noteq> sid_of s \<and> (\<exists>t. session_at R i = Some t \<and> agentSocket t = a \<and> deviceId t = d)"
proof -
  let ?req = "boot_request_of E ws s msg"
  obtain g fxs where ad: "admit (gateTiming E) now ?req (rl_gate R) = (g, fxs)" by force
  define R2 where "R2 = fst (applyGate E now fxs (R\<lparr>rl_gate := g\<rparr>))"
  note run = gate_call_run [OF assms(1) admit_call [OF assms(1) ad], of E now, simplified, OF boot_of_ok(1), folded R2_def]
  note quiet = applyGate_no_shutdown [of a i d E now fxs "R\<lparr>rl_gate := g\<rparr>"]
  have "(a, Device_shutdown i d) \<in> set (snd (fx_each (evictForCapacity E now) evict R2)) \<or>
      (a, Device_shutdown i d) \<in> set (snd (freeOneForMemory E now s R2))"
    using assms(3) quiet by (auto simp: admit_boot_def ad fx_then_def R2_def split_beta split: if_splits)
  then have "(i \<in> set evict \<or> spare E (hostKey s) R2 i \<and> i \<noteq> sid_of s)
      \<and> (\<exists>t. session_at R2 i = Some t \<and> agentSocket t = a \<and> deviceId t = d)"
    using evictions_say freed_for_memory [OF _ run(1)] by blast
  then obtain t where t: "i \<in> set evict \<or> spare E (hostKey s) R2 i \<and> i \<noteq> sid_of s"
      "session_at R2 i = Some t" "agentSocket t = a" "deviceId t = d" by blast
  from same_relay_session [OF run(2) t(2)] obtain t' where "session_at R i = Some t'" "core t = core t'" .
  with t assms(2) same_relay_spare [OF run(2)] core_fields [of t t'] show ?thesis by auto
qed


lemma handleBoot_shuts_down:
  assumes inv: "relay_inv R" and "(a, Device_shutdown i d) \<in> set (snd (handleBoot E now ws msg R))"
  obtains s where "dispatchTarget E ws (bm_session msg) R = Inr s" "spare E (hostKey s) R i" "i \<noteq> sid_of s"
    "\<exists>t. session_at R i = Some t \<and> agentSocket t = a \<and> deviceId t = d"
proof -
  from assms(2) obtain s R1 evict where s: "dispatchTarget E ws (bm_session msg) R = Inr s"
      "planned E now ws s msg R = (R1, Plan_ok evict)"
      "(a, Device_shutdown i d) \<in> set (snd (admit_boot E now ws s msg evict R1))"
    by (auto simp: handleBoot_eq sendTo_def split: sum.splits prod.splits capacity_plan.splits if_splits)
  have R1: "same_relay R R1" "rl_gate R1 = rl_gate R"
    using planned_frame [where R = R and E = E and now = now and ws = ws and s = s and msg = msg] s(2) by simp_all
  have "relay_inv R1" using relay_inv_same [OF inv R1(1)] R1(2) relay_invD(2) [OF inv] by simp
  moreover have "spare E (hostKey s) R1 j \<and> j \<noteq> sid_of s" if "j \<in> set evict" for j
    using planned_evicts [OF s(2) that inv] same_relay_spare [OF same_relay_sym [OF R1(1)]] by blast
  ultimately have "spare E (hostKey s) R1 i \<and> i \<noteq> sid_of s \<and> (\<exists>t. session_at R1 i = Some t \<and> agentSocket t = a \<and> deviceId t = d)"
    using s(3) by (rule admit_boot_shuts_down)
  then obtain t where t: "spare E (hostKey s) R1 i" "i \<noteq> sid_of s" "session_at R1 i = Some t" "agentSocket t = a" "deviceId t = d" by blast
  from same_relay_session [OF R1(1) t(3)] obtain t' where t': "session_at R i = Some t'" "core t = core t'" .
  have "\<exists>t. session_at R i = Some t \<and> agentSocket t = a \<and> deviceId t = d"
    using t' t(4,5) core_fields(4,11) [OF t'(2)] by simp
  then show ?thesis by (rule that [OF s(1) same_relay_spare [OF R1(1) t(1)] t(2)])
qed

text \<open>
  C9. Room is made only of devices nobody is on: in every state a run reaches, a device that \<open>handleBoot\<close>
  shuts down, to keep the automation cap or because memory is critical, is on the Mac of the session the boot
  is for and is not that session's own, and nobody holds it, has left it waiting for a way back or watches
  it; the request goes to its own agent and names its own device.
\<close>
theorem room_is_made_of_unused_devices:
  assumes "relay_run builds timeout wanted said R"
    and "(a, Device_shutdown i d) \<in> set (snd (handleBoot E now ws msg R))"
  shows "\<exists>s t. session_at R (bm_session msg) = Some s \<and> ownsSession E ws s \<and> session_at R i = Some t \<and> i \<noteq> bm_session msg
    \<and> hostKey t = hostKey s \<and> owner t = None \<and> waitingOwner t = None \<and> watchersOf (rl_sessions R) i = []
    \<and> agentSocket t = a \<and> deviceId t = d"
proof -
  note inv = run_relay_inv [OF assms(1)]
  obtain s where s: "dispatchTarget E ws (bm_session msg) R = Inr s" "spare E (hostKey s) R i" "i \<noteq> sid_of s"
    "\<exists>t. session_at R i = Some t \<and> agentSocket t = a \<and> deviceId t = d" by (rule handleBoot_shuts_down [OF inv assms(2)])
  have "session_at R (bm_session msg) = Some s" "ownsSession E ws s" using s(1) by (simp_all add: dispatchTarget_Inr)
  moreover from this(1) have "sid_of s = bm_session msg"
    using inv_session [OF relay_invD(1) [OF inv]] by (simp add: session_at_def get_def)
  ultimately show ?thesis using s(2-4) by (auto elim!: spareE)
qed

text \<open>An agent's device left up, and another agent that wants the one place the Mac has.\<close>

definition demo_bot :: "relay_event list" where
  "demo_bot = [Agent_registers [''s1'', ''s2''] 10 demo_agent [demo_device ''d1'', demo_device ''d2''],
     Ask_join 30 ''s1'' (Some Mcp) None, Ask_boot 30 (demo_boot ''s1'' ''r1''),
     Agent_is_ready (Some ''s1'') (Some ''r1'') (Some True) None 0, Ask_leave 30 ''s1'',
     Ask_join 30 ''s2'' (Some Mcp) None]"

definition demo_full :: relay where
  "demo_full = fst (handle (\<lambda>_. None) demo_env 200000 Gate_timer (fst (play demo_bot)))"

lemma demo_full_run: "\<exists>wanted said. relay_run (\<lambda>_. None) 60000 wanted said demo_full"
proof -
  have "all_fresh demo_bot (new_relay 60000)" by code_simp
  from relay_handles [OF play_runs [OF this], of Gate_timer demo_env 200000] show ?thesis
    by (auto simp: demo_full_def fresh_ids_def)
qed

theorem room_is_made_of_unused_devices_witness:
  "(10, Device_shutdown ''s1'' ''d1'') \<in> set (snd (handleBoot demo_env 200000 30 (demo_boot ''s2'' ''r2'') demo_full))
   \<and> watchersOf (rl_sessions demo_full) ''s1'' = []"
proof
  obtain wanted said where run: "relay_run (\<lambda>_. None) 60000 wanted said demo_full" using demo_full_run by blast
  show down: "(10, Device_shutdown ''s1'' ''d1'') \<in> set (snd (handleBoot demo_env 200000 30 (demo_boot ''s2'' ''r2'') demo_full))"
    by code_simp
  from room_is_made_of_unused_devices [OF run down] show "watchersOf (rl_sessions demo_full) ''s1'' = []" by blast
qed


subsection \<open>Boots sent to an agent that is gone\<close>

text \<open>What the holder of a stranded boot's session is told.\<close>

definition stranded_notice :: "relay_env \<Rightarrow> relay \<Rightarrow> string \<times> pending_boot \<Rightarrow> sent" where
  "stranded_notice E R entry = snd (invalidate_boot E entry R)"

lemma stranded_notice_eq:
  "stranded_notice E R = (\<lambda>(_, p). case session_at R (pb_session p) of
     Some s \<Rightarrow> send_option E (browserSocket s) (Boot_stranded (pb_session p) (pb_request p)
       (''session '' @ pb_session p @ '' rebounded to a new agent while this boot was in flight, and that agent never saw this request''))
   | None \<Rightarrow> [])"
  by (auto simp: fun_eq_iff stranded_notice_def invalidate_boot_def Let_def)

lemma invalidate_boot_frame:
  "same_relay R (fst (invalidate_boot E entry R))"
  "rl_pendingBoots (fst (invalidate_boot E entry R)) = jdel (fst entry) (rl_pendingBoots R)"
proof -
  have "same_relay R (forgetBoot (fst entry) R)" by (simp add: forgetBoot_def)
  from same_relay_trans [OF this same_relay_upd] show "same_relay R (fst (invalidate_boot E entry R))"
    by (simp add: invalidate_boot_def undoLastBoot_def split_beta Let_def)
qed (simp add: invalidate_boot_def undoLastBoot_def forgetBoot_def upd_def on_mgr_def split_beta Let_def)

lemma stranded_notice_same:
  assumes "same_relay R R'"
  shows "stranded_notice E R' entry = stranded_notice E R entry"
proof -
  have same: "map_option core (session_at R' i) = map_option core (session_at R i)" for i
    using assms same_core_jget by (simp add: same_relay_def session_at_def get_def)
  have "map_option browserSocket (session_at R' i) = map_option browserSocket (session_at R i)" for i
  proof (cases "session_at R i")
    case (Some s)
    with same [of i] obtain s' where "session_at R' i = Some s'" "core s' = core s" by auto
    with Some core_fields(5) [of s' s] show ?thesis by simp
  qed (use same [of i] in simp)
  note browser = this [of "pb_session (snd entry)"]
  show ?thesis
    using browser by (cases "session_at R (pb_session (snd entry))"; cases "session_at R' (pb_session (snd entry))")
      (auto simp: stranded_notice_def invalidate_boot_def split_beta Let_def)
qed

lemma invalidate_each:
  "same_relay R (fst (fx_each (invalidate_boot E) xs R))"
  "rl_pendingBoots (fst (fx_each (invalidate_boot E) xs R)) = filter (\<lambda>(k, _). k \<notin> fst ` set xs) (rl_pendingBoots R)"
  "snd (fx_each (invalidate_boot E) xs R) = concat (map (stranded_notice E R) xs)"
proof (induction xs arbitrary: R)
  case (Cons x xs)
  { case 1 show ?case
      unfolding fx_each.simps fx_simps by (rule same_relay_trans [OF invalidate_boot_frame(1) Cons.IH(1)])
  next
    case 2 show ?case
      by (auto simp: fx_simps Cons.IH(2) invalidate_boot_frame(2) AList.delete_eq intro: filter_cong)
  next
    case 3 show ?case
      using stranded_notice_same [OF invalidate_boot_frame(1)] by (simp add: fx_simps Cons.IH(3) stranded_notice_def)
  }
qed simp_all

lemma session_at_upd: "session_at (upd j f R) i = (if i = j then map_option f (session_at R i) else session_at R i)"
  by (simp add: session_at_def get_def jget_on_session)

lemma invalidate_boot_at:
  "session_at (fst (invalidate_boot E x R)) i
     = (if i = pb_session (snd x) then map_option (undo_last_boot (Some (pb_request (snd x)))) (session_at R i) else session_at R i)"
  by (simp add: invalidate_boot_def split_beta Let_def undoLastBoot_def forgetBoot_def session_at_upd) (simp add: session_at_def)

text \<open>A session whose last boot is not the one of request \<open>r\<close>.\<close>

definition not_out :: "string \<Rightarrow> session \<Rightarrow> bool" where
  "not_out r s \<longleftrightarrow> map_option fst (lastBootPending s) \<noteq> Some r"

lemma undo_not_out: "not_out r (undo_last_boot (Some r) s)" "not_out r s \<Longrightarrow> not_out r (undo_last_boot q s)"
  by (auto simp: undo_last_boot_def not_out_def split: option.split)

lemma invalidate_each_keeps:
  "(\<And>s. session_at R i = Some s \<Longrightarrow> not_out r s)
     \<Longrightarrow> session_at (fst (fx_each (invalidate_boot E) xs R)) i = Some s \<Longrightarrow> not_out r s"
proof (induction xs arbitrary: R)
  case (Cons x xs)
  have "not_out r s" if "session_at (fst (invalidate_boot E x R)) i = Some s" for s
    using that Cons.prems(1) undo_not_out(2) by (auto simp: invalidate_boot_at split: if_splits)
  from Cons.IH [OF this] Cons.prems(2) show ?case by (simp add: fx_simps)
qed simp

lemma invalidate_each_undoes:
  "x \<in> set xs \<Longrightarrow> session_at (fst (fx_each (invalidate_boot E) xs R)) (pb_session (snd x)) = Some s
     \<Longrightarrow> not_out (pb_request (snd x)) s"
proof (induction xs arbitrary: R)
  case (Cons y ys)
  show ?case
  proof (cases "x = y")
    case True
    have "not_out (pb_request (snd x)) s" if "session_at (fst (invalidate_boot E x R)) (pb_session (snd x)) = Some s" for s
      using that undo_not_out(1) by (auto simp: invalidate_boot_at)
    from invalidate_each_keeps [OF this] Cons.prems(2) True show ?thesis by (simp add: fx_simps)
  next
    case False
    with Cons.prems Cons.IH [of "fst (invalidate_boot E y R)"] show ?thesis by (simp add: fx_simps)
  qed
qed simp


definition demo_sent :: relay where
  "demo_sent = fst (play (demo_start @ [Ask_boot 20 (demo_boot ''s1'' ''r1'')]))"


end
