(* ===== verification/Relay_Holder.thy ===== *)
theory Relay_Holder
  imports Relay_Props Flow_Describe
begin

text \<open>
  Who commands a device, and what the session's watchers are told of it: commands and inputs reach a device
  from its holder only, each is passed on or turned down, and nothing typed is shown, by the same rule as the
  flow runner names its steps.
\<close>

declare map_of_eq_Some_iff [simp del]

subsection \<open>Commands and inputs\<close>

text \<open>What a client asks of a device: its socket, the session and the message to pass on, and whether it is answered.\<close>

fun device_ask :: "relay_event \<Rightarrow> (socket \<times> string \<times> payload \<times> bool) option" where
  "device_ask (Ask_command ws c i requestId raw) = Some (ws, i, raw, True)"
| "device_ask (Send_unacked ws i inp raw) = Some (ws, i, raw, False)"
| "device_ask (Send_acked ws i requestId inp raw) = Some (ws, i, raw, True)"
| "device_ask ev = None"

lemma device_askE:
  assumes "device_ask ev = Some (ws, i, raw, acked)"
  obtains c r where "ev = Ask_command ws c i r raw" "acked"
    | inp where "ev = Send_unacked ws i inp raw" "\<not> acked"
    | r inp where "ev = Send_acked ws i r inp raw" "acked"
  using assms by (cases ev) auto

lemma told_only_watchers:
  "(w, m) \<in> set (tell_action E i a R) \<Longrightarrow> w \<in> set (watchersOf (rl_sessions R) i) \<and> (\<exists>x. m = Watch_did i x)"
  by (auto simp: tell_action_def tellWatchersAction_def tellWatchers_def sendTo_def split: option.splits if_splits)

lemma watchersOf_on_session [simp]: "watchersOf (on_session j f m) i = watchersOf m i"
  by (simp add: watchersOf_def)

lemma told_of_input:
  "(w, m) \<in> set (snd (tellWatchersInput E i inp s R)) \<Longrightarrow> w \<in> set (watchersOf (rl_sessions R) i) \<and> (\<exists>x. m = Watch_did i x)"
  by (auto simp: tellWatchersInput_def Let_def split: acked_input.splits dest: told_only_watchers)

text \<open>
  C5. A device obeys only its holder. A command or an input from the client that holds the session of a
  reachable device is passed on to that session's agent as it came, with nothing else sent but a notice to
  the session's own watchers; any other changes nothing and reaches nobody but the one who asked, who is
  told once of everything that expects an answer.
\<close>
theorem device_obeys_only_its_holder:
  assumes "device_ask ev = Some (ws, i, raw, acked)" and "handle builds E now ev R = (R', out)"
  shows "case dispatchTarget E ws i R of
     Inr s \<Rightarrow> ownsSession E ws s \<and> (\<exists>told. out = (agentSocket s, Passed_on raw) # told
        \<and> (\<forall>(w, m) \<in> set told. w \<in> set (watchersOf (rl_sessions R) i) \<and> (\<exists>x. m = Watch_did i x)))
   | Inl _ \<Rightarrow> R' = R \<and> (\<forall>(w, m) \<in> set out. w = ws) \<and> length out = (if acked \<and> up E ws then 1 else 0)"
  using assms(1)
proof (cases rule: device_askE)
  case (1 c r)
  then show ?thesis
    using assms(2) dispatchTarget_Inr [of E ws i R] told_only_watchers
    by (auto simp: holder_command_def sendTo_def split: sum.splits)
next
  case (2 inp)
  then show ?thesis
    using assms(2)
    by (auto simp: forwardUnacked_def dispatchTarget_def reachableTargetWithoutOwnership_def split: option.splits sum.splits if_splits)
next
  case (3 r inp)
  then show ?thesis
    using assms(2) told_of_input [where E = E and i = i and inp = inp and R = R]
    by (fastforce simp: handleAckedInput_def refuseInput_def dispatchTarget_def reachableTargetWithoutOwnership_def sendTo_def
        split_beta split: option.splits sum.splits if_splits)
qed

theorem device_obeys_only_its_holder_witness:
  "device_ask (Ask_command 21 Cmd_clear_state ''s1'' ''q'' 7) = Some (21, ''s1'', 7, True)
   \<and> length (snd (handle (\<lambda>_. None) demo_env 1000 (Ask_command 21 Cmd_clear_state ''s1'' ''q'' 7) (fst (play demo_start)))) = 1"
proof -
  have ask: "device_ask (Ask_command 21 Cmd_clear_state ''s1'' ''q'' 7) = Some (21, ''s1'', 7, True)" by simp
  have target: "dispatchTarget demo_env 21 ''s1'' (fst (play demo_start)) = Inl ''session held by another client''" by code_simp
  have "up demo_env 21" by code_simp
  with device_obeys_only_its_holder [OF ask surjective_pairing, of "\<lambda>_. None" demo_env 1000 "fst (play demo_start)"] target ask
  show ?thesis by simp
qed

subsection \<open>What is typed\<close>

text \<open>Two inputs a watcher may not tell apart: texts of one length, and keys that type a character.\<close>

fun same_typing :: "acked_input \<Rightarrow> acked_input \<Rightarrow> bool" where
  "same_typing (Type_text a) (Type_text b) \<longleftrightarrow> length a = length b"
| "same_typing (Key_press a) (Key_press b) \<longleftrightarrow> typesCharacter a \<and> typesCharacter b"
| "same_typing a b \<longleftrightarrow> False"

lemma digit_key_iff: "digit_key = is_digit"
proof
  fix c show "digit_key c = is_digit c" by (cases c) (auto simp: digit_key_def is_digit_def)
qed

lemma upper_key_iff: "upper_key = is_upper"
proof
  fix c show "upper_key c = is_upper c" by (cases c) (auto simp: upper_key_def is_upper_def)
qed

lemma one_after_iff: "watched_one_after p f code = one_after p f code"
  by (simp add: watched_one_after_def one_after_def starts_with_def)

lemma key_rule: "keyForWatchers code = (if typesCharacter code then ''character'' else code)"
proof -
  have "set WATCHED_NUMPAD_KEYS = set (map (\<lambda>k. ''Numpad'' @ k) NUMPAD_KEYS)"
    by (simp add: WATCHED_NUMPAD_KEYS_def NUMPAD_KEYS_def)
  moreover have "NAMED_KEYS = CHARACTER_KEYS" by (simp add: NAMED_KEYS_def CHARACTER_KEYS_def)
  ultimately have "(types_character code \<or> length code = 1) = typesCharacter code"
    unfolding types_character_def typesCharacter_def one_after_iff digit_key_iff upper_key_iff by (simp only: disj_assoc)
  then show ?thesis by (simp only: keyForWatchers_def)
qed

lemma same_typing_action: "same_typing inp inp' \<Longrightarrow> input_action inp s = input_action inp' s"
  by (cases inp; cases inp') (simp_all add: input_action_def key_rule)

lemma same_typing_told: "same_typing inp inp' \<Longrightarrow> tellWatchersInput E i inp s R = tellWatchersInput E i inp' s R"
  using same_typing_action [of inp inp' s] by (cases inp; cases inp') (simp_all add: tellWatchersInput_def)

text \<open>
  C13. Watchers learn nothing of what is typed: two texts of one length, or two keys that type a character, leave
  the relay in the same state and tell the watchers the same, whatever the messages that carry them. And a
  key is hidden by one rule: the relay shows watchers exactly the key the flow runner's \<open>activityLabel\<close> names.
\<close>
theorem watchers_learn_nothing_typed:
  assumes "same_typing inp inp'"
  shows "fst (handleAckedInput E ws i r inp raw R) = fst (handleAckedInput E ws i r inp' raw' R)
    \<and> tl (snd (handleAckedInput E ws i r inp raw R)) = tl (snd (handleAckedInput E ws i r inp' raw' R))
    \<and> activityLabel T (Press_key code None) = call_text ''pressKey'' (keyForWatchers code)"
proof (intro conjI)
  note same = same_typing_told [OF assms]
  show "fst (handleAckedInput E ws i r inp raw R) = fst (handleAckedInput E ws i r inp' raw' R)"
    "tl (snd (handleAckedInput E ws i r inp raw R)) = tl (snd (handleAckedInput E ws i r inp' raw' R))"
    by (simp_all add: handleAckedInput_def refuseInput_def sendTo_def same split_beta split: option.split)
  show "activityLabel T (Press_key code None) = call_text ''pressKey'' (keyForWatchers code)"
    by (simp add: activityLabel_def key_rule withModifiers_def)
qed

theorem watchers_learn_nothing_typed_witness:
  "tl (snd (handleAckedInput demo_env 20 ''s1'' ''q'' (Key_press ''KeyA'') 1 (fst (play demo_start))))
    = tl (snd (handleAckedInput demo_env 20 ''s1'' ''q'' (Key_press ''Digit7'') 2 (fst (play demo_start))))"
proof -
  have "same_typing (Key_press ''KeyA'') (Key_press ''Digit7'')" by code_simp
  from watchers_learn_nothing_typed [OF this] show ?thesis by blast
qed

end
