(* ===== verification/Door.thy ===== *)
theory Door
  imports Connection_Auth
begin

text \<open>
  The relay's door: what a connection may become (\<open>handleConnection\<close>), how an inbound frame is classified
  (\<open>parseInbound\<close> in \<open>packages/protocol/src/validate\<close>), and the role gate every frame passes before it is
  routed (\<open>settleRole\<close>). What the schemas accept is an argument (\<open>schema\<close> for the whole frame, \<open>envelope\<close> for
  its session and request), since the library that checks them is not part of the repository; the names of
  the types, their directions and which of them are answered are the code's own tables.
\<close>

subsection \<open>The inbound types\<close>

definition BROWSER_INBOUND :: "string list" where
  "BROWSER_INBOUND = [''agents:list'', ''session:start'', ''watch:start'', ''watch:stop'', ''session:activity'',
     ''session:end'', ''session:leave'', ''device:boot'', ''device:lease'', ''device:shutdown'', ''app:install'',
     ''app:launch'', ''app:clear-state'', ''open-url'', ''input:touch:start'', ''input:touch:move'',
     ''input:touch:end'', ''input:touch:cancel'', ''input:pinch:start'', ''input:pinch:move'', ''input:pinch:end'',
     ''input:key'', ''input:type'', ''input:button'', ''input:rotate'', ''input:posture'', ''input:keyboard:toggle'',
     ''clipboard:read'', ''clipboard:write'', ''network:set'']"

definition AGENT_CONSUMED :: "string list" where
  "AGENT_CONSUMED = [''agent:register'', ''agent:devices'', ''agent:resources'', ''screenshot:done'',
     ''screenshot:error'', ''ui:tree:response'', ''ui:tree:error'']"

definition AGENT_FORWARDED :: "string list" where
  "AGENT_FORWARDED = [''session:chrome'', ''session:deviceInfo'', ''device:postures'', ''device:ready'',
     ''device:booting'', ''device:shutdown-done'', ''device:boot-error'', ''device:shutdown-error'',
     ''app:install-done'', ''app:install-error'', ''app:launch-done'', ''app:launch-error'',
     ''app:clear-state-done'', ''app:clear-state-error'', ''open-url:done'', ''open-url:error'', ''input:done'',
     ''input:error'', ''input:type-done'', ''input:type-error'', ''keyboard:toggled'', ''clipboard:data'',
     ''clipboard:write-done'', ''clipboard:error'', ''network:state'', ''network:error'']"

definition STREAM_INBOUND :: "string list" where
  "STREAM_INBOUND = [''stream:register'']"

definition INBOUND :: "string list" where
  "INBOUND = BROWSER_INBOUND @ (AGENT_CONSUMED @ AGENT_FORWARDED) @ STREAM_INBOUND"

definition ANSWERABLE :: "string list" where
  "ANSWERABLE = [''device:boot'', ''app:install'', ''app:launch'', ''app:clear-state'', ''open-url'',
     ''input:touch:end'', ''input:pinch:end'', ''input:key'', ''input:button'', ''input:type'', ''clipboard:read'',
     ''clipboard:write'', ''network:set'']"

datatype door_direction = Dir_browser | Dir_agent | Dir_stream

text \<open>A map built from pairs keeps the last value of a key.\<close>

definition DIRECTIONS :: "(string \<times> door_direction) list" where
  "DIRECTIONS = map (\<lambda>t. (t, Dir_browser)) BROWSER_INBOUND @ map (\<lambda>t. (t, Dir_agent)) (AGENT_CONSUMED @ AGENT_FORWARDED)
     @ map (\<lambda>t. (t, Dir_stream)) STREAM_INBOUND"

definition directionOf :: "string \<Rightarrow> door_direction option" where
  "directionOf t = map_of (rev DIRECTIONS) t"

subsection \<open>A frame\<close>

text \<open>\<open>JSON.parse\<close>d: an object with what its \<open>type\<close> says, if that is a string, or something else.\<close>

datatype 'f raw_value = Not_object | Frame "string option" 'f

datatype 'm parse_result =
  Parsed string 'm
| Not_an_object
| Unknown_type "string option"
| Bad_shape string
| Bad_payload string string string \<comment> \<open>type, session, request\<close>

definition parseInbound ::
    "(string \<Rightarrow> 'f \<Rightarrow> 'm option) \<Rightarrow> (string \<Rightarrow> 'f \<Rightarrow> (string \<times> string) option) \<Rightarrow> 'f raw_value \<Rightarrow> 'm parse_result" where
  "parseInbound schema envelope v =
     (case v of
        Not_object \<Rightarrow> Not_an_object
      | Frame t f \<Rightarrow>
          (case t of
             None \<Rightarrow> Unknown_type None
           | Some known \<Rightarrow>
               if known \<notin> set INBOUND then Unknown_type (Some known)
               else (case schema known f of
                       Some m \<Rightarrow> Parsed known m
                     | None \<Rightarrow>
                         if known \<in> set ANSWERABLE then
                           (case envelope known f of Some (s, r) \<Rightarrow> Bad_payload known s r | None \<Rightarrow> Bad_shape known)
                         else Bad_shape known)))"

text \<open>The type a result carries: every one but the two that have none.\<close>

definition result_type :: "'m parse_result \<Rightarrow> string option" where
  "result_type inbound =
     (case inbound of
        Parsed t m \<Rightarrow> Some t
      | Bad_shape t \<Rightarrow> Some t
      | Bad_payload t s r \<Rightarrow> Some t
      | _ \<Rightarrow> None)"

definition parse_ok :: "'m parse_result \<Rightarrow> bool" where
  "parse_ok inbound = (case inbound of Parsed t m \<Rightarrow> True | _ \<Rightarrow> False)"

subsection \<open>The role gate\<close>

record grants =
  g_mayBrowse :: bool
  g_mayRegisterAgent :: bool

datatype verdict = Pass | Drop | Close_for close_reason | Close_forbidden

text \<open>Whether the gate lets the frame through, for a socket that has its role.\<close>

definition gate_frame :: "grants option \<Rightarrow> socket_role \<Rightarrow> string \<Rightarrow> bool \<Rightarrow> verdict" where
  "gate_frame grants role t handshake =
     (if handshake \<and> role = Role_browser \<and> (case grants of Some g \<Rightarrow> \<not> g_mayRegisterAgent g | None \<Rightarrow> False)
      then Close_for Ws_agent_owner
      else if role = Role_browser \<and> directionOf t \<noteq> Some Dir_browser then Close_forbidden
      else if (role = Role_agent \<or> role = Role_stream) \<and> (case grants of Some g \<Rightarrow> \<not> g_mayBrowse g | None \<Rightarrow> False)
        \<and> directionOf t = Some Dir_browser then Close_for Ws_scope
      else Pass)"

definition settleRole :: "grants option \<Rightarrow> 'm parse_result \<Rightarrow> socket_role option \<Rightarrow> socket_role option \<times> verdict" where
  "settleRole grants inbound role =
     (case result_type inbound of
        None \<Rightarrow> (role, Drop)
      | Some t \<Rightarrow>
          (let handshake = t = ''agent:register'' \<or> t = ''stream:register''
           in case role of
                Some r \<Rightarrow> (role, gate_frame grants r t handshake)
              | None \<Rightarrow>
                  if handshake \<and> \<not> parse_ok inbound then (None, Drop)
                  else if handshake \<and> (case grants of Some g \<Rightarrow> \<not> g_mayRegisterAgent g | None \<Rightarrow> False)
                  then (None, Close_for Ws_agent_owner)
                  else if t = ''agent:register'' then (Some Role_agent, gate_frame grants Role_agent t handshake)
                  else if t = ''stream:register'' then (Some Role_stream, gate_frame grants Role_stream t handshake)
                  else if (case grants of Some g \<Rightarrow> \<not> g_mayBrowse g | None \<Rightarrow> False) then (None, Close_for Ws_scope)
                  else (Some Role_browser, gate_frame grants Role_browser t handshake)))"

subsection \<open>A connection\<close>

record access_token =
  t_scopes :: "string list"
  t_ownerRole :: string

record accepted =
  ac_role :: "socket_role option"
  ac_grants :: "grants option"
  ac_mayWatch :: bool

text \<open>The token is looked up only for a remote connection without a cookie.\<close>

definition handleConnection :: "bool \<Rightarrow> bool \<Rightarrow> access_token option \<Rightarrow> close_reason + accepted" where
  "handleConnection isLocal cookie presented =
     (let pat = (if \<not> isLocal \<and> \<not> cookie then presented else None);
          watch = cookie \<or> \<not> isLocal \<and> has_scope VIEW_SCOPE (map_option t_scopes pat)
      in case classifyConnection \<lparr>a_isLocal = isLocal, a_hasCookieAuth = cookie,
              a_patScopes = map_option t_scopes pat, a_patOwnerRole = map_option t_ownerRole pat\<rparr> of
           Reject why \<Rightarrow> Inl why
         | Accept_browser \<Rightarrow> Inr \<lparr>ac_role = Some Role_browser,
             ac_grants = (if has_scope AGENT_SCOPE (map_option t_scopes pat)
                          then Some \<lparr>g_mayBrowse = True, g_mayRegisterAgent = False\<rparr> else None),
             ac_mayWatch = watch\<rparr>
         | Accept_first_message browse register \<Rightarrow> Inr \<lparr>ac_role = None,
             ac_grants = Some \<lparr>g_mayBrowse = browse, g_mayRegisterAgent = register\<rparr>, ac_mayWatch = watch\<rparr>)"

subsection \<open>A text frame on a connection\<close>

fun malformed_reply :: "string \<Rightarrow> string" where
  "malformed_reply t =
     (if t = ''device:boot'' then ''device:boot-error''
      else if t = ''app:install'' then ''app:install-error''
      else if t = ''app:launch'' then ''app:launch-error''
      else if t = ''app:clear-state'' then ''app:clear-state-error''
      else if t = ''open-url'' then ''open-url:error''
      else if t = ''input:type'' then ''input:type-error''
      else if t = ''clipboard:read'' \<or> t = ''clipboard:write'' then ''clipboard:error''
      else if t = ''network:set'' then ''network:error''
      else ''input:error'')"

datatype 'm door_effect =
  Routed string 'm
| Told_malformed string string string string \<comment> \<open>type of the reply, session, request, message\<close>
| Socket_closed close_reason
| Socket_forbidden

definition refuseMalformed :: "bool \<Rightarrow> string \<Rightarrow> string \<Rightarrow> string \<Rightarrow> 'm door_effect list" where
  "refuseMalformed isOpen t s r =
     (if isOpen then [Told_malformed (malformed_reply t) s r (''malformed '' @ t @ '' payload'')] else [])"

definition door_effects :: "bool \<Rightarrow> 'm parse_result \<Rightarrow> verdict \<Rightarrow> 'm door_effect list" where
  "door_effects isOpen inbound v =
     (case v of
        Pass \<Rightarrow> (case inbound of
                   Parsed t m \<Rightarrow> [Routed t m]
                 | Bad_payload t s r \<Rightarrow> refuseMalformed isOpen t s r
                 | _ \<Rightarrow> [])
      | Drop \<Rightarrow> []
      | Close_for why \<Rightarrow> [Socket_closed why]
      | Close_forbidden \<Rightarrow> [Socket_forbidden])"

text \<open>A text frame as it arrives: whether the socket's credential was revoked before it, and whether it is open.\<close>

record 'f arrival =
  fr_revoked :: bool
  fr_open :: bool
  fr_value :: "'f raw_value"

definition on_message ::
    "(string \<Rightarrow> 'f \<Rightarrow> 'm option) \<Rightarrow> (string \<Rightarrow> 'f \<Rightarrow> (string \<times> string) option) \<Rightarrow> grants option
     \<Rightarrow> 'f arrival \<Rightarrow> socket_role option \<Rightarrow> socket_role option \<times> 'm door_effect list" where
  "on_message schema envelope grants frame role =
     (if fr_revoked frame then (role, [])
      else (let inbound = parseInbound schema envelope (fr_value frame)
            in case settleRole grants inbound role of
                 (role', v) \<Rightarrow> (role', door_effects (fr_open frame) inbound v)))"

subsection \<open>What gets through\<close>

text \<open>The names of the tables are those of one map each, and no type has two directions.\<close>

lemma directions_distinct: "distinct (map fst DIRECTIONS)"
  by code_simp

lemma directionOf_iff:
  "directionOf t = Some Dir_browser \<longleftrightarrow> t \<in> set BROWSER_INBOUND"
  "directionOf t = Some Dir_agent \<longleftrightarrow> t \<in> set AGENT_CONSUMED \<union> set AGENT_FORWARDED"
  "directionOf t = Some Dir_stream \<longleftrightarrow> t \<in> set STREAM_INBOUND"
proof -
  have "distinct (map fst (rev DIRECTIONS))"
    unfolding rev_map [symmetric] distinct_rev by (rule directions_distinct)
  from map_of_eq_Some_iff [OF this] have "directionOf t = Some d \<longleftrightarrow> (t, d) \<in> set DIRECTIONS" for d
    unfolding directionOf_def by (simp only: set_rev)
  then show "directionOf t = Some Dir_browser \<longleftrightarrow> t \<in> set BROWSER_INBOUND"
    "directionOf t = Some Dir_agent \<longleftrightarrow> t \<in> set AGENT_CONSUMED \<union> set AGENT_FORWARDED"
    "directionOf t = Some Dir_stream \<longleftrightarrow> t \<in> set STREAM_INBOUND"
    by (auto simp: DIRECTIONS_def)
qed

lemma directionOf_inbound: "directionOf t \<noteq> None \<longleftrightarrow> t \<in> set INBOUND"
proof -
  have "directionOf t \<noteq> None \<longleftrightarrow> (\<exists>d. directionOf t = Some d)" by simp
  also have "\<dots> \<longleftrightarrow> t \<in> set INBOUND"
  proof
    assume "\<exists>d. directionOf t = Some d"
    then obtain d where "directionOf t = Some d" by blast
    then show "t \<in> set INBOUND" using directionOf_iff [of t] by (cases d) (auto simp: INBOUND_def)
  qed (use directionOf_iff [of t] in \<open>auto simp: INBOUND_def\<close>)
  finally show ?thesis .
qed

lemma answerable_browser: "t \<in> set ANSWERABLE \<Longrightarrow> directionOf t = Some Dir_browser"
  unfolding directionOf_iff by (auto simp: ANSWERABLE_def BROWSER_INBOUND_def)

lemma parseInbound_type: "result_type (parseInbound schema envelope v) = Some t \<Longrightarrow> t \<in> set INBOUND"
  by (auto simp: parseInbound_def result_type_def split: raw_value.splits option.splits if_splits)

lemma handshake_directions [simp]: "directionOf ''agent:register'' = Some Dir_agent" "directionOf ''stream:register'' = Some Dir_stream"
  by code_simp+

text \<open>What a socket's role and grants may be together.\<close>

definition door_ok :: "grants option \<Rightarrow> socket_role option \<Rightarrow> bool" where
  "door_ok grants role \<longleftrightarrow> (case grants of
     None \<Rightarrow> role = Some Role_browser
   | Some g \<Rightarrow> (role = Some Role_agent \<or> role = Some Role_stream \<longrightarrow> g_mayRegisterAgent g) \<and> (role = Some Role_browser \<longrightarrow> g_mayBrowse g))"

lemma settle_role_fixed: "fst (settleRole grants inbound (Some r)) = Some r"
  by (auto simp: settleRole_def Let_def split: option.split)

lemma settle_ok: "door_ok grants role \<Longrightarrow> door_ok grants (fst (settleRole grants inbound role))"
  by (auto simp: settleRole_def door_ok_def Let_def split: option.splits if_splits)

text \<open>A message passes only when the credentials allow its direction.\<close>

lemma gate_passes:
  assumes "gate_frame grants r t h = Pass" and "door_ok grants (Some r)"
  shows "(directionOf t = Some Dir_browser \<longrightarrow> (case grants of Some g \<Rightarrow> g_mayBrowse g | None \<Rightarrow> True))
    \<and> (directionOf t \<noteq> Some Dir_browser \<longrightarrow> (\<exists>g. grants = Some g \<and> g_mayRegisterAgent g) \<and> r \<noteq> Role_browser)"
  using assms by (cases r; cases grants) (auto simp: gate_frame_def door_ok_def split: if_splits)

lemma settle_passes:
  assumes "door_ok grants role" and "settleRole grants inbound role = (role', Pass)"
  obtains t r where "result_type inbound = Some t" "role' = Some r" "\<exists>h. gate_frame grants r t h = Pass" "door_ok grants (Some r)"
proof -
  have "door_ok grants role'" using settle_ok [OF assms(1), of inbound] assms(2) by simp
  moreover obtain t where "result_type inbound = Some t" using assms(2) by (cases "result_type inbound") (auto simp: settleRole_def)
  moreover from this assms(2) obtain r where "role' = Some r" "\<exists>h. gate_frame grants r t h = Pass"
    unfolding settleRole_def Let_def by (auto simp del: gate_frame_def split: option.splits if_split_asm)
  ultimately show ?thesis using that by blast
qed

lemma connection_grants:
  assumes "handleConnection isLocal cookie presented = Inr c"
  shows "door_ok (ac_grants c) (ac_role c)" and "ac_role c = Some Role_browser \<or> ac_role c = None"
    and "(case ac_grants c of Some g \<Rightarrow> g_mayBrowse g | None \<Rightarrow> True)
      \<Longrightarrow> isLocal \<or> cookie \<or> has_scope VIEW_SCOPE (map_option t_scopes presented)"
    and "ac_grants c = Some g \<Longrightarrow> g_mayRegisterAgent g \<Longrightarrow>
      \<not> cookie \<and> (isLocal \<or> has_scope AGENT_SCOPE (map_option t_scopes presented) \<and> map_option t_ownerRole presented = Some ADMIN_ROLE)"
    and "ac_mayWatch c \<Longrightarrow> cookie \<or> \<not> isLocal \<and> has_scope VIEW_SCOPE (map_option t_scopes presented)"
  using assms
  by (auto simp: handleConnection_def classifyConnection_def door_ok_def has_scope_def Let_def
      split: connection_decision.splits if_splits option.splits)

lemma message_role: "fst (on_message schema envelope grants frame (Some r)) = Some r"
  using settle_role_fixed by (auto simp: on_message_def Let_def split_beta)

lemma run_role: "fst (run (on_message schema envelope grants) frames (Some r)) = Some r"
  by (induction frames) (simp_all add: message_role)

text \<open>A role other than a browser's comes from a handshake that parsed.\<close>

definition introduced :: "(string \<Rightarrow> 'f \<Rightarrow> 'm option) \<Rightarrow> (string \<Rightarrow> 'f \<Rightarrow> (string \<times> string) option) \<Rightarrow> 'f arrival list \<Rightarrow> bool" where
  "introduced schema envelope frames \<longleftrightarrow> (\<exists>frame \<in> set frames. \<exists>m.
     parseInbound schema envelope (fr_value frame) = Parsed ''agent:register'' m
     \<or> parseInbound schema envelope (fr_value frame) = Parsed ''stream:register'' m)"

lemma settle_introduces:
  assumes "fst (settleRole grants inbound None) = Some r" and "r \<noteq> Role_browser"
  shows "\<exists>m. inbound = Parsed ''agent:register'' m \<or> inbound = Parsed ''stream:register'' m"
  using assms
  by (cases inbound) (auto simp: settleRole_def result_type_def parse_ok_def Let_def simp del: list.inject split: if_splits)

lemma run_introduces:
  "fst (run (on_message schema envelope grants) frames None) = Some r \<Longrightarrow> r \<noteq> Role_browser
     \<Longrightarrow> introduced schema envelope frames"
proof (induction frames)
  case (Cons frame frames)
  let ?first = "fst (on_message schema envelope grants frame None)"
  show ?case
  proof (cases ?first)
    case None
    with Cons show ?thesis by (auto simp: introduced_def)
  next
    case (Some r')
    with Cons.prems(1) have r: "r' = r" by (simp add: run_role)
    from Some have "fst (settleRole grants (parseInbound schema envelope (fr_value frame)) None) = Some r'"
      by (auto simp: on_message_def Let_def split_beta split: if_splits)
    from settle_introduces [OF this] Cons.prems(2) r show ?thesis by (auto simp: introduced_def)
  qed
qed simp

lemma message_ok: "door_ok grants role \<Longrightarrow> door_ok grants (fst (on_message schema envelope grants frame role))"
  using settle_ok by (auto simp: on_message_def Let_def split_beta)

lemma message_routes:
  assumes "door_ok grants role" and "Routed t m \<in> set (snd (on_message schema envelope grants frame role))"
  obtains r h where "fst (on_message schema envelope grants frame role) = Some r" "t \<in> set INBOUND"
    "gate_frame grants r t h = Pass" "door_ok grants (Some r)"
proof -
  let ?inbound = "parseInbound schema envelope (fr_value frame)"
  obtain role' v where S: "settleRole grants ?inbound role = (role', v)" by force
  from assms(2) S have out: "\<not> fr_revoked frame" "Routed t m \<in> set (door_effects (fr_open frame) ?inbound v)"
    by (auto simp: on_message_def Let_def split: if_splits)
  then have "v = Pass" "?inbound = Parsed t m"
    by (auto simp: door_effects_def refuseMalformed_def split: verdict.splits parse_result.splits if_splits)
  moreover from this have "t \<in> set INBOUND" using parseInbound_type [of schema envelope "fr_value frame" t] by (simp add: result_type_def)
  moreover obtain t' r where "result_type ?inbound = Some t'" "role' = Some r" "\<exists>h. gate_frame grants r t' h = Pass" "door_ok grants (Some r)"
    using settle_passes [OF assms(1)] S \<open>v = Pass\<close> by blast
  ultimately show ?thesis
    using that [of r] S out(1) by (auto simp: on_message_def Let_def result_type_def)
qed

lemma run_routes:
  assumes "door_ok grants role" and "Routed t m \<in> set (snd (run (on_message schema envelope grants) frames role))"
  obtains r h where "fst (run (on_message schema envelope grants) frames role) = Some r" "t \<in> set INBOUND"
    "gate_frame grants r t h = Pass" "door_ok grants (Some r)"
  using assms
proof (induction frames arbitrary: role thesis)
  case (Cons frame frames)
  let ?role = "fst (on_message schema envelope grants frame role)"
  from Cons.prems(3) consider "Routed t m \<in> set (snd (on_message schema envelope grants frame role))"
    | "Routed t m \<in> set (snd (run (on_message schema envelope grants) frames ?role))" by auto
  then show ?case
  proof cases
    case 1
    obtain r h where "?role = Some r" "t \<in> set INBOUND" "gate_frame grants r t h = Pass" "door_ok grants (Some r)"
      by (rule message_routes [OF Cons.prems(2) 1])
    with Cons.prems(1) [of r h] show ?thesis by (simp add: run_role)
  next
    case 2
    show ?thesis using Cons.IH [OF _ message_ok [OF Cons.prems(2)] 2] Cons.prems(1) by simp blast
  qed
qed simp

text \<open>
  C8. Over every sequence of frames on a connection, what is routed is what its credentials allow. A client's
  message passes only on the relay's host, with a sign-in, or with a token that has \<open>view\<close>; an agent's or a
  stream's only with no sign-in, on the relay's host or with an \<open>agent\<close> token of an Admin, and then only once a
  handshake has parsed on that very socket, and never on one that has acted as a browser. Whatever the
  schemas accept, no other type is routed; and watching takes a sign-in or \<open>view\<close>.
\<close>
theorem door_lets_through_what_credentials_allow:
  assumes "handleConnection isLocal cookie presented = Inr c"
    and "Routed t m \<in> set (snd (run (on_message schema envelope (ac_grants c)) frames (ac_role c)))"
  shows "t \<in> set INBOUND
    \<and> (directionOf t = Some Dir_browser \<longrightarrow> isLocal \<or> cookie \<or> has_scope VIEW_SCOPE (map_option t_scopes presented))
    \<and> (directionOf t \<noteq> Some Dir_browser \<longrightarrow> \<not> cookie
        \<and> (isLocal \<or> has_scope AGENT_SCOPE (map_option t_scopes presented) \<and> map_option t_ownerRole presented = Some ADMIN_ROLE)
        \<and> introduced schema envelope frames
        \<and> fst (run (on_message schema envelope (ac_grants c)) frames (ac_role c)) \<noteq> Some Role_browser)
    \<and> (ac_mayWatch c \<longrightarrow> cookie \<or> \<not> isLocal \<and> has_scope VIEW_SCOPE (map_option t_scopes presented))"
proof -
  note conn = connection_grants [OF assms(1)]
  obtain r h where r: "fst (run (on_message schema envelope (ac_grants c)) frames (ac_role c)) = Some r" "t \<in> set INBOUND"
    "gate_frame (ac_grants c) r t h = Pass" "door_ok (ac_grants c) (Some r)" by (rule run_routes [OF conn(1) assms(2)])
  note gate = gate_passes [OF r(3,4)]
  have "introduced schema envelope frames" if "r \<noteq> Role_browser"
    using conn(2) r(1) run_introduces that by (auto simp: run_role)
  then show ?thesis using r(1,2) gate conn(3,5) conn(4) by auto
qed

definition demo_arrival :: "string \<Rightarrow> nat \<Rightarrow> nat arrival" where
  "demo_arrival t n = \<lparr>fr_revoked = False, fr_open = True, fr_value = Frame (Some t) n\<rparr>"

theorem door_lets_through_what_credentials_allow_witness:
  "has_scope AGENT_SCOPE (Some [''agent'']) \<and>
   snd (run (on_message (\<lambda>t n. Some n) (\<lambda>t n. None) (Some \<lparr>g_mayBrowse = False, g_mayRegisterAgent = True\<rparr>))
      [demo_arrival ''agent:register'' 1, demo_arrival ''device:booting'' 2, demo_arrival ''input:key'' 3] None)
    = [Routed ''agent:register'' (1 :: nat), Routed ''device:booting'' 2, Socket_closed Ws_scope]"
proof
  let ?frames = "[demo_arrival ''agent:register'' 1, demo_arrival ''device:booting'' 2, demo_arrival ''input:key'' 3]"
  have conn: "handleConnection False False (Some \<lparr>t_scopes = [''agent''], t_ownerRole = ''Admin''\<rparr>)
      = Inr \<lparr>ac_role = None, ac_grants = Some \<lparr>g_mayBrowse = False, g_mayRegisterAgent = True\<rparr>, ac_mayWatch = False\<rparr>"
    by code_simp
  show out: "snd (run (on_message (\<lambda>t n. Some n) (\<lambda>t n. None) (Some \<lparr>g_mayBrowse = False, g_mayRegisterAgent = True\<rparr>)) ?frames None)
      = [Routed ''agent:register'' (1 :: nat), Routed ''device:booting'' 2, Socket_closed Ws_scope]"
    by code_simp
  have "directionOf ''device:booting'' \<noteq> Some Dir_browser" by code_simp
  moreover have "Routed ''device:booting'' 2 \<in> set (snd (run (on_message (\<lambda>t n. Some n) (\<lambda>t n. None) (ac_grants
      \<lparr>ac_role = None, ac_grants = Some \<lparr>g_mayBrowse = False, g_mayRegisterAgent = True\<rparr>, ac_mayWatch = False\<rparr>)) ?frames
      (ac_role \<lparr>ac_role = None, ac_grants = Some \<lparr>g_mayBrowse = False, g_mayRegisterAgent = True\<rparr>, ac_mayWatch = False\<rparr>)))"
    unfolding accepted.simps out by simp
  ultimately show "has_scope AGENT_SCOPE (Some [''agent''])"
    using door_lets_through_what_credentials_allow [OF conn] by (force simp del: run.simps)
qed

end
