(* ===== verification/Spec2Isabelle.thy ===== *)
theory Spec2Isabelle
  imports Panel_State Channel_Gestures Boot_Gate_Props Capacity Lease Session_Props Rate_Limit Client_Address Connection_Auth Relay_Lib Frames Sps_Props
    Flow_Props Device_List Admission_Retry Launch_Props Run_Reset Junit Relay_Claims Relay_Room Relay_Holder Door
begin

text \<open>
  Tapflow lets a team drive simulators, emulators and phones that run on other people's Macs. An agent on each
  Mac registers its devices with the relay; a dashboard, an MCP server or a flow runner asks the relay for a
  device, boots it, sends it input and watches its screen. The relay decides who holds a session, which
  boot a Mac carries out next and who may see what. This library models those decisions, the protocol
  pieces they rest on, and the flow runner that plays a test against a device.

  \<^bold>\<open>How it is modelled.\<close> A JavaScript object is a record, a union a datatype, a \<open>Map\<close> an association list in
  insertion order (\<open>Prelude\<close>), a string a list of characters of at most eight bits (\<open>Js_String\<close>). A method is a
  function from the state to the state it leaves and the messages or effects it sends, in order; the clock, a
  random number, what a socket answers and what a database says are arguments. An error the code throws is a
  value. A coordinate, a percentage or a load is a rational number, so the rounding of doubles is not modelled.
  A message the relay passes on unread is a number standing for it.

  \<^bold>\<open>The boot gate\<close> (\<open>packages/relay/src/admission\<close>). \<open>Boot_Gate\<close> is \<open>HostBootGate\<close>: one cold boot at a time
  per Mac, people before automation; \<open>Settle\<close>, \<open>Capacity\<close> and \<open>Lease\<close> are the rule that a boot has settled, the
  automation cap and the choice of a lease. \<open>Boot_Gate_Lift\<close> takes facts of one Mac to the whole gate,
  \<open>Boot_Gate_Inv\<close> proves that no boot is lost or answered twice, \<open>Boot_Gate_Timer\<close> that its one timer is exact,
  and \<open>Boot_Gate_Props\<close> states what follows.

  \<^bold>\<open>Sessions\<close> (\<open>packages/relay/src/SessionManager.ts\<close>). \<open>Session_Model\<close> and \<open>Session_Ops\<close> hold its data and
  operations, \<open>Socket_Index\<close> the reverse index it has three of; \<open>Session_Inv\<close> and \<open>Session_Props\<close> prove that the
  indexes agree with the sessions and what holding and watching a session mean, over every run.

  \<^bold>\<open>The relay\<close> (\<open>packages/relay/src/RelayServer.ts\<close>). \<open>Relay_State\<close> is the state its handlers share, made of
  the session manager, the boot gate and the maps of boots in flight and shutdowns asked for; \<open>Relay_Boot\<close>
  carries out the gate's effects, \<open>Relay_Admit\<close> is \<open>handleBoot\<close> and the cap, \<open>Relay_Join\<close> joins, leaves, leases
  and watching, \<open>Relay_Agent\<close> the agent's side and the loss of its socket, \<open>Relay_Route\<close> the commands and
  inputs, \<open>Watch_Actions\<close> what watchers are told, and \<open>Door\<close> the role gate in front of all of them.
  \<open>Relay_Inv\<close>, \<open>Relay_Steps\<close>, \<open>Relay_Good\<close> and \<open>Relay_Run\<close> prove of every handler that it keeps the
  invariant and accounts for every boot; \<open>Relay_System\<close> puts the handlers and timers together as events and
  states the runs. \<open>Relay_Claims\<close>, \<open>Relay_Room\<close> and \<open>Relay_Holder\<close> state what holds over them.

  \<^bold>\<open>The relay's library.\<close> \<open>Rate_Limit\<close> (the login limiter), \<open>Client_Address\<close> (whose connection this is),
  \<open>Connection_Auth\<close> (what it may become), \<open>Relay_Lib\<close> (download tickets and the trailing requester).

  \<^bold>\<open>Frames.\<close> \<open>Envelope\<close> is the header an agent writes and a viewer reads, \<open>Frames\<close> the senders that drop frames
  when a socket is full and the relay's fan-out, \<open>Sps\<close> the rewriting of an H.264 parameter set.

  \<^bold>\<open>Flows\<close> (\<open>packages/flow-runner/src\<close>). \<open>Flow_Types\<close>, \<open>Flow_Describe\<close>, \<open>Flow_Poll\<close>, \<open>Flow_Engine\<close> and
  \<open>Flow_Run\<close> are the steps, their names, the waiting for a screen and the run of a flow over any driver;
  \<open>Flow_Props\<close> proves what a passed step means, whom a failed one blames, and that every run ends.
  \<open>Admission_Retry\<close>, \<open>Run_Reset\<close> and \<open>Junit\<close> are the retry of a refused runner, the reset before a run and the
  report after it. \<open>Device_List\<close> and \<open>Launch_Options\<close> are shared with the agents: noticing devices, and what an
  app is launched with.

  \<^bold>\<open>A client's sessions\<close> (\<open>sessionChannel.ts\<close>, \<open>RelayClient.ts\<close>, \<open>SocketFlowDriver.ts\<close> of the flow runner).
  \<open>Channel_State\<close> is what the client keeps of its sessions, the messages both ways and the failures;
  \<open>Session_Channel\<close> what a message, a deadline, a lost socket and a leave do to it; \<open>Channel_Calls\<close> the requests, each an
  asynchronous function cut at the places where it waits, and the client as a system of events in any order;
  \<open>Flow_Driver\<close> the driver the engine plays a flow through. \<open>Channel_Inv\<close> proves that a promise in use is waited for or
  settled, \<open>Channel_Props\<close> that every request ends, \<open>Channel_Answers\<close> what a success and a failure rest on, and
  \<open>Channel_Gestures\<close> that no finger is left down.

  \<^bold>\<open>Screens.\<close> \<open>Screen_Geometry\<close> is the way of a point between the dashboard's picture, the turned app and the
  device (\<open>packages/dashboard/lib/coordinate-transform.ts\<close>, \<open>packages/protocol/src/screen\<close>). \<open>Device_Reads\<close> is the
  sharing of a read of a device between those who ask for it, and \<open>Panel_State\<close> which panel of a folding iPhone is lit
  and how it is held (\<open>PanelState.ts\<close>, \<open>PhysicalOrientation.ts\<close> of \<open>packages/ios-agent/src\<close>).

  \<^bold>\<open>Interfaces.\<close> The locales of \<open>Prelude\<close> state what the parts rely on: a map that keeps insertion order, a
  system whose steps keep an invariant, one that also conserves what it is given, one that refines an abstract
  system, and a step relation; \<open>Socket_Index\<close> adds the reverse index. They are interpreted on the code's own
  definitions where those are declared, and the properties over runs rest on the interpretations.

  \<^bold>\<open>Fuel.\<close> \<open>FLOW_FUEL\<close> is one more than the longest timer of the flow runner in milliseconds, one unit for each
  read of the screen; \<open>every_run_ends_and_accounts\<close> proves it enough. The retry's fuel is one more than its time
  limit in milliseconds. \<open>applyGate\<close> nests at most one delivery per Mac, so its fuel is one more than the
  number of Macs the gate knows (\<open>gate_effects_are_carried_out\<close>). A request of a client ends within ten turns of its own
  timers and continuations (\<open>own_turns\<close>): a gesture has eight steps, a lease three waits.

  \<^bold>\<open>Not modelled.\<close> Of the relay: its log and captures, the HTTP routes and the database, the screenshots and UI
  trees a route waits for, \<open>app:launch\<close>, and what a schema accepts, which a third-party library decides (an
  argument of \<open>Door\<close>). The agents, which drive \<open>simctl\<close>, \<open>adb\<close> and helper processes, the MCP server, the command
  line and the dashboard are left out but for the parts named above: they are processes, sockets and
  rendering around what is modelled here.
  The relay's client leaves out the socket and its heartbeat, HTTP and what a recording reads of the stream. Parts
  with logic of their own that are not here: the Android UI tree and its configuration files, the labels of a lean
  simulator, the suggestions of the flow runner, and \<open>app:launch\<close> with its defaults.
\<close>

end
